(* ===== verification/Prelude.thy ===== *)
theory Prelude
  imports Main "HOL-Library.Word"
begin

unbundle bit_operations_syntax

text \<open>
  Shared vocabulary of the development: bytes and big-endian integers, saturating
  arithmetic at the width of the Rust types, the fact collections the component
  theories feed, and the generic list lemmas they share.

  Unsigned Rust integers that only count or index (\<open>u32\<close> piece indices, \<open>u64\<close> byte
  offsets, \<open>usize\<close> lengths) are natural numbers, with every saturating, clamping or
  truncating operation of the source written out. Integers that are serialised, masked
  or combined bitwise are words of their width.
\<close>

section \<open>Types and widths\<close>

type_synonym byte = "8 word"
type_synonym bytes = "8 word list"

abbreviation u32_max :: nat where "u32_max \<equiv> 2 ^ 32 - 1"
abbreviation u64_max :: nat where "u64_max \<equiv> 2 ^ 64 - 1"

text \<open>The fact collections: wire codecs, bit sets, invariants, loop unfoldings.\<close>

named_theorems codec_simps
named_theorems bit_facts
named_theorems inv_intros

definition sat_add64 :: "nat \<Rightarrow> nat \<Rightarrow> nat" where
  "sat_add64 a b = min (a + b) u64_max"

lemma sat_add64_exact [simp]: "a + b \<le> u64_max \<Longrightarrow> sat_add64 a b = a + b"
  by (simp add: sat_add64_def)

lemma sat_add64_le: "sat_add64 a b \<le> a + b"
  by (simp add: sat_add64_def)

definition div_ceil :: "nat \<Rightarrow> nat \<Rightarrow> nat" where
  "div_ceil a b = a div b + (if a mod b = 0 then 0 else 1)"

lemma div_ceil_mult_ge:
  assumes "0 < b"
  shows "a \<le> div_ceil a b * b"
proof -
  note div_mult_mod_eq [of a b]
  moreover have "a mod b < b" using assms by simp
  moreover have "div_ceil a b * b = a div b * b + (if a mod b = 0 then 0 else b)"
    by (simp add: div_ceil_def)
  ultimately show ?thesis by (metis add.commute add_le_cancel_left le_refl less_or_eq_imp_le)
qed

lemma div_ceil_less:
  assumes "0 < b" "i < div_ceil a b"
  shows "i * b < a"
proof -
  note a = div_mult_mod_eq [of a b, symmetric]
  show ?thesis
  proof (cases "i < a div b")
    case True
    then have "Suc i * b \<le> a div b * b" by (intro mult_le_mono1) simp
    then have "i * b + b \<le> a div b * b" by simp
    with a assms(1) show ?thesis by linarith
  next
    case False
    with assms(2) have "i = a div b" "a mod b \<noteq> 0"
      by (auto simp: div_ceil_def split: if_splits)
    then have "i * b = a div b * b" "0 < a mod b" by simp_all
    with a show ?thesis by linarith
  qed
qed

lemma div_ceil_le_iff:
  assumes "0 < b"
  shows "div_ceil a b \<le> i \<longleftrightarrow> a \<le> i * b"
proof
  assume "div_ceil a b \<le> i"
  then have "div_ceil a b * b \<le> i * b" by simp
  with div_ceil_mult_ge [OF assms, of a] show "a \<le> i * b" by linarith
next
  assume "a \<le> i * b"
  then have "\<not> i < div_ceil a b" using div_ceil_less [OF assms, of i a] by linarith
  then show "div_ceil a b \<le> i" by simp
qed

lemma div_ceil_0 [simp]: "div_ceil 0 b = 0"
  by (simp add: div_ceil_def)

section \<open>Big-endian integers\<close>

definition be32 :: "32 word \<Rightarrow> bytes" where
  "be32 w = [ucast (drop_bit 24 w), ucast (drop_bit 16 w), ucast (drop_bit 8 w), ucast w]"

definition of_be32 :: "bytes \<Rightarrow> 32 word" where
  "of_be32 bs = (push_bit 24 (ucast (bs ! 0)) OR push_bit 16 (ucast (bs ! 1))
                 OR push_bit 8 (ucast (bs ! 2)) OR ucast (bs ! 3))"

definition be16 :: "16 word \<Rightarrow> bytes" where
  "be16 w = [ucast (drop_bit 8 w), ucast w]"

definition of_be16 :: "bytes \<Rightarrow> 16 word" where
  "of_be16 bs = (push_bit 8 (ucast (bs ! 0)) OR ucast (bs ! 1))"

lemma length_be32 [simp]: "length (be32 w) = 4"
  by (simp add: be32_def)

lemma length_be16 [simp]: "length (be16 w) = 2"
  by (simp add: be16_def)

lemma be32_neq_Nil [simp]: "be32 w \<noteq> []"
  by (simp add: be32_def)

lemma of_be32_be32 [simp]: "of_be32 (be32 w) = w"
proof (rule bit_word_eqI)
  fix n :: nat
  assume n: "n < LENGTH(32)"
  then consider "n < 8" | "8 \<le> n" "n < 16" | "16 \<le> n" "n < 24" | "24 \<le> n" "n < 32"
    by fastforce
  then show "bit (of_be32 (be32 w)) n = bit w n"
    by cases (auto simp: of_be32_def be32_def bit_simps)
qed

lemma of_be16_be16 [simp]: "of_be16 (be16 w) = w"
proof (rule bit_word_eqI)
  fix n :: nat
  assume n: "n < LENGTH(16)"
  then consider "n < 8" | "8 \<le> n" "n < 16" by fastforce
  then show "bit (of_be16 (be16 w)) n = bit w n"
    by cases (auto simp: of_be16_def be16_def bit_simps)
qed

lemma bit_byte_ge [simp]: "8 \<le> n \<Longrightarrow> \<not> bit (b :: byte) n"
  using bit_imp_le_length [of b n] by auto

lemma be32_of_be32:
  assumes "length bs = 4"
  shows "be32 (of_be32 bs) = bs"
proof -
  obtain a b c d where bs: "bs = [a, b, c, d]"
    using assms by (auto simp: length_Suc_conv numeral_eq_Suc)
  show ?thesis unfolding bs of_be32_def be32_def
    by (auto simp: bit_simps intro!: bit_word_eqI)
qed

lemma be32_inject [simp]: "be32 a = be32 b \<longleftrightarrow> a = b"
  by (metis of_be32_be32)

lemma of_be32_take4 [simp]: "of_be32 (be32 w @ xs) = w"
  using of_be32_be32 [of w] by (simp add: of_be32_def be32_def)

section \<open>Slices and lists\<close>

definition slice :: "nat \<Rightarrow> nat \<Rightarrow> 'a list \<Rightarrow> 'a list" where
  "slice a b xs = take (b - a) (drop a xs)"

lemma length_slice [simp]: "length (slice a b xs) = min (length xs - a) (b - a)"
  by (simp add: slice_def min_def)

lemma slice_append_left: "a + n = length xs \<Longrightarrow> slice (length xs) b (xs @ ys) = take (b - length xs) ys"
  by (simp add: slice_def)

lemma take_drop_join: "take a (drop i xs) @ take b (drop (i + a) xs) = take (a + b) (drop i xs)"
  by (simp add: take_add add.commute)

lemma foldl_count_card:
  "foldl (\<lambda>n i. if P i then n + 1 else n) c [0..<m] = c + card {i. i < m \<and> P i}"
proof (induction m)
  case (Suc m)
  have "{i. i < Suc m \<and> P i} = (if P m then insert m {i. i < m \<and> P i} else {i. i < m \<and> P i})"
    by (auto simp: less_Suc_eq)
  with Suc show ?case by auto
qed simp

lemma find_Some_iff_first:
  "find P xs = Some x \<Longrightarrow> P x \<and> x \<in> set xs"
  by (auto simp: find_Some_iff)

lemma distinct_remove1_notin: "distinct xs \<Longrightarrow> x \<notin> set (remove1 x xs)"
  by simp

end
