(* ===== verification/Rust_Std.thy ===== *)
theory Rust_Std
  imports Prelude "HOL-Library.List_Lexorder"
begin

text \<open>
  What the program uses of the Rust standard library, as functions on bytes:
  \<open>str::from_utf8\<close> (well-formed UTF-8, decoded to code points), \<open>parse::<i64>\<close> and
  \<open>parse::<usize>\<close>, \<open>to_string\<close> of integers, and \<open>BTreeMap\<close> with byte-string keys as a
  list sorted by key.
\<close>

section \<open>UTF-8\<close>

definition cont_byte :: "byte \<Rightarrow> bool" where
  "cont_byte b \<longleftrightarrow> 0x80 \<le> unat b \<and> unat b \<le> 0xBF"

fun utf8_decode :: "bytes \<Rightarrow> nat list option" where
  "utf8_decode [] = Some []"
| "utf8_decode (b # bs) =
    (let n = unat b in
     if n < 0x80 then map_option ((#) n) (utf8_decode bs)
     else if 0xC2 \<le> n \<and> n \<le> 0xDF then
       (case bs of c # r \<Rightarrow>
          if cont_byte c
          then map_option ((#) ((n - 0xC0) * 64 + (unat c - 0x80))) (utf8_decode r) else None
        | _ \<Rightarrow> None)
     else if 0xE0 \<le> n \<and> n \<le> 0xEF then
       (case bs of c # d # r \<Rightarrow>
          if cont_byte c \<and> cont_byte d \<and> (n = 0xE0 \<longrightarrow> 0xA0 \<le> unat c) \<and> (n = 0xED \<longrightarrow> unat c \<le> 0x9F)
          then map_option ((#) ((n - 0xE0) * 4096 + (unat c - 0x80) * 64 + (unat d - 0x80)))
                 (utf8_decode r) else None
        | _ \<Rightarrow> None)
     else if 0xF0 \<le> n \<and> n \<le> 0xF4 then
       (case bs of c # d # e # r \<Rightarrow>
          if cont_byte c \<and> cont_byte d \<and> cont_byte e \<and> (n = 0xF0 \<longrightarrow> 0x90 \<le> unat c) \<and>
             (n = 0xF4 \<longrightarrow> unat c \<le> 0x8F)
          then map_option ((#) ((n - 0xF0) * 262144 + (unat c - 0x80) * 4096
                                 + (unat d - 0x80) * 64 + (unat e - 0x80)))
                 (utf8_decode r) else None
        | _ \<Rightarrow> None)
     else None)"

definition utf8_ok :: "bytes \<Rightarrow> bool" where
  "utf8_ok bs \<longleftrightarrow> utf8_decode bs \<noteq> None"

definition utf8_len :: "nat \<Rightarrow> nat" where
  "utf8_len cp = (if cp < 0x80 then 1 else if cp < 0x800 then 2 else if cp < 0x10000 then 3 else 4)"

text \<open>Bytes of an ASCII literal.\<close>

definition ascii :: "string \<Rightarrow> bytes" where
  "ascii s = map (\<lambda>c. of_nat (of_char c)) s"

definition ascii_cps :: "string \<Rightarrow> nat list" where
  "ascii_cps s = map of_char s"

lemma utf8_ok_ascii: "\<forall>b \<in> set bs. unat b < 0x80 \<Longrightarrow> utf8_ok bs"
  by (induction bs) (auto simp: utf8_ok_def Let_def)

section \<open>Decimal integers\<close>

definition is_digit :: "byte \<Rightarrow> bool" where
  "is_digit b \<longleftrightarrow> 48 \<le> unat b \<and> unat b \<le> 57"

fun dec :: "nat \<Rightarrow> bytes" where
  "dec n = (if n < 10 then [of_nat (48 + n)] else dec (n div 10) @ [of_nat (48 + n mod 10)])"

declare dec.simps [simp del]

definition dec_int :: "int \<Rightarrow> bytes" where
  "dec_int k = (if k < 0 then 45 # dec (nat (- k)) else dec (nat k))"

fun parse_digits :: "nat \<Rightarrow> bytes \<Rightarrow> nat option" where
  "parse_digits acc [] = Some acc"
| "parse_digits acc (b # bs) =
     (if is_digit b then parse_digits (acc * 10 + (unat b - 48)) bs else None)"

definition parse_usize :: "bytes \<Rightarrow> nat option" where
  "parse_usize s =
     (let ds = (case s of b # r \<Rightarrow> if b = 43 then r else s | [] \<Rightarrow> [])
      in if ds = [] then None
         else case parse_digits 0 ds of
                None \<Rightarrow> None
              | Some n \<Rightarrow> if n \<le> u64_max then Some n else None)"

definition parse_i64 :: "bytes \<Rightarrow> int option" where
  "parse_i64 s =
     (let (neg, ds) = (case s of b # r \<Rightarrow> if b = 45 then (True, r) else if b = 43 then (False, r)
                                          else (False, s)
                       | [] \<Rightarrow> (False, []))
      in if ds = [] then None
         else case parse_digits 0 ds of
                None \<Rightarrow> None
              | Some n \<Rightarrow>
                  if neg then (if n \<le> 2 ^ 63 then Some (- int n) else None)
                  else (if n < 2 ^ 63 then Some (int n) else None))"

lemma parse_digits_append:
  "parse_digits acc (xs @ ys) =
     (case parse_digits acc xs of None \<Rightarrow> None | Some a \<Rightarrow> parse_digits a ys)"
  by (induction acc xs rule: parse_digits.induct) auto

lemma unat_digit: "d < 10 \<Longrightarrow> unat (of_nat (48 + d) :: byte) = 48 + d"
  by (simp only: unat_of_nat) simp

lemma is_digit_of_nat: "d < 10 \<Longrightarrow> is_digit (of_nat (48 + d))"
  by (simp only: is_digit_def unat_digit) simp

lemma dec_digits: "b \<in> set (dec n) \<Longrightarrow> is_digit b"
proof (induction n rule: dec.induct)
  case (1 n)
  then show ?case
    by (subst (asm) (2) dec.simps)
      (auto split: if_splits simp: is_digit_of_nat simp del: of_nat_add)
qed

lemma dec_neq_Nil [simp]: "dec n \<noteq> []"
  by (subst dec.simps) simp

lemma parse_digits_dec: "parse_digits 0 (dec n) = Some n"
proof (induction n rule: dec.induct)
  case (1 n)
  show ?case
  proof (cases "n < 10")
    case True
    then show ?thesis
      by (subst dec.simps) (simp add: is_digit_of_nat unat_digit del: of_nat_add)
  next
    case False
    with 1 have "parse_digits 0 (dec (n div 10)) = Some (n div 10)" by simp
    moreover have "n mod 10 < 10" by simp
    ultimately show ?thesis using False
      by (subst dec.simps)
        (simp add: parse_digits_append is_digit_of_nat unat_digit del: of_nat_add)
  qed
qed

lemma hd_dec_digit: "is_digit (hd (dec n))"
  by (rule dec_digits [of _ n]) simp

lemma not_digit_sign [simp]: "\<not> is_digit 43" "\<not> is_digit 45" "\<not> is_digit 58" "\<not> is_digit 101"
  "\<not> is_digit 105" "\<not> is_digit 108" "\<not> is_digit 100"
  by (simp_all add: is_digit_def)

lemma dec_Cons:
  obtains b r where "dec n = b # r" "is_digit b" "parse_digits 0 (b # r) = Some n"
proof -
  obtain b r where br: "dec n = b # r" by (cases "dec n") auto
  with hd_dec_digit [of n] parse_digits_dec [of n] that show thesis by simp
qed

lemma parse_usize_dec: "n \<le> u64_max \<Longrightarrow> parse_usize (dec n) = Some n"
proof -
  assume n: "n \<le> u64_max"
  obtain b r where br: "dec n = b # r" "is_digit b" "parse_digits 0 (b # r) = Some n"
    by (rule dec_Cons)
  then have "b \<noteq> 43" by auto
  with br n show ?thesis by (simp add: parse_usize_def del: parse_digits.simps)
qed

lemma parse_i64_dec_int:
  assumes "- (2 ^ 63) \<le> k" "k < 2 ^ 63"
  shows "parse_i64 (dec_int k) = Some k"
proof (cases "k < 0")
  case True
  then have "nat (- k) \<le> 2 ^ 63" using assms by (simp add: nat_le_iff)
  with True show ?thesis by (simp add: parse_i64_def dec_int_def parse_digits_dec)
next
  case False
  then have lt: "nat k < 2 ^ 63" using assms by (simp add: nat_less_iff)
  obtain b r where br: "dec (nat k) = b # r" by (cases "dec (nat k)") auto
  with hd_dec_digit [of "nat k"] have "b \<noteq> 45" "b \<noteq> 43" by auto
  moreover have "parse_digits 0 (b # r) = Some (nat k)" using parse_digits_dec br by metis
  ultimately show ?thesis using False lt br
    by (simp add: parse_i64_def dec_int_def del: parse_digits.simps)
qed

lemma parse_usize_le: "parse_usize s = Some n \<Longrightarrow> n \<le> u64_max"
  by (auto simp: parse_usize_def Let_def split: option.splits if_splits)

lemma parse_i64_range: "parse_i64 s = Some k \<Longrightarrow> - (2 ^ 63) \<le> k \<and> k < 2 ^ 63"
  by (auto simp: parse_i64_def Let_def split: option.splits if_splits prod.splits)

section \<open>Ordered maps with byte-string keys\<close>

fun bt_insert :: "bytes \<Rightarrow> 'v \<Rightarrow> (bytes \<times> 'v) list \<Rightarrow> (bytes \<times> 'v) list" where
  "bt_insert k v [] = [(k, v)]"
| "bt_insert k v ((k', v') # m) =
     (if k < k' then (k, v) # (k', v') # m
      else if k = k' then (k, v) # m
      else (k', v') # bt_insert k v m)"

abbreviation bt_sorted :: "(bytes \<times> 'v) list \<Rightarrow> bool" where
  "bt_sorted m \<equiv> sorted_wrt (<) (map fst m)"

lemma set_bt_insert: "fst ` set (bt_insert k v m) = insert k (fst ` set m)"
  by (induction k v m rule: bt_insert.induct) auto

lemma bt_insert_sorted: "bt_sorted m \<Longrightarrow> bt_sorted (bt_insert k v m)"
proof (induction m)
  case (Cons e m)
  obtain k' v' where e: "e = (k', v')" by (cases e)
  have "fst ` set (bt_insert k v m) = insert k (fst ` set m)" by (rule set_bt_insert)
  with Cons e show ?case by (auto intro: less_trans)
qed simp

lemma bt_insert_lookup: "map_of (bt_insert k v m) = (map_of m)(k \<mapsto> v)"
  by (induction m) (auto simp: fun_eq_iff)

lemma bt_insert_last: "\<forall>k' \<in> fst ` set m. k' < k \<Longrightarrow> bt_insert k v m = m @ [(k, v)]"
  by (induction m) auto

lemma bt_insert_values: "snd ` set (bt_insert k v m) \<subseteq> insert v (snd ` set m)"
  by (induction k v m rule: bt_insert.induct) auto

end
