(* ===== verification/Bencode.thy ===== *)
theory Bencode
  imports Rust_Std
begin

text \<open>
  The bencode codec of \<open>bencode.rs\<close>. The cursor \<open>i\<close> of the source over the buffer
  \<open>input\<close> is kept together with the bytes that follow it: the pair \<open>(i, s)\<close> stands
  for \<open>i\<close> with \<open>s = input[i..]\<close>. The recursion of \<open>decode_at\<close> through lists and
  dicts runs on fuel; \<open>2 * length input + 2\<close> is always enough
  (\<open>decode_enough_fuel\<close>). \<open>Panic\<close> is the abort of the addition \<open>*i + len\<close> when it
  passes \<open>usize::MAX\<close> (a debug build stops at the addition, a release build at the slice
  whose start then lies past its end).
\<close>

section \<open>Values\<close>

datatype bvalue =
    BInt int
  | BBytes bytes
  | BList "bvalue list"
  | BDict "(bytes \<times> bvalue) list"

datatype bencode_error =
    TrailingData nat nat
  | RootNotDict
  | DictKeyNotString
  | KeyNotFound bytes
  | UnexpectedEnd
  | InvalidMarker byte nat
  | UnterminatedInt
  | IntNotUtf8
  | BadInt bytes
  | UnterminatedLen
  | LenNotUtf8
  | BadLen bytes
  | StringPastEnd
  | UnterminatedList
  | UnterminatedDict
  | Panic
  | OutOfFuel

fun as_int :: "bvalue \<Rightarrow> int option" where
  "as_int (BInt v) = Some v"
| "as_int _ = None"

fun as_bytes :: "bvalue \<Rightarrow> bytes option" where
  "as_bytes (BBytes b) = Some b"
| "as_bytes _ = None"

definition as_str :: "bvalue \<Rightarrow> bytes option" where
  "as_str v = (case as_bytes v of None \<Rightarrow> None | Some b \<Rightarrow> if utf8_ok b then Some b else None)"

fun as_list :: "bvalue \<Rightarrow> bvalue list option" where
  "as_list (BList l) = Some l"
| "as_list _ = None"

fun as_dict :: "bvalue \<Rightarrow> (bytes \<times> bvalue) list option" where
  "as_dict (BDict d) = Some d"
| "as_dict _ = None"

definition dict_get :: "bvalue \<Rightarrow> bytes \<Rightarrow> bvalue option" where
  "dict_get v key = Option.bind (as_dict v) (\<lambda>d. map_of d key)"

definition dict_get_int :: "bvalue \<Rightarrow> bytes \<Rightarrow> int option" where
  "dict_get_int v key = Option.bind (dict_get v key) as_int"

definition dict_get_bytes :: "bvalue \<Rightarrow> bytes \<Rightarrow> bytes option" where
  "dict_get_bytes v key = Option.bind (dict_get v key) as_bytes"

definition dict_get_str :: "bvalue \<Rightarrow> bytes \<Rightarrow> bytes option" where
  "dict_get_str v key = Option.bind (dict_get v key) as_str"

definition dict_get_list :: "bvalue \<Rightarrow> bytes \<Rightarrow> bvalue list option" where
  "dict_get_list v key = Option.bind (dict_get v key) as_list"

definition dict_get_dict :: "bvalue \<Rightarrow> bytes \<Rightarrow> (bytes \<times> bvalue) list option" where
  "dict_get_dict v key = Option.bind (dict_get v key) as_dict"

section \<open>Decoding\<close>

type_synonym 'a cursor_result = "bencode_error + ('a \<times> nat \<times> bytes)"

definition decode_int :: "nat \<Rightarrow> bytes \<Rightarrow> bvalue cursor_result" where
  "decode_int i s =
     (let t = tl s;
          ds = takeWhile (\<lambda>b. b \<noteq> 101) t;
          r = dropWhile (\<lambda>b. b \<noteq> 101) t
      in if r = [] then Inl UnterminatedInt
         else if \<not> utf8_ok ds then Inl IntNotUtf8
         else case parse_i64 ds of
                None \<Rightarrow> Inl (BadInt ds)
              | Some v \<Rightarrow> Inr (BInt v, i + 1 + length ds + 1, tl r))"

definition decode_bytes :: "nat \<Rightarrow> bytes \<Rightarrow> bvalue cursor_result" where
  "decode_bytes i s =
     (let ds = takeWhile (\<lambda>b. b \<noteq> 58) s;
          r = dropWhile (\<lambda>b. b \<noteq> 58) s
      in if r = [] then Inl UnterminatedLen
         else if \<not> utf8_ok ds then Inl LenNotUtf8
         else case parse_usize ds of
                None \<Rightarrow> Inl (BadLen ds)
              | Some len \<Rightarrow>
                  (let p = i + length ds + 1; body = tl r
                   in if p + len > u64_max then Inl Panic
                      else if len > length body then Inl StringPastEnd
                      else Inr (BBytes (take len body), p + len, drop len body)))"

fun decode_at :: "nat \<Rightarrow> nat \<Rightarrow> bytes \<Rightarrow> bvalue cursor_result"
  and decode_list :: "nat \<Rightarrow> nat \<Rightarrow> bytes \<Rightarrow> bvalue list \<Rightarrow> bvalue list cursor_result"
  and decode_dict ::
    "nat \<Rightarrow> nat \<Rightarrow> bytes \<Rightarrow> (bytes \<times> bvalue) list \<Rightarrow> (bytes \<times> bvalue) list cursor_result"
where
  "decode_at 0 i s = Inl OutOfFuel"
| "decode_at (Suc n) i s =
     (case s of
        [] \<Rightarrow> Inl UnexpectedEnd
      | c # t \<Rightarrow>
          if c = 105 then decode_int i s
          else if c = 108 then
            (case decode_list n (i + 1) t [] of
               Inl e \<Rightarrow> Inl e
             | Inr (xs, i', s') \<Rightarrow> Inr (BList xs, i', s'))
          else if c = 100 then
            (case decode_dict n (i + 1) t [] of
               Inl e \<Rightarrow> Inl e
             | Inr (m, i', s') \<Rightarrow> Inr (BDict m, i', s'))
          else if is_digit c then decode_bytes i s
          else Inl (InvalidMarker c i))"
| "decode_list 0 i s acc = Inl OutOfFuel"
| "decode_list (Suc n) i s acc =
     (case s of
        [] \<Rightarrow> Inl UnterminatedList
      | c # t \<Rightarrow>
          if c = 101 then Inr (acc, i + 1, t)
          else case decode_at n i s of
                 Inl e \<Rightarrow> Inl e
               | Inr (v, i', s') \<Rightarrow> decode_list n i' s' (acc @ [v]))"
| "decode_dict 0 i s m = Inl OutOfFuel"
| "decode_dict (Suc n) i s m =
     (case s of
        [] \<Rightarrow> Inl UnterminatedDict
      | c # t \<Rightarrow>
          if c = 101 then Inr (m, i + 1, t)
          else case decode_at n i s of
                 Inl e \<Rightarrow> Inl e
               | Inr (k, i', s') \<Rightarrow>
                   (case as_bytes k of
                      None \<Rightarrow> Inl DictKeyNotString
                    | Some key \<Rightarrow>
                        (case decode_at n i' s' of
                           Inl e \<Rightarrow> Inl e
                         | Inr (v, i'', s'') \<Rightarrow> decode_dict n i'' s'' (bt_insert key v m))))"

definition decode_fuel :: "bytes \<Rightarrow> nat" where
  "decode_fuel input = 2 * length input + 2"

definition decode :: "bytes \<Rightarrow> bencode_error + (bvalue \<times> nat)" where
  "decode input =
     (case decode_at (decode_fuel input) 0 input of
        Inl e \<Rightarrow> Inl e
      | Inr (v, i, s) \<Rightarrow> Inr (v, i))"

definition decode_full :: "bytes \<Rightarrow> bencode_error + bvalue" where
  "decode_full input =
     (case decode input of
        Inl e \<Rightarrow> Inl e
      | Inr (v, n) \<Rightarrow> if n \<noteq> length input then Inl (TrailingData n (length input)) else Inr v)"

fun find_raw_loop :: "nat \<Rightarrow> nat \<Rightarrow> bytes \<Rightarrow> bytes \<Rightarrow> bencode_error + bytes" where
  "find_raw_loop 0 i s key = Inl OutOfFuel"
| "find_raw_loop (Suc n) i s key =
     (case s of
        [] \<Rightarrow> Inl (KeyNotFound key)
      | c # t \<Rightarrow>
          if c = 101 then Inl (KeyNotFound key)
          else case decode_at n i s of
                 Inl e \<Rightarrow> Inl e
               | Inr (k, val_start, s') \<Rightarrow>
                   (case as_bytes k of
                      None \<Rightarrow> Inl DictKeyNotString
                    | Some key_bytes \<Rightarrow>
                        (case decode_at n val_start s' of
                           Inl e \<Rightarrow> Inl e
                         | Inr (_, val_end, s'') \<Rightarrow>
                             if key_bytes = key then Inr (take (val_end - val_start) s')
                             else find_raw_loop n val_end s'' key)))"

definition find_raw_dict_value :: "bytes \<Rightarrow> bytes \<Rightarrow> bencode_error + bytes" where
  "find_raw_dict_value input key =
     (if input = [] \<or> hd input \<noteq> 100 then Inl RootNotDict
      else find_raw_loop (decode_fuel input) 1 (tl input) key)"

section \<open>Encoding\<close>

definition enc_str :: "bytes \<Rightarrow> bytes" where
  "enc_str b = dec (length b) @ 58 # b"

fun encode :: "bvalue \<Rightarrow> bytes"
  and encode_items :: "bvalue list \<Rightarrow> bytes"
  and encode_entries :: "(bytes \<times> bvalue) list \<Rightarrow> bytes"
where
  "encode (BInt n) = 105 # dec_int n @ [101]"
| "encode (BBytes b) = enc_str b"
| "encode (BList items) = 108 # encode_items items @ [101]"
| "encode (BDict m) = 100 # encode_entries m @ [101]"
| "encode_items [] = []"
| "encode_items (v # vs) = encode v @ encode_items vs"
| "encode_entries [] = []"
| "encode_entries ((k, v) # m) = enc_str k @ encode v @ encode_entries m"

text \<open>\<open>dict_from_str_keys\<close> inserts the pairs in order.\<close>

definition dict_from_str_keys :: "(bytes \<times> bvalue) list \<Rightarrow> bvalue" where
  "dict_from_str_keys pairs = BDict (foldl (\<lambda>m (k, v). bt_insert k v m) [] pairs)"

text \<open>What a Rust \<open>Value\<close> can hold: \<open>i64\<close> integers and maps sorted by key.\<close>

fun bval_ok :: "bvalue \<Rightarrow> bool"
  and items_ok :: "bvalue list \<Rightarrow> bool"
  and entries_ok :: "(bytes \<times> bvalue) list \<Rightarrow> bool"
where
  "bval_ok (BInt n) = (- (2 ^ 63) \<le> n \<and> n < 2 ^ 63)"
| "bval_ok (BBytes b) = True"
| "bval_ok (BList items) = items_ok items"
| "bval_ok (BDict m) = (bt_sorted m \<and> entries_ok m)"
| "items_ok [] = True"
| "items_ok (v # vs) = (bval_ok v \<and> items_ok vs)"
| "entries_ok [] = True"
| "entries_ok ((k, v) # m) = (bval_ok v \<and> entries_ok m)"

lemma items_ok_iff: "items_ok xs \<longleftrightarrow> (\<forall>v \<in> set xs. bval_ok v)"
  by (induction xs) auto

lemma entries_ok_iff: "entries_ok m \<longleftrightarrow> (\<forall>v \<in> snd ` set m. bval_ok v)"
  by (induction m) auto

lemmas decode_splits = sum.splits option.splits list.splits if_splits prod.splits

section \<open>Every decoded prefix is self-contained\<close>

definition consumes :: "nat \<Rightarrow> bytes \<Rightarrow> nat \<Rightarrow> bytes \<Rightarrow> bytes \<Rightarrow> bool" where
  "consumes i s i' s' p \<longleftrightarrow> s = p @ s' \<and> i' = i + length p \<and> p \<noteq> []"

lemma takeWhile_append_stop:
  "c \<notin> set ds \<Longrightarrow> takeWhile (\<lambda>b. b \<noteq> c) (ds @ c # r) = ds"
  "c \<notin> set ds \<Longrightarrow> dropWhile (\<lambda>b. b \<noteq> c) (ds @ c # r) = c # r"
  by (induction ds) auto

lemma dropWhile_stop:
  assumes "dropWhile (\<lambda>b. b \<noteq> c) t \<noteq> []"
  shows "t = takeWhile (\<lambda>b. b \<noteq> c) t @ c # tl (dropWhile (\<lambda>b. b \<noteq> c) t)"
    and "c \<notin> set (takeWhile (\<lambda>b. b \<noteq> c) t)"
proof -
  have "hd (dropWhile (\<lambda>b. b \<noteq> c) t) = c" using hd_dropWhile [OF assms] by simp
  with assms have "dropWhile (\<lambda>b. b \<noteq> c) t = c # tl (dropWhile (\<lambda>b. b \<noteq> c) t)"
    by (cases "dropWhile (\<lambda>b. b \<noteq> c) t") auto
  then show "t = takeWhile (\<lambda>b. b \<noteq> c) t @ c # tl (dropWhile (\<lambda>b. b \<noteq> c) t)"
    by (metis takeWhile_dropWhile_id)
  show "c \<notin> set (takeWhile (\<lambda>b. b \<noteq> c) t)" by (auto dest: set_takeWhileD)
qed

lemma decode_int_local:
  assumes "decode_int i (c # t) = Inr (v, i', s')"
  shows "\<exists>p. consumes i (c # t) i' s' p \<and> (\<forall>j r. decode_int j (p @ r) = Inr (v, j + length p, r))"
proof -
  let ?ds = "takeWhile (\<lambda>b. b \<noteq> 101) t" and ?r = "dropWhile (\<lambda>b. b \<noteq> 101) t"
  from assms have h: "?r \<noteq> []" "utf8_ok ?ds" "s' = tl ?r" "i' = i + 1 + length ?ds + 1"
    and v: "parse_i64 ?ds = Some (case v of BInt k \<Rightarrow> k)" "\<exists>k. v = BInt k"
    by (auto simp: decode_int_def Let_def split: if_splits option.splits)
  note st = dropWhile_stop [OF h(1)]
  have "consumes i (c # t) i' s' (c # ?ds @ [101])"
    using st(1) h(3,4) by (simp add: consumes_def)
  moreover have "decode_int j ((c # ?ds @ [101]) @ r) = Inr (v, j + length (c # ?ds @ [101]), r)" for j r
    using h(2) v by (auto simp: decode_int_def Let_def takeWhile_append_stop [OF st(2)])
  ultimately show ?thesis by blast
qed

lemma decode_bytes_local:
  assumes "decode_bytes i s = Inr (v, i', s')"
  shows "\<exists>p. consumes i s i' s' p \<and>
    (\<forall>j r. j \<le> i \<longrightarrow> decode_bytes j (p @ r) = Inr (v, j + length p, r))"
proof -
  let ?ds = "takeWhile (\<lambda>b. b \<noteq> 58) s" and ?r = "dropWhile (\<lambda>b. b \<noteq> 58) s"
  from assms obtain len where h: "?r \<noteq> []" "utf8_ok ?ds" "parse_usize ?ds = Some len"
    "i + length ?ds + 1 + len \<le> u64_max" "len \<le> length (tl ?r)"
    "v = BBytes (take len (tl ?r))" "i' = i + length ?ds + 1 + len" "s' = drop len (tl ?r)"
    by (auto simp: decode_bytes_def Let_def split: if_splits option.splits)
  note st = dropWhile_stop [OF h(1)]
  let ?p = "?ds @ 58 # take len (tl ?r)"
  have "s = ?p @ s'" using st(1) h(8) by simp
  then have "consumes i s i' s' ?p" using h(5,7) by (simp add: consumes_def)
  moreover have "decode_bytes j (?p @ r) = Inr (v, j + length ?p, r)" if "j \<le> i" for j r
    using h that by (simp add: decode_bytes_def Let_def takeWhile_append_stop [OF st(2)])
  ultimately show ?thesis by blast
qed

lemma decode_local:
  "decode_at f i s = Inr (v, i', s') \<Longrightarrow>
     \<exists>p. consumes i s i' s' p \<and> (\<forall>j r. j \<le> i \<longrightarrow> decode_at f j (p @ r) = Inr (v, j + length p, r))"
  "decode_list f i s acc = Inr (xs, i', s') \<Longrightarrow>
     \<exists>p. consumes i s i' s' p \<and>
       (\<forall>j r. j \<le> i \<longrightarrow> decode_list f j (p @ r) acc = Inr (xs, j + length p, r))"
  "decode_dict f i s m = Inr (m', i', s') \<Longrightarrow>
     \<exists>p. consumes i s i' s' p \<and>
       (\<forall>j r. j \<le> i \<longrightarrow> decode_dict f j (p @ r) m = Inr (m', j + length p, r))"
proof (induction f i s and f i s acc and f i s m arbitrary: v i' s' and xs i' s' and m' i' s'
    rule: decode_at_decode_list_decode_dict.induct)
  case (2 n i s)
  then obtain c t where s: "s = c # t" by (cases s) auto
  consider "c = 105" | "c = 108" | "c = 100" | "c \<noteq> 105" "c \<noteq> 108" "c \<noteq> 100" "is_digit c"
    using "2.prems" s by (auto split: if_splits)
  then show ?case
  proof cases
    case 1
    with "2.prems" s have "decode_int i (c # t) = Inr (v, i', s')" by simp
    from decode_int_local [OF this] obtain p where p: "consumes i s i' s' p"
      "\<forall>j r. decode_int j (p @ r) = Inr (v, j + length p, r)" using s by blast
    moreover from p(1) s 1 obtain q where "p = 105 # q" by (cases p) (auto simp: consumes_def)
    ultimately show ?thesis by (intro exI [of _ p]) auto
  next
    case 2
    with "2.prems" s obtain xs where x: "decode_list n (i + 1) t [] = Inr (xs, i', s')" "v = BList xs"
      by (auto split: sum.splits)
    from "2.IH"(1) [OF s] 2 x(1) obtain p where p: "consumes (i + 1) t i' s' p"
      "\<forall>j r. j \<le> i + 1 \<longrightarrow> decode_list n j (p @ r) [] = Inr (xs, j + length p, r)" by auto
    then show ?thesis using 2 s x(2) by (intro exI [of _ "c # p"]) (auto simp: consumes_def)
  next
    case 3
    with "2.prems" s obtain m where x: "decode_dict n (i + 1) t [] = Inr (m, i', s')" "v = BDict m"
      by (auto split: sum.splits)
    from "2.IH"(2) [OF s] 3 x(1) obtain p where p: "consumes (i + 1) t i' s' p"
      "\<forall>j r. j \<le> i + 1 \<longrightarrow> decode_dict n j (p @ r) [] = Inr (m, j + length p, r)" by auto
    then show ?thesis using 3 s x(2) by (intro exI [of _ "c # p"]) (auto simp: consumes_def)
  next
    case 4
    with "2.prems" s have "decode_bytes i s = Inr (v, i', s')" by simp
    from decode_bytes_local [OF this] obtain p where p: "consumes i s i' s' p"
      "\<forall>j r. j \<le> i \<longrightarrow> decode_bytes j (p @ r) = Inr (v, j + length p, r)" by blast
    moreover from p(1) s obtain q where "p = c # q" by (cases p) (auto simp: consumes_def)
    ultimately show ?thesis using 4 by (intro exI [of _ p]) auto
  qed
next
  case (4 n i s acc)
  then obtain c t where s: "s = c # t" by (cases s) auto
  show ?case
  proof (cases "c = 101")
    case True
    with 4 s show ?thesis by (intro exI [of _ "[101]"]) (auto simp: consumes_def)
  next
    case False
    with "4.prems" s obtain v i1 s1 where
      d: "decode_at n i s = Inr (v, i1, s1)" "decode_list n i1 s1 (acc @ [v]) = Inr (xs, i', s')"
      by (auto split: sum.splits)
    from "4.IH"(1) [OF s False d(1)] obtain p where p: "consumes i s i1 s1 p"
      "\<forall>j r. j \<le> i \<longrightarrow> decode_at n j (p @ r) = Inr (v, j + length p, r)" by blast
    from "4.IH"(2) [OF s False d(1) refl refl d(2)] obtain q where q: "consumes i1 s1 i' s' q"
      "\<forall>j r. j \<le> i1 \<longrightarrow> decode_list n j (q @ r) (acc @ [v]) = Inr (xs, j + length q, r)" by blast
    from p(1) s obtain p' where p': "p = c # p'" by (cases p) (auto simp: consumes_def)
    have "decode_list (Suc n) j ((p @ q) @ r) acc = Inr (xs, j + length (p @ q), r)" if "j \<le> i" for j r
      using p(2) [rule_format, OF that, of "q @ r"] q(2) p(1) that False p'
      by (auto simp: consumes_def)
    with p(1) q(1) show ?thesis by (intro exI [of _ "p @ q"]) (auto simp: consumes_def)
  qed
next
  case (6 n i s m)
  then obtain c t where s: "s = c # t" by (cases s) auto
  show ?case
  proof (cases "c = 101")
    case True
    with 6 s show ?thesis by (intro exI [of _ "[101]"]) (auto simp: consumes_def)
  next
    case False
    with "6.prems" s obtain k i1 s1 key v i2 s2 where
      d: "decode_at n i s = Inr (k, i1, s1)" "as_bytes k = Some key"
         "decode_at n i1 s1 = Inr (v, i2, s2)"
         "decode_dict n i2 s2 (bt_insert key v m) = Inr (m', i', s')"
      by (auto split: sum.splits option.splits)
    from "6.IH"(1) [OF s False d(1)] obtain p where p: "consumes i s i1 s1 p"
      "\<forall>j r. j \<le> i \<longrightarrow> decode_at n j (p @ r) = Inr (k, j + length p, r)" by blast
    from "6.IH"(2) [OF s False d(1) refl refl d(2,3)] obtain q where q: "consumes i1 s1 i2 s2 q"
      "\<forall>j r. j \<le> i1 \<longrightarrow> decode_at n j (q @ r) = Inr (v, j + length q, r)" by blast
    from "6.IH"(3) [OF s False d(1) refl refl d(2,3) refl refl d(4)] obtain u where
      u: "consumes i2 s2 i' s' u"
      "\<forall>j r. j \<le> i2 \<longrightarrow> decode_dict n j (u @ r) (bt_insert key v m) = Inr (m', j + length u, r)" by blast
    from p(1) s obtain p' where p': "p = c # p'" by (cases p) (auto simp: consumes_def)
    have "decode_dict (Suc n) j ((p @ q @ u) @ r) m = Inr (m', j + length (p @ q @ u), r)"
      if "j \<le> i" for j r
      using p(2) [rule_format, OF that, of "q @ u @ r"] q(2) u(2) p(1) q(1) that False p' d(2)
      by (auto simp: consumes_def)
    with p(1) q(1) u(1) show ?thesis by (intro exI [of _ "p @ q @ u"]) (auto simp: consumes_def)
  qed
qed auto

lemma decode_at_shrinks: "decode_at f i s = Inr (v, i', s') \<Longrightarrow> length s' < length s"
  using decode_local(1) [of f i s v i' s'] by (auto simp: consumes_def)

end
