(* ===== verification/Bencode_Correct.thy ===== *)
theory Bencode_Correct
  imports Bencode
begin

text \<open>
  Correctness of the bencode codec: the fuel of the model is enough for every input, every
  decoded value is one a Rust \<open>Value\<close> can hold, decoding inverts encoding, and the raw
  slice of \<open>find_raw_dict_value\<close> (what the infohash is computed from) is the encoding of
  the entry it names.
\<close>

section \<open>Fuel\<close>

lemma decode_leaf_fuel [simp]:
  "decode_int i s \<noteq> Inl OutOfFuel" "decode_bytes i s \<noteq> Inl OutOfFuel"
  by (auto simp: decode_int_def decode_bytes_def Let_def split: option.splits)

lemma decode_enough_fuel:
  "2 * length s < f \<Longrightarrow> decode_at f i s \<noteq> Inl OutOfFuel"
  "2 * length s + 1 < f \<Longrightarrow> decode_list f i s acc \<noteq> Inl OutOfFuel"
  "2 * length s + 1 < f \<Longrightarrow> decode_dict f i s m \<noteq> Inl OutOfFuel"
proof (induction f i s and f i s acc and f i s m rule: decode_at_decode_list_decode_dict.induct)
  case (4 n i s acc)
  show ?case
  proof (cases s)
    case (Cons c t)
    show ?thesis
    proof (cases "c = 101")
      case False
      have "decode_at n i s \<noteq> Inl OutOfFuel" using 4 Cons False by simp
      moreover have "decode_list n i' s' (acc @ [v]) \<noteq> Inl OutOfFuel"
        if "decode_at n i s = Inr (v, i', s')" for v i' s'
        using 4(2) [OF Cons False that refl refl] decode_at_shrinks [OF that] "4.prems" by simp
      ultimately show ?thesis using Cons False by (auto split: sum.splits)
    qed (simp add: Cons)
  qed simp
next
  case (6 n i s m)
  show ?case
  proof (cases s)
    case (Cons c t)
    show ?thesis
    proof (cases "c = 101")
      case False
      have k: "decode_at n i s \<noteq> Inl OutOfFuel" using 6 Cons False by simp
      have v: "decode_at n i' s' \<noteq> Inl OutOfFuel"
        if "decode_at n i s = Inr (k, i', s')" "as_bytes k = Some key" for k i' s' key
        using 6(2) [OF Cons False that(1) refl refl that(2)] decode_at_shrinks [OF that(1)]
          "6.prems" by simp
      have "decode_dict n i'' s'' (bt_insert key w m) \<noteq> Inl OutOfFuel"
        if "decode_at n i s = Inr (k, i', s')" "as_bytes k = Some key"
          "decode_at n i' s' = Inr (w, i'', s'')" for k i' s' key w i'' s''
        using 6(3) [OF Cons False that(1) refl refl that(2,3) refl refl]
          decode_at_shrinks [OF that(1)] decode_at_shrinks [OF that(3)] "6.prems" by simp
      with k v show ?thesis using Cons False by (auto split: sum.splits option.splits)
    qed (simp add: Cons)
  qed simp
qed (auto split: list.splits sum.splits)

lemma decode_fuel_Suc:
  "decode_at f i s \<noteq> Inl OutOfFuel \<Longrightarrow> decode_at (Suc f) i s = decode_at f i s"
  "decode_list f i s acc \<noteq> Inl OutOfFuel \<Longrightarrow> decode_list (Suc f) i s acc = decode_list f i s acc"
  "decode_dict f i s m \<noteq> Inl OutOfFuel \<Longrightarrow> decode_dict (Suc f) i s m = decode_dict f i s m"
proof (induction f i s and f i s acc and f i s m rule: decode_at_decode_list_decode_dict.induct)
  case (2 n i s)
  then show ?case by (cases s) (auto split: sum.splits)
next
  case (4 n i s acc)
  show ?case
  proof (cases s)
    case (Cons c t)
    then show ?thesis using 4
      by (cases "c = 101"; cases "decode_at n i s") (auto split: prod.splits)
  qed simp
next
  case (6 n i s m)
  show ?case
  proof (cases s)
    case (Cons c t)
    show ?thesis
    proof (cases "decode_at n i s")
      case (Inl e)
      then show ?thesis using 6 Cons by auto
    next
      case (Inr x)
      obtain k i1 s1 where x: "x = (k, i1, s1)" by (cases x)
      show ?thesis
      proof (cases "c = 101 \<or> as_bytes k = None")
        case True
        then show ?thesis using 6 Cons Inr x by auto
      next
        case False
        then show ?thesis using 6 Cons Inr x
          by (cases "decode_at n i1 s1") (auto split: prod.splits)
      qed
    qed
  qed simp
qed auto

lemma decode_fuel_mono:
  assumes "decode_at f i s \<noteq> Inl OutOfFuel" "f \<le> g"
  shows "decode_at g i s = decode_at f i s"
  using assms(2,1)
proof (induction rule: dec_induct)
  case (step n)
  then show ?case using decode_fuel_Suc(1) [of n i s] by simp
qed simp

lemma decode_fuel_irrelevant:
  assumes "decode_at f i s \<noteq> Inl OutOfFuel" "decode_at g i s \<noteq> Inl OutOfFuel"
  shows "decode_at f i s = decode_at g i s"
  using assms decode_fuel_mono [of f i s g] decode_fuel_mono [of g i s f] by (metis nle_le)

lemma decode_terminates: "decode input \<noteq> Inl OutOfFuel"
  using decode_enough_fuel(1) [of input "decode_fuel input" 0]
  by (auto simp: decode_def decode_fuel_def split: sum.splits)

section \<open>Decoded values are values\<close>

lemma decode_leaf_ok:
  "decode_int i s = Inr (v, i', s') \<Longrightarrow> bval_ok v"
  "decode_bytes i s = Inr (v, i', s') \<Longrightarrow> bval_ok v"
  by (auto simp: decode_int_def decode_bytes_def Let_def split: option.splits if_splits
      dest: parse_i64_range)

lemma decode_bval_ok:
  "decode_at f i s = Inr (v, i', s') \<Longrightarrow> bval_ok v"
  "decode_list f i s acc = Inr (xs, i', s') \<Longrightarrow> items_ok acc \<Longrightarrow> items_ok xs"
  "decode_dict f i s m = Inr (m', i', s') \<Longrightarrow> bt_sorted m \<and> entries_ok m \<Longrightarrow>
     bt_sorted m' \<and> entries_ok m'"
proof (induction f i s and f i s acc and f i s m arbitrary: v i' s' and xs i' s' and m' i' s'
    rule: decode_at_decode_list_decode_dict.induct)
  case (2 n i s)
  then obtain c t where s: "s = c # t" by (cases s) auto
  then show ?case using 2
    by (auto split: if_splits sum.splits dest: decode_leaf_ok)
next
  case (4 n i s acc)
  then obtain c t where s: "s = c # t" by (cases s) auto
  show ?case
  proof (cases "c = 101")
    case False
    with "4.prems" s obtain v i1 s1 where
      d: "decode_at n i s = Inr (v, i1, s1)" "decode_list n i1 s1 (acc @ [v]) = Inr (xs, i', s')"
      by (auto split: sum.splits)
    have "items_ok (acc @ [v])"
      using "4.IH"(1) [OF s False d(1)] "4.prems"(2) by (auto simp: items_ok_iff)
    then show ?thesis using "4.IH"(2) [OF s False d(1) refl refl d(2)] by simp
  qed (use 4 s in auto)
next
  case (6 n i s m)
  then obtain c t where s: "s = c # t" by (cases s) auto
  show ?case
  proof (cases "c = 101")
    case False
    with "6.prems" s obtain k i1 s1 key v i2 s2 where
      d: "decode_at n i s = Inr (k, i1, s1)" "as_bytes k = Some key"
         "decode_at n i1 s1 = Inr (v, i2, s2)"
         "decode_dict n i2 s2 (bt_insert key v m) = Inr (m', i', s')"
      by (auto split: sum.splits option.splits)
    have "bval_ok v" using "6.IH"(2) [OF s False d(1) refl refl d(2,3)] by simp
    then have "\<forall>w \<in> insert v (snd ` set m). bval_ok w"
      using "6.prems"(2) by (auto simp: entries_ok_iff)
    with bt_insert_values [of key v m] have "entries_ok (bt_insert key v m)"
      unfolding entries_ok_iff by blast
    then have "bt_sorted (bt_insert key v m) \<and> entries_ok (bt_insert key v m)"
      using "6.prems"(2) by (simp add: bt_insert_sorted)
    then show ?thesis
      using "6.IH"(3) [OF s False d(1) refl refl d(2,3) refl refl d(4)] by simp
  qed (use 6 s in auto)
qed auto

section \<open>Decoding inverts encoding\<close>

lemma dec_no_colon: "58 \<notin> set (dec n)"
  using dec_digits [of 58 n] by auto

lemma dec_int_no_e: "101 \<notin> set (dec_int k)"
  using dec_digits [of 101] by (auto simp: dec_int_def)

lemma digit_ascii: "is_digit b \<Longrightarrow> unat b < 128"
  by (simp add: is_digit_def)

lemma utf8_ok_dec [simp]: "utf8_ok (dec n)" "utf8_ok (dec_int k)"
  by (rule utf8_ok_ascii; auto simp: dec_int_def split: if_splits dest!: dec_digits digit_ascii)+

lemma decode_bytes_enc_str:
  assumes "i + length (enc_str b) \<le> u64_max"
  shows "decode_bytes i (enc_str b @ r) = Inr (BBytes b, i + length (enc_str b), r)"
proof -
  have "length b \<le> u64_max" using assms by (simp add: enc_str_def)
  then show ?thesis using assms
    by (simp add: decode_bytes_def enc_str_def takeWhile_append_stop [OF dec_no_colon]
        parse_usize_dec)
qed

lemma decode_int_enc:
  assumes "- (2 ^ 63) \<le> k" "k < 2 ^ 63"
  shows "decode_int i (105 # dec_int k @ 101 # r) = Inr (BInt k, i + length (dec_int k) + 2, r)"
  using parse_i64_dec_int [OF assms]
  by (simp add: decode_int_def takeWhile_append_stop [OF dec_int_no_e])

lemma enc_str_Cons: obtains c t where "enc_str b = c # t" "is_digit c"
proof -
  obtain c r where "dec (length b) = c # r" "is_digit c" by (rule dec_Cons)
  with that show thesis by (simp add: enc_str_def)
qed

lemma encode_Cons: obtains c t where "encode v = c # t" "c \<noteq> 101"
proof (cases v)
  case (BBytes b)
  obtain c t where "enc_str b = c # t" "is_digit c" by (rule enc_str_Cons)
  with BBytes that show thesis by force
qed (use that in auto)

lemma encode_pos [simp]: "0 < length (encode v)" "encode v \<noteq> []" "0 < length (enc_str b)" "enc_str b \<noteq> []"
proof -
  obtain c t where "encode v = c # t" by (rule encode_Cons)
  moreover obtain c t where "enc_str b = c # t" by (rule enc_str_Cons)
  ultimately show "0 < length (encode v)" "encode v \<noteq> []" "0 < length (enc_str b)" "enc_str b \<noteq> []"
    by simp_all
qed

lemma decode_at_enc_str:
  assumes "i + length (enc_str b) \<le> u64_max"
  shows "decode_at (Suc n) i (enc_str b @ r) = Inr (BBytes b, i + length (enc_str b), r)"
proof -
  obtain c t where ct: "enc_str b = c # t" "is_digit c" by (rule enc_str_Cons)
  then have "c \<noteq> 105" "c \<noteq> 108" "c \<noteq> 100" by auto
  with ct decode_bytes_enc_str [OF assms, of r] show ?thesis by simp
qed

lemma decode_encode_at:
  "bval_ok v \<Longrightarrow> i + length (encode v) \<le> u64_max \<Longrightarrow> 2 * length (encode v) \<le> f \<Longrightarrow>
     decode_at f i (encode v @ r) = Inr (v, i + length (encode v), r)"
  "items_ok vs \<Longrightarrow> i + length (encode_items vs) < u64_max \<Longrightarrow> 2 * length (encode_items vs) < f \<Longrightarrow>
     decode_list f i (encode_items vs @ 101 # r) acc =
       Inr (acc @ vs, i + length (encode_items vs) + 1, r)"
  "entries_ok m \<Longrightarrow> bt_sorted (m0 @ m) \<Longrightarrow> i + length (encode_entries m) < u64_max \<Longrightarrow>
     2 * length (encode_entries m) < f \<Longrightarrow>
     decode_dict f i (encode_entries m @ 101 # r) m0 =
       Inr (m0 @ m, i + length (encode_entries m) + 1, r)"
proof (induction v and vs and m arbitrary: f i r and f i r acc and f i r m0
    rule: encode_encode_items_encode_entries.induct)
  case (1 n)
  then obtain g where "f = Suc g" by (cases f) auto
  with 1 show ?case by (simp add: decode_int_enc)
next
  case (2 b)
  then obtain g where "f = Suc g" by (cases f) auto
  with 2 show ?case using decode_at_enc_str [of i b g r] by simp
next
  case (3 items)
  then obtain g where "f = Suc g" by (cases f) auto
  with 3 show ?case by simp
next
  case (4 m)
  then obtain g where "f = Suc g" by (cases f) auto
  with 4 show ?case by simp
next
  case 5
  then obtain g where "f = Suc g" by (cases f) auto
  then show ?case by simp
next
  case (6 v vs)
  then obtain g where f: "f = Suc g" by (cases f) auto
  obtain c t where ct: "encode v = c # t" "c \<noteq> 101" by (rule encode_Cons)
  have "decode_at g i (encode v @ encode_items vs @ 101 # r) =
      Inr (v, i + length (encode v), encode_items vs @ 101 # r)"
    using 6 f by simp
  moreover have "decode_list g (i + length (encode v)) (encode_items vs @ 101 # r) (acc @ [v]) =
      Inr ((acc @ [v]) @ vs, i + length (encode v) + length (encode_items vs) + 1, r)"
    using 6 f ct by simp
  ultimately show ?case using f ct by simp
next
  case 7
  then obtain g where "f = Suc g" by (cases f) auto
  then show ?case by simp
next
  case (8 k v m)
  then obtain g where f: "f = Suc g" by (cases f) auto
  obtain c t where ct: "enc_str k = c # t" "is_digit c" by (rule enc_str_Cons)
  then have ne: "c \<noteq> 101" by auto
  have lg: "2 * length (encode_entries m) < g"
    using "8.prems"(4) f encode_pos(1) [of v] by (simp del: encode_pos length_greater_0_conv)
  then obtain h where g: "g = Suc h" by (cases g) auto
  let ?m = "encode_entries m @ 101 # r"
  have dk: "decode_at g i (enc_str k @ encode v @ ?m) =
      Inr (BBytes k, i + length (enc_str k), encode v @ ?m)"
    unfolding g using 8 by (intro decode_at_enc_str) simp
  have dv: "decode_at g (i + length (enc_str k)) (encode v @ ?m) =
      Inr (v, i + length (enc_str k) + length (encode v), ?m)"
    using 8 f by simp
  have ins: "bt_insert k v m0 = m0 @ [(k, v)]"
    using "8.prems"(2) by (intro bt_insert_last) (auto simp: sorted_wrt_append)
  have "decode_dict g (i + length (enc_str k) + length (encode v)) ?m (m0 @ [(k, v)]) =
      Inr ((m0 @ [(k, v)]) @ m, i + length (enc_str k) + length (encode v) + length (encode_entries m) + 1, r)"
    using 8 lg by simp
  with dk dv ins show ?case using f ct ne by simp
qed

lemma decode_full_encode:
  assumes "bval_ok v" "length (encode v) \<le> u64_max"
  shows "decode_full (encode v) = Inr v"
  using decode_encode_at(1) [of v 0 "decode_fuel (encode v)" "[]"] assms
  by (simp add: decode_full_def decode_def decode_fuel_def)

lemma decode_full_bval_ok:
  assumes "decode_full input = Inr v"
  shows "bval_ok v"
  using assms decode_bval_ok(1)
  by (auto simp: decode_full_def decode_def split: sum.splits if_splits)

section \<open>The raw slice of a dictionary entry\<close>

lemma find_raw_loop_slice:
  assumes "find_raw_loop f i s key = Inr raw"
  shows "\<exists>pre post v g. s = pre @ raw @ post \<and> decode_at g 0 raw = Inr (v, length raw, [])"
  using assms
proof (induction f i s key rule: find_raw_loop.induct)
  case (2 n i s key)
  then obtain c t where s: "s = c # t" "c \<noteq> 101" by (cases s) (auto split: if_splits)
  with "2.prems" obtain k i1 s1 kb v i2 s2 where
    d: "decode_at n i s = Inr (k, i1, s1)" "as_bytes k = Some kb" "decode_at n i1 s1 = Inr (v, i2, s2)"
    and r: "(if kb = key then Inr (take (i2 - i1) s1) else find_raw_loop n i2 s2 key) = Inr raw"
    by (auto split: sum.splits option.splits)
  from decode_local(1) [OF d(1)] obtain p where p: "s = p @ s1" by (auto simp: consumes_def)
  from decode_local(1) [OF d(3)] obtain q where q0: "consumes i1 s1 i2 s2 q"
    "\<forall>j r. j \<le> i1 \<longrightarrow> decode_at n j (q @ r) = Inr (v, j + length q, r)" by blast
  from q0(2) [rule_format, of 0 "[]"] q0(1) have q: "s1 = q @ s2" "i2 = i1 + length q"
    "decode_at n 0 q = Inr (v, length q, [])" by (auto simp: consumes_def)
  show ?case
  proof (cases "kb = key")
    case True
    with r q p show ?thesis by (intro exI [of _ p] exI [of _ s2] exI [of _ v] exI [of _ n]) auto
  next
    case False
    with r "2.IH" [OF s(1,2) d(1) refl refl d(2,3) refl refl False]
    obtain pre post w g where "s2 = pre @ raw @ post" "decode_at g 0 raw = Inr (w, length raw, [])"
      by auto
    with p q show ?thesis
      by (intro exI [of _ "p @ q @ pre"] exI [of _ post] exI [of _ w] exI [of _ g]) simp
  qed
qed simp

lemma find_raw_is_value:
  assumes "find_raw_dict_value input key = Inr raw"
  shows "(\<exists>v. decode_full raw = Inr v) \<and> (\<exists>pre post. input = pre @ raw @ post)"
proof -
  from assms obtain t where input: "input = 100 # t"
    and l: "find_raw_loop (decode_fuel input) 1 t key = Inr raw"
    by (cases input) (auto simp: find_raw_dict_value_def split: if_splits)
  from find_raw_loop_slice [OF l] obtain pre post v g where
    h: "t = pre @ raw @ post" "decode_at g 0 raw = Inr (v, length raw, [])" by blast
  have "decode_at (decode_fuel raw) 0 raw = Inr (v, length raw, [])"
    using decode_fuel_irrelevant [of g 0 raw "decode_fuel raw"] h(2)
      decode_enough_fuel(1) [of raw "decode_fuel raw" 0] by (simp add: decode_fuel_def)
  then have "decode_full raw = Inr v" by (simp add: decode_full_def decode_def)
  moreover have "input = (100 # pre) @ raw @ post" using input h by simp
  ultimately show ?thesis by blast
qed

lemma find_raw_loop_encode:
  assumes "entries_ok m" "i + length (encode_entries m) < u64_max"
    "2 * length (encode_entries m) < f"
  shows "find_raw_loop f i (encode_entries m @ 101 # r) key =
     (case map_of m key of None \<Rightarrow> Inl (KeyNotFound key) | Some v \<Rightarrow> Inr (encode v))"
  using assms
proof (induction m arbitrary: f i)
  case Nil
  then obtain g where "f = Suc g" by (cases f) auto
  then show ?case by simp
next
  case (Cons e m)
  obtain k v where e: "e = (k, v)" by (cases e)
  obtain g where f: "f = Suc g" using Cons by (cases f) auto
  obtain c t where ct: "enc_str k = c # t" "is_digit c" by (rule enc_str_Cons)
  then have ne: "c \<noteq> 101" by auto
  have lg: "2 * length (encode_entries m) < g"
    using Cons.prems(3) f e encode_pos(1) [of v] by (simp del: encode_pos length_greater_0_conv)
  then obtain h where g: "g = Suc h" by (cases g) auto
  let ?m = "encode_entries m @ 101 # r"
  have dk: "decode_at g i (enc_str k @ encode v @ ?m) =
      Inr (BBytes k, i + length (enc_str k), encode v @ ?m)"
    unfolding g using Cons e by (intro decode_at_enc_str) simp
  have dv: "decode_at g (i + length (enc_str k)) (encode v @ ?m) =
      Inr (v, i + length (enc_str k) + length (encode v), ?m)"
    using Cons e f by (intro decode_encode_at(1)) auto
  have ih: "find_raw_loop g (i + length (enc_str k) + length (encode v)) ?m key =
      (case map_of m key of None \<Rightarrow> Inl (KeyNotFound key) | Some v \<Rightarrow> Inr (encode v))"
    using Cons e lg by (intro Cons.IH) auto
  show ?case using dk dv ih e f ct ne by (auto split: option.split)
qed

lemma find_raw_encode:
  assumes "bval_ok (BDict m)" "length (encode (BDict m)) \<le> u64_max"
  shows "find_raw_dict_value (encode (BDict m)) key =
     (case dict_get (BDict m) key of None \<Rightarrow> Inl (KeyNotFound key) | Some v \<Rightarrow> Inr (encode v))"
  using assms find_raw_loop_encode [of m 1 "decode_fuel (encode (BDict m))" "[]" key]
  by (simp add: find_raw_dict_value_def decode_fuel_def dict_get_def)

section \<open>Properties\<close>

text \<open>C5. Bencoding round-trips: decoding the encoding of any value the type can hold, as long
  as its length fits a \<open>usize\<close>, returns exactly that value with no trailing bytes.\<close>

theorem bencode_roundtrip:
  assumes "bval_ok v" "length (encode v) \<le> u64_max"
  shows "decode_full (encode v) = Inr v"
  using assms by (rule decode_full_encode)

theorem bencode_roundtrip_witness:
  "decode_full (encode (BDict [([97], BList [BInt (- 5), BBytes []])]))
     = Inr (BDict [([97], BList [BInt (- 5), BBytes []])])"
  using bencode_roundtrip [of "BDict [([97], BList [BInt (- 5), BBytes []])]"]
  by (simp add: enc_str_def dec.simps dec_int_def)

text \<open>C6. The decoder is total and bounded on any input: its recursion always ends (the fuel
  never runs out), a decoded value is one the type can hold, it consumes at least one byte and
  no more than the input, and it does not depend on the bytes after the ones it consumed.\<close>

theorem bencode_decode_total:
  "case decode input of
     Inl e \<Rightarrow> e \<noteq> OutOfFuel
   | Inr (v, n) \<Rightarrow> bval_ok v \<and> 0 < n \<and> n \<le> length input \<and> decode_full (take n input) = Inr v"
proof (cases "decode input")
  case (Inl e)
  then show ?thesis using decode_terminates [of input] by simp
next
  case (Inr vn)
  obtain v n where vn: "vn = (v, n)" by (cases vn)
  then obtain s where d: "decode_at (decode_fuel input) 0 input = Inr (v, n, s)"
    using Inr by (auto simp: decode_def split: sum.splits)
  from decode_local(1) [OF d] obtain p where p: "input = p @ s" "n = length p" "p \<noteq> []"
    "\<forall>j r. j \<le> 0 \<longrightarrow> decode_at (decode_fuel input) j (p @ r) = Inr (v, j + length p, r)"
    by (auto simp: consumes_def)
  from p(4) [rule_format, of 0 "[]"] have g: "decode_at (decode_fuel input) 0 p = Inr (v, length p, [])"
    by simp
  have "decode_at (decode_fuel p) 0 p = Inr (v, length p, [])"
    using decode_fuel_irrelevant [of "decode_fuel input" 0 p "decode_fuel p"] g
      decode_enough_fuel(1) [of p "decode_fuel p" 0] by (simp add: decode_fuel_def)
  then have "decode_full p = Inr v" by (simp add: decode_full_def decode_def)
  with decode_bval_ok(1) [OF d] p show ?thesis unfolding Inr vn by simp
qed

text \<open>The raw slice that becomes the info-hash is the value's own bytes: what
  \<open>find_raw_dict_value\<close> returns lies inside the input and decodes on its own, and on the
  encoding of a dictionary it is the encoding of the value found under the key, or the
  not-found error when the key is absent.\<close>

theorem find_raw_dict_value_correct:
  assumes "bval_ok (BDict m)" "length (encode (BDict m)) \<le> u64_max"
  shows "find_raw_dict_value (encode (BDict m)) key =
      (case dict_get (BDict m) key of None \<Rightarrow> Inl (KeyNotFound key) | Some v \<Rightarrow> Inr (encode v))
    \<and> (case find_raw_dict_value input key of
         Inl _ \<Rightarrow> True
       | Inr raw \<Rightarrow> (\<exists>v pre post. decode_full raw = Inr v \<and> input = pre @ raw @ post))"
  using find_raw_encode [OF assms, of key] find_raw_is_value [of input key]
  by (cases "find_raw_dict_value input key") auto

theorem find_raw_dict_value_witness:
  "find_raw_dict_value (encode (BDict [([97], BInt 7)])) [97] = Inr (encode (BInt 7))"
  using find_raw_dict_value_correct [of "[([97], BInt 7)]" "[97]"]
  by (simp add: enc_str_def dec.simps dec_int_def dict_get_def)

section \<open>Two inputs the decoder mishandles\<close>

text \<open>A string length near \<open>usize::MAX\<close> overflows the position \<open>*i + len\<close> before it is
  compared with the input: the code panics (or wraps, without overflow checks) instead of
  reporting the short input.\<close>

lemma huge_length_panics:
  assumes "n \<le> u64_max" "length (dec n) + 1 + n > u64_max"
  shows "decode (dec n @ 58 # rest) = Inl Panic"
proof -
  obtain c t where ct: "dec n = c # t" "is_digit c" by (metis dec_Cons)
  then have "c \<noteq> 105" "c \<noteq> 108" "c \<noteq> 100" by auto
  moreover have "decode_bytes 0 (dec n @ 58 # rest) = Inl Panic"
    using assms by (simp add: decode_bytes_def takeWhile_append_stop [OF dec_no_colon] parse_usize_dec)
  ultimately show ?thesis using ct by (simp add: decode_def decode_fuel_def)
qed

lemma decode_dict_entry:
  assumes "bval_ok v" "i + length (enc_str k) + length (encode v) \<le> u64_max" "2 * length (encode v) \<le> Suc g"
  shows "decode_dict (Suc (Suc g)) i (enc_str k @ encode v @ r) m =
     decode_dict (Suc g) (i + length (enc_str k) + length (encode v)) r (bt_insert k v m)"
proof -
  obtain c t where ct: "enc_str k = c # t" "is_digit c" by (rule enc_str_Cons)
  then have ne: "c \<noteq> 101" by auto
  have "decode_at (Suc g) i (enc_str k @ encode v @ r) = Inr (BBytes k, i + length (enc_str k), encode v @ r)"
    using assms(2) by (intro decode_at_enc_str) simp
  moreover have "decode_at (Suc g) (i + length (enc_str k)) (encode v @ r) =
      Inr (v, i + length (enc_str k) + length (encode v), r)"
    using assms by (intro decode_encode_at(1)) auto
  ultimately show ?thesis using ct ne by simp
qed

lemma decode_dict_marker:
  "decode_dict n (i + 1) (tl s) [] = Inr (m, j, r) \<Longrightarrow> s = 100 # tl s \<Longrightarrow>
     decode_at (Suc n) i s = Inr (BDict m, j, r)"
  by (cases s) auto

text \<open>With a duplicated key the raw slice (the info-hash source) comes from the first entry,
  the decoded value from the last.\<close>

lemma duplicate_key_disagrees:
  assumes "bval_ok v" "bval_ok w"
    and "input = 100 # encode_entries [(k, v), (k, w)] @ [101]" "length input \<le> u64_max"
  shows "find_raw_dict_value input k = Inr (encode v) \<and> decode_full input = Inr (BDict [(k, w)])"
proof
  show "find_raw_dict_value input k = Inr (encode v)"
    using find_raw_loop_encode [of "[(k, v), (k, w)]" 1 "decode_fuel input" "[]" k] assms
    by (simp add: find_raw_dict_value_def decode_fuel_def)
  define g where "g = 2 * length input - 3"
  have l: "length input = 2 + 2 * length (enc_str k) + length (encode v) + length (encode w)"
    by (simp add: assms(3))
  then have f: "decode_fuel input = Suc (Suc (Suc (Suc (Suc g))))"
    by (simp add: decode_fuel_def g_def)
  have e: "bt_insert k w (bt_insert k v []) = [(k, w)]" by simp
  have "decode_dict (Suc (Suc (Suc (Suc g)))) 1 (tl input) [] =
      Inr ([(k, w)], length input, [])"
    using assms l e
    by (simp add: decode_dict_entry g_def del: decode_dict.simps bt_insert.simps) simp
  moreover have "input = 100 # tl input" by (simp add: assms(3))
  ultimately have "decode_at (decode_fuel input) 0 input = Inr (BDict [(k, w)], length input, [])"
    unfolding f using decode_dict_marker [of "Suc (Suc (Suc (Suc g)))" 0 input] by simp
  then show "decode_full input = Inr (BDict [(k, w)])"
    by (simp add: decode_full_def decode_def)
qed

text \<open>C23. Two hostile inputs. A string length whose end does not fit a \<open>usize\<close> overflows
  the position before the bounds check, so the decoder does not return its short-input error;
  and on a dictionary that repeats a key, \<open>find_raw_dict_value\<close> returns the first entry while
  the decoded dictionary holds the last, so the bytes that are hashed need not be the ones
  that were parsed.\<close>

theorem bencode_hostile_inputs:
  assumes "n \<le> u64_max" "length (dec n) + 1 + n > u64_max"
    and "bval_ok v" "bval_ok w"
    and "input = 100 # encode_entries [(k, v), (k, w)] @ [101]" "length input \<le> u64_max"
  shows "decode (dec n @ 58 # rest) = Inl Panic
    \<and> find_raw_dict_value input k = Inr (encode v) \<and> decode_full input = Inr (BDict [(k, w)])"
  using huge_length_panics [OF assms(1,2)] duplicate_key_disagrees [OF assms(3-6)] by simp

theorem bencode_hostile_inputs_witness:
  "decode (dec u64_max @ 58 # []) = Inl Panic
   \<and> decode_full (100 # encode_entries [([97], BInt 1), ([97], BInt 2)] @ [101]) = Inr (BDict [([97], BInt 2)])"
proof -
  have "0 < length (dec u64_max)" by simp
  then show ?thesis
    using bencode_hostile_inputs [of u64_max "BInt 1" "BInt 2" _ "[97]", OF _ _ _ _ refl]
    by (simp add: enc_str_def dec.simps dec_int_def)
qed

end
