(* ===== verification/Bitfield.thy ===== *)
theory Bitfield
  imports Prelude
begin

text \<open>
  The piece bitfield of \<open>catalog/types.rs\<close> (most significant bit first, spare bits of
  the last byte clear) and the Have All / Have None buffer update of \<open>wire/fast.rs\<close>.
  The locale \<open>bit_set\<close> is what the hot set, the peer availability and the catalog rely
  on: reading after a write, and the two constant bitfields.
\<close>

section \<open>Operations\<close>

definition bitfield_size_bytes :: "nat \<Rightarrow> nat" where
  "bitfield_size_bytes piece_count = div_ceil piece_count 8"

definition bit_mask :: "nat \<Rightarrow> byte" where
  "bit_mask i = push_bit (7 - i mod 8) 1"

definition byte_at :: "bytes \<Rightarrow> nat \<Rightarrow> byte" where
  "byte_at bits k = (if k < length bits then bits ! k else 0)"

definition bitfield_get :: "bytes \<Rightarrow> nat \<Rightarrow> bool" where
  "bitfield_get bits i \<longleftrightarrow> byte_at bits (i div 8) AND bit_mask i \<noteq> 0"

definition bitfield_set :: "bytes \<Rightarrow> nat \<Rightarrow> bytes" where
  "bitfield_set bits i =
     (if i div 8 < length bits then bits[i div 8 := bits ! (i div 8) OR bit_mask i] else bits)"

definition empty_bitfield :: "nat \<Rightarrow> bytes" where
  "empty_bitfield piece_count = replicate (bitfield_size_bytes piece_count) 0"

definition all_set_bitfield :: "nat \<Rightarrow> bytes" where
  "all_set_bitfield piece_count =
     (let bits = replicate (bitfield_size_bytes piece_count) 0xff
      in if 0 < piece_count \<and> piece_count mod 8 \<noteq> 0
         then bits[length bits - 1 := push_bit (8 - piece_count mod 8) 0xff]
         else bits)"

definition count_have_bits :: "bytes \<Rightarrow> nat \<Rightarrow> nat" where
  "count_have_bits bits piece_count =
     foldl (\<lambda>n i. if byte_at bits (i div 8) AND bit_mask i \<noteq> 0 then n + 1 else n)
       0 [0..<piece_count]"

definition apply_have_all_none :: "bytes \<Rightarrow> nat \<Rightarrow> bool \<Rightarrow> bytes" where
  "apply_have_all_none peer_bf piece_count all =
     (if all then
        (let filled = map (\<lambda>_. 0xff) peer_bf; rem = piece_count mod 8
         in if rem \<noteq> 0 \<and> filled \<noteq> []
            then filled[length filled - 1 := last filled AND push_bit (8 - rem) 0xff]
            else filled)
      else map (\<lambda>_. 0) peer_bf)"

section \<open>Reading bits\<close>

lemma bitfield_get_bit [bit_facts]:
  "bitfield_get bits i \<longleftrightarrow> i div 8 < length bits \<and> bit (bits ! (i div 8)) (7 - i mod 8)"
  by (simp add: bitfield_get_def byte_at_def bit_mask_def bit_iff_and_push_bit_not_eq_0)

lemma length_bitfield_set [simp]: "length (bitfield_set bits i) = length bits"
  by (simp add: bitfield_set_def)

lemma same_bit_position: "i div 8 = j div 8 \<Longrightarrow> 7 - i mod 8 = 7 - j mod 8 \<Longrightarrow> i = (j::nat)"
proof -
  assume "i div 8 = j div 8" and m: "7 - i mod 8 = 7 - j mod 8"
  have "i mod 8 < 8" "j mod 8 < 8" by simp_all
  with m have "i mod 8 = j mod 8" by linarith
  with \<open>i div 8 = j div 8\<close> show "i = j" by (metis div_mult_mod_eq)
qed

lemma bitfield_get_set:
  "bitfield_get (bitfield_set bits i) j \<longleftrightarrow>
     bitfield_get bits j \<or> (j = i \<and> i div 8 < length bits)"
  by (auto simp: bitfield_get_bit bitfield_set_def bit_mask_def nth_list_update bit_simps
      dest: same_bit_position)

lemma length_empty_bitfield [simp]: "length (empty_bitfield pc) = bitfield_size_bytes pc"
  by (simp add: empty_bitfield_def)

lemma length_all_set_bitfield [simp]: "length (all_set_bitfield pc) = bitfield_size_bytes pc"
  by (simp add: all_set_bitfield_def Let_def)

lemma bitfield_get_empty [simp]: "\<not> bitfield_get (empty_bitfield pc) i"
  by (simp add: bitfield_get_bit empty_bitfield_def)

lemma bitfield_size_covers: "i < pc \<Longrightarrow> i div 8 < bitfield_size_bytes pc"
proof -
  assume "i < pc"
  moreover have "i div 8 * 8 \<le> i" by simp
  ultimately have "\<not> div_ceil pc 8 \<le> i div 8"
    using div_ceil_le_iff [of 8 pc "i div 8"] by linarith
  then show ?thesis by (simp add: bitfield_size_bytes_def)
qed

lemma bitfield_get_zero_bytes [simp]: "\<not> bitfield_get (map (\<lambda>_. 0) xs) i"
  by (simp add: bitfield_get_bit)

lemma bit_ff [simp]: "bit (255 :: int) n \<longleftrightarrow> n < 8"
proof -
  have "(255 :: int) = mask 8" by (simp add: mask_eq_exp_minus_1)
  then show ?thesis by (simp only: bit_mask_iff) simp
qed

lemma mask_pos_less [simp]: "7 - i mod 8 < (8::nat)"
  by linarith

lemma bitfield_get_all_set: "bitfield_get (all_set_bitfield pc) i \<longleftrightarrow> i < pc"
proof -
  have bounds: "i mod 8 < 8" "pc mod 8 < 8" by simp_all
  show ?thesis
  proof (cases "pc mod 8 = 0")
    case True
    then have "i div 8 < bitfield_size_bytes pc \<longleftrightarrow> i < pc"
      by (auto simp: bitfield_size_bytes_def div_ceil_def)
    with True show ?thesis by (auto simp: bitfield_get_bit all_set_bitfield_def Let_def)
  next
    case False
    then have len: "bitfield_size_bytes pc = Suc (pc div 8)" and pos: "0 < pc"
      by (auto simp: bitfield_size_bytes_def div_ceil_def)
    consider "i div 8 < pc div 8" | "i div 8 = pc div 8" | "pc div 8 < i div 8" by linarith
    then show ?thesis
    proof cases
      case 1
      then have "i < pc" by (metis div_le_mono linorder_not_le)
      with 1 False pos len show ?thesis
        by (simp add: bitfield_get_bit all_set_bitfield_def Let_def nth_list_update
            del: replicate_Suc)
    next
      case 2
      have "i < pc \<longleftrightarrow> i mod 8 < pc mod 8"
        using 2 by (metis div_mult_mod_eq nat_add_left_cancel_less)
      with 2 False pos len bounds show ?thesis
        by (auto simp: bitfield_get_bit all_set_bitfield_def Let_def bit_simps nth_list_update
            simp del: replicate_Suc)
    next
      case 3
      then have "\<not> i < pc" by (metis div_le_mono less_imp_le_nat linorder_not_le)
      with 3 False pos len show ?thesis
        by (simp add: bitfield_get_bit all_set_bitfield_def Let_def del: replicate_Suc)
    qed
  qed
qed

lemma count_have_bits_card: "count_have_bits bits pc = card {i. i < pc \<and> bitfield_get bits i}"
  unfolding count_have_bits_def bitfield_get_def [symmetric]
  by (simp add: foldl_count_card)

lemma apply_have_all_eq:
  assumes "length bf = bitfield_size_bytes pc"
  shows "apply_have_all_none bf pc True = all_set_bitfield pc"
proof (cases "pc mod 8 = 0")
  case True
  then show ?thesis
    by (simp add: apply_have_all_none_def all_set_bitfield_def Let_def assms [symmetric]
        map_replicate_const)
next
  case False
  then have "bf \<noteq> []" "0 < pc"
    using assms by (auto simp: bitfield_size_bytes_def div_ceil_def)
  moreover have "(255 AND push_bit (8 - pc mod 8) 255 :: byte) = push_bit (8 - pc mod 8) 255"
    by (rule bit_word_eqI) (auto simp: bit_simps)
  ultimately show ?thesis using False
    by (simp add: apply_have_all_none_def all_set_bitfield_def Let_def assms [symmetric]
        map_replicate_const)
qed

lemma apply_have_none_get [simp]: "\<not> bitfield_get (apply_have_all_none bf pc False) i"
  by (simp add: apply_have_all_none_def)

section \<open>The bit set interface\<close>

locale bit_set =
  fixes bget :: "'b \<Rightarrow> nat \<Rightarrow> bool"
    and bset :: "'b \<Rightarrow> nat \<Rightarrow> 'b"
    and fits :: "'b \<Rightarrow> nat \<Rightarrow> bool"
  assumes get_set: "fits b n \<Longrightarrow> i < n \<Longrightarrow> bget (bset b i) j \<longleftrightarrow> bget b j \<or> j = i"
    and fits_set: "fits b n \<Longrightarrow> fits (bset b i) n"
begin

definition members :: "'b \<Rightarrow> nat \<Rightarrow> nat set" where
  "members b n = {i. i < n \<and> bget b i}"

lemma finite_members [simp]: "finite (members b n)"
  by (simp add: members_def)

lemma members_set: "fits b n \<Longrightarrow> i < n \<Longrightarrow> members (bset b i) n = insert i (members b n)"
  by (auto simp: members_def get_set)

lemma card_members_set:
  "fits b n \<Longrightarrow> i < n \<Longrightarrow> \<not> bget b i \<Longrightarrow> card (members (bset b i) n) = Suc (card (members b n))"
  by (simp add: members_set) (simp add: members_def)

lemma card_members_le: "card (members b n) \<le> n"
  using card_mono [of "{..<n}" "members b n"] by (auto simp: members_def)

lemma members_full: "card (members b n) = n \<longleftrightarrow> members b n = {..<n}"
proof
  assume "card (members b n) = n"
  then show "members b n = {..<n}" by (intro card_subset_eq) (auto simp: members_def)
qed simp

lemma fits_fold: "fits b n \<Longrightarrow> fits (fold (\<lambda>i c. bset c i) is b) n"
  by (induction "is" arbitrary: b) (auto simp: fits_set)

lemma get_fold:
  "fits b n \<Longrightarrow> set is \<subseteq> {..<n} \<Longrightarrow>
     bget (fold (\<lambda>i c. bset c i) is b) j \<longleftrightarrow> bget b j \<or> j \<in> set is"
  by (induction "is" arbitrary: b) (auto simp: fits_set get_set)

end

definition bf_fits :: "bytes \<Rightarrow> nat \<Rightarrow> bool" where
  "bf_fits bits pc \<longleftrightarrow> bitfield_size_bytes pc \<le> length bits"

interpretation bf: bit_set bitfield_get bitfield_set bf_fits
proof unfold_locales
  show "bitfield_get (bitfield_set b i) j \<longleftrightarrow> bitfield_get b j \<or> j = i"
    if "bf_fits b n" "i < n" for b n i j
    using that bitfield_size_covers [of i n] by (auto simp: bitfield_get_set bf_fits_def)
  show "bf_fits (bitfield_set b i) n" if "bf_fits b n" for b n i
    using that by (simp add: bf_fits_def)
qed

lemma bf_fits_empty [simp, inv_intros]: "bf_fits (empty_bitfield pc) pc"
  by (simp add: bf_fits_def)

lemma bf_fits_all_set [simp, inv_intros]: "bf_fits (all_set_bitfield pc) pc"
  by (simp add: bf_fits_def)

lemma bf_members_empty [simp]: "bf.members (empty_bitfield pc) n = {}"
  by (simp add: bf.members_def)

lemma bf_members_all_set [simp]: "bf.members (all_set_bitfield pc) pc = {..<pc}"
  by (auto simp: bf.members_def bitfield_get_all_set)

lemma count_have_bits_members: "count_have_bits bits pc = card (bf.members bits pc)"
  by (simp add: count_have_bits_card bf.members_def)

section \<open>Properties\<close>

text \<open>The bitfield is a set of piece indices: setting a piece makes exactly that piece
  present and keeps all others and the length, the have count is the number of present
  indices, and the fresh, the complete and the Have-All bitfields hold none and all of the
  pieces, with no padding bit set.\<close>

theorem bitfield_is_a_set:
  assumes "bitfield_size_bytes pc \<le> length bits" "i < pc"
  shows "(\<forall>j. bitfield_get (bitfield_set bits i) j = (j = i \<or> bitfield_get bits j))
    \<and> length (bitfield_set bits i) = length bits
    \<and> count_have_bits (bitfield_set bits i) pc =
        (if bitfield_get bits i then count_have_bits bits pc else Suc (count_have_bits bits pc))
    \<and> (\<forall>j. bitfield_get (all_set_bitfield pc) j = (j < pc))
    \<and> (\<forall>j. \<not> bitfield_get (empty_bitfield pc) j)
    \<and> (\<forall>j. length bits \<noteq> bitfield_size_bytes pc \<or> bitfield_get (apply_have_all_none bits pc True) j = (j < pc))"
proof -
  have f: "bf_fits bits pc" using assms(1) by (simp add: bf_fits_def)
  have "finite (bf.members bits pc)" by simp
  moreover have "i \<in> bf.members bits pc \<longleftrightarrow> bitfield_get bits i"
    using assms(2) by (simp add: bf.members_def)
  ultimately have "count_have_bits (bitfield_set bits i) pc =
      (if bitfield_get bits i then count_have_bits bits pc else Suc (count_have_bits bits pc))"
    using bf.members_set [OF f assms(2)]
    by (simp add: count_have_bits_members card_insert_if)
  then show ?thesis
    using bitfield_size_covers [OF assms(2)] assms(1)
    by (auto simp: bitfield_get_set bitfield_get_all_set apply_have_all_eq)
qed

theorem bitfield_is_a_set_witness:
  "count_have_bits (bitfield_set [0x80, 0] 9) 10 = Suc (count_have_bits [0x80, 0] 10)"
proof -
  have "\<not> bitfield_get [0x80, 0] 9" "bitfield_size_bytes 10 \<le> length [0x80 :: byte, 0]"
    by (simp_all add: bitfield_get_def byte_at_def bitfield_size_bytes_def div_ceil_def)
  then show ?thesis using bitfield_is_a_set [of 10 "[0x80, 0]" 9] by (simp only: if_False)
qed

end
