(* ===== verification/Wire.thy ===== *)
theory Wire
  imports Rust_Std Bitfield
begin

text \<open>
  BitTorrent wire messages (\<open>wire/messages.rs\<close>): the handshake, the length-prefixed
  frames of BEP 3, BEP 6 and BEP 10, their encoder and their incremental parser, and the
  allowed-fast set of \<open>wire/fast.rs\<close>. SHA-1 is a third-party crate: it is the parameter
  \<open>sha1\<close>. Integers on the wire are words; \<open>Inr None\<close> is the parser asking for more
  bytes.
\<close>

section \<open>Constants and types\<close>

definition BT_PROTOCOL :: bytes where
  "BT_PROTOCOL = ascii ''BitTorrent protocol''"

abbreviation HANDSHAKE_LEN :: nat where "HANDSHAKE_LEN \<equiv> 68"
abbreviation MSG_CHOKE :: byte where "MSG_CHOKE \<equiv> 0"
abbreviation MSG_UNCHOKE :: byte where "MSG_UNCHOKE \<equiv> 1"
abbreviation MSG_INTERESTED :: byte where "MSG_INTERESTED \<equiv> 2"
abbreviation MSG_NOT_INTERESTED :: byte where "MSG_NOT_INTERESTED \<equiv> 3"
abbreviation MSG_HAVE :: byte where "MSG_HAVE \<equiv> 4"
abbreviation MSG_BITFIELD :: byte where "MSG_BITFIELD \<equiv> 5"
abbreviation MSG_REQUEST :: byte where "MSG_REQUEST \<equiv> 6"
abbreviation MSG_PIECE :: byte where "MSG_PIECE \<equiv> 7"
abbreviation MSG_CANCEL :: byte where "MSG_CANCEL \<equiv> 8"
abbreviation MSG_SUGGEST :: byte where "MSG_SUGGEST \<equiv> 13"
abbreviation MSG_HAVE_ALL :: byte where "MSG_HAVE_ALL \<equiv> 14"
abbreviation MSG_HAVE_NONE :: byte where "MSG_HAVE_NONE \<equiv> 15"
abbreviation MSG_REJECT :: byte where "MSG_REJECT \<equiv> 16"
abbreviation MSG_ALLOWED_FAST :: byte where "MSG_ALLOWED_FAST \<equiv> 17"
abbreviation MSG_EXTENDED :: byte where "MSG_EXTENDED \<equiv> 20"
abbreviation EXT_HANDSHAKE :: byte where "EXT_HANDSHAKE \<equiv> 0"
abbreviation LTEP_REQQ :: nat where "LTEP_REQQ \<equiv> 8192"
abbreviation MAX_MESSAGE_LENGTH :: nat where "MAX_MESSAGE_LENGTH \<equiv> 1048576"
abbreviation SIZEOF_PIECE :: nat where "SIZEOF_PIECE \<equiv> 13"
abbreviation HS_EXT_BYTE :: nat where "HS_EXT_BYTE \<equiv> 25"
abbreviation HS_EXT_BIT :: byte where "HS_EXT_BIT \<equiv> 0x10"
abbreviation HS_FAST_BYTE :: nat where "HS_FAST_BYTE \<equiv> 27"
abbreviation HS_FAST_BIT :: byte where "HS_FAST_BIT \<equiv> 0x04"

datatype message =
    KeepAlive
  | Choke
  | Unchoke
  | Interested
  | NotInterested
  | Have "32 word"
  | Bitfield bytes
  | Request "32 word" "32 word" "32 word"
  | Piece "32 word" "32 word" bytes
  | Cancel "32 word" "32 word" "32 word"
  | SuggestPiece "32 word"
  | HaveAll
  | HaveNone
  | RejectRequest "32 word" "32 word" "32 word"
  | AllowedFast "32 word"
  | Extended byte bytes
  | Unknown byte bytes

datatype parsed_message =
    Msg message
  | PPiece "32 word" "32 word" bytes

datatype wire_error =
    MessageTooLong nat
  | BadPiece | BadHave | BadRequest | BadCancel | BadSuggest | BadHaveAll | BadHaveNone
  | BadReject | BadAllowedFast | BadExtended | BadPieceLength
  | HandshakeTruncated | NotBtHandshake

section \<open>Handshake\<close>

definition encode_handshake :: "bytes \<Rightarrow> bytes \<Rightarrow> bytes" where
  "encode_handshake infohash peer_id =
     (let buf = 19 # BT_PROTOCOL @ replicate 8 0;
          buf = buf[HS_EXT_BYTE := buf ! HS_EXT_BYTE OR HS_EXT_BIT];
          buf = buf[HS_FAST_BYTE := buf ! HS_FAST_BYTE OR HS_FAST_BIT]
      in buf @ infohash @ peer_id)"

definition handshake_supports_extensions :: "bytes \<Rightarrow> bool" where
  "handshake_supports_extensions hs \<longleftrightarrow>
     length hs > HS_EXT_BYTE \<and> hs ! HS_EXT_BYTE AND HS_EXT_BIT \<noteq> 0"

definition handshake_supports_fast :: "bytes \<Rightarrow> bool" where
  "handshake_supports_fast hs \<longleftrightarrow>
     length hs > HS_FAST_BYTE \<and> hs ! HS_FAST_BYTE AND HS_FAST_BIT \<noteq> 0"

definition parse_handshake :: "bytes \<Rightarrow> wire_error + (bytes \<times> bytes)" where
  "parse_handshake buf =
     (if length buf < HANDSHAKE_LEN then Inl HandshakeTruncated
      else if buf ! 0 \<noteq> 19 \<or> slice 1 20 buf \<noteq> BT_PROTOCOL then Inl NotBtHandshake
      else Inr (slice 28 48 buf, slice 48 68 buf))"

definition looks_like_bt_handshake :: "bytes \<Rightarrow> bool" where
  "looks_like_bt_handshake buf \<longleftrightarrow>
     length buf \<ge> 20 \<and> buf ! 0 = 19 \<and> slice 1 20 buf = BT_PROTOCOL"

section \<open>Encoding\<close>

definition append_id :: "bytes \<Rightarrow> byte \<Rightarrow> bytes \<Rightarrow> bytes" where
  "append_id out mid payload = out @ be32 (of_nat (1 + length payload)) @ mid # payload"

definition encode_id :: "byte \<Rightarrow> bytes \<Rightarrow> bytes" where
  "encode_id mid payload = append_id [] mid payload"

definition append_keepalive :: "bytes \<Rightarrow> bytes" where
  "append_keepalive out = out @ [0, 0, 0, 0]"

definition append_interested :: "bytes \<Rightarrow> bytes" where
  "append_interested out = append_id out MSG_INTERESTED []"

definition append_not_interested :: "bytes \<Rightarrow> bytes" where
  "append_not_interested out = append_id out MSG_NOT_INTERESTED []"

definition append_have :: "bytes \<Rightarrow> 32 word \<Rightarrow> bytes" where
  "append_have out index = append_id out MSG_HAVE (be32 index)"

definition append_request :: "bytes \<Rightarrow> 32 word \<Rightarrow> 32 word \<Rightarrow> 32 word \<Rightarrow> bytes" where
  "append_request out index begin len = append_id out MSG_REQUEST (be32 index @ be32 begin @ be32 len)"

definition append_cancel :: "bytes \<Rightarrow> 32 word \<Rightarrow> 32 word \<Rightarrow> 32 word \<Rightarrow> bytes" where
  "append_cancel out index begin len = append_id out MSG_CANCEL (be32 index @ be32 begin @ be32 len)"

definition append_reject_request :: "bytes \<Rightarrow> 32 word \<Rightarrow> 32 word \<Rightarrow> 32 word \<Rightarrow> bytes" where
  "append_reject_request out index begin len =
     append_id out MSG_REJECT (be32 index @ be32 begin @ be32 len)"

fun encode_message :: "message \<Rightarrow> bytes" where
  "encode_message KeepAlive = [0, 0, 0, 0]"
| "encode_message Choke = encode_id MSG_CHOKE []"
| "encode_message Unchoke = encode_id MSG_UNCHOKE []"
| "encode_message Interested = encode_id MSG_INTERESTED []"
| "encode_message NotInterested = encode_id MSG_NOT_INTERESTED []"
| "encode_message (Have i) = encode_id MSG_HAVE (be32 i)"
| "encode_message (Bitfield bf) = encode_id MSG_BITFIELD bf"
| "encode_message (Request index begin len) = append_request [] index begin len"
| "encode_message (Piece index begin block) = encode_id MSG_PIECE (be32 index @ be32 begin @ block)"
| "encode_message (Cancel index begin len) = append_cancel [] index begin len"
| "encode_message (SuggestPiece i) = encode_id MSG_SUGGEST (be32 i)"
| "encode_message HaveAll = encode_id MSG_HAVE_ALL []"
| "encode_message HaveNone = encode_id MSG_HAVE_NONE []"
| "encode_message (RejectRequest index begin len) = append_reject_request [] index begin len"
| "encode_message (AllowedFast i) = encode_id MSG_ALLOWED_FAST (be32 i)"
| "encode_message (Extended ext_id payload) = encode_id MSG_EXTENDED (ext_id # payload)"
| "encode_message (Unknown mid payload) = encode_id mid payload"

definition encode_extended_handshake :: "bytes \<Rightarrow> nat \<Rightarrow> byte option \<Rightarrow> bytes" where
  "encode_extended_handshake client listen_port e =
     (let benc = ascii ''d''
            @ (case e of None \<Rightarrow> [] | Some ev \<Rightarrow> ascii ''1:ei'' @ dec (unat ev) @ ascii ''e'')
            @ ascii ''1:mde''
            @ ascii ''1:pi'' @ dec listen_port @ ascii ''e''
            @ ascii ''4:reqqi'' @ dec LTEP_REQQ @ ascii ''e''
            @ ascii ''1:v'' @ dec (length client) @ ascii '':''
            @ client @ ascii ''e''
      in encode_message (Extended EXT_HANDSHAKE benc))"

section \<open>Parsing\<close>

record piece_header =
  ph_index :: "32 word"
  ph_begin :: "32 word"
  ph_block_len :: nat
  ph_message_len :: nat

definition parse_piece_header :: "bytes \<Rightarrow> wire_error + piece_header option" where
  "parse_piece_header buf =
     (if length buf < SIZEOF_PIECE then Inr None
      else
        let message_len = unat (of_be32 (slice 0 4 buf))
        in if message_len = 0 then Inr None
           else if message_len > MAX_MESSAGE_LENGTH then Inl (MessageTooLong message_len)
           else if buf ! 4 \<noteq> MSG_PIECE then Inr None
           else if message_len < 9 then Inl BadPieceLength
           else Inr (Some \<lparr>ph_index = of_be32 (slice 5 9 buf), ph_begin = of_be32 (slice 9 13 buf),
                           ph_block_len = message_len - 9, ph_message_len = message_len\<rparr>))"

text \<open>The \<open>match id\<close> of \<open>parse_message\<close> on a complete frame.\<close>

definition parse_payload :: "byte \<Rightarrow> bytes \<Rightarrow> wire_error + parsed_message" where
  "parse_payload mid payload =
     (if mid = MSG_PIECE then
        (if length payload < 8 then Inl BadPiece
         else Inr (PPiece (of_be32 (slice 0 4 payload)) (of_be32 (slice 4 8 payload)) (drop 8 payload)))
      else if mid = MSG_CHOKE then Inr (Msg Choke)
      else if mid = MSG_UNCHOKE then Inr (Msg Unchoke)
      else if mid = MSG_INTERESTED then Inr (Msg Interested)
      else if mid = MSG_NOT_INTERESTED then Inr (Msg NotInterested)
      else if mid = MSG_HAVE then
        (if length payload \<noteq> 4 then Inl BadHave else Inr (Msg (Have (of_be32 payload))))
      else if mid = MSG_BITFIELD then Inr (Msg (Bitfield payload))
      else if mid = MSG_REQUEST then
        (if length payload \<noteq> 12 then Inl BadRequest
         else Inr (Msg (Request (of_be32 (slice 0 4 payload)) (of_be32 (slice 4 8 payload))
                                (of_be32 (slice 8 12 payload)))))
      else if mid = MSG_CANCEL then
        (if length payload \<noteq> 12 then Inl BadCancel
         else Inr (Msg (Cancel (of_be32 (slice 0 4 payload)) (of_be32 (slice 4 8 payload))
                               (of_be32 (slice 8 12 payload)))))
      else if mid = MSG_SUGGEST then
        (if length payload \<noteq> 4 then Inl BadSuggest else Inr (Msg (SuggestPiece (of_be32 payload))))
      else if mid = MSG_HAVE_ALL then
        (if payload \<noteq> [] then Inl BadHaveAll else Inr (Msg HaveAll))
      else if mid = MSG_HAVE_NONE then
        (if payload \<noteq> [] then Inl BadHaveNone else Inr (Msg HaveNone))
      else if mid = MSG_REJECT then
        (if length payload \<noteq> 12 then Inl BadReject
         else Inr (Msg (RejectRequest (of_be32 (slice 0 4 payload)) (of_be32 (slice 4 8 payload))
                                      (of_be32 (slice 8 12 payload)))))
      else if mid = MSG_ALLOWED_FAST then
        (if length payload \<noteq> 4 then Inl BadAllowedFast else Inr (Msg (AllowedFast (of_be32 payload))))
      else if mid = MSG_EXTENDED then
        (case payload of [] \<Rightarrow> Inl BadExtended | x # p \<Rightarrow> Inr (Msg (Extended x p)))
      else Inr (Msg (Unknown mid payload)))"

definition parse_message :: "bytes \<Rightarrow> wire_error + (parsed_message \<times> nat) option" where
  "parse_message buf =
     (if length buf < 4 then Inr None
      else
        let len = unat (of_be32 (slice 0 4 buf))
        in if len = 0 then Inr (Some (Msg KeepAlive, 4))
           else if len > MAX_MESSAGE_LENGTH then Inl (MessageTooLong len)
           else if length buf < 4 + len then Inr None
           else case parse_payload (buf ! 4) (slice 5 (4 + len) buf) of
                  Inl e \<Rightarrow> Inl e
                | Inr m \<Rightarrow> Inr (Some (m, 4 + len)))"

section \<open>The codec law\<close>

text \<open>Messages the encoder can be given: payloads that fit the frame cap; \<open>Unknown\<close> ids
  that are not those of a known message.\<close>

definition known_ids :: "byte set" where
  "known_ids = {0, 1, 2, 3, 4, 5, 6, 7, 8, 13, 14, 15, 16, 17, 20}"

fun msg_ok :: "message \<Rightarrow> bool" where
  "msg_ok (Bitfield bf) = (length bf < MAX_MESSAGE_LENGTH)"
| "msg_ok (Piece _ _ block) = (length block + 9 \<le> MAX_MESSAGE_LENGTH)"
| "msg_ok (Extended _ p) = (length p + 2 \<le> MAX_MESSAGE_LENGTH)"
| "msg_ok (Unknown mid p) = (mid \<notin> known_ids \<and> length p < MAX_MESSAGE_LENGTH)"
| "msg_ok _ = True"

fun parsed_of :: "message \<Rightarrow> parsed_message" where
  "parsed_of (Piece index begin block) = PPiece index begin block"
| "parsed_of m = Msg m"

lemma slice_be32_3 [codec_simps]:
  "slice 0 4 (be32 a @ xs) = be32 a"
  "slice 4 8 (be32 a @ be32 b @ xs) = be32 b"
  "slice 8 12 (be32 a @ be32 b @ be32 c @ xs) = be32 c"
  "drop 8 (be32 a @ be32 b @ xs) = xs"
  by (simp_all add: slice_def)

lemma slice_be32_3' [codec_simps]:
  "slice 0 4 (be32 a) = be32 a" "slice 4 8 (be32 a @ be32 b) = be32 b"
  "slice 8 12 (be32 a @ be32 b @ be32 c) = be32 c"
  by (simp_all add: slice_def)

lemma encode_id_eq [codec_simps]:
  "encode_id mid payload = be32 (of_nat (Suc (length payload))) @ mid # payload"
  by (simp add: encode_id_def append_id_def)

lemma length_encode_id [simp]: "length (encode_id mid payload) = 5 + length payload"
  by (simp add: encode_id_eq)

lemma unat_frame_len: "n \<le> MAX_MESSAGE_LENGTH \<Longrightarrow> unat (of_nat n :: 32 word) = n"
  by (simp add: unsigned_of_nat take_bit_nat_eq_self)

lemma parse_frame:
  assumes "Suc (length payload) \<le> MAX_MESSAGE_LENGTH"
  shows "parse_message (encode_id mid payload @ rest) =
     (case parse_payload mid payload of Inl e \<Rightarrow> Inl e
      | Inr m \<Rightarrow> Inr (Some (m, 5 + length payload)))"
proof -
  let ?buf = "encode_id mid payload @ rest"
  have len: "unat (of_be32 (slice 0 4 ?buf)) = Suc (length payload)"
    by (simp only: encode_id_eq append_assoc codec_simps of_be32_be32 unat_frame_len [OF assms])
  have "?buf ! 4 = mid" "slice 5 (4 + Suc (length payload)) ?buf = payload"
    by (simp_all add: encode_id_eq nth_append slice_def)
  with len assms show ?thesis
    by (simp add: parse_message_def Let_def split: sum.split)
qed

lemma append_id_encode_id: "append_id out mid payload = out @ encode_id mid payload"
  by (simp add: encode_id_def append_id_def)

lemmas append_defs = append_request_def append_cancel_def append_reject_request_def
  append_have_def append_interested_def append_not_interested_def

lemma append_is_encode:
  "append_keepalive out = out @ encode_message KeepAlive"
  "append_interested out = out @ encode_message Interested"
  "append_not_interested out = out @ encode_message NotInterested"
  "append_have out i = out @ encode_message (Have i)"
  "append_request out i b l = out @ encode_message (Request i b l)"
  "append_cancel out i b l = out @ encode_message (Cancel i b l)"
  "append_reject_request out i b l = out @ encode_message (RejectRequest i b l)"
  by (simp_all add: append_keepalive_def append_defs append_id_encode_id)

lemma parse_encode:
  assumes "msg_ok m"
  shows "parse_message (encode_message m @ rest) = Inr (Some (parsed_of m, length (encode_message m)))"
proof (cases m)
  case KeepAlive
  have "be32 0 = [0, 0, 0, 0]" by (simp add: be32_def)
  then have "of_be32 [0, 0, 0, 0] = 0" by (metis of_be32_be32)
  with KeepAlive show ?thesis by (simp add: parse_message_def slice_def)
next
  case (Unknown mid p)
  with assms have "parse_payload mid p = Inr (Msg (Unknown mid p))"
    by (simp add: parse_payload_def known_ids_def)
  with Unknown assms show ?thesis by (simp add: parse_frame)
qed (use assms in \<open>simp_all add: parse_frame append_defs append_id_encode_id parse_payload_def
       codec_simps del: encode_id_eq\<close>)

lemma encode_message_nonempty [simp]: "encode_message m \<noteq> []"
  by (cases m) (simp_all add: encode_id_eq append_defs append_id_encode_id)

lemma parse_bounds:
  assumes "parse_message buf = Inr (Some (m, n))"
  shows "4 \<le> n \<and> n \<le> length buf \<and> n \<le> 4 + MAX_MESSAGE_LENGTH"
  using assms by (auto simp: parse_message_def Let_def split: if_splits sum.splits)

lemma slice_append_prefix: "b \<le> length xs \<Longrightarrow> slice a b (xs @ ys) = slice a b xs"
  by (cases "a \<le> b") (auto simp: slice_def)

lemma parse_more_bytes:
  assumes "parse_message buf = Inr (Some r)"
  shows "parse_message (buf @ xs) = Inr (Some r)"
  using assms by (auto simp: parse_message_def Let_def nth_append slice_append_prefix
      split: if_splits sum.splits)

lemma parse_oversize:
  assumes "4 \<le> length buf" "unat (of_be32 (slice 0 4 buf)) > MAX_MESSAGE_LENGTH"
  shows "parse_message buf = Inl (MessageTooLong (unat (of_be32 (slice 0 4 buf))))"
  using assms by (simp add: parse_message_def Let_def)

lemma parse_proper_prefix:
  assumes "msg_ok m" "p @ q = encode_message m" "q \<noteq> []"
  shows "parse_message p = Inr None"
proof (rule ccontr)
  assume ne: "parse_message p \<noteq> Inr None"
  have full: "parse_message (p @ q) = Inr (Some (parsed_of m, length (encode_message m)))"
    using parse_encode [OF assms(1), of "[]"] assms(2) by simp
  show False
  proof (cases "parse_message p")
    case (Inr x)
    with ne obtain r where "parse_message p = Inr (Some r)" by (cases x) auto
    with parse_more_bytes [OF this, of q] full parse_bounds [of p "fst r" "snd r"] assms(2,3)
    show False by (metis add_le_same_cancel1 length_0_conv length_append le_zero_eq old.sum.inject(2)
          option.inject prod.collapse snd_conv)
  next
    case (Inl e)
    then have "4 \<le> length p" by (auto simp: parse_message_def split: if_splits)
    with Inl full show False
      by (auto simp: parse_message_def Let_def nth_append slice_append_prefix
          split: if_splits sum.splits)
  qed
qed

lemma parse_piece_header_agrees:
  assumes "parse_piece_header buf = Inr (Some h)" "4 + ph_message_len h \<le> length buf"
  shows "\<exists>block. parse_message buf = Inr (Some (PPiece (ph_index h) (ph_begin h) block, 4 + ph_message_len h))
     \<and> length block = ph_block_len h"
proof -
  from assms have h: "13 \<le> length buf" "ph_message_len h = unat (of_be32 (slice 0 4 buf))"
    "ph_message_len h \<noteq> 0" "ph_message_len h \<le> MAX_MESSAGE_LENGTH" "buf ! 4 = MSG_PIECE"
    "9 \<le> ph_message_len h" "ph_index h = of_be32 (slice 5 9 buf)" "ph_begin h = of_be32 (slice 9 13 buf)"
    "ph_block_len h = ph_message_len h - 9"
    by (auto simp: parse_piece_header_def Let_def split: if_splits)
  let ?pl = "slice 5 (4 + ph_message_len h) buf"
  have "slice 0 4 ?pl = slice 5 9 buf" "slice 4 8 ?pl = slice 9 13 buf"
    using h assms(2) by (simp_all add: slice_def take_drop min_def)
  with h assms(2) show ?thesis
    by (simp add: parse_message_def Let_def parse_payload_def)
qed

end
