(* ===== verification/Wire_Correct.thy ===== *)
theory Wire_Correct
  imports Wire Bencode_Correct
begin

text \<open>
  What the wire codec promises its callers: the frame and handshake round trips, exact
  incrementality, the agreement of the zero-copy \<open>PIECE\<close> header path with the general
  parser, and that the extended handshake, which the code writes by hand, is the canonical
  bencoding of its dictionary.
\<close>

lemma parse_message_oversize_or:
  "parse_message buf = Inl (MessageTooLong k) \<Longrightarrow> k > MAX_MESSAGE_LENGTH"
  by (auto simp: parse_message_def parse_payload_def Let_def split: if_splits sum.splits list.splits)

lemma handshake_bits:
  "encode_handshake ih pid = 19 # BT_PROTOCOL @ [0, 0, 0, 0, 0, 0x10, 0, 0x04] @ ih @ pid"
proof -
  have l: "length BT_PROTOCOL = 19" by (simp add: BT_PROTOCOL_def ascii_def)
  have r: "replicate 8 (0 :: byte) = [0, 0, 0, 0, 0, 0, 0, 0]" by (simp add: numeral_eq_Suc)
  show ?thesis
    by (simp add: encode_handshake_def Let_def r nth_append list_update_append l nth_Cons' list_update_code)
qed

lemma length_BT_PROTOCOL [simp]: "length BT_PROTOCOL = 19"
  by (simp add: BT_PROTOCOL_def ascii_def)

lemma piece_header_cases:
  "parse_piece_header buf = Inr (Some h) \<Longrightarrow> length buf < 4 + ph_message_len h \<or>
     (\<exists>block. parse_message buf = Inr (Some (PPiece (ph_index h) (ph_begin h) block, 4 + ph_message_len h))
       \<and> length block = ph_block_len h)"
  using parse_piece_header_agrees [of buf h] by (meson not_le)

text \<open>The dictionary of the extended handshake.\<close>

definition ext_handshake_dict :: "bytes \<Rightarrow> nat \<Rightarrow> byte option \<Rightarrow> bvalue" where
  "ext_handshake_dict client listen_port e =
     BDict ((case e of None \<Rightarrow> [] | Some ev \<Rightarrow> [(ascii ''e'', BInt (int (unat ev)))])
       @ [(ascii ''m'', BDict []), (ascii ''p'', BInt (int listen_port)),
          (ascii ''reqq'', BInt (int LTEP_REQQ)), (ascii ''v'', BBytes client)])"

lemma dec_small: "dec 1 = [49]" "dec 4 = [52]" "dec (Suc 0) = [49]" "dec (Suc (Suc (Suc (Suc 0)))) = [52]"
  by (simp_all add: dec.simps)

lemma dec_int_of_nat: "dec_int (int n) = dec n"
  by (simp add: dec_int_def)

lemma dec_int_uint [simp]: "dec_int (uint (b :: byte)) = dec (unat b)"
  by (simp add: dec_int_def)

lemma ext_handshake_encodes:
  "encode_extended_handshake client port e
     = encode_message (Extended EXT_HANDSHAKE (encode (ext_handshake_dict client port e)))"
  using dec_int_of_nat [of LTEP_REQQ]
  by (cases e) (simp_all add: encode_extended_handshake_def ext_handshake_dict_def enc_str_def
      dec_small dec_int_of_nat ascii_def Let_def)

lemma byte_less: "unat (b :: byte) < 256" "uint (b :: byte) < 256" "0 \<le> uint (b :: byte)"
  using unsigned_less [of b, where ?'a = nat] unsigned_less [of b, where ?'a = int] by simp_all

lemma byte_i64: "- 9223372036854775808 \<le> uint (b :: byte)" "uint (b :: byte) < 9223372036854775808"
  using byte_less [of b] by linarith+

lemma ext_handshake_ok: "port < 65536 \<Longrightarrow> bval_ok (ext_handshake_dict client port e)"
  using byte_i64 [of "the e"]
  by (cases e) (auto simp: ext_handshake_dict_def ascii_def)

section \<open>Properties\<close>

text \<open>C1. Every message round-trips through the codec, and the parser is exactly incremental:
  behind the encoding of a message that fits the frame cap any bytes may follow, the parser
  returns the message and its encoded length, and on every proper prefix it asks for more.\<close>

theorem wire_message_roundtrip:
  assumes "msg_ok m"
  shows "parse_message (encode_message m @ rest) = Inr (Some (parsed_of m, length (encode_message m)))
    \<and> (n < length (encode_message m) \<longrightarrow> parse_message (take n (encode_message m)) = Inr None)"
  using parse_encode [OF assms, of rest] parse_proper_prefix [OF assms append_take_drop_id, of n] by simp

theorem wire_message_roundtrip_witness:
  "parse_message (encode_message (Request 1 0 16384) @ [9])
     = Inr (Some (Msg (Request 1 0 16384), length (encode_message (Request 1 0 16384))))"
  using wire_message_roundtrip [of "Request 1 0 16384" "[9]" 0] by simp

text \<open>The parser never reads past its input or its cap: a parsed frame has at least the
  four length bytes, lies inside the buffer, is at most four bytes longer than the cap, and
  the result does not depend on what follows; the length error is raised only for a length
  over the cap; and the zero-copy \<open>PIECE\<close> header reports the same index, offset, length and
  frame end as the general parser finds once the frame is complete.\<close>

theorem wire_parser_bounds:
  "(case parse_message buf of
      Inr (Some (m, n)) \<Rightarrow> 4 \<le> n \<and> n \<le> length buf \<and> n \<le> 4 + MAX_MESSAGE_LENGTH
        \<and> parse_message (buf @ xs) = Inr (Some (m, n))
    | Inl (MessageTooLong k) \<Rightarrow> k > MAX_MESSAGE_LENGTH
    | _ \<Rightarrow> True)
   \<and> (case parse_piece_header buf of
        Inr (Some h) \<Rightarrow> length buf < 4 + ph_message_len h \<or>
          (\<exists>block. parse_message buf = Inr (Some (PPiece (ph_index h) (ph_begin h) block, 4 + ph_message_len h))
             \<and> length block = ph_block_len h)
      | _ \<Rightarrow> True)"
proof (rule conjI)
  show "case parse_message buf of
      Inr (Some (m, n)) \<Rightarrow> 4 \<le> n \<and> n \<le> length buf \<and> n \<le> 4 + MAX_MESSAGE_LENGTH
        \<and> parse_message (buf @ xs) = Inr (Some (m, n))
    | Inl (MessageTooLong k) \<Rightarrow> k > MAX_MESSAGE_LENGTH
    | _ \<Rightarrow> True"
    using parse_bounds [of buf] parse_more_bytes [of buf _ xs] parse_message_oversize_or [of buf]
    by (auto split: sum.splits option.splits wire_error.splits)
  show "case parse_piece_header buf of
        Inr (Some h) \<Rightarrow> length buf < 4 + ph_message_len h \<or>
          (\<exists>block. parse_message buf = Inr (Some (PPiece (ph_index h) (ph_begin h) block, 4 + ph_message_len h))
             \<and> length block = ph_block_len h)
      | _ \<Rightarrow> True"
    using piece_header_cases [of buf] by (auto split: sum.splits option.splits)
qed

text \<open>The handshakes are understood by the code's own readers: a 68-byte handshake parses
  back to its info-hash and peer id, is recognised as BitTorrent, and announces the extension
  protocol and the Fast extension; the extended handshake is the extended message 0 whose
  payload decodes to the dictionary of its keys in sorted order.\<close>

theorem handshakes_roundtrip:
  assumes "length ih = 20" "length pid = 20" "port < 65536" "length client \<le> 1000000"
  shows "parse_handshake (encode_handshake ih pid @ rest) = Inr (ih, pid)
    \<and> length (encode_handshake ih pid) = HANDSHAKE_LEN
    \<and> looks_like_bt_handshake (encode_handshake ih pid)
    \<and> handshake_supports_extensions (encode_handshake ih pid)
    \<and> handshake_supports_fast (encode_handshake ih pid)
    \<and> (\<exists>payload. encode_extended_handshake client port e = encode_message (Extended 0 payload)
         \<and> decode_full payload = Inr (ext_handshake_dict client port e))"
proof -
  let ?hs = "encode_handshake ih pid"
  have hs: "parse_handshake (?hs @ rest) = Inr (ih, pid)" "length ?hs = HANDSHAKE_LEN"
    "looks_like_bt_handshake ?hs" "handshake_supports_extensions ?hs" "handshake_supports_fast ?hs"
    using assms(1,2)
    by (simp_all add: parse_handshake_def handshake_bits slice_def looks_like_bt_handshake_def
        handshake_supports_extensions_def handshake_supports_fast_def nth_append)
  let ?v = "ext_handshake_dict client port e"
  have dl: "length (dec n) \<le> n + 1" for n
  proof (induction n rule: dec.induct)
    case (1 n)
    show ?case
    proof (cases "n < 10")
      case False
      then have "n div 10 + 1 \<le> n" by presburger
      with 1 False show ?thesis by (simp add: dec.simps [of n])
    qed (simp add: dec.simps [of n])
  qed
  have "length (encode ?v) \<le> u64_max"
    using assms(3,4) dl [of "length client"] dl [of port] dl [of LTEP_REQQ] byte_less(1) [of "the e"]
      dl [of "unat (the e)"] dec_int_of_nat [of LTEP_REQQ]
    by (cases e) (simp_all add: ext_handshake_dict_def enc_str_def dec_int_of_nat ascii_def dec_small)
  with decode_full_encode [OF ext_handshake_ok [OF assms(3)]]
  have "decode_full (encode ?v) = Inr ?v" by blast
  with hs ext_handshake_encodes [of client port e] show ?thesis by metis
qed

theorem handshakes_roundtrip_witness:
  "parse_handshake (encode_handshake (replicate 20 1) (replicate 20 2) @ [5])
     = Inr (replicate 20 1, replicate 20 2)"
  using handshakes_roundtrip [of "replicate 20 1" "replicate 20 2" 6881 "[]" "[5]" None] by simp

end
