(* ===== verification/Fast.thy ===== *)
theory Fast
  imports Wire
begin

text \<open>
  The Fast Extension helpers of \<open>wire/fast.rs\<close>: the allowed-fast set of BEP 6, the encoders
  of its messages, the first possession message and the per-connection Fast state. SHA-1 is
  the parameter \<open>sha1\<close>.
\<close>

section \<open>The allowed-fast set\<close>

abbreviation ALLOWED_FAST_K :: nat where "ALLOWED_FAST_K \<equiv> 10"

text \<open>One digest: the \<open>for i in 0..5\<close>; its \<open>break\<close> at \<open>k\<close> entries is the guard that keeps
  the list unchanged from there on.\<close>

definition fast_push :: "nat \<Rightarrow> nat \<Rightarrow> bytes \<Rightarrow> nat list \<Rightarrow> nat \<Rightarrow> nat list" where
  "fast_push k piece_count x a i =
     (if length a \<ge> k then a
      else let j = i * 4;
               y = of_be32 (slice j (j + 4) x);
               index = unat y mod piece_count
           in if index \<in> set a then a else a @ [index])"

definition fast_round :: "nat \<Rightarrow> nat \<Rightarrow> bytes \<Rightarrow> nat list \<Rightarrow> nat list" where
  "fast_round k piece_count x a = foldl (fast_push k piece_count x) a [0..<5]"

lemma fast_push_length: "length a \<le> length (fast_push k pc x a i)"
  by (simp add: fast_push_def Let_def)

lemma foldl_push_length: "length a \<le> length (foldl (fast_push k pc x) a is)"
  by (induction "is" arbitrary: a) (auto intro: order_trans [OF fast_push_length])

lemma fast_round_length: "length a \<le> length (fast_round k pc x a)"
  by (simp add: fast_round_def foldl_push_length del: upt_rec_numeral)

function fast_loop :: "(bytes \<Rightarrow> bytes) \<Rightarrow> nat \<Rightarrow> nat \<Rightarrow> bytes \<Rightarrow> nat list \<Rightarrow> nat \<Rightarrow> nat list" where
  "fast_loop sha1 k piece_count x a stagnant =
     (if length a < k then
        let x = sha1 x; a' = fast_round k piece_count x a
        in if length a' = length a then
             (if stagnant + 1 \<ge> 32 then a' else fast_loop sha1 k piece_count x a' (stagnant + 1))
           else fast_loop sha1 k piece_count x a' 0
      else a)"
  by pat_completeness auto
termination
proof (relation "measures [\<lambda>(_, k, _, _, a, _). k - length a, \<lambda>(_, _, _, _, _, s). 32 - s]", goal_cases)
  case (3 sha1 k pc x a st y a')
  then have "length a < length a'" using fast_round_length [of a k pc y] by simp
  with 3 show ?case by (simp add: diff_less_mono2)
qed simp_all

declare fast_loop.simps [simp del]

definition generate_allowed_fast_set ::
  "(bytes \<Rightarrow> bytes) \<Rightarrow> nat \<Rightarrow> nat \<Rightarrow> bytes \<Rightarrow> 32 word \<Rightarrow> nat list" where
  "generate_allowed_fast_set sha1 k piece_count infohash ip =
     (if k = 0 \<or> piece_count = 0 then []
      else let k = min k piece_count;
               masked = ip AND 0xFFFFFF00;
               x = be32 masked @ infohash
           in fast_loop sha1 k piece_count x [] 0)"

datatype ip_addr = V4 "32 word" | V6 "128 word"

fun allowed_fast_for_addr ::
  "(bytes \<Rightarrow> bytes) \<Rightarrow> nat \<Rightarrow> nat \<Rightarrow> bytes \<Rightarrow> ip_addr \<Rightarrow> nat list" where
  "allowed_fast_for_addr sha1 k piece_count infohash (V4 ip) =
     generate_allowed_fast_set sha1 k piece_count infohash ip"
| "allowed_fast_for_addr sha1 k piece_count infohash (V6 ip) = []"

section \<open>Messages and the session state\<close>

definition encode_allowed_fast_messages :: "32 word list \<Rightarrow> bytes" where
  "encode_allowed_fast_messages pieces =
     foldl (\<lambda>out i. out @ encode_message (AllowedFast i)) [] pieces"

definition encode_suggest_messages :: "32 word list \<Rightarrow> bytes" where
  "encode_suggest_messages pieces =
     foldl (\<lambda>out i. out @ encode_message (SuggestPiece i)) [] pieces"

definition encode_possession_fast :: "nat \<Rightarrow> nat \<Rightarrow> bytes \<Rightarrow> bytes" where
  "encode_possession_fast have_count piece_count bitfield =
     (if piece_count > 0 \<and> have_count \<ge> piece_count then encode_message HaveAll
      else if have_count = 0 then encode_message HaveNone
      else encode_message (Bitfield bitfield))"

record fast_session =
  fs_enabled :: bool
  fs_allowed_from_peer :: "nat set"
  fs_allowed_to_peer :: "nat set"

definition fast_session_new :: "bool \<Rightarrow> fast_session" where
  "fast_session_new enabled =
     \<lparr>fs_enabled = enabled, fs_allowed_from_peer = {}, fs_allowed_to_peer = {}\<rparr>"

definition on_allowed_fast :: "fast_session \<Rightarrow> nat \<Rightarrow> fast_session" where
  "on_allowed_fast s index = s\<lparr>fs_allowed_from_peer := insert index (fs_allowed_from_peer s)\<rparr>"

definition peer_allows_while_choked :: "fast_session \<Rightarrow> nat \<Rightarrow> bool" where
  "peer_allows_while_choked s index \<longleftrightarrow> fs_enabled s \<and> index \<in> fs_allowed_from_peer s"

definition we_allow_while_choking :: "fast_session \<Rightarrow> nat \<Rightarrow> bool" where
  "we_allow_while_choking s index \<longleftrightarrow> fs_enabled s \<and> index \<in> fs_allowed_to_peer s"

section \<open>What the set contains\<close>

definition fast_ok :: "nat \<Rightarrow> nat \<Rightarrow> nat list \<Rightarrow> bool" where
  "fast_ok k pc a \<longleftrightarrow> distinct a \<and> (\<forall>i \<in> set a. i < pc) \<and> length a \<le> k"

lemma fast_push_ok: "0 < pc \<Longrightarrow> fast_ok k pc a \<Longrightarrow> fast_ok k pc (fast_push k pc x a i)"
  by (auto simp: fast_ok_def fast_push_def Let_def)

lemma foldl_push_ok: "0 < pc \<Longrightarrow> fast_ok k pc a \<Longrightarrow> fast_ok k pc (foldl (fast_push k pc x) a is)"
  by (induction "is" arbitrary: a) (simp_all add: fast_push_ok)

lemma fast_round_ok [inv_intros]: "0 < pc \<Longrightarrow> fast_ok k pc a \<Longrightarrow> fast_ok k pc (fast_round k pc x a)"
  by (simp add: fast_round_def foldl_push_ok del: upt_rec_numeral)

lemma fast_loop_ok:
  "0 < pc \<Longrightarrow> fast_ok k pc a \<Longrightarrow> fast_ok k pc (fast_loop sha1 k pc x a st)"
  by (induction sha1 k pc x a st rule: fast_loop.induct)
     (subst fast_loop.simps, simp add: Let_def fast_round_ok)

lemma fast_round_grows_first:
  assumes "0 < k"
  shows "fast_round k pc x [] \<noteq> []"
proof -
  have "[0..<5] = 0 # [1..<5]" by (simp add: upt_rec)
  then have "fast_round k pc x [] = foldl (fast_push k pc x) (fast_push k pc x [] 0) [1..<5]"
    by (simp add: fast_round_def del: upt_rec_numeral)
  moreover have "0 < length (fast_push k pc x [] 0)" using assms by (simp add: fast_push_def Let_def)
  ultimately show ?thesis using foldl_push_length [of "fast_push k pc x [] 0"]
    by (metis length_greater_0_conv less_le_trans)
qed

lemma fast_loop_length: "length a \<le> length (fast_loop sha1 k pc x a st)"
proof (induction sha1 k pc x a st rule: fast_loop.induct)
  case (1 sha1 k pc x a st)
  show ?case
    using 1 fast_round_length [of a k pc "sha1 x"]
    by (subst fast_loop.simps) (auto simp: Let_def intro: order_trans)
qed

section \<open>A smaller set is a prefix of a larger one\<close>

lemma fast_push_take:
  assumes "k \<le> k'" "a = take k a'"
  shows "fast_push k pc x a i = take k (fast_push k' pc x a' i)"
proof (cases "length a' < k")
  case True
  with assms show ?thesis by (simp add: fast_push_def Let_def)
next
  case False
  with assms show ?thesis by (simp add: fast_push_def Let_def)
qed

lemma foldl_push_take:
  assumes "k \<le> k'" "a = take k a'"
  shows "foldl (fast_push k pc x) a is = take k (foldl (fast_push k' pc x) a' is)"
  using assms(2)
proof (induction "is" arbitrary: a a')
  case (Cons i "is")
  from Cons.IH [OF fast_push_take [OF assms(1) Cons.prems]] show ?case by simp
qed simp

lemma fast_push_extends: "\<exists>ys. fast_push k pc x a i = a @ ys"
  by (simp add: fast_push_def Let_def)

lemma foldl_push_extends: "\<exists>ys. foldl (fast_push k pc x) a is = a @ ys"
proof (induction "is" arbitrary: a)
  case (Cons i "is")
  obtain ys where "fast_push k pc x a i = a @ ys" using fast_push_extends by blast
  with Cons [of "a @ ys"] show ?case by auto
qed simp

lemma fast_loop_extends: "\<exists>ys. fast_loop sha1 k pc x a st = a @ ys"
proof (induction sha1 k pc x a st rule: fast_loop.induct)
  case (1 sha1 k pc x a st)
  obtain ys where r: "fast_round k pc (sha1 x) a = a @ ys"
    unfolding fast_round_def using foldl_push_extends by blast
  show ?case
    using 1 [OF _ refl refl] by (subst fast_loop.simps) (auto simp: Let_def r)
qed

lemma fast_loop_take:
  assumes "k \<le> k'" "length a \<le> k"
  shows "fast_loop sha1 k pc x a st = take k (fast_loop sha1 k' pc x a st)"
  using assms
proof (induction sha1 k' pc x a st rule: fast_loop.induct)
  case (1 sha1 k' pc x a st)
  define b where "b = fast_round k pc (sha1 x) a"
  define b' where "b' = fast_round k' pc (sha1 x) a"
  have b: "b = take k b'"
    unfolding b_def b'_def fast_round_def by (rule foldl_push_take) (use 1 in simp_all)
  obtain ys where ys: "fast_loop sha1 k' pc x a st = a @ ys" using fast_loop_extends by blast
  consider (full) "length a = k" | (stuck) "length a < k" "length b' = length a"
    | (exact) "length a < k" "length b' > length a" "length b' \<le> k" | (over) "length a < k" "length b' > k"
    using fast_round_length [of a k' pc "sha1 x"] 1 b'_def by fastforce
  then show ?case
  proof cases
    case full
    with ys show ?thesis by (simp add: fast_loop.simps [of sha1 k])
  next
    case stuck
    with b have "b = b'" by simp
    with stuck 1 show ?thesis
      by (subst fast_loop.simps, subst fast_loop.simps [of sha1 k'])
         (simp add: Let_def b_def [symmetric] b'_def [symmetric])
  next
    case exact
    with b have "b = b'" by simp
    with exact 1 show ?thesis
      by (subst fast_loop.simps, subst fast_loop.simps [of sha1 k'])
         (simp add: Let_def b_def [symmetric] b'_def [symmetric])
  next
    case over
    with b have lb: "length b = k" by simp
    obtain zs where zs: "fast_loop sha1 k' pc (sha1 x) b' 0 = b' @ zs" using fast_loop_extends by blast
    have "fast_loop sha1 k pc x a st = b"
      using over lb by (subst fast_loop.simps) (simp add: Let_def b_def [symmetric] fast_loop.simps [of sha1 k])
    moreover have "fast_loop sha1 k' pc x a st = b' @ zs"
      using over 1 zs by (subst fast_loop.simps) (simp add: Let_def b'_def [symmetric])
    ultimately show ?thesis using b over by simp
  qed
qed

section \<open>Properties\<close>

text \<open>The allowed-fast set always terminates with at most \<open>min(k, piece_count)\<close> distinct
  valid piece indices, is not empty when both are positive, and for a smaller \<open>k\<close> is a prefix
  of the set for a larger one, so that a peer may grow what it advertises.\<close>

theorem allowed_fast_set_correct:
  "(let a = generate_allowed_fast_set sha1 k pc ih ip
    in distinct a \<and> set a \<subseteq> {..<pc} \<and> length a \<le> min k pc
       \<and> (a = [] \<longleftrightarrow> k = 0 \<or> pc = 0)
       \<and> generate_allowed_fast_set sha1 (min j k) pc ih ip = take (min j k) a)"
proof (cases "k = 0 \<or> pc = 0")
  case False
  let ?x = "be32 (ip AND 0xFFFFFF00) @ ih"
  define a where "a = fast_loop sha1 (min k pc) pc ?x [] 0"
  have g: "generate_allowed_fast_set sha1 k pc ih ip = a"
    using False by (simp add: generate_allowed_fast_set_def a_def)
  have ok: "fast_ok (min k pc) pc a"
    using False fast_loop_ok [of pc "min k pc" "[]" sha1 ?x 0] by (simp add: a_def fast_ok_def)
  have ne: "a \<noteq> []"
  proof -
    have "a = (let b = fast_round (min k pc) pc (sha1 ?x) [] in
        if b = [] then a else fast_loop sha1 (min k pc) pc (sha1 ?x) b 0)"
      using False fast_round_grows_first [of "min k pc" pc "sha1 ?x"] unfolding a_def
      by (subst fast_loop.simps) (simp add: Let_def)
    then show ?thesis
      using fast_loop_length [of "fast_round (min k pc) pc (sha1 ?x) []" sha1 "min k pc" pc "sha1 ?x" 0]
        fast_round_grows_first [of "min k pc" pc "sha1 ?x"] False by (auto simp: Let_def)
  qed
  have "generate_allowed_fast_set sha1 (min j k) pc ih ip = take (min j k) a"
  proof (cases "j = 0")
    case True
    then show ?thesis by (simp add: generate_allowed_fast_set_def)
  next
    case j: False
    have "fast_loop sha1 (min (min j k) pc) pc ?x [] 0 = take (min (min j k) pc) a"
      unfolding a_def by (rule fast_loop_take) simp_all
    moreover have "length a \<le> pc" using ok by (simp add: fast_ok_def)
    ultimately show ?thesis using False j by (auto simp: generate_allowed_fast_set_def min_def)
  qed
  with ok ne False show ?thesis unfolding g Let_def by (auto simp: fast_ok_def)
qed (auto simp: generate_allowed_fast_set_def Let_def)

end
