(* ===== verification/Rc4.thy ===== *)
theory Rc4
  imports Prelude "HOL-Library.Multiset"
begin

text \<open>
  The RC4 stream cipher of \<open>crypto/rc4.rs\<close>: key schedule, keystream generator, the
  in-place cipher and the keystream discard of MSE. The locale \<open>stream_cipher\<close> is the
  interface its clients (the MSE handshake, the peer read buffer) use; it is interpreted on
  \<open>crypt_inplace\<close>.
\<close>

section \<open>The interface of a synchronous stream cipher\<close>

locale stream_cipher =
  fixes crypt :: "'s \<Rightarrow> bytes \<Rightarrow> bytes \<times> 's"
    and key_byte :: "'s \<Rightarrow> byte"
    and step :: "'s \<Rightarrow> 's"
  assumes crypt_nil: "crypt c [] = ([], c)"
    and crypt_cons: "crypt c (b # bs) =
      ((b XOR key_byte c) # fst (crypt (step c) bs), snd (crypt (step c) bs))"
begin

lemma crypt_state: "snd (crypt c bs) = (step ^^ length bs) c"
  by (induction bs arbitrary: c) (simp_all add: crypt_nil crypt_cons funpow_swap1)

lemma crypt_length: "length (fst (crypt c bs)) = length bs"
  by (induction bs arbitrary: c) (simp_all add: crypt_nil crypt_cons)

lemma crypt_append:
  "crypt c (xs @ ys) = (fst (crypt c xs) @ fst (crypt (snd (crypt c xs)) ys),
                        snd (crypt (snd (crypt c xs)) ys))"
  by (induction xs arbitrary: c) (simp_all add: crypt_nil crypt_cons)

lemma crypt_crypt: "crypt c (fst (crypt c bs)) = (bs, snd (crypt c bs))"
  by (induction bs arbitrary: c) (simp_all add: crypt_nil crypt_cons xor.assoc)

lemma crypt_take: "fst (crypt c (take n bs)) = take n (fst (crypt c bs))"
proof (induction n arbitrary: c bs)
  case (Suc n)
  then show ?case by (cases bs) (simp_all add: crypt_nil crypt_cons)
qed (simp add: crypt_nil)

lemma crypt_same_state: "length xs = length ys \<Longrightarrow> snd (crypt c xs) = snd (crypt c ys)"
  by (simp add: crypt_state)

lemma crypt_inj:
  assumes "fst (crypt c xs) = fst (crypt c ys)"
  shows "xs = ys"
proof -
  have "fst (crypt c (fst (crypt c xs))) = fst (crypt c (fst (crypt c ys)))" by (simp only: assms)
  then show ?thesis by (simp only: crypt_crypt fst_conv)
qed

end

section \<open>RC4\<close>

record rc4 =
  rc_s :: bytes
  rc_i :: nat
  rc_j :: nat

definition swap :: "'a list \<Rightarrow> nat \<Rightarrow> nat \<Rightarrow> 'a list" where
  "swap s i j = s[i := s ! j, j := s ! i]"

text \<open>The key schedule of \<open>Rc4::new\<close>; the empty key fails the \<open>assert!\<close>, here \<open>None\<close>.
  \<open>& 255\<close> on a \<open>usize\<close> is \<open>mod 256\<close>.\<close>

definition ksa_step :: "bytes \<Rightarrow> bytes \<times> nat \<Rightarrow> nat \<Rightarrow> bytes \<times> nat" where
  "ksa_step key = (\<lambda>(s, j) i.
     let j' = (j + unat (s ! i) + unat (key ! (i mod length key))) mod 256
     in (swap s i j', j'))"

definition rc4_new :: "bytes \<Rightarrow> rc4 option" where
  "rc4_new key =
     (if key = [] then None
      else let s = map of_nat [0..<256]
           in Some \<lparr>rc_s = fst (foldl (ksa_step key) (s, 0) [0..<256]), rc_i = 0, rc_j = 0\<rparr>)"

definition prga_step :: "rc4 \<Rightarrow> rc4" where
  "prga_step c =
     (let i = (rc_i c + 1) mod 256;
          j = (rc_j c + unat (rc_s c ! i)) mod 256
      in \<lparr>rc_s = swap (rc_s c) i j, rc_i = i, rc_j = j\<rparr>)"

fun drop_keystream :: "rc4 \<Rightarrow> nat \<Rightarrow> rc4" where
  "drop_keystream c 0 = c"
| "drop_keystream c (Suc n) = drop_keystream (prga_step c) n"

text \<open>The byte XORed by one round of \<open>crypt_inplace\<close>: \<open>si\<close>, \<open>sj\<close> are read before the
  swap, the output index after it.\<close>

definition prga_byte :: "rc4 \<Rightarrow> byte" where
  "prga_byte c =
     (let i = (rc_i c + 1) mod 256;
          j = (rc_j c + unat (rc_s c ! i)) mod 256;
          si = rc_s c ! i; sj = rc_s c ! j
      in (rc_s c)[i := sj, j := si] ! ((unat si + unat sj) mod 256))"

fun crypt_inplace :: "rc4 \<Rightarrow> bytes \<Rightarrow> bytes \<times> rc4" where
  "crypt_inplace c [] = ([], c)"
| "crypt_inplace c (b # bs) =
     (let b' = b XOR prga_byte c;
          (out, c') = crypt_inplace (prga_step c) bs
      in (b' # out, c'))"

definition rc4_new_mse :: "bytes \<Rightarrow> rc4 option" where
  "rc4_new_mse key = (case rc4_new key of None \<Rightarrow> None | Some c \<Rightarrow> Some (drop_keystream c 1024))"

interpretation rc: stream_cipher crypt_inplace prga_byte prga_step
  by unfold_locales (simp_all add: Let_def case_prod_beta)

section \<open>The state stays a permutation\<close>

definition rc4_ok :: "rc4 \<Rightarrow> bool" where
  "rc4_ok c \<longleftrightarrow> length (rc_s c) = 256 \<and> distinct (rc_s c) \<and> rc_i c < 256 \<and> rc_j c < 256"

lemma mset_swap: "i < length s \<Longrightarrow> j < length s \<Longrightarrow> mset (swap s i j) = mset s"
  by (simp add: swap_def mset_swap)

lemma length_swap [simp]: "length (swap s i j) = length s"
  by (simp add: swap_def)

lemma distinct_swap:
  assumes "i < length s" "j < length s"
  shows "distinct (swap s i j) = distinct s"
  by (rule mset_eq_imp_distinct_iff) (rule mset_swap [OF assms])

lemma ksa_step_ok:
  assumes "length s = 256 \<and> distinct s" "i < 256" "ksa_step key (s, j) i = (s', j')"
  shows "length s' = 256 \<and> distinct s'"
  using assms by (auto simp: ksa_step_def Let_def distinct_swap)

lemma ksa_loop_ok:
  assumes "length s = 256 \<and> distinct s" "\<forall>i \<in> set is. i < 256"
  shows "length (fst (foldl (ksa_step key) (s, j) is)) = 256
       \<and> distinct (fst (foldl (ksa_step key) (s, j) is))"
  using assms
proof (induction "is" arbitrary: s j)
  case (Cons i "is")
  obtain s' j' where st: "ksa_step key (s, j) i = (s', j')" by (cases "ksa_step key (s, j) i")
  have "length s' = 256 \<and> distinct s'" using ksa_step_ok [OF Cons.prems(1) _ st] Cons.prems(2) by simp
  from Cons.IH [OF this] Cons.prems(2) st show ?case by simp
qed simp

lemma initial_permutation: "length (map of_nat [0..<256] :: bytes) = 256 \<and> distinct (map of_nat [0..<256] :: bytes)"
proof -
  have "inj_on (of_nat :: nat \<Rightarrow> byte) {0..<256}"
  proof (rule inj_onI)
    fix i j :: nat
    assume ij: "i \<in> {0..<256}" "j \<in> {0..<256}" and eq: "(of_nat i :: byte) = of_nat j"
    from ij have "unat (of_nat i :: byte) = i" "unat (of_nat j :: byte) = j"
      by (simp_all add: unsigned_of_nat take_bit_nat_eq_self)
    with eq show "i = j" by metis
  qed
  then show ?thesis by (simp add: distinct_map)
qed

lemma rc4_new_ok [inv_intros]: "rc4_new key = Some c \<Longrightarrow> rc4_ok c"
  using ksa_loop_ok [OF initial_permutation, of "[0..<256]" key 0]
  by (auto simp: rc4_new_def rc4_ok_def Let_def split: if_splits simp del: upt_rec_numeral)

lemma prga_step_ok [inv_intros]: "rc4_ok c \<Longrightarrow> rc4_ok (prga_step c)"
  by (simp add: rc4_ok_def prga_step_def Let_def distinct_swap)

lemma funpow_prga_ok: "rc4_ok c \<Longrightarrow> rc4_ok ((prga_step ^^ n) c)"
  by (induction n) (simp_all add: prga_step_ok)

lemma crypt_inplace_ok [inv_intros]: "rc4_ok c \<Longrightarrow> rc4_ok (snd (crypt_inplace c bs))"
  by (simp add: rc.crypt_state funpow_prga_ok)

lemma drop_keystream_funpow: "drop_keystream c n = (prga_step ^^ n) c"
  by (induction n arbitrary: c) (simp_all add: funpow_swap1)

lemma drop_keystream_ok [inv_intros]: "rc4_ok c \<Longrightarrow> rc4_ok (drop_keystream c n)"
  by (simp add: drop_keystream_funpow funpow_prga_ok)

lemma rc4_new_mse_ok [inv_intros]: "rc4_new_mse key = Some c \<Longrightarrow> rc4_ok c"
  by (auto simp: rc4_new_mse_def intro: inv_intros split: option.splits)

lemma rc4_new_Some: "key \<noteq> [] \<Longrightarrow> \<exists>c. rc4_new key = Some c"
  by (simp add: rc4_new_def Let_def)

lemma rc4_new_mse_Some: "key \<noteq> [] \<Longrightarrow> \<exists>c. rc4_new_mse key = Some c"
  using rc4_new_Some [of key] by (auto simp: rc4_new_mse_def)

section \<open>Properties\<close>

text \<open>Two peers that start from the same RC4 state stay in step: whatever way the sender
  cuts its bytes into \<open>crypt_inplace\<close> calls, the receiver recovers them with one call on the
  concatenated ciphertext, ends in the sender's state, and the ciphertext has the length of
  the data.\<close>

theorem crypt_inplace_recovers:
  "(let (cx, c1) = crypt_inplace c xs; (cy, c2) = crypt_inplace c1 ys
    in crypt_inplace c (cx @ cy) = (xs @ ys, c2) \<and> length (cx @ cy) = length (xs @ ys))"
proof -
  have "fst (crypt_inplace c (xs @ ys)) = fst (crypt_inplace c xs)
      @ fst (crypt_inplace (snd (crypt_inplace c xs)) ys)"
    by (simp add: rc.crypt_append)
  then show ?thesis using rc.crypt_crypt [of c "xs @ ys"] rc.crypt_append [of c xs ys]
    by (simp add: case_prod_beta rc.crypt_length)
qed

text \<open>The MSE key setup fails only on the empty key (the \<open>assert!\<close>); otherwise the state
  table is a permutation of the 256 bytes with both indices in range after the setup, the
  1024-byte discard and any amount of data, so no index of the cipher is out of bounds; and
  discarding \<open>n\<close> keystream bytes is the same as encrypting any \<open>n\<close> bytes.\<close>

theorem rc4_state_invariant:
  "case rc4_new_mse key of
     None \<Rightarrow> key = []
   | Some c \<Rightarrow> key \<noteq> [] \<and> rc4_ok c \<and> rc4_ok (snd (crypt_inplace c data))
       \<and> snd (crypt_inplace c data) = drop_keystream c (length data)"
proof (cases "rc4_new_mse key")
  case None
  then show ?thesis using rc4_new_mse_Some [of key] by auto
next
  case (Some c)
  then have "key \<noteq> []" by (auto simp: rc4_new_mse_def rc4_new_def)
  with Some show ?thesis
    by (auto simp: rc.crypt_state drop_keystream_funpow intro: inv_intros rc4_new_mse_ok funpow_prga_ok)
qed

end
