(* ===== verification/Framing.thy ===== *)
theory Framing
  imports Wire Rc4
begin

text \<open>
  The peer read path of \<open>net.rs\<close>: the read buffer with its consume cursor, in-place
  decryption of what the socket delivers, the frame bookkeeping that sets the socket's
  receive watermark, and the loop that drains complete frames. The locale \<open>framing\<close> states
  what an incremental frame parser promises; it is interpreted on \<open>parse_message\<close>.
\<close>

section \<open>The read buffer\<close>

abbreviation WIRE_READ_CHUNK :: nat where "WIRE_READ_CHUNK \<equiv> 262144"
abbreviation RCVLOWAT_MIN :: nat where "RCVLOWAT_MIN \<equiv> 4096"
abbreviation PIPELINE_LOWAT_CAP :: nat where "PIPELINE_LOWAT_CAP \<equiv> 262144"

definition append_wire_read :: "bytes \<Rightarrow> bytes \<Rightarrow> rc4 option \<Rightarrow> bytes \<times> rc4 option" where
  "append_wire_read read_buf chunk decrypt =
     (if chunk = [] then (read_buf, decrypt)
      else case decrypt of
        Some c \<Rightarrow> (let (plain, c') = crypt_inplace c chunk in (read_buf @ plain, Some c'))
      | None \<Rightarrow> (read_buf @ chunk, None))"

record read_cursor =
  cur_buf :: bytes
  cur_pos :: nat

definition from_vec :: "bytes \<Rightarrow> read_cursor" where
  "from_vec buf = \<lparr>cur_buf = buf, cur_pos = 0\<rparr>"

definition unparsed :: "read_cursor \<Rightarrow> bytes" where
  "unparsed r = drop (cur_pos r) (cur_buf r)"

definition advance :: "read_cursor \<Rightarrow> nat \<Rightarrow> read_cursor" where
  "advance r n = r\<lparr>cur_pos := min (sat_add64 (cur_pos r) n) (length (cur_buf r))\<rparr>"

definition compact_if_needed :: "read_cursor \<Rightarrow> read_cursor" where
  "compact_if_needed r =
     (if cur_pos r = 0 then r
      else if cur_pos r \<ge> 16384 \<or> cur_pos r * 2 \<ge> length (cur_buf r)
      then \<lparr>cur_buf = drop (cur_pos r) (cur_buf r), cur_pos = 0\<rparr>
      else r)"

definition cursor_append :: "read_cursor \<Rightarrow> bytes \<Rightarrow> rc4 option \<Rightarrow> read_cursor \<times> rc4 option" where
  "cursor_append r chunk decrypt =
     (let r = compact_if_needed r;
          (buf, decrypt) = append_wire_read (cur_buf r) chunk decrypt
      in (r\<lparr>cur_buf := buf\<rparr>, decrypt))"

definition frame_remaining :: "read_cursor \<Rightarrow> nat option" where
  "frame_remaining r =
     (let u = unparsed r
      in if length u < 4 then None
         else let msg_len = unat (of_be32 (slice 0 4 u))
              in if msg_len > MAX_MESSAGE_LENGTH then None
                 else Some ((4 + msg_len) - length u))"

definition has_complete_frame :: "read_cursor \<Rightarrow> bool" where
  "has_complete_frame r \<longleftrightarrow> frame_remaining r = Some 0"

definition recv_lowat :: "read_cursor \<Rightarrow> nat option" where
  "recv_lowat r =
     (case frame_remaining r of
        None \<Rightarrow> None
      | Some need \<Rightarrow> if need < RCVLOWAT_MIN then None else Some (min need WIRE_READ_CHUNK))"

definition pipeline_lowat :: "nat \<Rightarrow> nat \<Rightarrow> nat \<Rightarrow> nat option" where
  "pipeline_lowat outstanding block rcvbuf =
     (if outstanding = 0 \<or> rcvbuf < 2 \<or> block = 0 then None
      else let want = min (outstanding * block) u64_max;
               n = min (min want (rcvbuf div 2)) PIPELINE_LOWAT_CAP
           in if n < RCVLOWAT_MIN then None else Some n)"

definition recv_lowat_park :: "read_cursor \<Rightarrow> nat \<Rightarrow> nat \<Rightarrow> nat \<Rightarrow> bool \<Rightarrow> bool \<Rightarrow> nat option" where
  "recv_lowat_park r outstanding block rcvbuf speculative downloading =
     (if \<not> downloading then None
      else let frame = recv_lowat r;
               spec = (if speculative then pipeline_lowat outstanding block rcvbuf else None)
           in case (frame, spec) of
                (Some a, Some b) \<Rightarrow> Some (max a b)
              | (None, b) \<Rightarrow> b
              | (Some a, None) \<Rightarrow> Some a)"

section \<open>Draining\<close>

text \<open>The loop of \<open>parse_available_messages\<close> over the buffer, without the handling of the
  messages: it takes frames until the parser wants more bytes or fails.\<close>

function drain_frames :: "bytes \<Rightarrow> parsed_message list \<times> wire_error option \<times> bytes" where
  "drain_frames buf =
     (case parse_message buf of
        Inl e \<Rightarrow> ([], Some e, buf)
      | Inr None \<Rightarrow> ([], None, buf)
      | Inr (Some (m, n)) \<Rightarrow>
          (let (ms, e, rest) = drain_frames (drop n buf) in (m # ms, e, rest)))"
  by pat_completeness auto
termination
proof (relation "measure length", goal_cases)
  case (2 buf p r m n)
  then have "parse_message buf = Inr (Some (m, n))" by simp
  from parse_bounds [OF this] show ?case by (simp, linarith)
qed simp

declare drain_frames.simps [simp del]

text \<open>One socket read: append, then drain and advance the cursor past the drained frames.\<close>

definition receive_chunk ::
  "read_cursor \<Rightarrow> rc4 option \<Rightarrow> bytes \<Rightarrow> (parsed_message list \<times> wire_error option) \<times> read_cursor \<times> rc4 option" where
  "receive_chunk r decrypt chunk =
     (let (r, decrypt) = cursor_append r chunk decrypt;
          (ms, e, rest) = drain_frames (unparsed r)
      in ((ms, e), advance r (length (unparsed r) - length rest), decrypt))"

fun receive_chunks ::
  "read_cursor \<Rightarrow> rc4 option \<Rightarrow> bytes list \<Rightarrow> parsed_message list \<times> wire_error option \<times> bytes" where
  "receive_chunks r decrypt [] = ([], None, unparsed r)"
| "receive_chunks r decrypt (chunk # chunks) =
     (let ((ms, e), r, decrypt) = receive_chunk r decrypt chunk
      in if e \<noteq> None then (ms, e, unparsed r)
         else let (ms', e', rest) = receive_chunks r decrypt chunks in (ms @ ms', e', rest))"

section \<open>The contract of an incremental frame parser\<close>

locale framing =
  fixes parse :: "bytes \<Rightarrow> 'e + ('p \<times> nat) option"
    and enc :: "'m \<Rightarrow> bytes"
    and view :: "'m \<Rightarrow> 'p"
    and ok :: "'m \<Rightarrow> bool"
    and drain :: "bytes \<Rightarrow> 'p list \<times> 'e option \<times> bytes"
  assumes parse_enc: "ok m \<Longrightarrow> parse (enc m @ rest) = Inr (Some (view m, length (enc m)))"
    and parse_prefix: "ok m \<Longrightarrow> p @ q = enc m \<Longrightarrow> q \<noteq> [] \<Longrightarrow> parse p = Inr None"
    and parse_stable: "parse b = Inr (Some (x, n)) \<Longrightarrow> parse (b @ xs) = Inr (Some (x, n)) \<and> n \<le> length b"
    and parse_nil: "parse [] = Inr None"
    and parse_progress: "parse b = Inr (Some (x, n)) \<Longrightarrow> 0 < n"
    and drain_eq: "drain b = (case parse b of Inl e \<Rightarrow> ([], Some e, b) | Inr None \<Rightarrow> ([], None, b)
        | Inr (Some (x, n)) \<Rightarrow> (let (ms, e, r) = drain (drop n b) in (x # ms, e, r)))"
begin

lemma drain_enc:
  "ok m \<Longrightarrow> drain (enc m @ rest) = (let (ms, e, r) = drain rest in (view m # ms, e, r))"
  by (subst drain_eq) (simp add: parse_enc)

lemma drain_stuck: "parse b = Inr None \<Longrightarrow> drain b = ([], None, b)"
  by (subst drain_eq) simp

lemma drain_concat:
  assumes "\<forall>m \<in> set ms. ok m"
  shows "drain (concat (map enc ms) @ rest) = (let (xs, e, r) = drain rest in (map view ms @ xs, e, r))"
  using assms
proof (induction ms)
  case (Cons m ms)
  then show ?case by (simp add: drain_enc case_prod_beta Let_def)
qed simp

lemma drain_incremental:
  "drain b = (ms, None, r) \<Longrightarrow>
     drain (b @ xs) = (let (ms', e, r') = drain (r @ xs) in (ms @ ms', e, r'))"
proof (induction "length b" arbitrary: b ms rule: less_induct)
  case less
  consider (err) e where "parse b = Inl e" | (wait) "parse b = Inr None"
    | (frame) x n where "parse b = Inr (Some (x, n))"
    by (cases "parse b") (auto, metis option.exhaust surj_pair)
  then show ?case
  proof cases
    case err
    then have "drain b = ([], Some e, b)" by (subst drain_eq) simp
    with less.prems show ?thesis by simp
  next
    case wait
    with less.prems show ?thesis by (simp add: drain_stuck case_prod_beta Let_def)
  next
    case frame
    note st = parse_stable [OF frame]
    obtain ms1 e1 r1 where d: "drain (drop n b) = (ms1, e1, r1)" by (cases "drain (drop n b)") auto
    have "drain b = (x # ms1, e1, r1)" by (subst drain_eq) (simp add: frame d)
    with less.prems have ms: "ms = x # ms1" "e1 = None" "r1 = r" by simp_all
    have "n \<le> length b" "0 < n" using st parse_progress [OF frame] by auto
    then have "length (drop n b) < length b" by simp
    from less.hyps [OF this, of ms1] d ms
    have "drain (drop n b @ xs) = (let (ms', e, r') = drain (r @ xs) in (ms1 @ ms', e, r'))" by simp
    moreover have "drain (b @ xs) = (let (ms2, e2, r2) = drain (drop n b @ xs) in (x # ms2, e2, r2))"
      using st by (subst drain_eq) simp
    ultimately show ?thesis by (simp add: ms case_prod_beta Let_def)
  qed
qed

text \<open>Whatever the segmentation, feeding the chunks of a stream of frames one by one, and
  draining after each, yields exactly its messages.\<close>

lemma drain_stream_prefix:
  assumes "\<forall>m \<in> set ms. ok m" "p @ q = concat (map enc ms)"
  shows "\<exists>ms1 ms2 r. ms = ms1 @ ms2 \<and> drain p = (map view ms1, None, r) \<and> r @ q = concat (map enc ms2)"
  using assms
proof (induction ms arbitrary: p)
  case Nil
  then show ?case by (simp add: drain_stuck parse_nil)
next
  case (Cons m ms)
  from Cons.prems(2) obtain us where
    "p = enc m @ us \<and> us @ q = concat (map enc ms) \<or> p @ us = enc m \<and> q = us @ concat (map enc ms)"
    by (auto simp: append_eq_append_conv2)
  then consider (whole) us where "p = enc m @ us" "us @ q = concat (map enc ms)"
    | (part) "p @ us = enc m" "us \<noteq> []"
    by (cases "us = []") auto
  then show ?case
  proof cases
    case part
    then have "drain p = (map view [], None, p)"
      using parse_prefix [of m p us] Cons.prems(1) by (auto simp: drain_stuck)
    then show ?thesis using Cons.prems(2) by (metis append_Nil)
  next
    case (whole us)
    then obtain ms1 ms2 r where "ms = ms1 @ ms2" "drain us = (map view ms1, None, r)"
      "r @ q = concat (map enc ms2)" using Cons.IH [of us] Cons.prems(1) by auto
    with whole Cons.prems(1) show ?thesis
      by (intro exI [of _ "m # ms1"] exI [of _ ms2]) (simp add: drain_enc)
  qed
qed

lemma drain_idem: "drain b = (ms, None, r) \<Longrightarrow> drain r = ([], None, r)"
  using drain_incremental [of b ms r "[]"] by (cases "drain r") (simp add: Let_def)

lemma drain_suffix: "drain b = (ms, e, r) \<Longrightarrow> \<exists>u. b = u @ r"
proof (induction "length b" arbitrary: b ms rule: less_induct)
  case less
  show ?case
  proof (cases "\<exists>x n. parse b = Inr (Some (x, n))")
    case True
    then obtain x n where p: "parse b = Inr (Some (x, n))" by blast
    then have n: "n \<le> length b" "0 < n" using parse_stable [OF p, of "[]"] parse_progress [OF p] by auto
    obtain ms1 where "drain (drop n b) = (ms1, e, r)"
      using less.prems by (subst (asm) drain_eq) (auto simp: p case_prod_beta Let_def prod_eq_iff)
    moreover have "length (drop n b) < length b" using n by simp
    ultimately obtain u where "drop n b = u @ r" using less.hyps by blast
    then have "b = (take n b @ u) @ r" by (metis append.assoc append_take_drop_id)
    then show ?thesis by blast
  next
    case False
    then have "r = b" using less.prems
      by (subst (asm) drain_eq) (auto split: sum.splits option.splits)
    then show ?thesis by simp
  qed
qed

end

interpretation fr: framing parse_message encode_message parsed_of msg_ok drain_frames
proof
  fix b x n and xs :: bytes
  assume p: "parse_message b = Inr (Some (x, n))"
  show "parse_message (b @ xs) = Inr (Some (x, n)) \<and> n \<le> length b"
    using parse_more_bytes [OF p] parse_bounds [OF p] by simp
  show "0 < n" using parse_bounds [OF p] by simp
next
  show "parse_message [] = Inr None" by (simp add: parse_message_def)
qed (simp_all add: parse_encode parse_proper_prefix drain_frames.simps)

section \<open>The cursor\<close>

definition cursor_ok :: "read_cursor \<Rightarrow> bool" where
  "cursor_ok r \<longleftrightarrow> cur_pos r \<le> length (cur_buf r) \<and> length (cur_buf r) < u64_max"

lemma unparsed_compact [simp]: "unparsed (compact_if_needed r) = unparsed r"
  by (simp add: compact_if_needed_def unparsed_def)

lemma compact_pos_le: "cur_pos r \<le> length (cur_buf r) \<Longrightarrow>
    cur_pos (compact_if_needed r) \<le> length (cur_buf (compact_if_needed r))"
  by (auto simp: compact_if_needed_def)

lemma unparsed_append:
  assumes "cur_pos r \<le> length (cur_buf r)"
  shows "unparsed (fst (cursor_append r chunk decrypt)) = unparsed r @
     (case decrypt of None \<Rightarrow> chunk | Some c \<Rightarrow> fst (crypt_inplace c chunk))"
    and "snd (cursor_append r chunk decrypt) =
     (case decrypt of None \<Rightarrow> None | Some c \<Rightarrow> Some (snd (crypt_inplace c chunk)))"
    and "cur_pos (fst (cursor_append r chunk decrypt)) \<le> length (cur_buf (fst (cursor_append r chunk decrypt)))"
  using compact_pos_le [OF assms] unparsed_compact [of r]
  by (auto simp: cursor_append_def append_wire_read_def Let_def case_prod_beta unparsed_def
      split: option.splits)

lemma unparsed_advance:
  assumes "cur_pos r \<le> length (cur_buf r)" "cur_pos r + n \<le> u64_max"
  shows "unparsed (advance r n) = drop n (unparsed r)"
    and "cur_pos (advance r n) \<le> length (cur_buf (advance r n))"
  using assms by (simp_all add: advance_def unparsed_def min_def add.commute)

section \<open>A stream of messages arrives whole\<close>

definition decrypted :: "rc4 option \<Rightarrow> bytes \<Rightarrow> bytes" where
  "decrypted d bs = (case d of None \<Rightarrow> bs | Some c \<Rightarrow> fst (crypt_inplace c bs))"

definition decrypt_after :: "rc4 option \<Rightarrow> bytes \<Rightarrow> rc4 option" where
  "decrypt_after d bs = (case d of None \<Rightarrow> None | Some c \<Rightarrow> Some (snd (crypt_inplace c bs)))"

lemma decrypted_append: "decrypted d (xs @ ys) = decrypted d xs @ decrypted (decrypt_after d xs) ys"
  by (cases d) (simp_all add: decrypted_def decrypt_after_def rc.crypt_append)

lemma length_decrypted [simp]: "length (decrypted d bs) = length bs"
  by (cases d) (simp_all add: decrypted_def rc.crypt_length)

definition fits :: "read_cursor \<Rightarrow> nat \<Rightarrow> bool" where
  "fits r k \<longleftrightarrow> cur_pos r \<le> length (cur_buf r) \<and> length (cur_buf r) + k \<le> u64_max"

lemma cursor_append_facts:
  assumes "fits r (length chunk + k)"
  shows "unparsed (fst (cursor_append r chunk d)) = unparsed r @ decrypted d chunk"
    and "snd (cursor_append r chunk d) = decrypt_after d chunk"
    and "fits (fst (cursor_append r chunk d)) k"
proof -
  have pos: "cur_pos r \<le> length (cur_buf r)" using assms by (simp add: fits_def)
  have "length (cur_buf (fst (cursor_append r chunk d))) \<le> length (cur_buf r) + length chunk"
    by (auto simp: cursor_append_def append_wire_read_def compact_if_needed_def Let_def
        case_prod_beta rc.crypt_length split: option.splits)
  with assms unparsed_append [OF pos, of chunk d]
  show "unparsed (fst (cursor_append r chunk d)) = unparsed r @ decrypted d chunk"
    "snd (cursor_append r chunk d) = decrypt_after d chunk"
    "fits (fst (cursor_append r chunk d)) k"
    by (auto simp: decrypted_def decrypt_after_def fits_def split: option.splits)
qed

lemma receive_chunk_facts:
  assumes fit: "fits r (length chunk + k)"
    and d: "drain_frames (unparsed r @ decrypted d chunk) = (ms, e, rest)"
  shows "\<exists>r'. receive_chunk r d chunk = ((ms, e), r', decrypt_after d chunk)
     \<and> unparsed r' = rest \<and> fits r' k"
proof -
  define r1 where "r1 = fst (cursor_append r chunk d)"
  note ca = cursor_append_facts [OF fit, of d, folded r1_def]
  obtain u where u: "unparsed r1 = u @ rest" using fr.drain_suffix [OF d] ca(1) by auto
  have pos: "cur_pos r1 \<le> length (cur_buf r1)" and len: "length (cur_buf r1) + k \<le> u64_max"
    using ca(3) by (simp_all add: fits_def)
  have "length (unparsed r1) = length (cur_buf r1) - cur_pos r1" by (simp add: unparsed_def)
  with u pos len have "cur_pos r1 + (length (unparsed r1) - length rest) \<le> u64_max" by simp
  note adv = unparsed_advance [OF pos this]
  have "receive_chunk r d chunk =
      ((ms, e), advance r1 (length (unparsed r1) - length rest), decrypt_after d chunk)"
    using ca(1,2) d by (simp add: receive_chunk_def case_prod_beta Let_def r1_def)
  moreover have "fits (advance r1 (length (unparsed r1) - length rest)) k"
    using adv(2) len by (simp add: fits_def advance_def)
  ultimately show ?thesis using adv(1) u by auto
qed

lemma receive_chunks_drain:
  assumes "\<forall>m \<in> set ms. msg_ok m"
    and "unparsed r @ decrypted d (concat chunks) @ q = concat (map encode_message ms)"
    and "fits r (length (concat chunks))"
    and "drain_frames (unparsed r) = ([], None, unparsed r)"
  shows "receive_chunks r d chunks = drain_frames (unparsed r @ decrypted d (concat chunks))"
  using assms
proof (induction chunks arbitrary: r d ms)
  case Nil
  then show ?case by (simp add: decrypted_def split: option.splits)
next
  case (Cons chunk chunks)
  define d' where "d' = decrypt_after d chunk"
  let ?b1 = "unparsed r @ decrypted d chunk" and ?tail = "decrypted d' (concat chunks)"
  have split: "?b1 @ ?tail @ q = concat (map encode_message ms)"
    using Cons.prems by (simp add: decrypted_append d'_def)
  from fr.drain_stream_prefix [OF Cons.prems(1) split] obtain ms1 ms2 rest where
    ms: "ms = ms1 @ ms2" and dr: "drain_frames ?b1 = (map parsed_of ms1, None, rest)"
    and rest: "rest @ ?tail @ q = concat (map encode_message ms2)" by blast
  have "fits r (length chunk + length (concat chunks))" using Cons.prems(3) by simp
  from receive_chunk_facts [OF this dr] obtain r' where
    rc: "receive_chunk r d chunk = ((map parsed_of ms1, None), r', d')"
    and r': "unparsed r' = rest" "fits r' (length (concat chunks))" by (auto simp: d'_def)
  have "receive_chunks r' d' chunks = drain_frames (rest @ ?tail)"
    using Cons.IH [of ms2 r' d'] Cons.prems(1) rest r' fr.drain_idem [OF dr] by (simp add: ms)
  moreover have "drain_frames (?b1 @ ?tail) =
      (let (xs, e, r2) = drain_frames (rest @ ?tail) in (map parsed_of ms1 @ xs, e, r2))"
    by (rule fr.drain_incremental [OF dr])
  ultimately show ?case
    by (simp add: rc case_prod_beta Let_def decrypted_append d'_def [symmetric])
qed

lemma frame_parse:
  assumes "4 \<le> length u" "unat (of_be32 (slice 0 4 u)) \<le> MAX_MESSAGE_LENGTH"
  shows "parse_message u = Inr None \<longleftrightarrow> length u < 4 + unat (of_be32 (slice 0 4 u))"
  using assms by (auto simp: parse_message_def Let_def split: sum.splits)

lemma recv_lowat_bounds:
  "recv_lowat r = Some n \<Longrightarrow>
     RCVLOWAT_MIN \<le> n \<and> n \<le> WIRE_READ_CHUNK \<and> (\<exists>k. frame_remaining r = Some k \<and> n \<le> k)"
  by (auto simp: recv_lowat_def split: option.splits if_splits)

lemma pipeline_lowat_bounds:
  "pipeline_lowat outstanding block rcvbuf = Some n \<Longrightarrow> RCVLOWAT_MIN \<le> n \<and> n \<le> WIRE_READ_CHUNK"
  unfolding pipeline_lowat_def Let_def by (auto split: if_splits)

lemma recv_lowat_park_cases:
  assumes "recv_lowat_park r outstanding block rcvbuf speculative downloading = Some n"
  shows "downloading \<and> (recv_lowat r = Some n
     \<or> speculative \<and> pipeline_lowat outstanding block rcvbuf = Some n)"
  using assms by (auto simp: recv_lowat_park_def Let_def max_def split: option.splits if_splits)

section \<open>Properties\<close>

text \<open>C2. A stream of messages arrives whole whatever the segmentation, encrypted or not:
  feeding the peer's read buffer the socket chunks one by one, decrypting each in place and
  draining after each, yields exactly the messages sent, in order, without error and with
  nothing left over.\<close>

theorem stream_delivers_messages:
  assumes "\<forall>m \<in> set ms. msg_ok m"
    and "concat chunks = (case cipher of None \<Rightarrow> concat (map encode_message ms)
           | Some c \<Rightarrow> fst (crypt_inplace c (concat (map encode_message ms))))"
    and "length (concat chunks) \<le> u64_max"
  shows "receive_chunks (from_vec []) cipher chunks = (map parsed_of ms, None, [])"
proof -
  have u: "unparsed (from_vec []) = []" by (simp add: unparsed_def from_vec_def)
  have f: "fits (from_vec []) (length (concat chunks))" using assms(3) by (simp add: fits_def from_vec_def)
  have plain: "decrypted cipher (concat chunks) = concat (map encode_message ms)"
    using assms(2) by (cases cipher) (simp_all add: decrypted_def rc.crypt_crypt)
  have "drain_frames [] = ([], None, [])" by (simp add: fr.drain_stuck fr.parse_nil)
  moreover have "receive_chunks (from_vec []) cipher chunks =
      drain_frames (unparsed (from_vec []) @ decrypted cipher (concat chunks))"
    by (rule receive_chunks_drain [where q = "[]" and ms = ms])
       (use assms(1) plain f u \<open>drain_frames [] = _\<close> in simp_all)
  ultimately show ?thesis
    using fr.drain_concat [OF assms(1), of "[]"] by (simp add: u plain Let_def)
qed

theorem stream_delivers_messages_witness:
  "receive_chunks (from_vec []) None [[0, 0], [0, 0, 0, 0, 0, 1, 2]]
     = ([Msg KeepAlive, Msg Interested], None, [])"
proof -
  have "encode_message Interested = [0, 0, 0, 1, 2]"
    by (simp add: encode_id_eq be32_def)
  then show ?thesis
    using stream_delivers_messages [of "[KeepAlive, Interested]" "[[0, 0], [0, 0, 0, 0, 0, 1, 2]]" None]
    by simp
qed

text \<open>The frame bookkeeping that drives the receive watermark agrees with the parser.
  No remainder is reported only for a missing or oversized length prefix; a remainder of zero
  means the parser decides now; a positive remainder is exact: with fewer further bytes the
  parser still waits, with that many it decides. The watermark set for a park lies between
  4 KiB and 256 KiB, is never set when the leech is complete, and without the pipeline
  speculation never exceeds the remainder of the current frame.\<close>

theorem frame_bookkeeping_exact:
  "(case frame_remaining r of
      None \<Rightarrow> length (unparsed r) < 4 \<or> MAX_MESSAGE_LENGTH < unat (of_be32 (slice 0 4 (unparsed r)))
    | Some k \<Rightarrow>
        (parse_message (unparsed r @ xs) = Inr None) = (length xs < k))
   \<and> (case recv_lowat_park r outstanding block rcvbuf speculative downloading of
        None \<Rightarrow> True
      | Some n \<Rightarrow> downloading \<and> RCVLOWAT_MIN \<le> n \<and> n \<le> WIRE_READ_CHUNK
          \<and> (speculative \<or> (\<exists>k. frame_remaining r = Some k \<and> n \<le> k)))"
proof (rule conjI)
  let ?u = "unparsed r"
  show "case frame_remaining r of
      None \<Rightarrow> length ?u < 4 \<or> MAX_MESSAGE_LENGTH < unat (of_be32 (slice 0 4 ?u))
    | Some k \<Rightarrow> (parse_message (?u @ xs) = Inr None) = (length xs < k)"
  proof (cases "frame_remaining r")
    case None
    then show ?thesis by (auto simp: frame_remaining_def Let_def split: if_splits)
  next
    case (Some k)
    then have u: "4 \<le> length ?u" "unat (of_be32 (slice 0 4 ?u)) \<le> MAX_MESSAGE_LENGTH"
      "k = 4 + unat (of_be32 (slice 0 4 ?u)) - length ?u"
      by (auto simp: frame_remaining_def Let_def split: if_splits)
    then have "slice 0 4 (?u @ xs) = slice 0 4 ?u" by (simp add: slice_append_prefix)
    with u frame_parse [of "?u @ xs"] show ?thesis unfolding Some by (simp, linarith)
  qed
  show "case recv_lowat_park r outstanding block rcvbuf speculative downloading of
        None \<Rightarrow> True
      | Some n \<Rightarrow> downloading \<and> RCVLOWAT_MIN \<le> n \<and> n \<le> WIRE_READ_CHUNK
          \<and> (speculative \<or> (\<exists>k. frame_remaining r = Some k \<and> n \<le> k))"
    using recv_lowat_bounds [of r] pipeline_lowat_bounds [of outstanding block rcvbuf]
      recv_lowat_park_cases [of r outstanding block rcvbuf speculative downloading]
    by (cases "recv_lowat_park r outstanding block rcvbuf speculative downloading") auto
qed

end
