(* ===== verification/Mse.thy ===== *)
theory Mse
  imports Rc4 Rust_Std
begin

text \<open>
  Message Stream Encryption: the policy of \<open>crypto/config.rs\<close>, the key derivation of
  \<open>crypto/keys.rs\<close>, the Diffie-Hellman exchange of \<open>crypto/dh.rs\<close> and the handshake of
  \<open>crypto/mse.rs\<close>. SHA-1 and the big-integer crate are third-party: they are the parameters
  \<open>sha1\<close> and \<open>bn\<close>; random draws (private exponents, padding) are arguments.
\<close>

section \<open>Policy\<close>

datatype encryption_mode = Off | PreferPlain | PreferRc4 | RequireRc4

abbreviation CRYPTO_PLAIN :: "32 word" where "CRYPTO_PLAIN \<equiv> 1"
abbreviation CRYPTO_RC4 :: "32 word" where "CRYPTO_RC4 \<equiv> 2"

fun crypto_provide_bits :: "encryption_mode \<Rightarrow> 32 word" where
  "crypto_provide_bits Off = CRYPTO_PLAIN"
| "crypto_provide_bits PreferPlain = CRYPTO_PLAIN OR CRYPTO_RC4"
| "crypto_provide_bits PreferRc4 = CRYPTO_PLAIN OR CRYPTO_RC4"
| "crypto_provide_bits RequireRc4 = CRYPTO_RC4"

definition allows_plain :: "encryption_mode \<Rightarrow> bool" where
  "allows_plain m \<longleftrightarrow> m \<noteq> RequireRc4"

definition wants_pe :: "encryption_mode \<Rightarrow> bool" where
  "wants_pe m \<longleftrightarrow> m \<noteq> Off"

definition requires_rc4 :: "encryption_mode \<Rightarrow> bool" where
  "requires_rc4 m \<longleftrightarrow> m = RequireRc4"

fun ltep_e :: "encryption_mode \<Rightarrow> byte option" where
  "ltep_e Off = None"
| "ltep_e PreferPlain = Some 0"
| "ltep_e PreferRc4 = Some 0"
| "ltep_e RequireRc4 = Some 1"

fun mode_as_str :: "encryption_mode \<Rightarrow> string" where
  "mode_as_str Off = ''off''"
| "mode_as_str PreferPlain = ''prefer-plain''"
| "mode_as_str PreferRc4 = ''prefer-rc4''"
| "mode_as_str RequireRc4 = ''require-rc4''"

text \<open>\<open>from_str\<close> first lowercases the ASCII letters and turns underscores into dashes.\<close>

definition to_ascii_lower :: "char \<Rightarrow> char" where
  "to_ascii_lower c = (let n = (of_char c :: nat) in if 65 \<le> n \<and> n \<le> 90 then char_of (n + 32) else c)"

definition norm_mode_char :: "char \<Rightarrow> char" where
  "norm_mode_char c = (let l = to_ascii_lower c in if l = CHR ''_'' then CHR ''-'' else l)"

definition mode_from_str :: "string \<Rightarrow> encryption_mode option" where
  "mode_from_str str =
     (let s = map norm_mode_char str
      in if s \<in> set [''off'', ''none'', ''disable'', ''disabled'', ''0''] then Some Off
         else if s \<in> set [''prefer-plain'', ''prefer-plaintext'', ''prefer_plain'', ''plain'', ''prefer'']
         then Some PreferPlain
         else if s \<in> set [''prefer-rc4'', ''prefer-encrypted'', ''prefer_rc4'', ''rc4''] then Some PreferRc4
         else if s \<in> set [''require-rc4'', ''require'', ''required'', ''force'', ''require_rc4'']
         then Some RequireRc4
         else None)"

definition select_crypto :: "32 word \<Rightarrow> 32 word \<Rightarrow> encryption_mode \<Rightarrow> 32 word option" where
  "select_crypto our_provide peer_provide mode =
     (let common = our_provide AND peer_provide
      in if common = 0 then None
         else case mode of
           Off \<Rightarrow> if common AND CRYPTO_PLAIN \<noteq> 0 then Some CRYPTO_PLAIN else None
         | PreferPlain \<Rightarrow>
             if common AND CRYPTO_PLAIN \<noteq> 0 then Some CRYPTO_PLAIN
             else if common AND CRYPTO_RC4 \<noteq> 0 then Some CRYPTO_RC4 else None
         | PreferRc4 \<Rightarrow>
             if common AND CRYPTO_RC4 \<noteq> 0 then Some CRYPTO_RC4
             else if common AND CRYPTO_PLAIN \<noteq> 0 then Some CRYPTO_PLAIN else None
         | RequireRc4 \<Rightarrow> if common AND CRYPTO_RC4 \<noteq> 0 then Some CRYPTO_RC4 else None)"

section \<open>Key derivation\<close>

definition sha1_salt1 :: "(bytes \<Rightarrow> bytes) \<Rightarrow> bytes \<Rightarrow> bytes \<Rightarrow> bytes" where
  "sha1_salt1 sha1 salt key = sha1 (salt @ key)"

definition sha1_salt2 :: "(bytes \<Rightarrow> bytes) \<Rightarrow> bytes \<Rightarrow> bytes \<Rightarrow> bytes \<Rightarrow> bytes" where
  "sha1_salt2 sha1 salt key1 key2 = sha1 (salt @ key1 @ key2)"

definition hash_req1 :: "(bytes \<Rightarrow> bytes) \<Rightarrow> bytes \<Rightarrow> bytes" where
  "hash_req1 sha1 secret = sha1_salt1 sha1 (ascii ''req1'') secret"

definition hash_req2 :: "(bytes \<Rightarrow> bytes) \<Rightarrow> bytes \<Rightarrow> bytes" where
  "hash_req2 sha1 skey = sha1_salt1 sha1 (ascii ''req2'') skey"

definition hash_req3 :: "(bytes \<Rightarrow> bytes) \<Rightarrow> bytes \<Rightarrow> bytes" where
  "hash_req3 sha1 secret = sha1_salt1 sha1 (ascii ''req3'') secret"

definition xor_bytes :: "bytes \<Rightarrow> bytes \<Rightarrow> bytes" where
  "xor_bytes xs ys = map2 (XOR) xs ys"

definition obfuscated_hash :: "(bytes \<Rightarrow> bytes) \<Rightarrow> bytes \<Rightarrow> bytes \<Rightarrow> bytes" where
  "obfuscated_hash sha1 secret skey = xor_bytes (hash_req2 sha1 skey) (hash_req3 sha1 secret)"

definition deobfuscate_req2 :: "(bytes \<Rightarrow> bytes) \<Rightarrow> bytes \<Rightarrow> bytes \<Rightarrow> bytes" where
  "deobfuscate_req2 sha1 secret obfuscated = xor_bytes obfuscated (hash_req3 sha1 secret)"

section \<open>Diffie-Hellman\<close>

text \<open>The operations of the big-integer crate the code calls, and what it relies on.\<close>

definition be_nat :: "bytes \<Rightarrow> nat" where
  "be_nat bs = foldl (\<lambda>a b. a * 256 + unat b) 0 bs"

record bignum =
  bn_modpow :: "nat \<Rightarrow> nat \<Rightarrow> nat \<Rightarrow> nat"
  bn_from_be :: "bytes \<Rightarrow> nat"
  bn_to_be :: "nat \<Rightarrow> bytes"

definition bignum_spec :: "bignum \<Rightarrow> bool" where
  "bignum_spec bn \<longleftrightarrow>
     (\<forall>b e m. 0 < m \<longrightarrow> bn_modpow bn b e m = b ^ e mod m)
     \<and> (\<forall>bs. bn_from_be bn bs = be_nat bs)
     \<and> (\<forall>n. be_nat (bn_to_be bn n) = n)
     \<and> (\<forall>n k. n < 256 ^ k \<longrightarrow> 0 < k \<longrightarrow> length (bn_to_be bn n) \<le> k)"

definition DH_PRIME :: bytes where
  "DH_PRIME =
    [0xFF, 0xFF, 0xFF, 0xFF, 0xFF, 0xFF, 0xFF, 0xFF, 0xC9, 0x0F, 0xDA, 0xA2, 0x21, 0x68, 0xC2, 0x34,
     0xC4, 0xC6, 0x62, 0x8B, 0x80, 0xDC, 0x1C, 0xD1, 0x29, 0x02, 0x4E, 0x08, 0x8A, 0x67, 0xCC, 0x74,
     0x02, 0x0B, 0xBE, 0xA6, 0x3B, 0x13, 0x9B, 0x22, 0x51, 0x4A, 0x08, 0x79, 0x8E, 0x34, 0x04, 0xDD,
     0xEF, 0x95, 0x19, 0xB3, 0xCD, 0x3A, 0x43, 0x1B, 0x30, 0x2B, 0x0A, 0x6D, 0xF2, 0x5F, 0x14, 0x37,
     0x4F, 0xE1, 0x35, 0x6D, 0x6D, 0x51, 0xC2, 0x45, 0xE4, 0x85, 0xB5, 0x76, 0x62, 0x5E, 0x7E, 0xC6,
     0xF4, 0x4C, 0x42, 0xE9, 0xA6, 0x3A, 0x36, 0x21, 0x00, 0x00, 0x00, 0x00, 0x00, 0x09, 0x05, 0x63]"

abbreviation DH_PUB_LEN :: nat where "DH_PUB_LEN \<equiv> 96"

record dh_key_pair =
  dh_private :: nat
  dh_public :: nat
  dh_prime :: nat

text \<open>\<open>raw\<close> is the 20-byte random draw of \<open>generate\<close>.\<close>

definition dh_generate :: "bignum \<Rightarrow> bytes \<Rightarrow> dh_key_pair" where
  "dh_generate bn raw =
     (let prime = bn_from_be bn DH_PRIME;
          private = bn_from_be bn raw
      in \<lparr>dh_private = private, dh_public = bn_modpow bn 2 private prime, dh_prime = prime\<rparr>)"

definition pad_left_96 :: "bytes \<Rightarrow> bytes" where
  "pad_left_96 bs =
     (if length bs \<ge> DH_PUB_LEN then drop (length bs - DH_PUB_LEN) bs
      else replicate (DH_PUB_LEN - length bs) 0 @ bs)"

definition public_key_bytes :: "bignum \<Rightarrow> dh_key_pair \<Rightarrow> bytes" where
  "public_key_bytes bn kp = pad_left_96 (bn_to_be bn (dh_public kp))"

datatype mse_error =
    DhPublicLength nat
  | InvalidDhPublicKey
  | Req1NotFound
  | PayloadTruncated
  | SkeyMismatch
  | DecryptShort
  | VcMismatch
  | PadCOverflow
  | IaOverflow
  | VcCommitMismatch
  | VcNotFound
  | LoopbackWantsPe
  | RejectedCrypto
  | ResponseIncomplete
  | MsePanic

definition compute_secret :: "bignum \<Rightarrow> dh_key_pair \<Rightarrow> bytes \<Rightarrow> mse_error + bytes" where
  "compute_secret bn kp peer_public =
     (if length peer_public \<noteq> DH_PUB_LEN then Inl (DhPublicLength (length peer_public))
      else let ya = bn_from_be bn peer_public
           in if ya = 0 \<or> ya \<ge> dh_prime kp then Inl InvalidDhPublicKey
              else Inr (pad_left_96 (bn_to_be bn (bn_modpow bn ya (dh_private kp) (dh_prime kp)))))"

section \<open>The handshake\<close>

definition VC :: bytes where "VC = replicate 8 0"

record mse_session =
  ms_crypto_select :: "32 word"
  ms_encrypt :: rc4
  ms_decrypt :: rc4
  ms_rc4 :: bool

text \<open>\<open>pad\<close> is the random padding drawn; its length is \<open>pad_len.min(512)\<close>.\<close>

definition initiator_ya_pad :: "bignum \<Rightarrow> dh_key_pair \<Rightarrow> nat \<Rightarrow> (nat \<Rightarrow> bytes) \<Rightarrow> bytes" where
  "initiator_ya_pad bn dh pad_len fill =
     (let pad_len = min pad_len 512 in public_key_bytes bn dh @ fill pad_len)"

definition rc4_key_a :: "(bytes \<Rightarrow> bytes) \<Rightarrow> bytes \<Rightarrow> bytes \<Rightarrow> rc4 option" where
  "rc4_key_a sha1 secret skey = rc4_new_mse (sha1_salt2 sha1 (ascii ''keyA'') secret skey)"

definition rc4_key_b :: "(bytes \<Rightarrow> bytes) \<Rightarrow> bytes \<Rightarrow> bytes \<Rightarrow> rc4 option" where
  "rc4_key_b sha1 secret skey = rc4_new_mse (sha1_salt2 sha1 (ascii ''keyB'') secret skey)"

definition initiator_inner :: "32 word \<Rightarrow> bytes \<Rightarrow> bytes" where
  "initiator_inner provide ia =
     VC @ be32 provide @ be16 0 @ be16 (of_nat (length ia)) @ ia"

definition initiator_build_sync ::
  "(bytes \<Rightarrow> bytes) \<Rightarrow> bytes \<Rightarrow> bytes \<Rightarrow> 32 word \<Rightarrow> bytes \<Rightarrow> mse_error + bytes \<times> rc4 \<times> rc4" where
  "initiator_build_sync sha1 secret skey provide ia =
     (case (rc4_key_a sha1 secret skey, rc4_key_b sha1 secret skey) of
        (Some encr, Some decr) \<Rightarrow>
          (let (inner, encr) = crypt_inplace encr (initiator_inner provide ia)
           in Inr (hash_req1 sha1 secret @ obfuscated_hash sha1 secret skey @ inner, encr, decr))
      | _ \<Rightarrow> Inl MsePanic)"

text \<open>\<open>hay.windows(n).position(|w| w == needle)\<close>; the needle is a SHA-1 digest, never empty.\<close>

fun find_slice_from :: "nat \<Rightarrow> bytes \<Rightarrow> bytes \<Rightarrow> nat option" where
  "find_slice_from i [] needle = (if needle = [] then Some i else None)"
| "find_slice_from i (b # hay) needle =
     (if take (length needle) (b # hay) = needle then Some i else find_slice_from (Suc i) hay needle)"

definition find_slice :: "bytes \<Rightarrow> bytes \<Rightarrow> nat option" where
  "find_slice hay needle = find_slice_from 0 hay needle"

definition parse_initiator_plain :: "bytes \<Rightarrow> mse_error + 32 word \<times> bytes" where
  "parse_initiator_plain plain =
     (if length plain < 16 then Inl DecryptShort
      else if take 8 plain \<noteq> VC then Inl VcMismatch
      else
        let provide = of_be32 (slice 8 12 plain);
            pad_c = unat (of_be16 (slice 12 14 plain));
            o1 = 14 + pad_c
        in if length plain < o1 + 2 then Inl PadCOverflow
           else
             let ia_len = unat (of_be16 (slice o1 (o1 + 2) plain));
                 o2 = o1 + 2
             in if length plain < o2 + ia_len then Inl IaOverflow
                else Inr (provide, slice o2 (o2 + ia_len) plain))"

definition receiver_parse_initiator ::
  "(bytes \<Rightarrow> bytes) \<Rightarrow> bytes \<Rightarrow> bytes \<Rightarrow> bytes \<Rightarrow> mse_error + 32 word \<times> bytes \<times> rc4 \<times> rc4" where
  "receiver_parse_initiator sha1 secret skey buf =
     (case find_slice buf (hash_req1 sha1 secret) of
        None \<Rightarrow> Inl Req1NotFound
      | Some pos \<Rightarrow>
          let base = pos + 20
          in if length buf < base + 20 + 8 + 4 + 2 + 2 then Inl PayloadTruncated
             else if xor_bytes (slice base (base + 20) buf) (hash_req3 sha1 secret) \<noteq> hash_req2 sha1 skey
             then Inl SkeyMismatch
             else (case (rc4_key_a sha1 secret skey, rc4_key_b sha1 secret skey) of
                     (Some decr, Some encr) \<Rightarrow>
                       (let (plain, decr) = crypt_inplace decr (drop (base + 20) buf)
                        in case parse_initiator_plain plain of
                             Inl e \<Rightarrow> Inl e
                           | Inr (provide, ia) \<Rightarrow> Inr (provide, ia, decr, encr))
                   | _ \<Rightarrow> Inl MsePanic))"

definition receiver_build_response :: "rc4 \<Rightarrow> 32 word \<Rightarrow> bytes \<times> rc4" where
  "receiver_build_response encr select = crypt_inplace encr (VC @ be32 select @ be16 0)"

abbreviation MAX_PAD_B :: nat where "MAX_PAD_B \<equiv> 512"
abbreviation MSE_RESP_HDR :: nat where "MSE_RESP_HDR \<equiv> 14"

datatype response_scan = Found "32 word" nat | NeedMore

text \<open>The \<open>for off in 0..=max_off\<close> of \<open>initiator_scan_response\<close>; the stream is returned
  with the result because the code advances it in place.\<close>

fun scan_loop :: "rc4 \<Rightarrow> bytes \<Rightarrow> nat list \<Rightarrow> bool \<Rightarrow> (mse_error + response_scan) \<times> rc4" where
  "scan_loop decr buf [] saw_incomplete =
     (if saw_incomplete then Inr NeedMore
      else if length buf \<ge> MAX_PAD_B + MSE_RESP_HDR then Inl VcNotFound
      else Inr NeedMore, decr)"
| "scan_loop decr buf (off # offs) saw_incomplete =
     (let hdr = fst (crypt_inplace decr (slice off (off + MSE_RESP_HDR) buf))
      in if take 8 hdr \<noteq> VC then scan_loop decr buf offs saw_incomplete
         else
           let select = of_be32 (slice 8 12 hdr);
               pad_d = unat (of_be16 (slice 12 14 hdr));
               need = off + MSE_RESP_HDR + pad_d
           in if pad_d > MAX_PAD_B then scan_loop decr buf offs saw_incomplete
              else if length buf < need then scan_loop decr buf offs True
              else
                let (commit, decr') = crypt_inplace decr (slice off need buf)
                in if take 8 commit \<noteq> VC then (Inl VcCommitMismatch, decr')
                   else (Inr (Found select need), decr'))"

definition initiator_scan_response :: "rc4 \<Rightarrow> bytes \<Rightarrow> (mse_error + response_scan) \<times> rc4" where
  "initiator_scan_response decr buf =
     (if length buf < MSE_RESP_HDR then (Inr NeedMore, decr)
      else let max_off = min (length buf - MSE_RESP_HDR) MAX_PAD_B
           in scan_loop decr buf [0..<Suc max_off] False)"

text \<open>\<open>handshake_loopback\<close>: \<open>raw_i\<close> and \<open>raw_r\<close> are the two private-key draws; its two
  \<open>assert_eq!\<close> are the \<open>MsePanic\<close> branches.\<close>

definition handshake_loopback ::
  "(bytes \<Rightarrow> bytes) \<Rightarrow> bignum \<Rightarrow> bytes \<Rightarrow> bytes \<Rightarrow> bytes \<Rightarrow> encryption_mode \<Rightarrow> encryption_mode
     \<Rightarrow> mse_error + mse_session \<times> mse_session" where
  "handshake_loopback sha1 bn raw_i raw_r skey initiator_mode receiver_mode =
     (if \<not> wants_pe initiator_mode \<or> \<not> wants_pe receiver_mode then Inl LoopbackWantsPe
      else
        let dh_i = dh_generate bn raw_i; dh_r = dh_generate bn raw_r
        in case compute_secret bn dh_i (public_key_bytes bn dh_r) of Inl e \<Rightarrow> Inl e
         | Inr s_i \<Rightarrow> (case compute_secret bn dh_r (public_key_bytes bn dh_i) of Inl e \<Rightarrow> Inl e
         | Inr s_r \<Rightarrow> if s_i \<noteq> s_r then Inl MsePanic
        else (case initiator_build_sync sha1 s_i skey (crypto_provide_bits initiator_mode) [] of
           Inl e \<Rightarrow> Inl e
         | Inr (sync, i_enc, i_dec) \<Rightarrow> (case receiver_parse_initiator sha1 s_i skey sync of
           Inl e \<Rightarrow> Inl e
         | Inr (provide_peer, ia, r_dec, r_enc) \<Rightarrow>
             (case select_crypto (crypto_provide_bits receiver_mode) provide_peer receiver_mode of
                None \<Rightarrow> Inl RejectedCrypto
              | Some select \<Rightarrow>
                  let (resp, r_enc) = receiver_build_response r_enc select
                  in case initiator_scan_response i_dec resp of
                       (Inl e, _) \<Rightarrow> Inl e
                     | (Inr NeedMore, _) \<Rightarrow> Inl ResponseIncomplete
                     | (Inr (Found select2 consumed), i_dec) \<Rightarrow>
                         if select \<noteq> select2 then Inl MsePanic
                         else let rc4 = select AND CRYPTO_RC4 \<noteq> 0
                              in Inr (\<lparr>ms_crypto_select = select, ms_encrypt = i_enc,
                                       ms_decrypt = i_dec, ms_rc4 = rc4\<rparr>,
                                      \<lparr>ms_crypto_select = select, ms_encrypt = r_enc,
                                       ms_decrypt = r_dec, ms_rc4 = rc4\<rparr>))))))"

end
