(* ===== verification/Mse_Correct.thy ===== *)
theory Mse_Correct
  imports Mse
begin

text \<open>
  The MSE handshake is correct: the receiver recovers what the initiator sent and both sides
  end with mirrored keystreams, the initiator's scan for the response is sound, decides
  within its byte bound and finds a response behind any padding, Diffie-Hellman secrets
  agree, and the whole exchange succeeds exactly when the two policies are compatible.
\<close>

lemma slice_full: "length xs = n \<Longrightarrow> slice 0 n xs = xs"
  by (simp add: slice_def)

lemma xor_bytes_cancel:
  "length xs = length ys \<Longrightarrow> xor_bytes (xor_bytes xs ys) ys = xs"
  unfolding xor_bytes_def by (induction xs ys rule: list_induct2) (simp_all add: xor.assoc)

lemma length_xor_bytes [simp]: "length (xor_bytes xs ys) = min (length xs) (length ys)"
  by (simp add: xor_bytes_def)

lemma length_VC [simp]: "length VC = 8"
  by (simp add: VC_def)

section \<open>Policy\<close>

lemma and_two_iff: "(x AND 2 = 0) = (\<not> bit (x :: 32 word) 1)"
  using and_exp_eq_0_iff_not_bit [of x 1] by simp

lemma and_one_iff: "(x AND 1 = 0) = (\<not> bit (x :: 32 word) 0)"
  using and_exp_eq_0_iff_not_bit [of x 0] by simp

lemma bits_12: "bit (1 :: 32 word) 0" "\<not> bit (1 :: 32 word) 1" "\<not> bit (2 :: 32 word) 0" "bit (2 :: 32 word) 1"
  by (simp_all add: bit_simps)

lemmas select_simps = select_crypto_def Let_def and_one_iff and_two_iff bits_12 bit_and_iff bit_or_iff

lemma common_nonzero: "bit (x :: 32 word) n \<Longrightarrow> x \<noteq> 0"
  by auto

lemma select_sound:
  assumes "select_crypto ours theirs mode = Some v"
  shows "(v = CRYPTO_PLAIN \<or> v = CRYPTO_RC4) \<and> ours AND theirs AND v \<noteq> 0
    \<and> (mode = Off \<longrightarrow> v = CRYPTO_PLAIN) \<and> (mode = RequireRc4 \<longrightarrow> v = CRYPTO_RC4)"
  using assms by (cases mode) (auto simp: select_crypto_def Let_def and.assoc split: if_splits)

lemma select_complete:
  assumes "select_crypto ours theirs mode = None"
  shows "(mode \<noteq> RequireRc4 \<longrightarrow> ours AND theirs AND CRYPTO_PLAIN = 0)
       \<and> (mode \<noteq> Off \<longrightarrow> ours AND theirs AND CRYPTO_RC4 = 0)"
  using assms by (cases mode) (auto simp: select_crypto_def Let_def and.assoc [symmetric] split: if_splits)

section \<open>The initiator's first encrypted flight\<close>

lemma find_slice_from_prefix:
  assumes "needle \<noteq> []"
  shows "find_slice_from i (needle @ rest) needle = Some i"
  using assms by (cases needle) simp_all

lemma parse_initiator_inner:
  assumes "length ia < 65536"
  shows "parse_initiator_plain (initiator_inner provide ia) = Inr (provide, ia)"
proof -
  let ?p = "initiator_inner provide ia"
  have u: "unat (of_nat (length ia) :: 16 word) = length ia"
    using assms by (simp add: unsigned_of_nat take_bit_nat_eq_self)
  have s: "take 8 ?p = VC" "slice 8 12 ?p = be32 provide" "slice 12 14 ?p = be16 0"
    "slice 14 16 ?p = be16 (of_nat (length ia))" "slice 16 (16 + length ia) ?p = ia"
    "length ?p = 16 + length ia"
    by (simp_all add: initiator_inner_def slice_def)
  show ?thesis
    unfolding parse_initiator_plain_def Let_def s by (simp add: u s)
qed

lemma rc4_keys_Some:
  assumes "\<forall>x. length (sha1 x :: bytes) = 20"
  obtains a b where "rc4_key_a sha1 secret skey = Some a" "rc4_key_b sha1 secret skey = Some b"
proof -
  have "sha1 x \<noteq> []" for x using assms by (metis list.size(3) zero_neq_numeral)
  then show ?thesis
    using rc4_new_mse_Some that unfolding rc4_key_a_def rc4_key_b_def sha1_salt2_def by meson
qed

lemma receiver_reads_initiator:
  assumes sha: "\<forall>x. length (sha1 x :: bytes) = 20" and ia: "length ia < 65536"
    and build: "initiator_build_sync sha1 secret skey provide ia = Inr (sync, encr, decr)"
    and pos: "find_slice (pad @ sync) (hash_req1 sha1 secret) = Some (length pad)"
  shows "receiver_parse_initiator sha1 secret skey (pad @ sync) = Inr (provide, ia, encr, decr)"
proof -
  obtain a b where ab: "rc4_key_a sha1 secret skey = Some a" "rc4_key_b sha1 secret skey = Some b"
    using rc4_keys_Some [OF sha] .
  define inner where "inner = initiator_inner provide ia"
  have hl: "length (hash_req1 sha1 secret) = 20" "length (hash_req2 sha1 skey) = 20"
    "length (hash_req3 sha1 secret) = 20" "length (obfuscated_hash sha1 secret skey) = 20"
    using sha by (simp_all add: hash_req1_def hash_req2_def hash_req3_def sha1_salt1_def obfuscated_hash_def)
  from build ab have sync: "sync = hash_req1 sha1 secret @ obfuscated_hash sha1 secret skey
      @ fst (crypt_inplace a inner)" and st: "encr = snd (crypt_inplace a inner)" "decr = b"
    by (auto simp: initiator_build_sync_def inner_def Let_def case_prod_beta)
  have "length inner = 16 + length ia" by (simp add: inner_def initiator_inner_def)
  then have len: "length (pad @ sync) = length pad + 56 + length ia"
    by (simp add: sync hl rc.crypt_length)
  have obf: "slice (length pad + 20) (length pad + 20 + 20) (pad @ sync) = obfuscated_hash sha1 secret skey"
    by (simp add: slice_def sync hl)
  have tail: "drop (length pad + 20 + 20) (pad @ sync) = fst (crypt_inplace a inner)"
    by (simp add: sync hl)
  have req2: "xor_bytes (obfuscated_hash sha1 secret skey) (hash_req3 sha1 secret) = hash_req2 sha1 skey"
    by (simp add: obfuscated_hash_def xor_bytes_cancel hl)
  show ?thesis
    unfolding receiver_parse_initiator_def pos option.case Let_def obf tail req2 ab prod.case rc.crypt_crypt
    using len parse_initiator_inner [OF ia, of provide] by (simp add: st inner_def)
qed

section \<open>The initiator's scan\<close>

lemma slice_take: "a \<le> b \<Longrightarrow> b \<le> c \<Longrightarrow> slice a b xs = take (b - a) (slice a c xs)"
  by (simp add: slice_def)

text \<open>The header decrypted at an offset is the prefix of what the commit decrypts there.\<close>

lemma header_is_prefix:
  assumes "off + 14 \<le> need"
  shows "fst (crypt_inplace c (slice off (off + 14) buf)) = take 14 (fst (crypt_inplace c (slice off need buf)))"
  using assms by (simp add: slice_take [of off "off + 14" need] rc.crypt_take)

lemma scan_loop_sound:
  assumes "scan_loop decr buf offs saw = (r, d)"
  shows "(case r of
      Inr (Found select need) \<Rightarrow>
        (\<exists>off \<in> set offs. let plain = fst (crypt_inplace decr (slice off need buf)) in
           take 8 plain = VC \<and> select = of_be32 (slice 8 12 plain)
           \<and> need = off + 14 + unat (of_be16 (slice 12 14 plain))
           \<and> unat (of_be16 (slice 12 14 plain)) \<le> 512 \<and> need \<le> length buf
           \<and> d = snd (crypt_inplace decr (slice off need buf)))
    | Inr NeedMore \<Rightarrow> d = decr
        \<and> (saw \<or> length buf < 526 \<or> (\<exists>off \<in> set offs. length buf < off + 526))
    | Inl e \<Rightarrow> d = decr \<and> e = VcNotFound)"
  using assms
proof (induction offs arbitrary: saw)
  case Nil
  then show ?case by (auto split: if_splits)
next
  case (Cons off offs)
  define hdr where "hdr = fst (crypt_inplace decr (slice off (off + 14) buf))"
  define pad_d where "pad_d = unat (of_be16 (slice 12 14 hdr))"
  define need where "need = off + 14 + pad_d"
  define commit where "commit = fst (crypt_inplace decr (slice off need buf))"
  have pre: "hdr = take 14 commit"
    unfolding hdr_def commit_def by (rule header_is_prefix) (simp add: need_def)
  then have sl: "take 8 commit = take 8 hdr" "slice 8 12 commit = slice 8 12 hdr"
    "slice 12 14 commit = slice 12 14 hdr"
    by (simp_all add: slice_def take_drop min_def)
  have unf: "scan_loop decr buf (off # offs) saw =
      (if take 8 hdr \<noteq> VC then scan_loop decr buf offs saw
       else if pad_d > 512 then scan_loop decr buf offs saw
       else if length buf < need then scan_loop decr buf offs True
       else if take 8 commit \<noteq> VC then (Inl VcCommitMismatch, snd (crypt_inplace decr (slice off need buf)))
       else (Inr (Found (of_be32 (slice 8 12 hdr)) need), snd (crypt_inplace decr (slice off need buf))))"
    by (simp add: Let_def hdr_def pad_d_def need_def commit_def case_prod_beta)
  consider (skip) "take 8 hdr \<noteq> VC \<or> pad_d > 512"
    | (short) "take 8 hdr = VC" "pad_d \<le> 512" "length buf < need"
    | (hit) "take 8 hdr = VC" "pad_d \<le> 512" "need \<le> length buf"
    by linarith
  then show ?case
  proof cases
    case skip
    then have "scan_loop decr buf offs saw = (r, d)"
      using Cons.prems unfolding unf by (auto split: if_splits)
    from Cons.IH [OF this] show ?thesis
      by (auto simp: Let_def split: sum.splits response_scan.splits)
  next
    case short
    then have "scan_loop decr buf offs True = (r, d)"
      using Cons.prems unfolding unf by simp
    from Cons.IH [OF this] short show ?thesis
      by (auto simp: Let_def need_def split: sum.splits response_scan.splits)
  next
    case hit
    then have rd: "r = Inr (Found (of_be32 (slice 8 12 hdr)) need)" "d = snd (crypt_inplace decr (slice off need buf))"
      using Cons.prems sl unfolding unf by (auto split: if_splits)
    have pd: "pad_d = unat (of_be16 (slice 12 14 commit))" by (simp add: pad_d_def sl)
    have nd: "need = off + 14 + unat (of_be16 (slice 12 14 commit))" by (simp add: need_def pd)
    have "take 8 commit = VC \<and> of_be32 (slice 8 12 hdr) = of_be32 (slice 8 12 commit)
        \<and> need = off + 14 + unat (of_be16 (slice 12 14 commit))
        \<and> unat (of_be16 (slice 12 14 commit)) \<le> 512 \<and> need \<le> length buf"
      using hit sl nd pd by (simp only: simp_thms)
    then show ?thesis unfolding rd sum.case response_scan.case Let_def commit_def
      by (intro bexI [of _ off]) simp_all
  qed
qed

lemma scan_loop_skip:
  assumes "\<forall>off \<in> set offs. take 8 (fst (crypt_inplace decr (slice off (off + 14) buf))) \<noteq> VC"
  shows "scan_loop decr buf (offs @ more_offs) saw = scan_loop decr buf more_offs saw"
  using assms by (induction offs) (simp_all add: Let_def)

lemma scan_sound:
  assumes "initiator_scan_response decr buf = (r, d)"
  shows "(case r of
      Inr (Found select need) \<Rightarrow>
        (\<exists>off \<le> 512. let plain = fst (crypt_inplace decr (slice off need buf)) in
           take 8 plain = VC \<and> select = of_be32 (slice 8 12 plain)
           \<and> need = off + 14 + unat (of_be16 (slice 12 14 plain))
           \<and> unat (of_be16 (slice 12 14 plain)) \<le> 512 \<and> need \<le> length buf
           \<and> d = snd (crypt_inplace decr (slice off need buf)))
    | Inr NeedMore \<Rightarrow> d = decr \<and> length buf < 1038
    | Inl e \<Rightarrow> d = decr \<and> e = VcNotFound)"
proof (cases "length buf < 14")
  case True
  with assms show ?thesis by (auto simp: initiator_scan_response_def)
next
  case False
  then have "scan_loop decr buf [0..<Suc (min (length buf - 14) 512)] False = (r, d)"
    using assms by (simp add: initiator_scan_response_def Let_def del: upt_Suc)
  from scan_loop_sound [OF this] show ?thesis
    by (fastforce simp: Let_def less_Suc_eq_le simp del: upt_Suc split: sum.splits response_scan.splits)
qed

lemma scan_finds:
  assumes pad: "length padB \<le> 512"
    and clean: "\<forall>off < length padB. take 8 (fst (crypt_inplace decr
        (slice off (off + 14) (padB @ fst (receiver_build_response decr select) @ rest)))) \<noteq> VC"
  shows "initiator_scan_response decr (padB @ fst (receiver_build_response decr select) @ rest)
       = (Inr (Found select (length padB + 14)), snd (receiver_build_response decr select))"
proof -
  define resp where "resp = fst (receiver_build_response decr select)"
  define buf where "buf = padB @ resp @ rest"
  have lr: "length resp = 14" by (simp add: resp_def receiver_build_response_def rc.crypt_length)
  have sl: "slice (length padB) (length padB + 14) buf = resp"
    by (simp add: slice_def buf_def lr)
  have plain: "crypt_inplace decr resp = (VC @ be32 select @ be16 0, snd (receiver_build_response decr select))"
    by (simp add: resp_def receiver_build_response_def rc.crypt_crypt)
  define top where "top = Suc (min (length buf - 14) 512)"
  have "length padB < top" using pad by (simp add: top_def buf_def lr)
  then have "[0..<top] = [0..<length padB] @ length padB # [Suc (length padB)..<top]"
    by (metis less_imp_le_nat upt_add_eq_append upt_conv_Cons zero_le le_add_diff_inverse)
  moreover have "initiator_scan_response decr buf = scan_loop decr buf [0..<top] False"
    using lr by (simp add: initiator_scan_response_def top_def buf_def Let_def del: upt_Suc)
  moreover have "\<forall>off \<in> set [0..<length padB].
      take 8 (fst (crypt_inplace decr (slice off (off + 14) buf))) \<noteq> VC"
    using clean by (simp add: buf_def resp_def)
  ultimately have "initiator_scan_response decr buf =
      scan_loop decr buf (length padB # [Suc (length padB)..<top]) False"
    using scan_loop_skip by metis
  also have "\<dots> = (Inr (Found select (length padB + 14)), snd (receiver_build_response decr select))"
    using lr by (simp add: sl plain Let_def slice_def buf_def of_be16_be16 [of 0, simplified])
  finally show ?thesis by (simp add: buf_def resp_def)
qed

section \<open>Diffie-Hellman agreement\<close>

lemma be_nat_snoc: "be_nat (bs @ [b]) = be_nat bs * 256 + unat b"
  by (simp add: be_nat_def)

lemma be_nat_less: "be_nat bs < 256 ^ length bs"
proof (induction bs rule: rev_induct)
  case (snoc b bs)
  have "unat b < 256" using unsigned_less [of b] by simp
  then have "be_nat bs * 256 + unat b < Suc (be_nat bs) * 256" by simp
  also have "\<dots> \<le> 256 ^ length bs * 256" using snoc by (intro mult_le_mono1) simp
  finally show ?case by (simp add: be_nat_snoc)
qed (simp add: be_nat_def)

lemma be_nat_zeros: "be_nat (replicate k 0 @ bs) = be_nat bs"
proof -
  have "foldl (\<lambda>a b. a * 256 + unat (b :: byte)) 0 (replicate k 0) = 0"
    by (induction k) (simp_all del: foldl_append)
  then show ?thesis by (simp add: be_nat_def)
qed

lemma bignum_pad_left:
  assumes "bignum_spec bn" "n < 256 ^ 96"
  shows "be_nat (pad_left_96 (bn_to_be bn n)) = n" "length (pad_left_96 (bn_to_be bn n)) = 96"
proof -
  have l: "length (bn_to_be bn n) \<le> 96" and v: "be_nat (bn_to_be bn n) = n"
    using assms unfolding bignum_spec_def by (simp_all del: power_numeral)
  then show "be_nat (pad_left_96 (bn_to_be bn n)) = n" "length (pad_left_96 (bn_to_be bn n)) = 96"
    by (auto simp: pad_left_96_def be_nat_zeros)
qed

definition dh_modulus :: nat where
  "dh_modulus = be_nat DH_PRIME"

lemma dh_modulus_facts: "odd dh_modulus" "1 < dh_modulus" "dh_modulus < 256 ^ 96"
proof -
  have "DH_PRIME = butlast DH_PRIME @ [0x63]" by (simp add: DH_PRIME_def)
  then have m: "dh_modulus = be_nat (butlast DH_PRIME) * 256 + 99"
    unfolding dh_modulus_def using be_nat_snoc [of "butlast DH_PRIME" "0x63"] by simp
  show "odd dh_modulus" unfolding m by (simp add: even_add)
  show "1 < dh_modulus" unfolding m by simp
  have "length DH_PRIME = 96" by (simp add: DH_PRIME_def)
  then show "dh_modulus < 256 ^ 96" unfolding dh_modulus_def using be_nat_less [of DH_PRIME] by metis
qed

lemma pow2_mod_pos: "0 < 2 ^ x mod dh_modulus"
proof (rule ccontr)
  assume "\<not> 0 < 2 ^ x mod dh_modulus"
  then have "dh_modulus dvd 2 ^ x" by (simp add: mod_eq_0_iff_dvd)
  moreover have "coprime dh_modulus (2 ^ x)" using dh_modulus_facts(1) by simp
  ultimately have "dh_modulus = 1" by (metis coprime_common_divisor dvd_refl nat_dvd_1_iff_1)
  with dh_modulus_facts(2) show False by simp
qed

lemma compute_secret_value:
  assumes bn: "bignum_spec bn"
  shows "compute_secret bn (dh_generate bn raw_a) (public_key_bytes bn (dh_generate bn raw_b))
       = Inr (pad_left_96 (bn_to_be bn (2 ^ (be_nat raw_a * be_nat raw_b) mod dh_modulus)))"
proof -
  let ?pub = "2 ^ be_nat raw_b mod dh_modulus"
  have ops: "bn_from_be bn bs = be_nat bs" "0 < m \<Longrightarrow> bn_modpow bn b e m = b ^ e mod m" for bs b e m
    using bn by (simp_all add: bignum_spec_def)
  have gen: "dh_generate bn raw = \<lparr>dh_private = be_nat raw, dh_public = 2 ^ be_nat raw mod dh_modulus,
      dh_prime = dh_modulus\<rparr>" for raw
    using dh_modulus_facts(2) by (simp add: dh_generate_def ops dh_modulus_def Let_def)
  have pub: "?pub < dh_modulus" using dh_modulus_facts(2) by simp
  then have "?pub < 256 ^ 96" using dh_modulus_facts(3) by (rule less_trans)
  note pl = bignum_pad_left [OF bn this]
  have "?pub ^ be_nat raw_a mod dh_modulus = 2 ^ (be_nat raw_a * be_nat raw_b) mod dh_modulus"
    by (simp add: power_mod power_mult [symmetric] mult.commute)
  with pub pow2_mod_pos [of "be_nat raw_b"] dh_modulus_facts(2) show ?thesis
    by (simp add: compute_secret_def public_key_bytes_def gen ops pl Let_def not_le)
qed

section \<open>The whole exchange\<close>

lemma find_slice_sync:
  assumes "\<forall>x. length (sha1 x :: bytes) = 20"
    and "initiator_build_sync sha1 secret skey provide ia = Inr (sync, encr, decr)"
  shows "find_slice sync (hash_req1 sha1 secret) = Some 0"
proof -
  have "hash_req1 sha1 secret \<noteq> []"
    using assms(1) unfolding hash_req1_def sha1_salt1_def by (metis list.size(3) zero_neq_numeral)
  moreover obtain rest where "sync = hash_req1 sha1 secret @ rest"
    using assms(2) by (auto simp: initiator_build_sync_def case_prod_beta Let_def split: option.splits)
  ultimately show ?thesis by (simp add: find_slice_def find_slice_from_prefix)
qed

lemma loopback_outcome:
  assumes sha: "\<forall>x. length (sha1 x :: bytes) = 20" and bn: "bignum_spec bn"
    and pe: "wants_pe mi" "wants_pe mr"
  shows "case select_crypto (crypto_provide_bits mr) (crypto_provide_bits mi) mr of
      None \<Rightarrow> handshake_loopback sha1 bn raw_i raw_r skey mi mr = Inl RejectedCrypto
    | Some v \<Rightarrow> \<exists>i r. handshake_loopback sha1 bn raw_i raw_r skey mi mr = Inr (i, r)
        \<and> ms_crypto_select i = v \<and> ms_crypto_select r = v
        \<and> ms_encrypt i = ms_decrypt r \<and> ms_decrypt i = ms_encrypt r
        \<and> ms_rc4 i = (v = CRYPTO_RC4) \<and> ms_rc4 r = (v = CRYPTO_RC4)"
proof -
  let ?S = "pad_left_96 (bn_to_be bn (2 ^ (be_nat raw_i * be_nat raw_r) mod dh_modulus))"
  have sec: "compute_secret bn (dh_generate bn raw_i) (public_key_bytes bn (dh_generate bn raw_r)) = Inr ?S"
    "compute_secret bn (dh_generate bn raw_r) (public_key_bytes bn (dh_generate bn raw_i)) = Inr ?S"
    by (simp_all only: compute_secret_value [OF bn] mult.commute)
  obtain k l where kl: "rc4_key_a sha1 ?S skey = Some k" "rc4_key_b sha1 ?S skey = Some l"
    using rc4_keys_Some [OF sha] .
  obtain sync e d where b: "initiator_build_sync sha1 ?S skey (crypto_provide_bits mi) [] = Inr (sync, e, d)"
    by (simp add: initiator_build_sync_def case_prod_beta Let_def kl)
  have p: "receiver_parse_initiator sha1 ?S skey sync = Inr (crypto_provide_bits mi, [], e, d)"
    using receiver_reads_initiator [OF sha _ b, of "[]"] find_slice_sync [OF sha b] by simp
  have scan: "initiator_scan_response d (fst (receiver_build_response d v))
      = (Inr (Found v 14), snd (receiver_build_response d v))" for v
    using scan_finds [of "[]" d v "[]"] by simp
  show ?thesis
  proof (cases "select_crypto (crypto_provide_bits mr) (crypto_provide_bits mi) mr")
    case None
    with pe show ?thesis by (simp add: handshake_loopback_def sec b p Let_def)
  next
    case (Some v)
    have "(v AND CRYPTO_RC4 \<noteq> 0) = (v = CRYPTO_RC4)"
      using select_sound [OF Some] by auto
    with Some pe scan [of v] show ?thesis
      by (simp add: handshake_loopback_def sec b p Let_def case_prod_beta)
  qed
qed

section \<open>Concrete parameters for the witnesses\<close>

definition test_sha1 :: "bytes \<Rightarrow> bytes" where
  "test_sha1 bs = replicate 20 (of_nat (length bs))"

lemma test_sha1_length: "\<forall>x. length (test_sha1 x) = 20"
  by (simp add: test_sha1_def)

fun nat_to_be :: "nat \<Rightarrow> bytes" where
  "nat_to_be n = (if n < 256 then [of_nat n] else nat_to_be (n div 256) @ [of_nat (n mod 256)])"

declare nat_to_be.simps [simp del]

definition test_bignum :: bignum where
  "test_bignum = \<lparr>bn_modpow = (\<lambda>b e m. b ^ e mod m), bn_from_be = be_nat, bn_to_be = nat_to_be\<rparr>"

lemma be_nat_to_be: "be_nat (nat_to_be n) = n"
proof (induction n rule: nat_to_be.induct)
  case (1 n)
  have u: "k < 256 \<Longrightarrow> unat (of_nat k :: byte) = k" for k
    by (simp add: unsigned_of_nat take_bit_nat_eq_self)
  show ?case
  proof (cases "n < 256")
    case True
    then show ?thesis using u by (simp add: nat_to_be.simps [of n] be_nat_def)
  next
    case False
    with 1 have "be_nat (nat_to_be (n div 256)) = n div 256" by simp
    with False show ?thesis
      using u [of "n mod 256"] by (simp add: nat_to_be.simps [of n] be_nat_snoc)
  qed
qed

lemma length_nat_to_be: "n < 256 ^ k \<Longrightarrow> 0 < k \<Longrightarrow> length (nat_to_be n) \<le> k"
proof (induction n arbitrary: k rule: nat_to_be.induct)
  case (1 n)
  show ?case
  proof (cases "n < 256")
    case False
    with "1.prems" obtain j where j: "k = Suc j" "0 < j"
      by (cases k; cases "k - 1") auto
    with "1.prems" have "n div 256 < 256 ^ j" by (simp add: less_mult_imp_div_less)
    with "1.IH" [OF False this j(2)] False j show ?thesis by (simp add: nat_to_be.simps [of n])
  qed (use "1.prems" in \<open>simp add: nat_to_be.simps [of n]\<close>)
qed

lemma test_bignum_spec: "bignum_spec test_bignum"
  by (simp add: bignum_spec_def test_bignum_def be_nat_to_be length_nat_to_be)

section \<open>Properties\<close>

text \<open>The crypto selection is sound and complete: a selected method is plaintext or RC4,
  is offered by both sides and respects the local policy (\<open>off\<close> never selects RC4,
  \<open>require-rc4\<close> never plaintext, \<open>prefer-*\<close> picks its preference whenever both offer it),
  and nothing is selected only when no method both sides offer is allowed.\<close>

theorem select_crypto_correct:
  "case select_crypto ours theirs mode of
     None \<Rightarrow> (mode = RequireRc4 \<or> ours AND theirs AND CRYPTO_PLAIN = 0)
         \<and> (mode = Off \<or> ours AND theirs AND CRYPTO_RC4 = 0)
   | Some v \<Rightarrow> (v = CRYPTO_PLAIN \<or> v = CRYPTO_RC4) \<and> ours AND theirs AND v \<noteq> 0
         \<and> (mode = Off \<longrightarrow> v = CRYPTO_PLAIN) \<and> (mode = RequireRc4 \<longrightarrow> v = CRYPTO_RC4)
         \<and> (mode = PreferPlain \<and> ours AND theirs AND CRYPTO_PLAIN \<noteq> 0 \<longrightarrow> v = CRYPTO_PLAIN)
         \<and> (mode = PreferRc4 \<and> ours AND theirs AND CRYPTO_RC4 \<noteq> 0 \<longrightarrow> v = CRYPTO_RC4)"
proof (cases "select_crypto ours theirs mode")
  case None
  then show ?thesis using select_complete [OF None] by auto
next
  case (Some v)
  then show ?thesis using select_sound [OF Some]
    by (cases mode) (auto simp: select_crypto_def Let_def and.assoc split: if_splits)
qed

theorem select_crypto_witness:
  "select_crypto 3 3 PreferRc4 = Some CRYPTO_RC4 \<and> (3 :: 32 word) AND 3 AND CRYPTO_RC4 \<noteq> 0"
proof -
  have "select_crypto 3 3 PreferRc4 = Some CRYPTO_RC4" by (simp add: select_crypto_def)
  with select_crypto_correct [where ours = 3 and theirs = 3 and mode = PreferRc4] show ?thesis by simp
qed

text \<open>The receiver recovers what the initiator sent: behind any padding in which the
  sync hash does not occur, parsing the initiator's flight returns the offered methods and
  the initial payload, and hands the receiver exactly the initiator's two streams with the
  roles swapped, so that the traffic that follows decrypts.\<close>

theorem mse_sync_roundtrip:
  assumes "\<forall>x. length (sha1 x :: bytes) = 20" and "length ia < 65536"
    and "initiator_build_sync sha1 secret skey provide ia = Inr (sync, encr, decr)"
    and "find_slice (pad @ sync) (hash_req1 sha1 secret) = Some (length pad)"
  shows "receiver_parse_initiator sha1 secret skey (pad @ sync) = Inr (provide, ia, encr, decr)"
  using assms by (rule receiver_reads_initiator)

theorem mse_sync_roundtrip_witness:
  "\<exists>sync encr decr. initiator_build_sync test_sha1 [1, 2] [3] 2 [7, 8, 9] = Inr (sync, encr, decr)
     \<and> receiver_parse_initiator test_sha1 [1, 2] [3] sync = Inr (2, [7, 8, 9], encr, decr)"
proof -
  obtain a b where ab: "rc4_key_a test_sha1 [1, 2] [3] = Some a" "rc4_key_b test_sha1 [1, 2] [3] = Some b"
    using rc4_keys_Some [OF test_sha1_length] .
  then obtain sync encr decr where
    e: "initiator_build_sync test_sha1 [1, 2] [3] 2 [7, 8, 9] = Inr (sync, encr, decr)"
    by (simp add: initiator_build_sync_def case_prod_beta Let_def)
  with mse_sync_roundtrip [OF test_sha1_length _ e, of "[]"] find_slice_sync [OF test_sha1_length e]
  show ?thesis by simp
qed

text \<open>The initiator's scan for the encrypted response is sound and bounded. It never
  reports the commit mismatch, and never moves the stream unless it finds a response. A
  found response starts at most 512 bytes in, decrypts to the verification constant followed
  by the reported method and a padding length of at most 512, ends at the reported count
  inside the buffer, and the stream is left right after it. With 1038 bytes buffered it
  always decides.\<close>

theorem mse_scan_sound:
  "case initiator_scan_response decr buf of (r, decr') \<Rightarrow>
     (case r of
        Inr (Found select consumed) \<Rightarrow>
          (\<exists>off. off \<le> 512 \<and> (let plain = fst (crypt_inplace decr (slice off consumed buf)) in
             take 8 plain = VC \<and> select = of_be32 (slice 8 12 plain)
             \<and> consumed = off + 14 + unat (of_be16 (slice 12 14 plain))
             \<and> unat (of_be16 (slice 12 14 plain)) \<le> 512 \<and> consumed \<le> length buf
             \<and> decr' = snd (crypt_inplace decr (slice off consumed buf))))
      | Inr NeedMore \<Rightarrow> decr' = decr \<and> length buf < 1038
      | Inl e \<Rightarrow> decr' = decr \<and> e = VcNotFound)"
proof -
  obtain r d where "initiator_scan_response decr buf = (r, d)" by force
  with scan_sound [OF this] show ?thesis by simp
qed

text \<open>The scan finds a response behind at most 512 bytes of padding, unless an earlier
  offset of the padding happens to decrypt to the verification constant: it reports the
  method the receiver sent, consumes padding and response, and leaves the stream in the state
  in which the receiver's encrypting stream is.\<close>

theorem mse_scan_complete:
  assumes "length padB \<le> 512"
    and "\<forall>off < length padB. take 8 (fst (crypt_inplace decr
        (slice off (off + 14) (padB @ fst (receiver_build_response decr select) @ rest)))) \<noteq> VC"
  shows "initiator_scan_response decr (padB @ fst (receiver_build_response decr select) @ rest)
       = (Inr (Found select (length padB + 14)), snd (receiver_build_response decr select))"
  using assms by (rule scan_finds)

theorem mse_scan_complete_witness:
  "fst (initiator_scan_response \<lparr>rc_s = replicate 256 0, rc_i = 0, rc_j = 0\<rparr>
     (fst (receiver_build_response \<lparr>rc_s = replicate 256 0, rc_i = 0, rc_j = 0\<rparr> 2) @ [1, 2, 3]))
   = Inr (Found 2 14)"
  using mse_scan_complete [of "[]" "\<lparr>rc_s = replicate 256 0, rc_i = 0, rc_j = 0\<rparr>" 2 "[1, 2, 3]"]
  by simp

text \<open>The MSE exchange succeeds exactly when the two policies allow it. With policies
  that both want encryption and any two private keys, the secrets agree and no assertion
  fails; either the receiver rejects, when its selection is empty, or both sides end with the
  selected method, the same RC4 flag, and streams that mirror each other.\<close>

theorem mse_handshake_agrees:
  assumes "\<forall>x. length (sha1 x :: bytes) = 20" and "bignum_spec bn"
  shows "if wants_pe mi \<and> wants_pe mr then
      (case select_crypto (crypto_provide_bits mr) (crypto_provide_bits mi) mr of
         None \<Rightarrow> handshake_loopback sha1 bn raw_i raw_r skey mi mr = Inl RejectedCrypto
       | Some v \<Rightarrow> \<exists>i r. handshake_loopback sha1 bn raw_i raw_r skey mi mr = Inr (i, r)
           \<and> ms_crypto_select i = v \<and> ms_crypto_select r = v
           \<and> ms_encrypt i = ms_decrypt r \<and> ms_decrypt i = ms_encrypt r
           \<and> ms_rc4 i = (v = CRYPTO_RC4) \<and> ms_rc4 r = (v = CRYPTO_RC4))
    else handshake_loopback sha1 bn raw_i raw_r skey mi mr = Inl LoopbackWantsPe"
proof (cases "wants_pe mi \<and> wants_pe mr")
  case True
  with loopback_outcome [OF assms, of mi mr] show ?thesis by simp
qed (auto simp: handshake_loopback_def)

theorem mse_handshake_agrees_witness:
  "\<exists>i r. handshake_loopback test_sha1 test_bignum [1, 2] [3] [9] PreferPlain RequireRc4 = Inr (i, r)
     \<and> ms_crypto_select i = 2 \<and> ms_rc4 r"
proof -
  have "select_crypto (crypto_provide_bits RequireRc4) (crypto_provide_bits PreferPlain) RequireRc4 = Some 2"
    by (simp add: select_crypto_def)
  with mse_handshake_agrees [OF test_sha1_length test_bignum_spec, of PreferPlain RequireRc4 "[1, 2]" "[3]" "[9]"]
  show ?thesis by (auto simp: wants_pe_def)
qed

end
