(* ===== verification/Spans.thy ===== *)
theory Spans
  imports Prelude
begin

text \<open>
  The storage layout of \<open>disk/spans.rs\<close>: files laid end to end in the torrent's byte
  stream, pieces as fixed-size windows of it, and the mapping of a stream range to
  per-file regions. A path is a list of components with an absolute flag, which is what
  \<open>PathBuf::join\<close> looks at.
\<close>

section \<open>Paths\<close>

record fs_path =
  is_abs :: bool
  comps :: "string list"

definition path_join :: "fs_path \<Rightarrow> fs_path \<Rightarrow> fs_path" where
  "path_join base rel =
     (if is_abs rel then rel else \<lparr>is_abs = is_abs base, comps = comps base @ comps rel\<rparr>)"

section \<open>Layout\<close>

record io_span =
  sp_path :: fs_path
  sp_file_offset :: nat
  sp_length :: nat

record file_layout =
  fl_path :: fs_path
  fl_size :: nat
  fl_offset :: nat
  fl_priority :: int

record storage_layout =
  data_root :: fs_path
  piece_length :: nat
  piece_count :: nat
  total_size :: nat
  files :: "file_layout list"

datatype span_error =
    PieceOutOfRange nat nat
  | RangeExceedsTotal nat nat nat
  | NoFileCovers nat

definition file_end :: "file_layout \<Rightarrow> nat" where
  "file_end f = sat_add64 (fl_offset f) (fl_size f)"

definition fl_wanted :: "file_layout \<Rightarrow> bool" where
  "fl_wanted f \<longleftrightarrow> 0 < fl_priority f"

definition absolute :: "storage_layout \<Rightarrow> fs_path \<Rightarrow> fs_path" where
  "absolute lay rel = path_join (data_root lay) rel"

definition piece_size :: "storage_layout \<Rightarrow> nat \<Rightarrow> span_error + nat" where
  "piece_size lay index =
     (if index \<ge> piece_count lay then Inl (PieceOutOfRange index (piece_count lay))
      else
        let start = index * piece_length lay
        in if start \<ge> total_size lay then Inr 0
           else Inr (min (start + piece_length lay) (total_size lay) - start))"

definition covers :: "nat \<Rightarrow> file_layout \<Rightarrow> bool" where
  "covers pos f \<longleftrightarrow> fl_offset f \<le> pos \<and> pos < file_end f"

function spans_loop ::
    "storage_layout \<Rightarrow> nat \<Rightarrow> nat \<Rightarrow> io_span list \<Rightarrow> span_error + io_span list" where
  "spans_loop lay pos range_end spans =
     (if pos < range_end then
        (case find (covers pos) (files lay) of
           None \<Rightarrow> Inl (NoFileCovers pos)
         | Some f \<Rightarrow>
             let into_file = pos - fl_offset f;
                 avail = fl_size f - into_file;
                 tk = min avail (range_end - pos)
             in spans_loop lay (pos + tk) range_end
                  (spans @ [\<lparr>sp_path = absolute lay (fl_path f),
                             sp_file_offset = into_file, sp_length = tk\<rparr>]))
      else Inr spans)"
  by pat_completeness auto
termination
proof (relation "measure (\<lambda>(lay, pos, range_end, spans). range_end - pos)")
  show "wf (measure (\<lambda>(lay :: storage_layout, pos, range_end, spans :: io_span list). range_end - pos))"
    by simp
next
  fix lay :: storage_layout and pos range_end :: nat and spans :: "io_span list"
    and f :: file_layout and into_file avail tk :: nat
  assume h: "pos < range_end" "find (covers pos) (files lay) = Some f"
    "into_file = pos - fl_offset f" "avail = fl_size f - into_file"
    "tk = min avail (range_end - pos)"
  then have "covers pos f" by (auto dest: find_Some_iff_first)
  then have "fl_offset f \<le> pos" "pos < fl_offset f + fl_size f"
    using sat_add64_le [of "fl_offset f" "fl_size f"] by (auto simp: covers_def file_end_def)
  with h have "0 < tk" by auto
  with h(1) show "((lay, pos + tk, range_end, spans @ [\<lparr>sp_path = absolute lay (fl_path f),
      sp_file_offset = into_file, sp_length = tk\<rparr>]), lay, pos, range_end, spans)
      \<in> measure (\<lambda>(lay, pos, range_end, spans). range_end - pos)"
    by auto
qed

declare spans_loop.simps [simp del]

definition spans_for_range :: "storage_layout \<Rightarrow> nat \<Rightarrow> nat \<Rightarrow> span_error + io_span list" where
  "spans_for_range lay range_start range_len =
     (if range_len = 0 then Inr []
      else
        let range_end = sat_add64 range_start range_len
        in if range_end > total_size lay
           then Inl (RangeExceedsTotal range_start range_len (total_size lay))
           else spans_loop lay range_start range_end [])"

definition spans_for_piece :: "storage_layout \<Rightarrow> nat \<Rightarrow> span_error + io_span list" where
  "spans_for_piece lay index =
     (case piece_size lay index of
        Inl e \<Rightarrow> Inl e
      | Inr len \<Rightarrow> spans_for_range lay (index * piece_length lay) len)"

section \<open>Well-formed layouts\<close>

text \<open>
  Files laid end to end from \<open>off\<close>, as \<open>parse_files\<close> and the catalog produce them.
\<close>

fun contiguous :: "nat \<Rightarrow> file_layout list \<Rightarrow> bool" where
  "contiguous off [] = True"
| "contiguous off (f # fs) = (fl_offset f = off \<and> contiguous (off + fl_size f) fs)"

definition layout_ok :: "storage_layout \<Rightarrow> bool" where
  "layout_ok lay \<longleftrightarrow>
     contiguous 0 (files lay) \<and> total_size lay = sum_list (map fl_size (files lay)) \<and>
     total_size lay \<le> u64_max \<and> 0 < piece_length lay \<and>
     piece_count lay = div_ceil (total_size lay) (piece_length lay)"

text \<open>
  The abstract store: each file holds \<open>fl_size\<close> bytes and the torrent is their
  concatenation. Reading a span list means reading every region and joining the results.
\<close>

definition stream :: "(fs_path \<Rightarrow> 'a list) \<Rightarrow> storage_layout \<Rightarrow> 'a list" where
  "stream disk lay = concat (map (\<lambda>f. disk (absolute lay (fl_path f))) (files lay))"

definition sized :: "(fs_path \<Rightarrow> 'a list) \<Rightarrow> storage_layout \<Rightarrow> bool" where
  "sized disk lay \<longleftrightarrow> (\<forall>f \<in> set (files lay). length (disk (absolute lay (fl_path f))) = fl_size f)"

definition read_span :: "(fs_path \<Rightarrow> 'a list) \<Rightarrow> io_span \<Rightarrow> 'a list" where
  "read_span disk s = take (sp_length s) (drop (sp_file_offset s) (disk (sp_path s)))"

definition read_spans :: "(fs_path \<Rightarrow> 'a list) \<Rightarrow> io_span list \<Rightarrow> 'a list" where
  "read_spans disk spans = concat (map (read_span disk) spans)"

lemma read_spans_append [simp]:
  "read_spans disk (xs @ ys) = read_spans disk xs @ read_spans disk ys"
  by (simp add: read_spans_def)

lemma read_spans_single [simp]: "read_spans disk [s] = read_span disk s"
  by (simp add: read_spans_def)

lemma read_spans_Nil [simp]: "read_spans disk [] = []"
  by (simp add: read_spans_def)

lemma contiguous_file_in_stream:
  assumes "contiguous off fs" "f \<in> set fs"
    and "\<forall>f \<in> set fs. length (d f) = fl_size f"
  shows "off \<le> fl_offset f \<and> fl_offset f + fl_size f \<le> off + sum_list (map fl_size fs) \<and>
         take (fl_size f) (drop (fl_offset f - off) (concat (map d fs))) = d f"
  using assms
proof (induction fs arbitrary: off)
  case (Cons g fs)
  show ?case
  proof (cases "f = g")
    case True
    with Cons.prems show ?thesis by simp
  next
    case False
    then have "f \<in> set fs" using Cons.prems by simp
    with Cons have ih: "off + fl_size g \<le> fl_offset f"
      "fl_offset f + fl_size f \<le> off + fl_size g + sum_list (map fl_size fs)"
      "take (fl_size f) (drop (fl_offset f - (off + fl_size g)) (concat (map d fs))) = d f"
      by auto
    with Cons.prems show ?thesis by (simp add: add.assoc)
  qed
qed simp

lemma contiguous_covered:
  assumes "contiguous off fs" "off \<le> pos" "pos < off + sum_list (map fl_size fs)"
    "off + sum_list (map fl_size fs) \<le> u64_max"
  shows "find (covers pos) fs \<noteq> None"
  using assms
proof (induction fs arbitrary: off)
  case (Cons g fs)
  show ?case
  proof (cases "pos < off + fl_size g")
    case True
    with Cons.prems have "covers pos g" by (simp add: covers_def file_end_def)
    then show ?thesis by simp
  next
    case False
    with Cons.prems have "find (covers pos) fs \<noteq> None"
      by (intro Cons.IH [of "off + fl_size g"]) auto
    then show ?thesis by simp
  qed
qed simp

lemma find_covers_ok:
  assumes "layout_ok lay" "pos < total_size lay"
  obtains f where "find (covers pos) (files lay) = Some f" "f \<in> set (files lay)"
    "fl_offset f \<le> pos" "pos < fl_offset f + fl_size f"
proof -
  from assms have "find (covers pos) (files lay) \<noteq> None"
    by (intro contiguous_covered [of 0]) (auto simp: layout_ok_def)
  then obtain f where f: "find (covers pos) (files lay) = Some f" by auto
  then have "covers pos f" "f \<in> set (files lay)" by (auto dest: find_Some_iff_first)
  with f that show thesis
    using sat_add64_le [of "fl_offset f" "fl_size f"] by (auto simp: covers_def file_end_def)
qed

section \<open>Correctness of the span mapping\<close>

lemma spans_loop_correct:
  assumes "layout_ok lay" "range_end \<le> total_size lay" "sized disk lay" "pos \<le> range_end"
  shows "\<exists>spans'. spans_loop lay pos range_end spans = Inr (spans @ spans') \<and>
     read_spans disk spans' = slice pos range_end (stream disk lay) \<and>
     sum_list (map sp_length spans') = range_end - pos \<and> (\<forall>s \<in> set spans'. 0 < sp_length s)"
  using assms
proof (induction lay pos range_end spans rule: spans_loop.induct)
  case (1 lay pos range_end spans)
  show ?case
  proof (cases "pos < range_end")
    case False
    with "1.prems" show ?thesis by (subst spans_loop.simps) (auto simp: slice_def)
  next
    case True
    with "1.prems" have "pos < total_size lay" by simp
    with "1.prems"(1) obtain f where f: "find (covers pos) (files lay) = Some f"
      "f \<in> set (files lay)" "fl_offset f \<le> pos" "pos < fl_offset f + fl_size f"
      by (rule find_covers_ok)
    define io where "io = pos - fl_offset f"
    define tk where "tk = min (fl_size f - io) (range_end - pos)"
    define sp where "sp = \<lparr>sp_path = absolute lay (fl_path f), sp_file_offset = io, sp_length = tk\<rparr>"
    have tk: "0 < tk" "pos + tk \<le> range_end" "io + tk \<le> fl_size f"
      using f True by (auto simp: tk_def io_def)
    from "1.IH" [OF True f(1) refl refl refl] "1.prems" tk obtain spans' where
      ih: "spans_loop lay (pos + tk) range_end (spans @ [sp]) = Inr ((spans @ [sp]) @ spans')"
      "read_spans disk spans' = slice (pos + tk) range_end (stream disk lay)"
      "sum_list (map sp_length spans') = range_end - (pos + tk)" "\<forall>s \<in> set spans'. 0 < sp_length s"
      unfolding io_def [symmetric] tk_def [symmetric] sp_def [symmetric] by blast
    let ?d = "\<lambda>f. disk (absolute lay (fl_path f))"
    have fdata: "take (fl_size f) (drop (fl_offset f) (stream disk lay)) = ?d f"
      using contiguous_file_in_stream [of 0 "files lay" f ?d] f "1.prems"
      by (simp add: stream_def sized_def layout_ok_def)
    have "read_span disk sp = take tk (drop io (take (fl_size f) (drop (fl_offset f) (stream disk lay))))"
      by (simp add: read_span_def sp_def fdata)
    also have "\<dots> = take tk (drop pos (stream disk lay))"
      using tk f by (simp add: drop_take io_def min_def)
    finally have rd: "read_span disk sp = take tk (drop pos (stream disk lay))" .
    have eq: "spans_loop lay pos range_end spans = Inr (spans @ sp # spans')"
      using True f(1) ih(1)
      by (subst spans_loop.simps) (simp add: Let_def io_def [symmetric] tk_def [symmetric] sp_def [symmetric])
    have "read_spans disk (sp # spans') = slice pos range_end (stream disk lay)"
      using ih(2) rd take_drop_join [of tk pos "stream disk lay" "range_end - (pos + tk)"] tk
      by (simp add: read_spans_def slice_def)
    with eq ih(3,4) tk show ?thesis by (intro exI [of _ "sp # spans'"]) (simp add: sp_def)
  qed
qed

lemma spans_for_range_correct:
  assumes "layout_ok lay" "sized disk lay" "start + len \<le> total_size lay"
  shows "\<exists>spans. spans_for_range lay start len = Inr spans \<and>
     read_spans disk spans = take len (drop start (stream disk lay)) \<and>
     sum_list (map sp_length spans) = len \<and> (\<forall>s \<in> set spans. 0 < sp_length s)"
proof (cases "len = 0")
  case False
  have "start + len \<le> u64_max" using assms by (auto simp: layout_ok_def)
  with spans_loop_correct [of lay "start + len" disk start "[]"] assms False show ?thesis
    by (simp add: spans_for_range_def slice_def)
qed (simp add: spans_for_range_def)

text \<open>The absolute root never leaks: every region lies in a file of the layout.\<close>

lemma spans_loop_in_files:
  assumes "spans_loop lay pos range_end spans = Inr res"
    "\<forall>s \<in> set spans. \<exists>f \<in> set (files lay). sp_path s = absolute lay (fl_path f) \<and>
       sp_file_offset s + sp_length s \<le> fl_size f"
  shows "\<forall>s \<in> set res. \<exists>f \<in> set (files lay). sp_path s = absolute lay (fl_path f) \<and>
       sp_file_offset s + sp_length s \<le> fl_size f"
  using assms
proof (induction lay pos range_end spans rule: spans_loop.induct)
  case (1 lay pos range_end spans)
  show ?case
  proof (cases "pos < range_end")
    case False
    with "1.prems" show ?thesis by (subst (asm) spans_loop.simps) simp
  next
    case True
    with "1.prems"(1) obtain f where f: "find (covers pos) (files lay) = Some f"
      by (subst (asm) spans_loop.simps) (auto split: option.splits)
    then have cov: "f \<in> set (files lay)" "fl_offset f \<le> pos" "pos < fl_offset f + fl_size f"
      using sat_add64_le [of "fl_offset f" "fl_size f"]
      by (auto simp: covers_def file_end_def dest!: find_Some_iff_first)
    from "1.prems"(1) True f have "spans_loop lay
        (pos + min (fl_size f - (pos - fl_offset f)) (range_end - pos)) range_end
        (spans @ [\<lparr>sp_path = absolute lay (fl_path f), sp_file_offset = pos - fl_offset f,
          sp_length = min (fl_size f - (pos - fl_offset f)) (range_end - pos)\<rparr>]) = Inr res"
      by (subst (asm) spans_loop.simps) (simp add: Let_def)
    then show ?thesis
    proof (rule "1.IH" [OF True f refl refl refl])
    qed (use "1.prems"(2) cov in \<open>auto intro!: bexI [of _ f]\<close>)
  qed
qed

lemma spans_for_range_in_files:
  assumes "spans_for_range lay start len = Inr res" "s \<in> set res"
  shows "\<exists>f \<in> set (files lay). sp_path s = absolute lay (fl_path f) \<and>
       sp_file_offset s + sp_length s \<le> fl_size f"
  using assms spans_loop_in_files [of lay start "sat_add64 start len" "[]" res]
  by (auto simp: spans_for_range_def Let_def split: if_splits)

section \<open>Pieces\<close>

lemma piece_size_Inr:
  assumes "layout_ok lay" "i < piece_count lay"
  shows "piece_size lay i = Inr (min (piece_length lay) (total_size lay - i * piece_length lay))"
    and "i * piece_length lay < total_size lay"
proof -
  show lt: "i * piece_length lay < total_size lay"
    using assms div_ceil_less by (auto simp: layout_ok_def)
  show "piece_size lay i = Inr (min (piece_length lay) (total_size lay - i * piece_length lay))"
    using assms lt by (auto simp: piece_size_def Let_def min_def)
qed

definition piece_size_or0 :: "storage_layout \<Rightarrow> nat \<Rightarrow> nat" where
  "piece_size_or0 lay i = (case piece_size lay i of Inl _ \<Rightarrow> 0 | Inr n \<Rightarrow> n)"

lemma sum_piece_sizes_prefix:
  assumes "layout_ok lay" "n \<le> piece_count lay"
  shows "(\<Sum>i<n. piece_size_or0 lay i) = min (n * piece_length lay) (total_size lay)"
  using assms(2)
proof (induction n)
  case (Suc n)
  then have n: "n < piece_count lay" by simp
  from piece_size_Inr [OF assms(1) n] Suc show ?case
    by (simp add: piece_size_or0_def min_def) linarith
qed simp

lemma sum_piece_sizes:
  assumes "layout_ok lay"
  shows "(\<Sum>i<piece_count lay. piece_size_or0 lay i) = total_size lay"
proof -
  have "total_size lay \<le> piece_count lay * piece_length lay"
    using assms div_ceil_mult_ge by (metis layout_ok_def)
  with sum_piece_sizes_prefix [OF assms order_refl] show ?thesis by (simp add: min_def)
qed

lemma spans_for_piece_correct:
  assumes "layout_ok lay" "sized disk lay" "i < piece_count lay"
  shows "\<exists>spans. spans_for_piece lay i = Inr spans \<and>
     read_spans disk spans = take (piece_length lay) (drop (i * piece_length lay) (stream disk lay))"
proof -
  note ps = piece_size_Inr [OF assms(1,3)]
  let ?n = "min (piece_length lay) (total_size lay - i * piece_length lay)"
  have "i * piece_length lay + ?n \<le> total_size lay" using ps(2) by simp
  from spans_for_range_correct [OF assms(1,2) this] obtain spans where
    s: "spans_for_range lay (i * piece_length lay) ?n = Inr spans"
      "read_spans disk spans = take ?n (drop (i * piece_length lay) (stream disk lay))" by blast
  have "length (stream disk lay) = total_size lay"
    using assms(1,2) by (simp add: stream_def sized_def layout_ok_def length_concat comp_def cong: map_cong)
  then have "take ?n (drop (i * piece_length lay) (stream disk lay)) =
      take (piece_length lay) (drop (i * piece_length lay) (stream disk lay))"
    by (auto simp: min_def)
  with s ps show ?thesis by (auto simp: spans_for_piece_def)
qed

section \<open>Properties\<close>

text \<open>C3. A range inside the torrent is split into file regions that read back exactly its
  bytes: for files laid end to end, the spans of \<open>[start, start + len)\<close> are found, cover
  exactly \<open>len\<close> bytes with no empty span, each inside a file of the layout, and reading them
  in order yields that range of the concatenated files.\<close>

theorem spans_read_the_range:
  assumes "layout_ok lay" "sized disk lay" "start + len \<le> total_size lay"
  shows "\<exists>spans. spans_for_range lay start len = Inr spans
    \<and> read_spans disk spans = take len (drop start (stream disk lay))
    \<and> sum_list (map sp_length spans) = len
    \<and> (\<forall>s \<in> set spans. 0 < sp_length s \<and> (\<exists>f \<in> set (files lay).
         sp_path s = absolute lay (fl_path f) \<and> sp_file_offset s + sp_length s \<le> fl_size f))"
  using spans_for_range_correct [OF assms] spans_for_range_in_files [of lay start len] by blast

definition test_layout :: storage_layout where
  "test_layout =
     (let path = \<lambda>n. \<lparr>is_abs = False, comps = [n]\<rparr> in
      \<lparr>data_root = \<lparr>is_abs = True, comps = [''data'']\<rparr>, piece_length = 4, piece_count = 2, total_size = 7,
       files = [\<lparr>fl_path = path ''a'', fl_size = 3, fl_offset = 0, fl_priority = 1\<rparr>,
                \<lparr>fl_path = path ''b'', fl_size = 4, fl_offset = 3, fl_priority = 0\<rparr>]\<rparr>)"

definition test_disk :: "fs_path \<Rightarrow> nat list" where
  "test_disk p = (if comps p = [''data'', ''a''] then [1, 2, 3] else [4, 5, 6, 7])"

lemma test_layout_ok: "layout_ok test_layout" "sized test_disk test_layout"
  by (simp_all add: layout_ok_def sized_def test_layout_def test_disk_def absolute_def path_join_def
      div_ceil_def Let_def)

theorem spans_read_the_range_witness:
  "\<exists>spans. spans_for_range test_layout 2 3 = Inr spans \<and> read_spans test_disk spans = [3, 4, 5]"
  using spans_read_the_range [OF test_layout_ok, of 2 3]
  by (auto simp: stream_def test_layout_def test_disk_def absolute_def path_join_def Let_def)

text \<open>C4. The pieces partition the torrent: every valid index has a positive size of at most the
  piece length, the sizes of all pieces add up to the total, and the spans of piece \<open>i\<close> read
  exactly the \<open>i\<close>-th block of \<open>piece_length\<close> bytes of the concatenated files.\<close>

theorem pieces_partition_the_torrent:
  assumes "layout_ok lay" "sized disk lay" "i < piece_count lay"
  shows "(\<exists>n. piece_size lay i = Inr n \<and> 0 < n \<and> n \<le> piece_length lay)
    \<and> (\<Sum>j<piece_count lay. piece_size_or0 lay j) = total_size lay
    \<and> (\<exists>spans. spans_for_piece lay i = Inr spans
         \<and> read_spans disk spans = take (piece_length lay) (drop (i * piece_length lay) (stream disk lay)))"
proof (intro conjI)
  show "\<exists>n. piece_size lay i = Inr n \<and> 0 < n \<and> n \<le> piece_length lay"
    using piece_size_Inr [OF assms(1,3)] assms(1) by (auto simp: layout_ok_def)
qed (use sum_piece_sizes [OF assms(1)] spans_for_piece_correct [OF assms] in auto)

theorem pieces_partition_witness:
  "\<exists>spans. spans_for_piece test_layout 1 = Inr spans \<and> read_spans test_disk spans = [5, 6, 7]"
  using pieces_partition_the_torrent [OF test_layout_ok, of 1]
  by (auto simp: stream_def test_layout_def test_disk_def absolute_def path_join_def Let_def)

end
