(* ===== verification/Piece_Pool.thy ===== *)
theory Piece_Pool
  imports Prelude
begin

text \<open>
  The per-torrent freelist of piece buffers, \<open>staging/piece_pool.rs\<close>: a byte budget turned
  into a number of piece-sized buffers, acquired lazily and recycled. The lock makes every
  operation atomic, so each is one function on the pool's state. The locale
  \<open>buffer_budget\<close> is the interface of the pool for the staging code; it is interpreted on the
  operations here.
\<close>

section \<open>The interface\<close>

locale buffer_budget =
  fixes inv :: "'p \<Rightarrow> bool"
    and capacity :: "'p \<Rightarrow> nat"
    and in_use :: "'p \<Rightarrow> nat"
    and buf_len :: "'p \<Rightarrow> nat"
    and acquire :: "nat \<Rightarrow> 'p \<Rightarrow> bytes option \<times> 'p"
    and release :: "bytes \<Rightarrow> 'p \<Rightarrow> 'p"
    and detach :: "'p \<Rightarrow> 'p"
    and donate :: "bytes \<Rightarrow> 'p \<Rightarrow> 'p"
  assumes bounded: "inv p \<Longrightarrow> in_use p \<le> capacity p"
    and acquire_inv: "inv p \<Longrightarrow> inv (snd (acquire now p))"
    and acquire_Some: "inv p \<Longrightarrow> fst (acquire now p) = Some b \<Longrightarrow>
      in_use (snd (acquire now p)) = Suc (in_use p) \<and> length b = buf_len p"
    and acquire_None: "inv p \<Longrightarrow> fst (acquire now p) = None \<Longrightarrow>
      in_use (snd (acquire now p)) = in_use p"
    and acquire_iff: "inv p \<Longrightarrow> fst (acquire now p) = None \<longleftrightarrow> in_use p = capacity p"
    and acquire_same: "capacity (snd (acquire now p)) = capacity p \<and> buf_len (snd (acquire now p)) = buf_len p"
    and release_inv: "inv p \<Longrightarrow> inv (release b p)"
    and release_use: "in_use (release b p) = in_use p - 1"
    and release_same: "capacity (release b p) = capacity p \<and> buf_len (release b p) = buf_len p"
    and detach_inv: "inv p \<Longrightarrow> inv (detach p)"
    and detach_use: "in_use (detach p) = in_use p - 1"
    and detach_same: "capacity (detach p) = capacity p \<and> buf_len (detach p) = buf_len p"
    and donate_inv: "inv p \<Longrightarrow> inv (donate b p)"
    and donate_use: "in_use (donate b p) = in_use p"
    and donate_same: "capacity (donate b p) = capacity p \<and> buf_len (donate b p) = buf_len p"
begin

text \<open>Releasing a list of buffers, as a dropped peer does.\<close>

lemma release_all:
  "inv p \<Longrightarrow> inv (fold release bs p) \<and> in_use (fold release bs p) = in_use p - length bs
     \<and> capacity (fold release bs p) = capacity p \<and> buf_len (fold release bs p) = buf_len p"
  by (induction bs arbitrary: p) (simp_all add: release_inv release_use release_same)

lemma acquire_available:
  assumes "inv p" "in_use p < capacity p"
  obtains b where "fst (acquire now p) = Some b" "length b = buf_len p"
    "in_use (snd (acquire now p)) = Suc (in_use p)"
proof -
  from assms acquire_iff [of p now] obtain b where "fst (acquire now p) = Some b"
    by (cases "fst (acquire now p)") auto
  with acquire_Some [OF assms(1) this] that show thesis by blast
qed

end

section \<open>The pool\<close>

abbreviation DEFAULT_STAGING_MEM_LIMIT :: nat where "DEFAULT_STAGING_MEM_LIMIT \<equiv> 268435456"
abbreviation MIN_PIECE_BUFFERS :: nat where "MIN_PIECE_BUFFERS \<equiv> 2"
abbreviation MAX_PIECE_BUFFERS :: nat where "MAX_PIECE_BUFFERS \<equiv> 4096"
abbreviation BUDGET_FULL_WARN_SECS :: nat where "BUDGET_FULL_WARN_SECS \<equiv> 5"

definition buffer_count_for_limit :: "nat \<Rightarrow> nat \<Rightarrow> nat" where
  "buffer_count_for_limit piece_length limit_bytes =
     (let plen = max piece_length 1;
          limit = (if limit_bytes = 0 then DEFAULT_STAGING_MEM_LIMIT else limit_bytes);
          lower = min (plen * MIN_PIECE_BUFFERS) u64_max;
          limit = max limit lower;
          n = limit div plen
      in max MIN_PIECE_BUFFERS (min n MAX_PIECE_BUFFERS))"

record piece_pool =
  pp_torrent_id :: int
  pp_torrent_name :: string
  pp_piece_length :: nat
  pp_limit_bytes :: nat
  pp_capacity :: nat
  pp_free :: "bytes list"
  pp_outstanding :: nat
  pp_last_full_warn_secs :: nat

definition with_torrent :: "int \<Rightarrow> string \<Rightarrow> nat \<Rightarrow> nat \<Rightarrow> piece_pool" where
  "with_torrent torrent_id torrent_name piece_length limit_bytes =
     (let piece_length = max piece_length 1;
          limit_bytes = (if limit_bytes = 0 then DEFAULT_STAGING_MEM_LIMIT else limit_bytes)
      in \<lparr>pp_torrent_id = torrent_id, pp_torrent_name = torrent_name,
          pp_piece_length = piece_length, pp_limit_bytes = limit_bytes,
          pp_capacity = buffer_count_for_limit piece_length limit_bytes,
          pp_free = [], pp_outstanding = 0, pp_last_full_warn_secs = 0\<rparr>)"

definition pool_new :: "nat \<Rightarrow> nat \<Rightarrow> piece_pool" where
  "pool_new piece_length limit_bytes = with_torrent 0 '''' piece_length limit_bytes"

definition available :: "piece_pool \<Rightarrow> nat" where
  "available p = pp_capacity p - pp_outstanding p"

definition freelist_len :: "piece_pool \<Rightarrow> nat" where
  "freelist_len p = length (pp_free p)"

text \<open>\<open>Vec::resize(n, 0)\<close>.\<close>

definition resize :: "bytes \<Rightarrow> nat \<Rightarrow> bytes" where
  "resize buf n = take n buf @ replicate (n - length buf) 0"

text \<open>The warning is a log line; its rate limit is state. The clock is an argument.\<close>

definition warn_budget_full :: "nat \<Rightarrow> piece_pool \<Rightarrow> piece_pool" where
  "warn_budget_full now p =
     (if now - pp_last_full_warn_secs p < BUDGET_FULL_WARN_SECS then p
      else p\<lparr>pp_last_full_warn_secs := now\<rparr>)"

text \<open>\<open>free\<close> is a stack: \<open>Vec::pop\<close> and \<open>Vec::push\<close> work on the last element.\<close>

definition try_acquire :: "nat \<Rightarrow> piece_pool \<Rightarrow> bytes option \<times> piece_pool" where
  "try_acquire now p =
     (let need = pp_piece_length p
      in if pp_free p \<noteq> [] then
           let buf = last (pp_free p);
               p' = p\<lparr>pp_free := butlast (pp_free p), pp_outstanding := pp_outstanding p + 1\<rparr>
           in (Some (if length buf \<noteq> need then resize buf need else buf), p')
         else if pp_outstanding p \<ge> pp_capacity p then (None, warn_budget_full now p)
         else (Some (replicate need 0), p\<lparr>pp_outstanding := pp_outstanding p + 1\<rparr>))"

definition push_free :: "bytes \<Rightarrow> piece_pool \<Rightarrow> piece_pool" where
  "push_free buf p =
     (let need = pp_piece_length p;
          buf = (if length buf \<noteq> need then resize buf need else buf)
      in if length (pp_free p) + pp_outstanding p < pp_capacity p
         then p\<lparr>pp_free := pp_free p @ [buf]\<rparr> else p)"

definition detach :: "piece_pool \<Rightarrow> piece_pool" where
  "detach p = (if pp_outstanding p > 0 then p\<lparr>pp_outstanding := pp_outstanding p - 1\<rparr> else p)"

definition release :: "bytes \<Rightarrow> piece_pool \<Rightarrow> piece_pool" where
  "release buf p =
     push_free buf (if pp_outstanding p > 0 then p\<lparr>pp_outstanding := pp_outstanding p - 1\<rparr> else p)"

definition donate :: "bytes \<Rightarrow> piece_pool \<Rightarrow> piece_pool" where
  "donate buf p = push_free buf p"

section \<open>The invariant\<close>

definition pool_ok :: "piece_pool \<Rightarrow> bool" where
  "pool_ok p \<longleftrightarrow> length (pp_free p) + pp_outstanding p \<le> pp_capacity p
     \<and> (\<forall>b \<in> set (pp_free p). length b = pp_piece_length p)"

lemma length_resize [simp]: "length (resize b n) = n"
  by (simp add: resize_def)

lemma push_free_ok: "pool_ok p \<Longrightarrow> pool_ok (push_free b p)"
  by (auto simp: pool_ok_def push_free_def Let_def)

lemma push_free_same [simp]:
  "pp_outstanding (push_free b p) = pp_outstanding p" "pp_capacity (push_free b p) = pp_capacity p"
  "pp_piece_length (push_free b p) = pp_piece_length p"
  by (simp_all add: push_free_def Let_def)

lemma warn_same [simp]:
  "pp_outstanding (warn_budget_full now p) = pp_outstanding p"
  "pp_capacity (warn_budget_full now p) = pp_capacity p"
  "pp_piece_length (warn_budget_full now p) = pp_piece_length p"
  "pp_free (warn_budget_full now p) = pp_free p"
  by (simp_all add: warn_budget_full_def)

lemma pool_ok_try_acquire: "pool_ok p \<Longrightarrow> pool_ok (snd (try_acquire now p))"
  by (cases "pp_free p" rule: rev_cases)
     (auto simp: pool_ok_def try_acquire_def Let_def)

interpretation bb: buffer_budget pool_ok pp_capacity pp_outstanding pp_piece_length
  try_acquire release detach donate
proof unfold_locales
  show "pool_ok p \<Longrightarrow> pp_outstanding p \<le> pp_capacity p" for p by (simp add: pool_ok_def)
  show "pool_ok p \<Longrightarrow> pool_ok (snd (try_acquire now p))" for p now by (rule pool_ok_try_acquire)
  show "pool_ok p \<Longrightarrow> (fst (try_acquire now p) = None) = (pp_outstanding p = pp_capacity p)" for p now
    by (cases "pp_free p") (auto simp: pool_ok_def try_acquire_def Let_def)
  show "pool_ok p \<Longrightarrow> pool_ok (release b p)" for p b
    unfolding release_def by (rule push_free_ok) (auto simp: pool_ok_def)
  show "pool_ok p \<Longrightarrow> pool_ok (detach p)" for p by (auto simp: pool_ok_def detach_def)
  show "pool_ok p \<Longrightarrow> pool_ok (donate b p)" for p b by (simp add: donate_def push_free_ok)
qed (auto simp: try_acquire_def release_def detach_def donate_def Let_def split: if_splits)

lemma with_torrent_ok [inv_intros]: "pool_ok (with_torrent i nm pl lim)"
  by (simp add: pool_ok_def with_torrent_def Let_def)

section \<open>Properties\<close>

text \<open>The buffer count respects the memory limit: it is at least two (assembling and
  hashing overlap) and at most 4096, and whenever it is more than two the buffers fit the
  limit, the 256 MiB default standing for zero.\<close>

theorem buffer_count_within_limit:
  "(let n = buffer_count_for_limit piece_length limit_bytes;
        limit = (if limit_bytes = 0 then DEFAULT_STAGING_MEM_LIMIT else limit_bytes)
    in MIN_PIECE_BUFFERS \<le> n \<and> n \<le> MAX_PIECE_BUFFERS
       \<and> (n = MIN_PIECE_BUFFERS \<or> n * max piece_length 1 \<le> limit))"
proof -
  define plen where "plen = max piece_length 1"
  define limit where "limit = (if limit_bytes = 0 then DEFAULT_STAGING_MEM_LIMIT else limit_bytes)"
  define lower where "lower = min (plen * 2) u64_max"
  define n where "n = max limit lower div plen"
  have n: "buffer_count_for_limit piece_length limit_bytes = max 2 (min n 4096)"
    unfolding n_def lower_def limit_def plen_def buffer_count_for_limit_def Let_def by (rule refl)
  have np: "n * plen \<le> max limit lower" by (simp add: n_def)
  have "max 2 (min n 4096) = 2 \<or> max 2 (min n 4096) * plen \<le> limit"
  proof (cases "n \<le> 2")
    case False
    then have "2 * plen < n * plen" using mult_less_mono1 [of 2 n plen] by (simp add: plen_def)
    moreover have "lower \<le> 2 * plen" by (simp add: lower_def)
    ultimately have "n * plen \<le> limit" using np by linarith
    moreover have "max 2 (min n 4096) * plen \<le> n * plen"
      by (rule mult_le_mono1) (use False in simp)
    ultimately have "max 2 (min n 4096) * plen \<le> limit" by (rule order_trans [rotated])
    then show ?thesis ..
  qed simp
  with n show ?thesis unfolding Let_def limit_def [symmetric] plen_def [symmetric] by simp
qed

end
