(* ===== verification/Staging.thy ===== *)
theory Staging
  imports Piece_Pool "HOL-Library.Multiset"
begin

text \<open>
  Piece assembly, \<open>staging/pool.rs\<close>: the block bookkeeping of one piece, the per-peer table
  of pieces being assembled or hashed, and the request scheduler \<open>take_requests\<close>. The shared
  buffer pool (an \<open>Arc\<close> in the code) is threaded through as a second state component; a
  pure seeder has no pool (\<open>st_shared = False\<close>).
\<close>

abbreviation BLOCK_SIZE :: nat where "BLOCK_SIZE \<equiv> 16384"

datatype staging_error = BlockOverflows | UnalignedMultiBlock | BlockBeginPastPiece | BlockPastPieceEnd

section \<open>Blocks\<close>

definition num_blocks :: "nat \<Rightarrow> nat" where
  "num_blocks piece_len = (if piece_len = 0 then 0 else div_ceil piece_len BLOCK_SIZE)"

definition block_len :: "nat \<Rightarrow> nat \<Rightarrow> nat" where
  "block_len piece_len block_index =
     (let begin = block_index * BLOCK_SIZE
      in if begin \<ge> piece_len then 0 else min (piece_len - begin) BLOCK_SIZE)"

section \<open>One piece\<close>

record active_piece =
  ap_index :: nat
  ap_length :: nat
  ap_have :: "bool list"
  ap_requested :: "bool list"
  ap_endgame :: bool

definition piece_open :: "nat \<Rightarrow> nat \<Rightarrow> nat \<Rightarrow> active_piece" where
  "piece_open index len max_blocks =
     (let nblocks = num_blocks len
      in \<lparr>ap_index = index, ap_length = len, ap_have = take nblocks (replicate max_blocks False),
          ap_requested = take nblocks (replicate max_blocks False), ap_endgame = False\<rparr>)"

definition is_complete :: "active_piece \<Rightarrow> bool" where
  "is_complete a \<longleftrightarrow> list_all (\<lambda>h. h) (ap_have a)"

definition set_endgame :: "bool \<Rightarrow> active_piece \<Rightarrow> active_piece" where
  "set_endgame on a = a\<lparr>ap_endgame := on\<rparr>"

definition requeue_missing :: "active_piece \<Rightarrow> active_piece" where
  "requeue_missing a =
     a\<lparr>ap_requested := foldl (\<lambda>r i. if \<not> ap_have a ! i then r[i := False] else r)
         (ap_requested a) [0..<length (ap_have a)]\<rparr>"

definition piece_clear_request :: "nat \<Rightarrow> nat \<Rightarrow> active_piece \<Rightarrow> bool \<times> active_piece" where
  "piece_clear_request begin len a =
     (if begin mod BLOCK_SIZE \<noteq> 0 then (False, a)
      else let bi = begin div BLOCK_SIZE
           in if bi \<ge> length (ap_have a) \<or> ap_have a ! bi \<or> \<not> ap_requested a ! bi then (False, a)
              else if len \<noteq> block_len (ap_length a) bi then (False, a)
              else (True, a\<lparr>ap_requested := (ap_requested a)[bi := False]\<rparr>))"

text \<open>\<open>outstanding a i\<close> is the test \<open>!have[i] && requested[i]\<close> of the code.\<close>

definition waiting :: "active_piece \<Rightarrow> nat \<Rightarrow> bool" where
  "waiting a i \<longleftrightarrow> \<not> ap_have a ! i \<and> ap_requested a ! i"

definition next_request :: "active_piece \<Rightarrow> ((nat \<times> nat) \<times> active_piece) option" where
  "next_request a =
     (case List.find (\<lambda>i. \<not> ap_have a ! i \<and> \<not> ap_requested a ! i) [0..<length (ap_have a)] of
        None \<Rightarrow> None
      | Some i \<Rightarrow> Some ((i * BLOCK_SIZE, block_len (ap_length a) i),
                       a\<lparr>ap_requested := (ap_requested a)[i := True]\<rparr>))"

definition outstanding_requests :: "active_piece \<Rightarrow> nat" where
  "outstanding_requests a =
     length (filter (\<lambda>(h, r). \<not> h \<and> r) (zip (ap_have a) (ap_requested a)))"

definition outstanding_blocks :: "active_piece \<Rightarrow> (nat \<times> nat) list" where
  "outstanding_blocks a =
     map (\<lambda>i. (i * BLOCK_SIZE, block_len (ap_length a) i))
       (filter (waiting a) [0..<length (ap_have a)])"

definition mark_range_have :: "nat \<Rightarrow> nat \<Rightarrow> nat \<Rightarrow> active_piece \<Rightarrow> staging_error + active_piece" where
  "mark_range_have begin len buf_len a =
     (if len = 0 then Inr a
      else if begin mod BLOCK_SIZE \<noteq> 0 \<and> begin + len \<noteq> ap_length a
              \<and> begin div BLOCK_SIZE \<noteq> (begin + len - 1) div BLOCK_SIZE
      then Inl UnalignedMultiBlock
      else if begin div BLOCK_SIZE \<ge> length (ap_have a) then Inl BlockBeginPastPiece
      else if begin + len > ap_length a \<or> begin + len > buf_len then Inl BlockPastPieceEnd
      else
        let fin = begin + len;
            start_b = begin div BLOCK_SIZE;
            end_b = div_ceil fin BLOCK_SIZE
        in Inr (a\<lparr>ap_have := foldl (\<lambda>hv i.
             (let b0 = i * BLOCK_SIZE; b1 = b0 + block_len (ap_length a) i
              in if begin \<le> b0 \<and> fin \<ge> b1 then hv[i := True] else hv))
             (ap_have a) [start_b..<min end_b (length (ap_have a))]\<rparr>))"

definition piece_ingest ::
  "nat \<Rightarrow> bytes \<Rightarrow> active_piece \<Rightarrow> bytes \<Rightarrow> staging_error + bool \<times> active_piece \<times> bytes" where
  "piece_ingest begin data a buf =
     (let end_off = begin + length data
      in if end_off > length buf \<or> end_off > ap_length a then Inl BlockOverflows
         else case mark_range_have begin (length data) (length buf) a of
           Inl e \<Rightarrow> Inl e
         | Inr a' \<Rightarrow> Inr (is_complete a', a', take begin buf @ data @ drop end_off buf))"

section \<open>The per-peer table\<close>

datatype slot = Assembling active_piece bytes | Hashing nat

record staging =
  st_slots :: "slot list"
  st_piece_length :: nat
  st_max_blocks :: nat
  st_shared :: bool

fun slot_index :: "slot \<Rightarrow> nat" where
  "slot_index (Assembling a buf) = ap_index a"
| "slot_index (Hashing i) = i"

fun assembles :: "nat \<Rightarrow> slot \<Rightarrow> bool" where
  "assembles index (Assembling a buf) = (ap_index a = index)"
| "assembles index (Hashing i) = False"

fun is_assembling :: "slot \<Rightarrow> bool" where
  "is_assembling (Assembling a buf) = True"
| "is_assembling (Hashing i) = False"

definition staging_empty :: "nat \<Rightarrow> staging" where
  "staging_empty piece_length =
     (let piece_length = max piece_length 1
      in \<lparr>st_slots = [], st_piece_length = piece_length,
          st_max_blocks = num_blocks piece_length, st_shared = False\<rparr>)"

definition from_pool :: "piece_pool \<Rightarrow> staging" where
  "from_pool p =
     \<lparr>st_slots = [], st_piece_length = pp_piece_length p,
      st_max_blocks = num_blocks (pp_piece_length p), st_shared = True\<rparr>"

definition st_capacity :: "staging \<Rightarrow> piece_pool \<Rightarrow> nat" where
  "st_capacity st p = (if st_shared st then pp_capacity p else 0)"

text \<open>The first assembling slot of an index, and its replacement (the code updates it through
  the returned references).\<close>

fun find_assembling :: "slot list \<Rightarrow> nat \<Rightarrow> (active_piece \<times> bytes) option" where
  "find_assembling [] index = None"
| "find_assembling (Assembling a buf # ss) index =
     (if ap_index a = index then Some (a, buf) else find_assembling ss index)"
| "find_assembling (Hashing i # ss) index = find_assembling ss index"

fun set_assembling :: "slot list \<Rightarrow> nat \<Rightarrow> active_piece \<times> bytes \<Rightarrow> slot list" where
  "set_assembling [] index ab = []"
| "set_assembling (Assembling a buf # ss) index ab =
     (if ap_index a = index then Assembling (fst ab) (snd ab) # ss
      else Assembling a buf # set_assembling ss index ab)"
| "set_assembling (Hashing i # ss) index ab = Hashing i # set_assembling ss index ab"

definition contains :: "staging \<Rightarrow> nat \<Rightarrow> bool" where
  "contains st index \<longleftrightarrow> list_ex (\<lambda>s. slot_index s = index) (st_slots st)"

definition try_start ::
  "nat \<Rightarrow> nat \<Rightarrow> nat \<Rightarrow> staging \<Rightarrow> piece_pool \<Rightarrow> bool \<times> staging \<times> piece_pool" where
  "try_start now index len st p =
     (if contains st index then (True, st, p)
      else if len = 0 \<or> len > st_piece_length st then (False, st, p)
      else if \<not> st_shared st then (False, st, p)
      else case try_acquire now p of
        (None, p') \<Rightarrow> (False, st, p')
      | (Some buf, p') \<Rightarrow>
          (True, st\<lparr>st_slots := st_slots st @ [Assembling (piece_open index len (st_max_blocks st)) buf]\<rparr>, p'))"

definition ingest_if_staged ::
  "nat \<Rightarrow> nat \<Rightarrow> bytes \<Rightarrow> staging \<Rightarrow> staging_error + bool option \<times> staging" where
  "ingest_if_staged index begin data st =
     (case find_assembling (st_slots st) index of
        None \<Rightarrow> Inr (None, st)
      | Some (a, buf) \<Rightarrow>
          (case piece_ingest begin data a buf of
             Inl e \<Rightarrow> Inl e
           | Inr (complete, a', buf') \<Rightarrow>
               Inr (Some complete, st\<lparr>st_slots := set_assembling (st_slots st) index (a', buf')\<rparr>)))"

text \<open>\<open>Vec::swap_remove\<close>: the last element takes the removed one's place.\<close>

definition swap_remove :: "'a list \<Rightarrow> nat \<Rightarrow> 'a \<times> 'a list" where
  "swap_remove xs pos =
     (xs ! pos, if Suc pos = length xs then butlast xs else butlast (xs[pos := last xs]))"

definition position :: "('a \<Rightarrow> bool) \<Rightarrow> 'a list \<Rightarrow> nat option" where
  "position P xs = List.find (\<lambda>i. P (xs ! i)) [0..<length xs]"

definition take_for_hash ::
  "nat \<Rightarrow> staging \<Rightarrow> piece_pool \<Rightarrow> (nat \<times> bytes) option \<times> staging \<times> piece_pool" where
  "take_for_hash index st p =
     (case position (assembles index) (st_slots st) of
        None \<Rightarrow> (None, st, p)
      | Some pos \<Rightarrow>
          (case swap_remove (st_slots st) pos of
             (Assembling a buf, rest) \<Rightarrow>
               (Some (ap_length a, buf), st\<lparr>st_slots := rest @ [Hashing index]\<rparr>,
                if st_shared st then detach p else p)
           | (Hashing i, rest) \<Rightarrow> (None, st\<lparr>st_slots := rest\<rparr>, p)))"

definition reclaim :: "nat \<Rightarrow> bytes \<Rightarrow> staging \<Rightarrow> piece_pool \<Rightarrow> staging \<times> piece_pool" where
  "reclaim index data st p =
     (st\<lparr>st_slots := filter (\<lambda>s. s \<noteq> Hashing index) (st_slots st)\<rparr>,
      if st_shared st then donate data p else p)"

fun release_slots :: "bool \<Rightarrow> slot list \<Rightarrow> piece_pool \<Rightarrow> slot list \<times> piece_pool" where
  "release_slots shared [] p = ([], p)"
| "release_slots shared (Assembling a buf # ss) p =
     release_slots shared ss (if shared then release buf p else p)"
| "release_slots shared (Hashing i # ss) p =
     (let (kept, p') = release_slots shared ss p in (Hashing i # kept, p'))"

text \<open>\<open>clear\<close>, which \<open>Drop\<close> also runs.\<close>

definition staging_clear :: "staging \<Rightarrow> piece_pool \<Rightarrow> staging \<times> piece_pool" where
  "staging_clear st p =
     (let (kept, p') = release_slots (st_shared st) (st_slots st) p in (st\<lparr>st_slots := kept\<rparr>, p'))"

definition st_len :: "staging \<Rightarrow> nat" where
  "st_len st = length (filter is_assembling (st_slots st))"

definition can_start_more :: "staging \<Rightarrow> piece_pool \<Rightarrow> bool" where
  "can_start_more st p \<longleftrightarrow> st_shared st \<and> available p > 0"

definition free_slots :: "staging \<Rightarrow> piece_pool \<Rightarrow> nat" where
  "free_slots st p = (if st_shared st then available p else 0)"

fun map_piece :: "(active_piece \<Rightarrow> active_piece) \<Rightarrow> slot \<Rightarrow> slot" where
  "map_piece f (Assembling a buf) = Assembling (f a) buf"
| "map_piece f (Hashing i) = Hashing i"

definition enable_endgame :: "staging \<Rightarrow> staging" where
  "enable_endgame st = st\<lparr>st_slots := map (map_piece (set_endgame True)) (st_slots st)\<rparr>"

definition requeue_timed_out :: "staging \<Rightarrow> staging" where
  "requeue_timed_out st = st\<lparr>st_slots := map (map_piece requeue_missing) (st_slots st)\<rparr>"

fun slot_outstanding :: "slot \<Rightarrow> nat" where
  "slot_outstanding (Assembling a buf) = outstanding_requests a"
| "slot_outstanding (Hashing i) = 0"

definition total_outstanding :: "staging \<Rightarrow> nat" where
  "total_outstanding st = sum_list (map slot_outstanding (st_slots st))"

fun slot_list :: "slot \<Rightarrow> (nat \<times> nat \<times> nat) list" where
  "slot_list (Assembling a buf) = map (\<lambda>(b, l). (ap_index a, b, l)) (outstanding_blocks a)"
| "slot_list (Hashing i) = []"

definition outstanding_list :: "staging \<Rightarrow> (nat \<times> nat \<times> nat) list" where
  "outstanding_list st = concat (map slot_list (st_slots st))"

fun slot_indices :: "slot \<Rightarrow> nat list" where
  "slot_indices (Assembling a buf) = [ap_index a]"
| "slot_indices (Hashing i) = []"

definition indices :: "staging \<Rightarrow> nat list" where
  "indices st = concat (map slot_indices (st_slots st))"

definition st_clear_request :: "nat \<Rightarrow> nat \<Rightarrow> nat \<Rightarrow> staging \<Rightarrow> bool \<times> staging" where
  "st_clear_request index begin len st =
     (case find_assembling (st_slots st) index of
        None \<Rightarrow> (False, st)
      | Some (a, buf) \<Rightarrow>
          (let (ok, a') = piece_clear_request begin len a
           in (ok, st\<lparr>st_slots := set_assembling (st_slots st) index (a', buf)\<rparr>)))"

section \<open>The request scheduler\<close>

definition max_assembling_pieces :: "nat \<Rightarrow> nat \<Rightarrow> nat \<Rightarrow> nat" where
  "max_assembling_pieces pipeline piece_length capacity =
     (if capacity = 0 then 0
      else let blocks = max (num_blocks piece_length) 1;
               for_pipe = max (div_ceil pipeline blocks) 1;
               fair = max (div_ceil capacity 16) 1;
               n = min for_pipe fair
           in if blocks \<ge> 256 then min n 2 else n)"

type_synonym request = "nat \<times> nat \<times> nat"

text \<open>The inner \<open>while\<close>: its fuel is \<open>pipeline\<close>, and every round adds one outstanding
  request, so it never runs out. The flag is \<open>queued_from_existing\<close>.\<close>

fun fill_piece :: "nat \<Rightarrow> nat \<Rightarrow> nat \<Rightarrow> staging \<times> request list \<times> bool \<Rightarrow> staging \<times> request list \<times> bool" where
  "fill_piece 0 pipeline idx acc = acc"
| "fill_piece (Suc n) pipeline idx (st, out, queued) =
     (if total_outstanding st < pipeline then
        (case find_assembling (st_slots st) idx of
           None \<Rightarrow> (st, out, queued)
         | Some (a, buf) \<Rightarrow>
             (case next_request a of
                None \<Rightarrow> (st, out, queued)
              | Some ((begin, len), a') \<Rightarrow>
                  fill_piece n pipeline idx
                    (st\<lparr>st_slots := set_assembling (st_slots st) idx (a', buf)\<rparr>,
                     out @ [(idx, begin, len)], True)))
      else (st, out, queued))"

fun fill_all :: "nat \<Rightarrow> (nat \<Rightarrow> bool) \<Rightarrow> nat list \<Rightarrow> staging \<times> request list \<times> bool \<Rightarrow> staging \<times> request list \<times> bool" where
  "fill_all pipeline may [] acc = acc"
| "fill_all pipeline may (idx # idxs) acc =
     (if \<not> may idx then fill_all pipeline may idxs acc
      else let acc' = fill_piece pipeline pipeline idx acc
           in if total_outstanding (fst acc') \<ge> pipeline then acc'
              else fill_all pipeline may idxs acc')"

text \<open>The outer \<open>for\<close>. \<open>start_piece\<close> and \<open>abort_start\<close> are the closures of the caller with
  the state \<open>'x\<close> they capture.\<close>

fun refill_loop ::
  "nat \<Rightarrow> nat \<Rightarrow> nat \<Rightarrow> nat \<Rightarrow> (staging \<Rightarrow> 'x \<Rightarrow> (nat \<times> nat) option \<times> 'x) \<Rightarrow> (nat \<Rightarrow> bool)
     \<Rightarrow> (nat \<Rightarrow> 'x \<Rightarrow> 'x) \<Rightarrow> staging \<times> piece_pool \<times> 'x \<times> request list \<Rightarrow> staging \<times> piece_pool \<times> 'x \<times> request list"
where
  "refill_loop 0 now pipeline max_pieces start_piece may abort_start acc = acc"
| "refill_loop (Suc n) now pipeline max_pieces start_piece may abort_start (st, p, x, out) =
     (if total_outstanding st \<ge> pipeline then (st, p, x, out)
      else
        let (st, out, queued) = fill_all pipeline may (indices st) (st, out, False)
        in if total_outstanding st \<ge> pipeline then (st, p, x, out)
           else if \<not> can_start_more st p \<or> st_len st \<ge> max_pieces then (st, p, x, out)
           else (case start_piece st x of
             (None, x) \<Rightarrow> (st, p, x, out)
           | (Some (index, plen), x) \<Rightarrow>
               if contains st index then (st, p, x, out)
               else (case try_start now index plen st p of
                 (False, st, p) \<Rightarrow> (st, p, abort_start index x, out)
               | (True, st, p) \<Rightarrow>
                   if \<not> queued then
                     (case find_assembling (st_slots st) index of
                        None \<Rightarrow> (st, p, x, out)
                      | Some (a, buf) \<Rightarrow>
                          (case next_request a of
                             None \<Rightarrow> (st, p, x, out)
                           | Some ((begin, len), a') \<Rightarrow>
                               refill_loop n now pipeline max_pieces start_piece may abort_start
                                 (st\<lparr>st_slots := set_assembling (st_slots st) index (a', buf)\<rparr>,
                                  p, x, out @ [(index, begin, len)])))
                   else refill_loop n now pipeline max_pieces start_piece may abort_start (st, p, x, out))))"

definition take_requests ::
  "nat \<Rightarrow> nat \<Rightarrow> bool \<Rightarrow> (staging \<Rightarrow> 'x \<Rightarrow> (nat \<times> nat) option \<times> 'x) \<Rightarrow> (nat \<Rightarrow> bool)
     \<Rightarrow> (nat \<Rightarrow> 'x \<Rightarrow> 'x) \<Rightarrow> staging \<Rightarrow> piece_pool \<Rightarrow> 'x \<Rightarrow> request list \<times> staging \<times> piece_pool \<times> 'x" where
  "take_requests now pipeline endgame start_piece may abort_start st p x =
     (let pipeline = max pipeline 1
      in if \<not> endgame \<and> total_outstanding st > max (pipeline div 2) 1 then ([], st, p, x)
         else
           let max_pieces = max_assembling_pieces pipeline (st_piece_length st) (st_capacity st p);
               rounds = pipeline * 4 + length (st_slots st) + 8;
               (st, p, x, out) = refill_loop rounds now pipeline max_pieces start_piece may abort_start (st, p, x, [])
           in (out, st, p, x))"

end
