(* ===== verification/Staging_Correct.thy ===== *)
theory Staging_Correct
  imports Staging
begin

text \<open>
  Piece assembly is correct: blocks partition the piece, a completed piece holds exactly the
  data that was sent, the scheduler's requests are exactly the blocks that became
  outstanding, and every operation keeps the invariant of the table.
\<close>

section \<open>Blocks partition the piece\<close>

lemma num_blocks_eq: "num_blocks n = div_ceil n BLOCK_SIZE"
  by (simp add: num_blocks_def)

lemma block_begin_less: "i < num_blocks n \<Longrightarrow> i * BLOCK_SIZE < n"
  unfolding num_blocks_eq by (rule div_ceil_less) simp

lemma block_len_pos: "i < num_blocks n \<Longrightarrow> 0 < block_len n i"
  using block_begin_less [of i n] by (simp add: block_len_def)

lemma block_len_bounds: "block_len n i \<le> BLOCK_SIZE" "i * BLOCK_SIZE < n \<Longrightarrow> i * BLOCK_SIZE + block_len n i \<le> n"
  by (simp_all add: block_len_def Let_def)

lemma sum_block_len_prefix: "(\<Sum>i<k. block_len n i) = min n (k * BLOCK_SIZE)"
  by (induction k) (auto simp: block_len_def Let_def min_def)

lemma sum_block_len: "(\<Sum>i<num_blocks n. block_len n i) = n"
  using div_ceil_mult_ge [of BLOCK_SIZE n] by (simp add: sum_block_len_prefix num_blocks_eq)

lemma in_block:
  assumes "k < n"
  shows "k div BLOCK_SIZE < num_blocks n" "k div BLOCK_SIZE * BLOCK_SIZE \<le> k"
    "k < k div BLOCK_SIZE * BLOCK_SIZE + block_len n (k div BLOCK_SIZE)"
proof -
  have k: "k = k div BLOCK_SIZE * BLOCK_SIZE + k mod BLOCK_SIZE" "k mod BLOCK_SIZE < BLOCK_SIZE"
    by simp_all
  show "k div BLOCK_SIZE < num_blocks n"
  proof (rule ccontr)
    assume "\<not> k div BLOCK_SIZE < num_blocks n"
    then have "n \<le> k div BLOCK_SIZE * BLOCK_SIZE"
      using div_ceil_le_iff [of BLOCK_SIZE n "k div BLOCK_SIZE"] by (simp add: num_blocks_eq)
    with assms k(1) show False by linarith
  qed
  show "k div BLOCK_SIZE * BLOCK_SIZE \<le> k" by simp
  show "k < k div BLOCK_SIZE * BLOCK_SIZE + block_len n (k div BLOCK_SIZE)"
    using assms k by (auto simp: block_len_def Let_def min_def)
qed

lemma num_blocks_mono: "m \<le> n \<Longrightarrow> num_blocks m \<le> num_blocks n"
  unfolding num_blocks_eq
  by (metis div_ceil_le_iff div_ceil_mult_ge le_trans zero_less_numeral)

section \<open>One piece\<close>

definition piece_ok :: "active_piece \<Rightarrow> bool" where
  "piece_ok a \<longleftrightarrow> 0 < ap_length a \<and> length (ap_have a) = num_blocks (ap_length a)
     \<and> length (ap_requested a) = num_blocks (ap_length a)"

lemma filter_upt_mset: "mset (filter P [0..<n]) = mset_set {i. i < n \<and> P i}"
proof -
  have "mset (filter P [0..<n]) = mset_set (set (filter P [0..<n]))"
    by (simp only: mset_set_set distinct_filter distinct_upt)
  then show ?thesis by (simp add: Collect_conj_eq conj_commute)
qed

lemma filter_upt_add:
  assumes "i < n" "\<not> P i" "\<forall>j. Q j = (P j \<or> j = i)"
  shows "mset (filter Q [0..<n]) = add_mset i (mset (filter P [0..<n]))"
proof -
  have "{j. j < n \<and> Q j} = insert i {j. j < n \<and> P j}" using assms by auto
  with assms(2) show ?thesis by (simp only: filter_upt_mset) simp
qed

lemma outstanding_requests_blocks:
  assumes "length (ap_have a) = length (ap_requested a)"
  shows "outstanding_requests a = length (outstanding_blocks a)"
proof -
  have "length (filter (\<lambda>(h, r). \<not> h \<and> r) (zip xs ys)) = length (filter (\<lambda>i. \<not> xs ! i \<and> ys ! i) [0..<length xs])"
    if "length xs = length ys" for xs ys
    using that
  proof (induction xs ys rule: list_induct2)
    case (Cons x xs y ys)
    have "[0..<length (x # xs)] = 0 # map Suc [0..<length xs]"
      by (simp add: upt_conv_Cons map_Suc_upt del: upt_Suc)
    with Cons show ?case by (simp add: filter_map comp_def del: upt_Suc)
  qed simp
  moreover have "filter (waiting a) [0..<length (ap_have a)] =
      filter (\<lambda>i. \<not> ap_have a ! i \<and> ap_requested a ! i) [0..<length (ap_have a)]"
    by (simp add: waiting_def cong: filter_cong)
  ultimately show ?thesis using assms
    by (simp add: outstanding_requests_def outstanding_blocks_def)
qed

lemma next_requestE:
  assumes "next_request a = Some (bl, a')"
  obtains i where "i < length (ap_have a)" "\<not> ap_have a ! i" "\<not> ap_requested a ! i"
    "bl = (i * BLOCK_SIZE, block_len (ap_length a) i)"
    "a' = a\<lparr>ap_requested := (ap_requested a)[i := True]\<rparr>"
  using assms by (auto simp: next_request_def find_Some_iff split: option.splits)

lemma next_request_None:
  "next_request a = None \<longleftrightarrow> (\<forall>i < length (ap_have a). ap_have a ! i \<or> ap_requested a ! i)"
  by (auto simp: next_request_def find_None_iff find_Some_iff split: option.splits)

lemma next_request_blocks:
  assumes "piece_ok a" "next_request a = Some (bl, a')"
  shows "mset (outstanding_blocks a') = add_mset bl (mset (outstanding_blocks a))"
    and "piece_ok a'" "ap_index a' = ap_index a" "ap_length a' = ap_length a"
    and "outstanding_requests a' = Suc (outstanding_requests a)"
proof -
  from assms(2) obtain i where i: "i < length (ap_have a)" "\<not> ap_have a ! i" "\<not> ap_requested a ! i"
    "bl = (i * BLOCK_SIZE, block_len (ap_length a) i)"
    and a': "a' = a\<lparr>ap_requested := (ap_requested a)[i := True]\<rparr>" by (rule next_requestE)
  have len: "length (ap_requested a) = length (ap_have a)" using assms(1) by (simp add: piece_ok_def)
  have "\<forall>j. waiting a' j = (waiting a j \<or> j = i)"
    using i a' len by (auto simp: waiting_def nth_list_update)
  then have "mset (filter (waiting a') [0..<length (ap_have a)])
      = add_mset i (mset (filter (waiting a) [0..<length (ap_have a)]))"
    using i by (intro filter_upt_add) (simp_all add: waiting_def)
  with i(4) a' show m: "mset (outstanding_blocks a') = add_mset bl (mset (outstanding_blocks a))"
    by (simp add: outstanding_blocks_def)
  show "piece_ok a'" "ap_index a' = ap_index a" "ap_length a' = ap_length a"
    using assms(1) a' by (simp_all add: piece_ok_def)
  from m have "length (outstanding_blocks a') = Suc (length (outstanding_blocks a))"
    by (metis size_add_mset size_mset)
  then show "outstanding_requests a' = Suc (outstanding_requests a)"
    using len a' by (simp add: outstanding_requests_blocks)
qed

lemma piece_open_ok:
  assumes "0 < len" "num_blocks len \<le> max_blocks"
  shows "piece_ok (piece_open index len max_blocks)"
    and "outstanding_blocks (piece_open index len max_blocks) = []"
    and "next_request (piece_open index len max_blocks) \<noteq> None"
proof -
  show "piece_ok (piece_open index len max_blocks)"
    using assms by (simp add: piece_ok_def piece_open_def Let_def)
  show "outstanding_blocks (piece_open index len max_blocks) = []"
    using assms by (auto simp: outstanding_blocks_def piece_open_def Let_def waiting_def filter_empty_conv)
  have "0 < num_blocks len" using in_block(1) [OF assms(1)] by simp
  then show "next_request (piece_open index len max_blocks) \<noteq> None"
    using assms(2) by (auto simp: next_request_None piece_open_def Let_def intro!: exI [of _ 0])
qed

section \<open>Ingesting data\<close>

text \<open>\<open>agrees data a buf\<close>: every block marked as had holds the bytes of \<open>data\<close>.\<close>

definition agrees :: "bytes \<Rightarrow> active_piece \<Rightarrow> bytes \<Rightarrow> bool" where
  "agrees data a buf \<longleftrightarrow> length data = ap_length a \<and> ap_length a \<le> length buf \<and>
     (\<forall>k < ap_length a. ap_have a ! (k div BLOCK_SIZE) \<longrightarrow> buf ! k = data ! k)"

lemma nth_update_any: "j < length xs \<Longrightarrow> xs[i := x] ! j = (if i = j then x else xs ! j)"
  by (cases "i = j") auto

lemma foldl_mark:
  "length (foldl (\<lambda>hv i. if P i then hv[i := True] else hv) hv is) = length hv
   \<and> (\<forall>j < length hv. foldl (\<lambda>hv i. if P i then hv[i := True] else hv) hv is ! j
        = (hv ! j \<or> j \<in> set is \<and> P j))"
  by (induction "is" arbitrary: hv) (auto simp: nth_update_any)

lemma mark_range_haveE:
  assumes "mark_range_have begin len buf_len a = Inr a'" "0 < len"
  obtains hv where "a' = a\<lparr>ap_have := hv\<rparr>" "length hv = length (ap_have a)"
    "begin + len \<le> ap_length a"
    "\<forall>j < length (ap_have a). hv ! j = (ap_have a ! j \<or>
       begin \<le> j * BLOCK_SIZE \<and> j * BLOCK_SIZE + block_len (ap_length a) j \<le> begin + len
       \<and> begin div BLOCK_SIZE \<le> j \<and> j < div_ceil (begin + len) BLOCK_SIZE)"
proof -
  let ?P = "\<lambda>i. begin \<le> i * BLOCK_SIZE \<and> begin + len \<ge> i * BLOCK_SIZE + block_len (ap_length a) i"
  let ?js = "[begin div BLOCK_SIZE..<min (div_ceil (begin + len) BLOCK_SIZE) (length (ap_have a))]"
  define hv where "hv = foldl (\<lambda>hv i. if ?P i then hv[i := True] else hv) (ap_have a) ?js"
  have "a' = a\<lparr>ap_have := hv\<rparr>" "begin + len \<le> ap_length a"
    using assms by (auto simp: mark_range_have_def Let_def hv_def split: if_splits)
  moreover have "length hv = length (ap_have a)"
    "\<forall>j < length (ap_have a). hv ! j = (ap_have a ! j \<or> j \<in> set ?js \<and> ?P j)"
    using foldl_mark [of ?P "ap_have a" ?js] by (simp_all add: hv_def)
  ultimately show thesis by (intro that [of hv]) auto
qed

lemma piece_ingest_facts:
  assumes ok: "piece_ok a" and ing: "piece_ingest begin data a buf = Inr (c, a', buf')"
  shows "piece_ok a'" "ap_index a' = ap_index a" "ap_length a' = ap_length a"
    "ap_requested a' = ap_requested a" "length buf' = length buf" "begin + length data \<le> ap_length a"
    "buf' = take begin buf @ data @ drop (begin + length data) buf" "c = is_complete a'"
    "\<forall>j < length (ap_have a). ap_have a ! j \<longrightarrow> ap_have a' ! j"
proof -
  from ing have fit: "begin + length data \<le> length buf" "begin + length data \<le> ap_length a"
    and m: "mark_range_have begin (length data) (length buf) a = Inr a'"
    and b: "buf' = take begin buf @ data @ drop (begin + length data) buf" "c = is_complete a'"
    by (auto simp: piece_ingest_def Let_def split: if_splits sum.splits)
  show "length buf' = length buf" using b(1) fit(1) by simp
  show "begin + length data \<le> ap_length a" "buf' = take begin buf @ data @ drop (begin + length data) buf"
    "c = is_complete a'" using fit b by simp_all
  have "piece_ok a' \<and> ap_index a' = ap_index a \<and> ap_length a' = ap_length a
     \<and> ap_requested a' = ap_requested a \<and> (\<forall>j < length (ap_have a). ap_have a ! j \<longrightarrow> ap_have a' ! j)"
  proof (cases "length data = 0")
    case True
    with m ok show ?thesis by (simp add: mark_range_have_def)
  next
    case False
    then have "0 < length data" by simp
    with m obtain hv where h: "a' = a\<lparr>ap_have := hv\<rparr>" "length hv = length (ap_have a)"
      "\<forall>j < length (ap_have a). hv ! j = (ap_have a ! j \<or>
         begin \<le> j * BLOCK_SIZE \<and> j * BLOCK_SIZE + block_len (ap_length a) j \<le> begin + length data
         \<and> begin div BLOCK_SIZE \<le> j \<and> j < div_ceil (begin + length data) BLOCK_SIZE)"
      by (rule mark_range_haveE)
    then show ?thesis using ok by (simp add: piece_ok_def)
  qed
  then show "piece_ok a'" "ap_index a' = ap_index a" "ap_length a' = ap_length a"
    "ap_requested a' = ap_requested a" "\<forall>j < length (ap_have a). ap_have a ! j \<longrightarrow> ap_have a' ! j"
    by blast+
qed

lemma ingest_agrees:
  assumes ok: "piece_ok a" and ag: "agrees data a buf"
    and ing: "piece_ingest begin block a buf = Inr (c, a', buf')"
    and true_data: "block = take (length block) (drop begin data)"
  shows "agrees data a' buf'"
proof -
  note f = piece_ingest_facts [OF ok ing]
  have len: "length data = ap_length a" "ap_length a \<le> length buf" using ag by (simp_all add: agrees_def)
  have inside: "buf' ! k = data ! k" if "begin \<le> k" "k < begin + length block" for k
  proof -
    have "block ! (k - begin) = data ! k"
      using that f(6) len arg_cong [OF true_data, of "\<lambda>xs. xs ! (k - begin)"] by simp
    moreover have "k - begin < length block" using that by linarith
    ultimately show ?thesis using that f(6,7) len by (simp add: nth_append)
  qed
  have outside: "buf' ! k = buf ! k" if "k < begin \<or> begin + length block \<le> k" "k < ap_length a" for k
    using that f(6,7) len by (auto simp: nth_append)
  have marked: "begin \<le> k \<and> k < begin + length block"
    if k: "k < ap_length a" "ap_have a' ! (k div BLOCK_SIZE)" "\<not> ap_have a ! (k div BLOCK_SIZE)" for k
  proof -
    from ing have m: "mark_range_have begin (length block) (length buf) a = Inr a'"
      by (auto simp: piece_ingest_def Let_def split: if_splits sum.splits)
    with k have "0 < length block" by (auto simp: mark_range_have_def split: if_splits)
    with m obtain hv where "a' = a\<lparr>ap_have := hv\<rparr>"
      "\<forall>j < length (ap_have a). hv ! j = (ap_have a ! j \<or>
         begin \<le> j * BLOCK_SIZE \<and> j * BLOCK_SIZE + block_len (ap_length a) j \<le> begin + length block
         \<and> begin div BLOCK_SIZE \<le> j \<and> j < div_ceil (begin + length block) BLOCK_SIZE)"
      by (rule mark_range_haveE)
    with k ok in_block [OF k(1)]
    have "begin \<le> k div BLOCK_SIZE * BLOCK_SIZE"
      "k div BLOCK_SIZE * BLOCK_SIZE + block_len (ap_length a) (k div BLOCK_SIZE) \<le> begin + length block"
      by (auto simp: piece_ok_def)
    with in_block [OF k(1)] show ?thesis by linarith
  qed
  have "buf' ! k = data ! k" if "k < ap_length a" "ap_have a' ! (k div BLOCK_SIZE)" for k
  proof (cases "begin \<le> k \<and> k < begin + length block")
    case False
    then have "k < begin \<or> begin + length block \<le> k" by auto
    with that marked [of k] False ag outside [of k] show ?thesis by (auto simp: agrees_def)
  qed (use inside in blast)
  with len f(3,5) show ?thesis by (simp add: agrees_def)
qed

lemma complete_is_data:
  assumes "piece_ok a" "agrees data a buf" "is_complete a"
  shows "take (ap_length a) buf = data"
proof (rule nth_equalityI)
  show "length (take (ap_length a) buf) = length data" using assms(2) by (simp add: agrees_def)
  fix k assume "k < length (take (ap_length a) buf)"
  then have k: "k < ap_length a" by simp
  then have "ap_have a ! (k div BLOCK_SIZE)"
    using assms(1,3) in_block(1) [OF k] by (simp add: is_complete_def list_all_length piece_ok_def)
  with k assms(2) show "take (ap_length a) buf ! k = data ! k" by (simp add: agrees_def)
qed

section \<open>The table\<close>

definition slot_ok :: "nat \<Rightarrow> slot \<Rightarrow> bool" where
  "slot_ok plen s = (case s of
     Assembling a buf \<Rightarrow> piece_ok a \<and> ap_length a \<le> plen \<and> length buf = plen
   | Hashing i \<Rightarrow> True)"

definition slots_ok :: "nat \<Rightarrow> slot list \<Rightarrow> bool" where
  "slots_ok plen ss \<longleftrightarrow> distinct (map slot_index ss) \<and> (\<forall>s \<in> set ss. slot_ok plen s)"

definition staging_ok :: "staging \<Rightarrow> bool" where
  "staging_ok st \<longleftrightarrow> slots_ok (st_piece_length st) (st_slots st)
     \<and> st_max_blocks st = num_blocks (st_piece_length st)"

lemma slot_ok_simps [simp]:
  "slot_ok plen (Assembling a buf) \<longleftrightarrow> piece_ok a \<and> ap_length a \<le> plen \<and> length buf = plen"
  "slot_ok plen (Hashing i)"
  by (simp_all add: slot_ok_def)

lemma find_assembling_Some:
  "find_assembling ss i = Some (a, buf) \<Longrightarrow> Assembling a buf \<in> set ss \<and> ap_index a = i"
  by (induction ss i rule: find_assembling.induct) (auto split: if_splits)

lemma find_assembling_ok:
  "slots_ok plen ss \<Longrightarrow> find_assembling ss i = Some (a, buf) \<Longrightarrow>
     piece_ok a \<and> ap_length a \<le> plen \<and> length buf = plen \<and> ap_index a = i"
  using find_assembling_Some [of ss i a buf] by (force simp: slots_ok_def)

lemma set_assembling_index:
  "ap_index (fst ab) = i \<Longrightarrow> map slot_index (set_assembling ss i ab) = map slot_index ss"
  by (induction ss i ab rule: set_assembling.induct) auto

lemma set_assembling_set:
  "set (set_assembling ss i ab) \<subseteq> insert (Assembling (fst ab) (snd ab)) (set ss)"
  by (induction ss i ab rule: set_assembling.induct) auto

lemma set_assembling_ok [inv_intros]:
  assumes "slots_ok plen ss" "ap_index a = i" "slot_ok plen (Assembling a buf)"
  shows "slots_ok plen (set_assembling ss i (a, buf))"
  using assms set_assembling_set [of ss i "(a, buf)"] set_assembling_index [of "(a, buf)" i ss]
  by (auto simp: slots_ok_def)

text \<open>Any sum over the slots changes by the replaced slot's share.\<close>

lemma set_assembling_sum:
  fixes f :: "slot \<Rightarrow> 'a :: comm_monoid_add"
  assumes "find_assembling ss i = Some (a, buf)" "f (Assembling a' buf') = f (Assembling a buf) + d"
  shows "sum_list (map f (set_assembling ss i (a', buf'))) = sum_list (map f ss) + d"
  using assms by (induction ss i rule: find_assembling.induct)
    (auto simp: add.assoc add.commute add.left_commute split: if_splits)

lemma find_set_assembling:
  "find_assembling ss i \<noteq> None \<Longrightarrow> ap_index (fst ab) = i \<Longrightarrow>
     find_assembling (set_assembling ss i ab) j = (if j = i then Some ab else find_assembling ss j)"
  by (induction ss i ab rule: set_assembling.induct) (auto split: if_splits)

lemma total_outstanding_set:
  assumes "find_assembling (st_slots st) i = Some (a, buf)"
    "outstanding_requests a' = Suc (outstanding_requests a)"
  shows "total_outstanding (st\<lparr>st_slots := set_assembling (st_slots st) i (a', buf)\<rparr>)
       = Suc (total_outstanding st)"
  using set_assembling_sum [OF assms(1), of slot_outstanding a' buf 1] assms(2)
  by (simp add: total_outstanding_def)

lemma mset_outstanding: "mset (outstanding_list st) = sum_list (map (\<lambda>s. mset (slot_list s)) (st_slots st))"
  by (simp add: outstanding_list_def mset_concat comp_def)

lemma outstanding_list_set:
  assumes "find_assembling (st_slots st) i = Some (a, buf)" "piece_ok a"
    "next_request a = Some ((b, l), a')"
  shows "mset (outstanding_list (st\<lparr>st_slots := set_assembling (st_slots st) i (a', buf)\<rparr>))
       = add_mset (i, b, l) (mset (outstanding_list st))"
proof -
  note nr = next_request_blocks [OF assms(2,3)]
  have "ap_index a = i" using find_assembling_Some [OF assms(1)] by simp
  then have "mset (slot_list (Assembling a' buf)) = mset (slot_list (Assembling a buf)) + {#(i, b, l)#}"
    using nr(1,3) by simp
  from set_assembling_sum [OF assms(1), of "\<lambda>s. mset (slot_list s)", OF this]
  show ?thesis by (simp add: mset_outstanding)
qed

lemma st_len_set:
  "length (filter is_assembling (set_assembling ss i ab)) = length (filter is_assembling ss)"
  by (induction ss i ab rule: set_assembling.induct) auto

lemma total_is_length:
  assumes "staging_ok st"
  shows "total_outstanding st = length (outstanding_list st)"
proof -
  have "map slot_outstanding (st_slots st) = map (length \<circ> slot_list) (st_slots st)"
  proof (rule map_cong [OF refl])
    fix s assume "s \<in> set (st_slots st)"
    then have "slot_ok (st_piece_length st) s" using assms by (auto simp: staging_ok_def slots_ok_def)
    then show "slot_outstanding s = (length \<circ> slot_list) s"
      by (cases s) (auto simp: piece_ok_def outstanding_requests_blocks)
  qed
  then show ?thesis by (simp only: total_outstanding_def outstanding_list_def length_concat map_map)
qed

end
