(* ===== verification/Scheduler.thy ===== *)
theory Scheduler
  imports Staging_Correct
begin

text \<open>
  The request scheduler \<open>take_requests\<close> is correct: it returns exactly the blocks that became
  outstanding, stays within the pipeline and the per-peer piece cap, keeps the buffer
  accounting, and stops only with the pipeline full or nothing left to request.
\<close>

section \<open>The scheduler\<close>

definition frame :: "staging \<Rightarrow> staging \<Rightarrow> bool" where
  "frame st st' \<longleftrightarrow> st_piece_length st' = st_piece_length st \<and> st_max_blocks st' = st_max_blocks st
     \<and> st_shared st' = st_shared st \<and> st_len st' = st_len st
     \<and> map slot_index (st_slots st') = map slot_index (st_slots st) \<and> indices st' = indices st"

definition issued :: "request multiset \<Rightarrow> staging \<Rightarrow> request list \<Rightarrow> bool" where
  "issued B st out \<longleftrightarrow> staging_ok st \<and> mset (outstanding_list st) = B + mset out"

definition exhausted :: "staging \<Rightarrow> nat \<Rightarrow> bool" where
  "exhausted st idx \<longleftrightarrow> (case find_assembling (st_slots st) idx of
     None \<Rightarrow> True | Some (a, buf) \<Rightarrow> next_request a = None)"

lemma frame_refl [simp]: "frame st st"
  by (simp add: frame_def)

lemma frame_trans: "frame a b \<Longrightarrow> frame b c \<Longrightarrow> frame a c"
  by (simp add: frame_def)

lemma issued_total: "issued B st out \<Longrightarrow> total_outstanding st = size B + length out"
  by (metis issued_def size_mset size_union total_is_length)

lemma indices_set:
  "ap_index (fst ab) = i \<Longrightarrow> concat (map slot_indices (set_assembling ss i ab)) = concat (map slot_indices ss)"
  by (induction ss i ab rule: set_assembling.induct) auto

lemma issue_one:
  assumes "issued B st out" "find_assembling (st_slots st) i = Some (a, buf)"
    "next_request a = Some ((b, l), a')"
  defines "st' \<equiv> st\<lparr>st_slots := set_assembling (st_slots st) i (a', buf)\<rparr>"
  shows "issued B st' (out @ [(i, b, l)])" "frame st st'"
    and "j \<noteq> i \<Longrightarrow> exhausted st' j = exhausted st j"
proof -
  from assms(1) have ok: "slots_ok (st_piece_length st) (st_slots st)" by (simp add: issued_def staging_ok_def)
  note fa = find_assembling_ok [OF ok assms(2)]
  from fa have pa: "piece_ok a" by simp
  note nr = next_request_blocks [OF pa assms(3)]
  have idx: "ap_index (fst (a', buf)) = i" using nr(3) fa by simp
  have "slots_ok (st_piece_length st) (set_assembling (st_slots st) i (a', buf))"
    using ok fa nr by (intro set_assembling_ok) simp_all
  moreover have "mset (outstanding_list st') = add_mset (i, b, l) (mset (outstanding_list st))"
    unfolding st'_def by (rule outstanding_list_set [OF assms(2) pa assms(3)])
  ultimately show "issued B st' (out @ [(i, b, l)])"
    using assms(1) by (simp add: issued_def staging_ok_def st'_def)
  show "frame st st'"
    using set_assembling_index [OF idx] indices_set [OF idx]
    by (simp add: frame_def st'_def st_len_def st_len_set indices_def)
  show "exhausted st' j = exhausted st j" if "j \<noteq> i"
    using that assms(2) idx by (simp add: exhausted_def st'_def find_set_assembling)
qed

lemma exhausted_cases:
  obtains (none) "exhausted st idx"
    | (one) a buf b l a' where "find_assembling (st_slots st) idx = Some (a, buf)"
        "next_request a = Some ((b, l), a')"
proof (cases "exhausted st idx")
  case False
  then obtain a buf bl where "find_assembling (st_slots st) idx = Some (a, buf)" "next_request a = Some bl"
    by (auto simp: exhausted_def split: option.splits)
  moreover obtain b l a' where "bl = ((b, l), a')" by (metis surj_pair)
  ultimately show ?thesis using one by blast
qed (rule none)

lemma fill_piece_facts:
  assumes "fill_piece n pl idx (st, out, q) = (st', out', q')" "issued B st out"
  shows "issued B st' out' \<and> frame st st' \<and> (\<forall>j. j \<noteq> idx \<longrightarrow> exhausted st' j = exhausted st j)
    \<and> length out \<le> length out' \<and> (q' \<longleftrightarrow> q \<or> length out < length out')
    \<and> (size B + length out' \<le> max pl (size B + length out))
    \<and> (pl \<le> size B + length out + n \<longrightarrow> pl \<le> size B + length out' \<or> exhausted st' idx)"
  using assms
proof (induction n arbitrary: st out q)
  case 0
  then show ?case by auto
next
  case (Suc n)
  note tot = issued_total [OF Suc.prems(2)]
  consider (full) "pl \<le> total_outstanding st"
    | (none) "total_outstanding st < pl" "exhausted st idx"
    | (one) a buf b l a' where "total_outstanding st < pl" "find_assembling (st_slots st) idx = Some (a, buf)"
        "next_request a = Some ((b, l), a')"
    by (cases st idx rule: exhausted_cases; metis not_less)
  then show ?case
  proof cases
    case full
    with Suc.prems tot show ?thesis by auto
  next
    case none
    with Suc.prems have "st' = st" "out' = out" "q' = q"
      by (auto simp: exhausted_def split: option.splits)
    with Suc.prems none show ?thesis by auto
  next
    case one
    note io = issue_one [OF Suc.prems(2) one(2,3)]
    from one Suc.prems(1) have "fill_piece n pl idx
        (st\<lparr>st_slots := set_assembling (st_slots st) idx (a', buf)\<rparr>, out @ [(idx, b, l)], True) = (st', out', q')"
      by simp
    from Suc.IH [OF this io(1)] io(2,3) one(1) tot show ?thesis
      by (auto intro: frame_trans)
  qed
qed

lemma fill_all_facts:
  assumes "fill_all pl may idxs (st, out, q) = (st', out', q')" "issued B st out"
  shows "issued B st' out' \<and> frame st st' \<and> (\<forall>j. j \<notin> set idxs \<longrightarrow> exhausted st' j = exhausted st j)
    \<and> length out \<le> length out' \<and> (q' \<longleftrightarrow> q \<or> length out < length out')
    \<and> size B + length out' \<le> max pl (size B + length out)
    \<and> (pl \<le> size B + length out' \<or> (\<forall>j \<in> set idxs. may j \<longrightarrow> exhausted st' j))"
  using assms
proof (induction idxs arbitrary: st out q)
  case Nil
  then show ?case by auto
next
  case (Cons idx idxs)
  show ?case
  proof (cases "may idx")
    case False
    with Cons.prems have "fill_all pl may idxs (st, out, q) = (st', out', q')" by simp
    from Cons.IH [OF this Cons.prems(2)] False show ?thesis by auto
  next
    case True
    obtain st1 out1 q1 where f: "fill_piece pl pl idx (st, out, q) = (st1, out1, q1)"
      by (cases "fill_piece pl pl idx (st, out, q)") auto
    note ff = fill_piece_facts [OF f Cons.prems(2)]
    from ff have i1: "issued B st1 out1" by blast
    show ?thesis
    proof (cases "pl \<le> total_outstanding st1")
      case stop: True
      with Cons.prems(1) True f have "st' = st1" "out' = out1" "q' = q1" by (simp_all add: Let_def)
      with ff stop issued_total [OF i1] show ?thesis by auto
    next
      case False
      with Cons.prems(1) True f have "fill_all pl may idxs (st1, out1, q1) = (st', out', q')"
        by (simp add: Let_def)
      note fa = Cons.IH [OF this i1]
      have "exhausted st1 idx" using ff False issued_total [OF i1] by auto
      moreover have "exhausted st' idx = exhausted st1 idx \<or> (may idx \<longrightarrow> exhausted st' idx)
          \<or> pl \<le> size B + length out'"
        using fa by (cases "idx \<in> set idxs") auto
      ultimately show ?thesis using fa ff by (auto intro: frame_trans)
    qed
  qed
qed

section \<open>Starting a piece\<close>

text \<open>\<open>tracks k st p\<close>: of the buffers in use, \<open>k\<close> belong to other peers and the rest are the
  pieces this peer assembles.\<close>

definition tracks :: "nat \<Rightarrow> staging \<Rightarrow> piece_pool \<Rightarrow> bool" where
  "tracks k st p \<longleftrightarrow> pool_ok p \<and> st_piece_length st = pp_piece_length p
     \<and> (if st_shared st then pp_outstanding p = k + st_len st else st_len st = 0)"

lemma contains_iff: "contains st i \<longleftrightarrow> i \<in> slot_index ` set (st_slots st)"
  by (auto simp: contains_def list_ex_iff)

lemma find_assembling_absent: "i \<notin> slot_index ` set ss \<Longrightarrow> find_assembling (ss @ [Assembling a buf]) i =
    (if ap_index a = i then Some (a, buf) else None)"
  by (induction ss i rule: find_assembling.induct) auto

lemma try_start_False:
  assumes "try_start now index len st p = (False, st', p')" "tracks k st p"
  shows "st' = st" "tracks k st p'"
  using assms bb.acquire_inv [of p now] bb.acquire_None [of p now] bb.acquire_same [of now p]
  by (auto simp: try_start_def tracks_def split: if_splits prod.splits option.splits)

lemma try_start_True:
  assumes "try_start now index len st p = (True, st', p')" "\<not> contains st index"
    and "tracks k st p" "issued B st out"
  shows "tracks k st' p'" "issued B st' out" "st_len st' = Suc (st_len st)"
    and "\<exists>a buf bl a'. find_assembling (st_slots st') index = Some (a, buf) \<and> next_request a = Some (bl, a')"
    and "st_piece_length st' = st_piece_length st" "st_shared st' = st_shared st" "st_shared st"
    and "pp_capacity p' = pp_capacity p"
proof -
  let ?a = "piece_open index len (st_max_blocks st)"
  from assms(1,2) obtain buf where len: "0 < len" "len \<le> st_piece_length st" and sh: "st_shared st"
    and acq: "try_acquire now p = (Some buf, p')"
    and st': "st' = st\<lparr>st_slots := st_slots st @ [Assembling ?a buf]\<rparr>"
    by (auto simp: try_start_def split: if_splits prod.splits option.splits)
  have ok: "staging_ok st" using assms(4) by (simp add: issued_def)
  then have mb: "num_blocks len \<le> st_max_blocks st"
    using len(2) by (simp add: staging_ok_def num_blocks_mono)
  note po = piece_open_ok [OF len(1) mb, of index]
  have pool: "pool_ok p" "st_piece_length st = pp_piece_length p" using assms(3) by (simp_all add: tracks_def)
  have p': "pool_ok p'" "pp_outstanding p' = Suc (pp_outstanding p)" "length buf = pp_piece_length p"
    "pp_piece_length p' = pp_piece_length p" "pp_capacity p' = pp_capacity p"
    using bb.acquire_inv [OF pool(1), of now] bb.acquire_Some [OF pool(1), of now buf] bb.acquire_same [of now p]
    by (simp_all add: acq)
  show "st_len st' = Suc (st_len st)" by (simp add: st_len_def st')
  then show "tracks k st' p'" using assms(3) p' sh by (simp add: tracks_def st')
  have ai: "ap_index ?a = index" "ap_length ?a = len" by (simp_all add: piece_open_def Let_def)
  have "staging_ok st'"
    using ok assms(2) po(1) len(2) p'(3) pool(2) ai
    by (auto simp: staging_ok_def slots_ok_def st' contains_iff)
  then show "issued B st' out"
    using assms(4) po(2) by (simp add: issued_def outstanding_list_def st')
  obtain bl a' where "next_request ?a = Some (bl, a')" using po(3) by auto
  then show "\<exists>a buf bl a'. find_assembling (st_slots st') index = Some (a, buf) \<and> next_request a = Some (bl, a')"
    using assms(2) ai by (simp add: st' find_assembling_absent contains_iff)
  show "st_piece_length st' = st_piece_length st" "st_shared st' = st_shared st" "st_shared st"
    "pp_capacity p' = pp_capacity p" using p'(5) sh by (simp_all add: st')
qed

text \<open>\<open>asked start x y\<close>: the closure that started in state \<open>x\<close> is in state \<open>y\<close> after some calls.\<close>

inductive asked :: "(staging \<Rightarrow> 'x \<Rightarrow> (nat \<times> nat) option \<times> 'x) \<Rightarrow> 'x \<Rightarrow> 'x \<Rightarrow> bool" for start where
  asked_refl: "asked start x x"
| asked_step: "asked start y z \<Longrightarrow> start st x = (r, y) \<Longrightarrow> asked start x z"

text \<open>Why no further piece was started: no free buffer, the cap on pieces per peer, or the caller. Asked for the
  table \<open>st\<close>, it had nothing to offer, or what it offered is in the table already or does not fit a
  buffer; \<open>x'\<close>, the state it is left in, is the one this call returned (given back with \<open>abort\<close>
  when the piece does not fit).\<close>

definition refused ::
  "(staging \<Rightarrow> 'x \<Rightarrow> (nat \<times> nat) option \<times> 'x) \<Rightarrow> (nat \<Rightarrow> 'x \<Rightarrow> 'x) \<Rightarrow> 'x \<Rightarrow> staging \<Rightarrow> 'x \<Rightarrow> bool" where
  "refused start abort x st x' \<longleftrightarrow>
     (\<exists>y. asked start x y \<and>
        (start st y = (None, x')
         \<or> (\<exists>i plen. start st y = (Some (i, plen), x') \<and> contains st i)
         \<or> (\<exists>i plen z. start st y = (Some (i, plen), z) \<and> \<not> contains st i
              \<and> (plen = 0 \<or> st_piece_length st < plen) \<and> x' = abort i z)))"

definition no_more_pieces ::
  "(staging \<Rightarrow> 'x \<Rightarrow> (nat \<times> nat) option \<times> 'x) \<Rightarrow> (nat \<Rightarrow> 'x \<Rightarrow> 'x) \<Rightarrow> nat \<Rightarrow> 'x \<Rightarrow> staging \<Rightarrow> piece_pool \<Rightarrow> 'x \<Rightarrow> bool" where
  "no_more_pieces start abort mp x st p x' \<longleftrightarrow>
     \<not> can_start_more st p \<or> mp \<le> st_len st \<or> refused start abort x st x'"

lemma refused_now:
  "start st x = (None, x') \<Longrightarrow> refused start abort x st x'"
  "start st x = (Some (i, plen), x') \<Longrightarrow> contains st i \<Longrightarrow> refused start abort x st x'"
  "start st x = (Some (i, plen), z) \<Longrightarrow> \<not> contains st i \<Longrightarrow> plen = 0 \<or> st_piece_length st < plen \<Longrightarrow>
   refused start abort x st (abort i z)"
  unfolding refused_def by (rule exI [of _ x], simp add: asked_refl, blast?)+

lemma no_more_pieces_asked:
  "start st x = (r, y) \<Longrightarrow> no_more_pieces start abort mp y st' p x' \<Longrightarrow> no_more_pieces start abort mp x st' p x'"
  unfolding no_more_pieces_def refused_def by (blast intro: asked_step)

lemma try_start_fails:
  assumes "try_start now index len st p = (False, st', p')" "tracks k st p" "can_start_more st p"
  shows "\<not> contains st index \<and> (len = 0 \<or> st_piece_length st < len) \<and> st' = st \<and> p' = p"
proof -
  have pool: "pool_ok p" and sh: "st_shared st" and av: "pp_outstanding p < pp_capacity p"
    using assms(2,3) by (auto simp: tracks_def can_start_more_def available_def)
  have "fst (try_acquire now p) \<noteq> None" using bb.acquire_iff [OF pool, of now] av by simp
  then obtain buf q where "try_acquire now p = (Some buf, q)" by (cases "try_acquire now p") auto
  then show ?thesis using assms(1) sh by (auto simp: try_start_def split: if_splits)
qed

lemma frame_tracks: "frame st st' \<Longrightarrow> tracks k st p \<Longrightarrow> tracks k st' p"
  by (simp add: frame_def tracks_def)

section \<open>The refill loop\<close>

lemma refill_loop_facts:
  assumes "refill_loop n now pl mp start may abort (st, p, x, out) = (st', p', x', out')"
    and "issued B st out" "tracks k st p"
  shows "issued B st' out' \<and> tracks k st' p' \<and> size B + length out' \<le> max pl (size B + length out)
    \<and> st_len st' \<le> max mp (st_len st) \<and> st_piece_length st' = st_piece_length st \<and> st_shared st' = st_shared st
    \<and> pp_capacity p' = pp_capacity p
    \<and> (pl \<le> size B + length out + n \<longrightarrow>
         pl \<le> size B + length out' \<or> (\<forall>j \<in> set (indices st'). may j \<longrightarrow> exhausted st' j)
           \<and> no_more_pieces start abort mp x st' p' x')"
  using assms
proof (induction n arbitrary: st p x out)
  case 0
  then show ?case by auto
next
  case (Suc n)
  note tot = issued_total [OF Suc.prems(2)]
  show ?case
  proof (cases "pl \<le> total_outstanding st")
    case True
    with Suc.prems tot show ?thesis by auto
  next
    case notfull: False
    obtain st1 out1 q where f: "fill_all pl may (indices st) (st, out, False) = (st1, out1, q)"
      by (cases "fill_all pl may (indices st) (st, out, False)") auto
    note ff = fill_all_facts [OF f Suc.prems(2)]
    then have i1: "issued B st1 out1" and fr: "frame st st1" by blast+
    note t1 = frame_tracks [OF fr Suc.prems(3)]
    have f1: "st_len st1 = st_len st" "st_piece_length st1 = st_piece_length st" "st_shared st1 = st_shared st"
      "indices st1 = indices st"
      using fr by (simp_all add: frame_def)
    have stop: "?thesis" if "st' = st1" "out' = out1" "tracks k st1 p'" "pp_capacity p' = pp_capacity p"
        "pl \<le> total_outstanding st1 \<or> no_more_pieces start abort mp x st1 p' x'"
      using that ff f1 i1 notfull tot issued_total [OF i1] by auto
    have unf: "(let st = st1; out = out1; queued = q in
        if total_outstanding st \<ge> pl then (st, p, x, out)
        else if \<not> can_start_more st p \<or> st_len st \<ge> mp then (st, p, x, out)
        else (case start st x of
             (None, x) \<Rightarrow> (st, p, x, out)
           | (Some (index, plen), x) \<Rightarrow>
               if contains st index then (st, p, x, out)
               else (case try_start now index plen st p of
                 (False, st, p) \<Rightarrow> (st, p, abort index x, out)
               | (True, st, p) \<Rightarrow>
                   if \<not> queued then
                     (case find_assembling (st_slots st) index of
                        None \<Rightarrow> (st, p, x, out)
                      | Some (a, buf) \<Rightarrow>
                          (case next_request a of
                             None \<Rightarrow> (st, p, x, out)
                           | Some ((begin, len), a') \<Rightarrow>
                               refill_loop n now pl mp start may abort
                                 (st\<lparr>st_slots := set_assembling (st_slots st) index (a', buf)\<rparr>,
                                  p, x, out @ [(index, begin, len)])))
                   else refill_loop n now pl mp start may abort (st, p, x, out))))
        = (st', p', x', out')"
      using Suc.prems(1) notfull f by (simp add: Let_def)
    show ?thesis
    proof (cases "pl \<le> total_outstanding st1 \<or> \<not> can_start_more st1 p \<or> mp \<le> st_len st1")
      case True
      moreover from True have "st' = st1" "p' = p" "out' = out1" using unf by (auto simp: Let_def split: if_splits)
      ultimately show ?thesis using stop t1 by (auto simp: no_more_pieces_def)
    next
      case go: False
      obtain r x1 where s: "start st1 x = (r, x1)" by (cases "start st1 x") auto
      show ?thesis
      proof (cases "\<exists>index plen. r = Some (index, plen) \<and> \<not> contains st1 index")
        case False
        then have e: "st' = st1" "p' = p" "out' = out1" "x' = x1"
          using unf go s by (cases r; auto simp: Let_def)+
        have "start st1 x = (None, x1) \<or> (\<exists>i plen. start st1 x = (Some (i, plen), x1) \<and> contains st1 i)"
          using False s by (cases r) auto
        then have "refused start abort x st1 x1" using refused_now(1,2) [where start = start] by blast
        then show ?thesis using stop t1 e by (simp add: no_more_pieces_def)
      next
        case True
        then obtain index plen where r: "r = Some (index, plen)" and nc: "\<not> contains st1 index" by auto
        obtain b st2 p2 where ts: "try_start now index plen st1 p = (b, st2, p2)"
          by (cases "try_start now index plen st1 p") auto
        show ?thesis
        proof (cases b)
          case False
          then have e: "st' = st2" "p' = p2" "out' = out1" "x' = abort index x1"
            using unf go s r nc ts by (auto simp: Let_def)
          have tf: "(plen = 0 \<or> st_piece_length st1 < plen) \<and> st2 = st1 \<and> p2 = p"
            using try_start_fails [of now index plen st1 p st2 p2 k] ts False t1 go by simp
          then have "start st1 x = (Some (index, plen), x1) \<and> \<not> contains st1 index
              \<and> (plen = 0 \<or> st_piece_length st1 < plen) \<and> x' = abort index x1" using s r nc e by simp
          then have "refused start abort x st1 x'" using refused_now(3) [where start = start] by simp
          then show ?thesis using stop t1 e tf by (simp add: no_more_pieces_def)
        next
          case True
          note tr = try_start_True [of now index plen st1 p st2 p2, OF _ nc t1 i1]
          have T: "tracks k st2 p2" "issued B st2 out1" "st_len st2 = Suc (st_len st1)"
            "st_piece_length st2 = st_piece_length st1" "st_shared st2 = st_shared st1" "pp_capacity p2 = pp_capacity p"
            using tr ts True by simp_all
          obtain a buf b l a' where nr: "find_assembling (st_slots st2) index = Some (a, buf)"
            "next_request a = Some ((b, l), a')"
            using tr(4) ts True by auto
          show ?thesis
          proof (cases q)
            case queued: True
            then have e: "refill_loop n now pl mp start may abort (st2, p2, x1, out1) = (st', p', x', out')"
              using unf go s r nc ts True by (simp add: Let_def)
            have "length out < length out1" using ff queued by auto
            with Suc.IH [OF e T(2,1)] T f1 go ff notfull tot no_more_pieces_asked [where start = start, OF s]
            show ?thesis by (auto simp: max_def split: if_splits)
          next
            case False
            let ?st3 = "st2\<lparr>st_slots := set_assembling (st_slots st2) index (a', buf)\<rparr>"
            note io = issue_one [OF T(2) nr]
            have e: "refill_loop n now pl mp start may abort (?st3, p2, x1, out1 @ [(index, b, l)]) = (st', p', x', out')"
              using unf go s r nc ts True False nr by (simp add: Let_def)
            have "st_len ?st3 = st_len st2" "st_piece_length ?st3 = st_piece_length st2" "st_shared ?st3 = st_shared st2"
              using io(2) by (simp_all add: frame_def)
            with Suc.IH [OF e io(1) frame_tracks [OF io(2) T(1)]] T f1 go ff notfull tot issued_total [OF i1]
              no_more_pieces_asked [where start = start, OF s]
            show ?thesis by (auto simp: max_def split: if_splits)
          qed
        qed
      qed
    qed
  qed
qed

section \<open>No block is requested twice\<close>

lemma slot_list_index: "r \<in> set (slot_list s) \<Longrightarrow> fst r = slot_index s"
  by (cases s) auto

lemma distinct_slot_list: "distinct (slot_list s)"
proof (cases s)
  case (Assembling a buf)
  have "inj_on (\<lambda>i. (ap_index a, i * BLOCK_SIZE, block_len (ap_length a) i)) A" for A
    by (rule inj_onI) simp
  then show ?thesis by (simp add: Assembling outstanding_blocks_def comp_def distinct_map)
qed simp

lemma distinct_outstanding: "staging_ok st \<Longrightarrow> distinct (outstanding_list st)"
proof -
  have "distinct (map slot_index ss) \<Longrightarrow> distinct (concat (map slot_list ss))" for ss
  proof (induction ss)
    case (Cons s ss)
    have "set (slot_list s) \<inter> set (concat (map slot_list ss)) = {}"
    proof (rule ccontr)
      assume "set (slot_list s) \<inter> set (concat (map slot_list ss)) \<noteq> {}"
      then obtain r t where "r \<in> set (slot_list s)" "t \<in> set ss" "r \<in> set (slot_list t)" by auto
      then have "slot_index s = slot_index t" using slot_list_index by metis
      with Cons.prems \<open>t \<in> set ss\<close> show False by (auto simp: image_iff)
    qed
    with Cons show ?case by (simp add: distinct_slot_list)
  qed simp
  then show "staging_ok st \<Longrightarrow> distinct (outstanding_list st)"
    by (simp add: staging_ok_def slots_ok_def outstanding_list_def)
qed

lemma outstanding_valid:
  assumes "(i, b, l) \<in> set (outstanding_list st)" "staging_ok st"
  shows "\<exists>a buf j. Assembling a buf \<in> set (st_slots st) \<and> ap_index a = i \<and> j < num_blocks (ap_length a)
     \<and> b = j * BLOCK_SIZE \<and> l = block_len (ap_length a) j \<and> 0 < l \<and> b + l \<le> ap_length a"
proof -
  from assms(1) obtain a buf j where h: "Assembling a buf \<in> set (st_slots st)" "ap_index a = i"
    "j < length (ap_have a)" "b = j * BLOCK_SIZE" "l = block_len (ap_length a) j"
  proof -
    from assms(1) obtain s where s: "s \<in> set (st_slots st)" "(i, b, l) \<in> set (slot_list s)"
      by (auto simp: outstanding_list_def)
    have "\<exists>a buf. s = Assembling a buf" using s(2) by (induction s) auto
    then obtain a buf where "s = Assembling a buf" by blast
    with s that show thesis by (auto simp: outstanding_blocks_def)
  qed
  have "slot_ok (st_piece_length st) (Assembling a buf)"
    using assms(2) h(1) by (auto simp: staging_ok_def slots_ok_def)
  then have j: "j < num_blocks (ap_length a)" using h(3) by (simp add: piece_ok_def)
  with h block_len_pos [OF j] block_len_bounds(2) [OF block_begin_less [OF j]] show ?thesis
    by (intro exI [of _ a] exI [of _ buf] exI [of _ j]) simp
qed

lemma take_requests_unfold:
  assumes "take_requests now pipeline endgame start may abort st p x = (out, st', p', x')"
  obtains "out = []" "st' = st" "p' = p" "\<not> endgame" "total_outstanding st > max (max pipeline 1 div 2) 1"
  | n where "max pipeline 1 \<le> n"
    "refill_loop n now (max pipeline 1) (max_assembling_pieces (max pipeline 1) (st_piece_length st) (st_capacity st p))
       start may abort (st, p, x, []) = (st', p', x', out)"
proof (cases "\<not> endgame \<and> total_outstanding st > max (max pipeline 1 div 2) 1")
  case True
  with assms that(1) show thesis by (simp add: take_requests_def Let_def)
next
  case False
  define n where "n = max pipeline 1 * 4 + length (st_slots st) + 8"
  have "max pipeline 1 \<le> n" by (simp add: n_def)
  moreover have "refill_loop n now (max pipeline 1)
      (max_assembling_pieces (max pipeline 1) (st_piece_length st) (st_capacity st p))
      start may abort (st, p, x, []) = (st', p', x', out)"
    using assms False unfolding take_requests_def Let_def n_def [symmetric]
    by (auto split: prod.splits)
  ultimately show thesis by (rule that(2))
qed

lemma max_assembling_bounds:
  "max_assembling_pieces pipeline plen capacity \<le> max 1 (div_ceil capacity 16)"
  "blocks = num_blocks plen \<Longrightarrow> 256 \<le> blocks \<Longrightarrow> max_assembling_pieces pipeline plen capacity \<le> 2"
  by (auto simp: max_assembling_pieces_def Let_def min_le_iff_disj max.commute)

section \<open>Properties\<close>

text \<open>C7. The scheduler requests exactly what becomes outstanding. On a well-formed table whose
  buffers are accounted for in the shared pool, the returned requests are new (disjoint from
  the outstanding ones and without repetition), each a block inside a piece the table
  assembles; the outstanding requests never exceed the pipeline, the assembled pieces never
  exceed the fair share, and both invariants hold afterwards.\<close>

theorem take_requests_sound:
  assumes "staging_ok st" "tracks k st p"
    and "take_requests now pipeline endgame start may abort st p x = (out, st', p', x')"
  shows "mset (outstanding_list st') = mset (outstanding_list st) + mset out
    \<and> distinct (outstanding_list st')
    \<and> (\<forall>(i, b, l) \<in> set out. \<exists>a buf. Assembling a buf \<in> set (st_slots st') \<and> ap_index a = i
         \<and> b mod BLOCK_SIZE = 0 \<and> 0 < l \<and> l \<le> BLOCK_SIZE \<and> b + l \<le> ap_length a)
    \<and> total_outstanding st' \<le> max (max pipeline 1) (total_outstanding st)
    \<and> st_len st' \<le> max (st_len st) (max 1 (div_ceil (st_capacity st p) 16))
    \<and> staging_ok st' \<and> tracks k st' p'"
proof -
  have i0: "issued (mset (outstanding_list st)) st []" using assms(1) by (simp add: issued_def)
  have core: "issued (mset (outstanding_list st)) st' out \<and> tracks k st' p'
      \<and> length (outstanding_list st) + length out \<le> max (max pipeline 1) (length (outstanding_list st))
      \<and> st_len st' \<le> max (st_len st) (max 1 (div_ceil (st_capacity st p) 16))"
    using assms(3)
  proof (rule take_requests_unfold)
    assume "out = []" "st' = st" "p' = p"
    then show ?thesis using i0 assms(2) by simp
  next
    fix n
    assume "refill_loop n now (max pipeline 1) (max_assembling_pieces (max pipeline 1) (st_piece_length st) (st_capacity st p))
       start may abort (st, p, x, []) = (st', p', x', out)"
    from refill_loop_facts [OF this i0 assms(2)] max_assembling_bounds(1) [of "max pipeline 1" "st_piece_length st" "st_capacity st p"]
    show ?thesis by (auto simp: max_def split: if_splits)
  qed
  then have ok: "staging_ok st'" and m: "mset (outstanding_list st') = mset (outstanding_list st) + mset out"
    by (simp_all add: issued_def)
  have "\<exists>a buf. Assembling a buf \<in> set (st_slots st') \<and> ap_index a = i
         \<and> b mod BLOCK_SIZE = 0 \<and> 0 < l \<and> l \<le> BLOCK_SIZE \<and> b + l \<le> ap_length a"
    if "(i, b, l) \<in> set out" for i b l
  proof -
    have "(i, b, l) \<in> set (outstanding_list st')"
      using that m by (metis set_mset_mset UnI2 set_mset_union)
    from outstanding_valid [OF this ok] block_len_bounds(1) show ?thesis by fastforce
  qed
  moreover have "total_outstanding st' = length (outstanding_list st) + length out"
    using m total_is_length [OF ok] by (metis size_mset size_union)
  ultimately show ?thesis
    using core ok m distinct_outstanding [OF ok] total_is_length [OF assms(1)] by auto
qed

lemma fresh_table:
  "staging_ok (from_pool (pool_new 32768 0))" "tracks 0 (from_pool (pool_new 32768 0)) (pool_new 32768 0)"
  by (simp_all add: staging_ok_def slots_ok_def from_pool_def tracks_def with_torrent_ok pool_new_def
      st_len_def) (simp add: with_torrent_def Let_def)

lemma fresh_pool:
  "pp_capacity (pool_new 32768 0) = 4096" "pp_piece_length (pool_new 32768 0) = 32768"
  "pp_free (pool_new 32768 0) = []" "pp_outstanding (pool_new 32768 0) = 0"
  by (simp_all only: pool_new_def with_torrent_def Let_def piece_pool.simps buffer_count_for_limit_def) simp_all

theorem take_requests_sound_witness:
  "\<exists>out st' p' x'. take_requests 0 4 True (\<lambda>st x. (if x = 0 then Some (7, 32768) else None, Suc x)) (\<lambda>_. True)
       (\<lambda>_ x. x) (from_pool (pool_new 32768 0)) (pool_new 32768 0) (0 :: nat) = (out, st', p', x')
     \<and> distinct (outstanding_list st') \<and> staging_ok st'"
proof -
  obtain out st' p' x' where t: "take_requests 0 4 True (\<lambda>st x. (if x = 0 then Some (7, 32768) else None, Suc x))
      (\<lambda>_. True) (\<lambda>_ x. x) (from_pool (pool_new 32768 0)) (pool_new 32768 0) (0 :: nat) = (out, st', p', x')"
    by (rule prod_cases4)
  with take_requests_sound [OF fresh_table t] show ?thesis by blast
qed

text \<open>C8. The scheduler makes progress: unless it is told to wait (outside endgame, with more
  than half the pipeline outstanding), it returns only when the pipeline is full, or when every
  piece it assembles and may request has all its missing blocks outstanding and, besides, no
  further piece could be started: no buffer is free, the peer's share of pieces is used up, or
  the caller's \<open>start_piece\<close>, asked for the table the scheduler returns, had no usable piece. Its
  bounded number of rounds is always enough for that.\<close>

theorem take_requests_fills_pipeline:
  assumes "staging_ok st" "tracks k st p"
    and "take_requests now pipeline endgame start may abort st p x = (out, st', p', x')"
    and "endgame \<or> total_outstanding st \<le> max (max pipeline 1 div 2) 1"
  shows "max pipeline 1 \<le> total_outstanding st'
    \<or> (\<forall>i \<in> set (indices st'). may i \<longrightarrow> exhausted st' i)
      \<and> (\<not> can_start_more st' p'
         \<or> max_assembling_pieces (max pipeline 1) (st_piece_length st) (st_capacity st p) \<le> st_len st'
         \<or> refused start abort x st' x')"
  using assms(3)
proof (rule take_requests_unfold)
  assume "\<not> endgame" "total_outstanding st > max (max pipeline 1 div 2) 1"
  with assms(4) show ?thesis by (metis not_le)
next
  fix n
  assume n: "max pipeline 1 \<le> n"
    and r: "refill_loop n now (max pipeline 1) (max_assembling_pieces (max pipeline 1) (st_piece_length st) (st_capacity st p))
       start may abort (st, p, x, []) = (st', p', x', out)"
  have i0: "issued (mset (outstanding_list st)) st []" using assms(1) by (simp add: issued_def)
  note rf = refill_loop_facts [OF r i0 assms(2)]
  then have "total_outstanding st' = size (mset (outstanding_list st)) + length out"
    by (intro issued_total) blast
  with rf n show ?thesis by (auto simp: no_more_pieces_def)
qed

text \<open>The caller of the witness always offers a new piece, so only the budget can stop the scheduler.\<close>

definition fresh_start :: "staging \<Rightarrow> nat \<Rightarrow> (nat \<times> nat) option \<times> nat" where
  "fresh_start st x = (Some (Suc (sum_list (map slot_index (st_slots st))), 32768), Suc x)"

lemma fresh_start_not_refused:
  assumes "st_piece_length st = 32768"
  shows "\<not> refused fresh_start abort x st x'"
proof -
  have "i \<le> sum_list (map slot_index (st_slots st))" if "contains st i" for i
    using that member_le_sum_list [of i "map slot_index (st_slots st)"] by (simp add: contains_iff)
  then have "\<not> contains st (Suc (sum_list (map slot_index (st_slots st))))" by force
  with assms show ?thesis by (auto simp: refused_def fresh_start_def)
qed

theorem take_requests_fills_witness:
  "\<exists>out st' p' x'. take_requests 0 4 True fresh_start (\<lambda>_. True) (\<lambda>_ x. x)
       (from_pool (pool_new 32768 0)) (pool_new 32768 0) 0 = (out, st', p', x')
     \<and> (4 \<le> total_outstanding st'
        \<or> (\<forall>i \<in> set (indices st'). exhausted st' i) \<and> (\<not> can_start_more st' p' \<or> 2 \<le> st_len st'))"
proof -
  let ?p = "pool_new 32768 0"
  obtain out st' p' x' where t: "take_requests 0 4 True fresh_start (\<lambda>_. True) (\<lambda>_ x. x) (from_pool ?p) ?p 0
      = (out, st', p', x')"
    by (rule prod_cases4)
  have i0: "issued (mset (outstanding_list (from_pool ?p))) (from_pool ?p) []" using fresh_table by (simp add: issued_def)
  have pl: "st_piece_length st' = 32768"
    using t
  proof (rule take_requests_unfold)
    fix n
    assume "refill_loop n 0 (max 4 1) (max_assembling_pieces (max 4 1) (st_piece_length (from_pool ?p)) (st_capacity (from_pool ?p) ?p))
       fresh_start (\<lambda>_. True) (\<lambda>_ x. x) (from_pool ?p, ?p, 0, []) = (st', p', x', out)"
    from refill_loop_facts [OF this i0 fresh_table(2)] show ?thesis
      by (simp add: from_pool_def pool_new_def with_torrent_def Let_def)
  qed simp
  have "num_blocks 32768 = 2" by (simp add: num_blocks_def div_ceil_def)
  then have mp: "max_assembling_pieces (max 4 1) (st_piece_length (from_pool ?p)) (st_capacity (from_pool ?p) ?p) = 2"
    using fresh_pool by (simp add: max_assembling_pieces_def from_pool_def st_capacity_def div_ceil_def Let_def
        del: One_nat_def add_2_eq_Suc add_2_eq_Suc' Suc_1)
  note f = take_requests_fills_pipeline [OF fresh_table t, unfolded mp]
  have "4 \<le> total_outstanding st'
        \<or> (\<forall>i \<in> set (indices st'). exhausted st' i) \<and> (\<not> can_start_more st' p' \<or> 2 \<le> st_len st')"
    using f fresh_start_not_refused [OF pl] by simp
  with t show ?thesis by blast
qed

end
