(* ===== verification/Swarm_Buffers.thy ===== *)
theory Swarm_Buffers
  imports Scheduler
begin

text \<open>
  All the peers of one torrent over one shared buffer pool: every operation of
  \<open>StagingPool\<close> keeps the table's invariant and the buffer accounting, so that in every
  reachable state of the swarm the buffers in use are exactly the pieces being assembled and
  never exceed the budget, and the piece handed to the hash thread is the data received.
\<close>

section \<open>Invariants depend only on the multiset of slots\<close>

lemma slots_ok_mset:
  assumes "mset ss = mset ss'"
  shows "slots_ok plen ss \<longleftrightarrow> slots_ok plen ss'"
proof -
  have "mset (map slot_index ss) = mset (map slot_index ss')" using assms by simp
  then have "distinct (map slot_index ss) = distinct (map slot_index ss')" by (rule mset_eq_imp_distinct_iff)
  with assms show ?thesis by (simp add: slots_ok_def) (metis set_mset_mset)
qed

lemma assembling_count_mset: "mset ss = mset ss' \<Longrightarrow>
    length (filter is_assembling ss) = length (filter is_assembling ss')"
  by (metis mset_filter size_mset)

lemma swap_remove_mset:
  assumes "pos < length xs"
  shows "fst (swap_remove xs pos) = xs ! pos" "mset xs = add_mset (xs ! pos) (mset (snd (swap_remove xs pos)))"
proof -
  show "fst (swap_remove xs pos) = xs ! pos" by (simp add: swap_remove_def)
  show "mset xs = add_mset (xs ! pos) (mset (snd (swap_remove xs pos)))"
  proof -
    obtain ys l where xs: "xs = ys @ [l]" using assms by (cases xs rule: rev_cases) auto
    show ?thesis
    proof (cases "pos = length ys")
      case True
      then show ?thesis by (simp add: xs swap_remove_def)
    next
      case False
      then have pos: "pos < length ys" using assms xs by simp
      then have "snd (swap_remove xs pos) = ys[pos := l]"
        by (simp add: swap_remove_def xs list_update_append)
      with xs pos show ?thesis by (simp add: mset_update nth_append)
    qed
  qed
qed

section \<open>Every operation keeps the invariants\<close>

definition peer_ok :: "nat \<Rightarrow> staging \<Rightarrow> piece_pool \<Rightarrow> bool" where
  "peer_ok k st p \<longleftrightarrow> staging_ok st \<and> st_shared st \<and> tracks k st p"

lemma position_assembling:
  "case position (assembles i) ss of
     None \<Rightarrow> find_assembling ss i = None
   | Some pos \<Rightarrow> pos < length ss \<and> (\<exists>a buf. ss ! pos = Assembling a buf \<and> find_assembling ss i = Some (a, buf))"
proof -
  have "List.find (\<lambda>j. P (f j)) [0..<Suc n] = (if P (f 0) then Some 0 else map_option Suc (List.find (\<lambda>j. P (f (Suc j))) [0..<n]))"
    for P :: "slot \<Rightarrow> bool" and f n
  proof -
    have "List.find Q (map Suc xs) = map_option Suc (List.find (\<lambda>j. Q (Suc j)) xs)" for Q xs
      by (induction xs) auto
    then show ?thesis by (simp add: upt_conv_Cons map_Suc_upt [symmetric] del: upt_Suc)
  qed
  note fs = this
  show ?thesis
  proof (induction ss)
    case (Cons s ss)
    have "position (assembles i) (s # ss) = (if assembles i s then Some 0 else map_option Suc (position (assembles i) ss))"
      using fs [of "assembles i" "\<lambda>j. (s # ss) ! j" "length ss"] by (simp add: position_def)
    with Cons show ?case by (cases s; cases "position (assembles i) ss") auto
  qed (simp add: position_def)
qed

lemma take_for_hash_facts:
  assumes "peer_ok k st p" "take_for_hash i st p = (r, st', p')"
  shows "peer_ok k st' p' \<and> pp_capacity p' = pp_capacity p \<and> pp_piece_length p' = pp_piece_length p
    \<and> r = map_option (\<lambda>(a, buf). (ap_length a, buf)) (find_assembling (st_slots st) i)"
proof (cases "position (assembles i) (st_slots st)")
  case None
  with assms position_assembling [where i = i and ss = "st_slots st"] show ?thesis by (simp add: take_for_hash_def)
next
  case (Some pos)
  with position_assembling [where i = i and ss = "st_slots st"] obtain a buf where
    pos: "pos < length (st_slots st)" "st_slots st ! pos = Assembling a buf"
    and fa: "find_assembling (st_slots st) i = Some (a, buf)" by auto
  define rest where "rest = snd (swap_remove (st_slots st) pos)"
  have sw: "swap_remove (st_slots st) pos = (Assembling a buf, rest)"
    using pos swap_remove_mset(1) [OF pos(1)] by (simp add: rest_def prod_eq_iff)
  have m: "mset (st_slots st) = mset (Assembling a buf # rest)"
    using swap_remove_mset(2) [OF pos(1)] pos(2) by (simp add: rest_def)
  have i: "ap_index a = i" using find_assembling_Some [OF fa] by simp
  have r: "r = Some (ap_length a, buf)" and st': "st' = st\<lparr>st_slots := rest @ [Hashing i]\<rparr>" and p': "p' = detach p"
    using assms Some sw by (auto simp: take_for_hash_def peer_ok_def)
  have "slots_ok (st_piece_length st) (Assembling a buf # rest)"
    using assms(1) slots_ok_mset [OF m] by (simp add: peer_ok_def staging_ok_def)
  then have "staging_ok st'" using assms(1) i by (auto simp: staging_ok_def slots_ok_def st' peer_ok_def)
  moreover have "st_len st = Suc (st_len st')"
    using assembling_count_mset [OF m] by (simp add: st_len_def st')
  ultimately show ?thesis
    using assms(1) r fa bb.detach_inv [of p] bb.detach_use [of p] bb.detach_same [of p]
    by (simp add: peer_ok_def tracks_def p' st')
qed

lemma filter_hashing_ok:
  "slots_ok plen ss \<Longrightarrow> slots_ok plen (filter (\<lambda>s. s \<noteq> Hashing i) ss)"
  "length (filter is_assembling (filter (\<lambda>s. s \<noteq> Hashing i) ss)) = length (filter is_assembling ss)"
proof -
  show "slots_ok plen ss \<Longrightarrow> slots_ok plen (filter (\<lambda>s. s \<noteq> Hashing i) ss)"
    by (auto simp: slots_ok_def distinct_map_filter)
  show "length (filter is_assembling (filter (\<lambda>s. s \<noteq> Hashing i) ss)) = length (filter is_assembling ss)"
    by (induction ss) auto
qed

lemma reclaim_facts:
  assumes "peer_ok k st p" "reclaim i data st p = (st', p')"
  shows "peer_ok k st' p' \<and> pp_capacity p' = pp_capacity p \<and> pp_piece_length p' = pp_piece_length p"
  using assms filter_hashing_ok(1) [of "st_piece_length st" "st_slots st" i] filter_hashing_ok(2) [of i "st_slots st"]
    bb.donate_inv [of p data] bb.donate_use [of data p] bb.donate_same [of data p]
  by (auto simp: reclaim_def peer_ok_def tracks_def staging_ok_def st_len_def)

lemma release_slots_facts:
  assumes "release_slots True ss p = (kept, p')" "pool_ok p"
  shows "pool_ok p' \<and> pp_outstanding p' = pp_outstanding p - length (filter is_assembling ss)
    \<and> pp_capacity p' = pp_capacity p \<and> pp_piece_length p' = pp_piece_length p
    \<and> kept = filter (\<lambda>s. \<not> is_assembling s) ss"
  using assms
proof (induction "True" ss p arbitrary: kept p' rule: release_slots.induct)
  case (2 a buf ss p)
  with bb.release_inv [of p buf] bb.release_use [of buf p] bb.release_same [of buf p] show ?case by simp
qed (auto split: prod.splits)

lemma clear_facts:
  assumes "peer_ok k st p" "staging_clear st p = (st', p')"
  shows "peer_ok k st' p' \<and> st_len st' = 0 \<and> pp_capacity p' = pp_capacity p
    \<and> pp_piece_length p' = pp_piece_length p"
proof -
  obtain kept where r: "release_slots True (st_slots st) p = (kept, p')" and st': "st' = st\<lparr>st_slots := kept\<rparr>"
    using assms by (auto simp: staging_clear_def peer_ok_def split: prod.splits)
  have "pool_ok p" using assms(1) by (simp add: peer_ok_def tracks_def)
  note rf = release_slots_facts [OF r this]
  have "slots_ok (st_piece_length st) kept"
    using assms(1) rf by (auto simp: peer_ok_def staging_ok_def slots_ok_def distinct_map_filter)
  moreover have "st_len st' = 0" using rf by (auto simp: st_len_def st' filter_empty_conv)
  ultimately show ?thesis using assms(1) rf
    by (auto simp: peer_ok_def tracks_def staging_ok_def st' st_len_def)
qed

text \<open>Operations that change pieces but neither indices nor buffers.\<close>

lemma same_shape_ok:
  assumes "peer_ok k st p" "map slot_index ss = map slot_index (st_slots st)"
    "map is_assembling ss = map is_assembling (st_slots st)" "\<forall>s \<in> set ss. slot_ok (st_piece_length st) s"
  shows "peer_ok k (st\<lparr>st_slots := ss\<rparr>) p"
proof -
  have "length (filter is_assembling ss) = length (filter (\<lambda>b. b) (map is_assembling ss))"
    by (simp add: filter_map comp_def)
  also have "\<dots> = length (filter is_assembling (st_slots st))" by (simp only: assms(3)) (simp add: filter_map comp_def)
  finally show ?thesis using assms by (simp add: peer_ok_def tracks_def staging_ok_def slots_ok_def st_len_def)
qed

lemma map_piece_ok:
  assumes "peer_ok k st p" "\<And>a. piece_ok a \<Longrightarrow> piece_ok (f a)" "\<And>a. ap_index (f a) = ap_index a"
    "\<And>a. ap_length (f a) = ap_length a"
  shows "peer_ok k (st\<lparr>st_slots := map (map_piece f) (st_slots st)\<rparr>) p"
proof (rule same_shape_ok [OF assms(1)])
  have si: "slot_index (map_piece f s) = slot_index s" "is_assembling (map_piece f s) = is_assembling s" for s
    using assms(3) by (cases s; simp)+
  then show "map slot_index (map (map_piece f) (st_slots st)) = map slot_index (st_slots st)"
    "map is_assembling (map (map_piece f) (st_slots st)) = map is_assembling (st_slots st)" by simp_all
  have "slot_ok n s \<Longrightarrow> slot_ok n (map_piece f s)" for n s
    using assms(2,4) by (cases s) auto
  then show "\<forall>s \<in> set (map (map_piece f) (st_slots st)). slot_ok (st_piece_length st) s"
    using assms(1) by (auto simp: peer_ok_def staging_ok_def slots_ok_def)
qed

lemma foldl_unset_length:
  "length (foldl (\<lambda>r i. if P i then r[i := False] else r) r is) = length r"
  by (induction "is" arbitrary: r) auto

lemma requeue_ok: "peer_ok k st p \<Longrightarrow> peer_ok k (requeue_timed_out st) p"
  unfolding requeue_timed_out_def
  by (rule map_piece_ok) (simp_all add: requeue_missing_def piece_ok_def foldl_unset_length)

lemma endgame_ok: "peer_ok k st p \<Longrightarrow> peer_ok k (enable_endgame st) p"
  unfolding enable_endgame_def by (rule map_piece_ok) (simp_all add: set_endgame_def piece_ok_def)

lemma set_assembling_shape:
  assumes "peer_ok k st p" "find_assembling (st_slots st) i = Some (a, buf)"
    "ap_index a' = i" "slot_ok (st_piece_length st) (Assembling a' buf')"
  shows "peer_ok k (st\<lparr>st_slots := set_assembling (st_slots st) i (a', buf')\<rparr>) p"
proof -
  have "slots_ok (st_piece_length st) (set_assembling (st_slots st) i (a', buf'))"
    by (rule set_assembling_ok [OF _ assms(3,4)]) (use assms(1) in \<open>simp add: peer_ok_def staging_ok_def\<close>)
  with assms(1) show ?thesis by (simp add: peer_ok_def tracks_def staging_ok_def st_len_def st_len_set)
qed

lemma clear_request_ok:
  assumes "peer_ok k st p"
  shows "peer_ok k (snd (st_clear_request i b l st)) p"
proof (cases "find_assembling (st_slots st) i")
  case (Some ab)
  obtain a buf where ab: "ab = (a, buf)" by (cases ab)
  obtain ok a' where c: "piece_clear_request b l a = (ok, a')" by (cases "piece_clear_request b l a") auto
  have "slots_ok (st_piece_length st) (st_slots st)" using assms by (simp add: peer_ok_def staging_ok_def)
  from find_assembling_ok [OF this Some [unfolded ab]]
  have "piece_ok a" "ap_length a \<le> st_piece_length st" "length buf = st_piece_length st" "ap_index a = i" by simp_all
  moreover from this c have "piece_ok a'" "ap_length a' = ap_length a" "ap_index a' = ap_index a"
    by (auto simp: piece_clear_request_def piece_ok_def Let_def split: if_splits)
  ultimately show ?thesis
    using set_assembling_shape [OF assms Some [unfolded ab], of a' buf] Some ab c
    by (simp add: st_clear_request_def)
qed (use assms in \<open>simp add: st_clear_request_def\<close>)

lemma ingest_facts:
  assumes "peer_ok k st p" "ingest_if_staged i b block st = Inr (r, st')"
  shows "peer_ok k st' p"
proof (cases "find_assembling (st_slots st) i")
  case (Some ab)
  obtain a buf where ab: "ab = (a, buf)" by (cases ab)
  have "slots_ok (st_piece_length st) (st_slots st)" using assms by (simp add: peer_ok_def staging_ok_def)
  note fa = find_assembling_ok [OF this Some [unfolded ab]]
  obtain c a' buf' where pi: "piece_ingest b block a buf = Inr (c, a', buf')"
    and st': "st' = st\<lparr>st_slots := set_assembling (st_slots st) i (a', buf')\<rparr>"
    using assms(2) Some ab by (auto simp: ingest_if_staged_def split: sum.splits prod.splits)
  note pf = piece_ingest_facts [OF _ pi]
  show ?thesis unfolding st'
    using fa pf by (intro set_assembling_shape [OF assms(1) Some [unfolded ab]]) auto
qed (use assms in \<open>simp add: ingest_if_staged_def\<close>)

lemma from_pool_ok:
  assumes "pool_ok p"
  shows "peer_ok (pp_outstanding p) (from_pool p) p"
  using assms by (simp add: peer_ok_def staging_ok_def slots_ok_def from_pool_def tracks_def st_len_def)

section \<open>The swarm\<close>

record swarm =
  sw_pool :: piece_pool
  sw_peers :: "staging list"

definition put_peer :: "swarm \<Rightarrow> nat \<Rightarrow> staging \<Rightarrow> piece_pool \<Rightarrow> swarm" where
  "put_peer s i st p = \<lparr>sw_pool = p, sw_peers = (sw_peers s)[i := st]\<rparr>"

text \<open>One peer's operation at a time: the pool's lock makes each atomic. The closures of the
  scheduler are arbitrary, with any captured state.\<close>

inductive swarm_step :: "swarm \<Rightarrow> swarm \<Rightarrow> bool" where
  join: "swarm_step s (s\<lparr>sw_peers := sw_peers s @ [from_pool (sw_pool s)]\<rparr>)"
| request: "i < length (sw_peers s) \<Longrightarrow>
    take_requests now pipeline endgame start may abort (sw_peers s ! i) (sw_pool s) (x :: nat) = (out, st, p, x')
    \<Longrightarrow> swarm_step s (put_peer s i st p)"
| block: "i < length (sw_peers s) \<Longrightarrow> ingest_if_staged index begin data (sw_peers s ! i) = Inr (r, st)
    \<Longrightarrow> swarm_step s (put_peer s i st (sw_pool s))"
| hash: "i < length (sw_peers s) \<Longrightarrow> take_for_hash index (sw_peers s ! i) (sw_pool s) = (t, st, p)
    \<Longrightarrow> swarm_step s (put_peer s i st p)"
| recycle: "i < length (sw_peers s) \<Longrightarrow> reclaim index data (sw_peers s ! i) (sw_pool s) = (st, p)
    \<Longrightarrow> swarm_step s (put_peer s i st p)"
| reject: "i < length (sw_peers s)
    \<Longrightarrow> swarm_step s (put_peer s i (snd (st_clear_request index begin len (sw_peers s ! i))) (sw_pool s))"
| timeout: "i < length (sw_peers s) \<Longrightarrow> swarm_step s (put_peer s i (requeue_timed_out (sw_peers s ! i)) (sw_pool s))"
| endgame: "i < length (sw_peers s) \<Longrightarrow> swarm_step s (put_peer s i (enable_endgame (sw_peers s ! i)) (sw_pool s))"
| leave: "i < length (sw_peers s) \<Longrightarrow> staging_clear (sw_peers s ! i) (sw_pool s) = (st, p)
    \<Longrightarrow> swarm_step s \<lparr>sw_pool = p, sw_peers = take i (sw_peers s) @ drop (Suc i) (sw_peers s)\<rparr>"

definition swarm_ok :: "swarm \<Rightarrow> bool" where
  "swarm_ok s \<longleftrightarrow> pool_ok (sw_pool s)
     \<and> (\<forall>st \<in> set (sw_peers s). staging_ok st \<and> st_shared st \<and> st_piece_length st = pp_piece_length (sw_pool s))
     \<and> sum_list (map st_len (sw_peers s)) = pp_outstanding (sw_pool s)"

definition same_pool :: "piece_pool \<Rightarrow> piece_pool \<Rightarrow> bool" where
  "same_pool p p' \<longleftrightarrow> pp_capacity p' = pp_capacity p \<and> pp_piece_length p' = pp_piece_length p"

lemma sum_split:
  assumes "i < length (xs :: nat list)"
  shows "sum_list xs = sum_list (take i xs @ drop (Suc i) xs) + xs ! i"
  using arg_cong [OF id_take_nth_drop [OF assms], of sum_list] by simp

definition others :: "swarm \<Rightarrow> nat \<Rightarrow> nat" where
  "others s i = sum_list (map st_len (take i (sw_peers s) @ drop (Suc i) (sw_peers s)))"

lemma peer_of_swarm:
  assumes "swarm_ok s" "i < length (sw_peers s)"
  shows "peer_ok (others s i) (sw_peers s ! i) (sw_pool s)"
  using assms sum_split [of i "map st_len (sw_peers s)"]
  by (simp add: swarm_ok_def peer_ok_def tracks_def others_def take_map drop_map)

lemma put_peer_ok:
  assumes "swarm_ok s" "i < length (sw_peers s)" "peer_ok (others s i) st p" "same_pool (sw_pool s) p"
  shows "swarm_ok (put_peer s i st p)"
proof -
  have "sum_list (map st_len ((sw_peers s)[i := st])) = others s i + st_len st"
    using assms(2) by (simp add: others_def upd_conv_take_nth_drop)
  moreover have "set ((sw_peers s)[i := st]) \<subseteq> insert st (set (sw_peers s))" by (rule set_update_subset_insert)
  ultimately show ?thesis
    using assms by (auto simp: swarm_ok_def put_peer_def peer_ok_def tracks_def same_pool_def)
qed

lemma take_requests_peer:
  assumes "peer_ok k st p" "take_requests now pipeline endgame start may abort st p x = (out, st', p', x')"
  shows "peer_ok k st' p' \<and> same_pool p p'"
  using assms(2)
proof (rule take_requests_unfold)
  assume "st' = st" "p' = p"
  then show ?thesis using assms(1) by (simp add: same_pool_def)
next
  fix n
  assume "refill_loop n now (max pipeline 1) (max_assembling_pieces (max pipeline 1) (st_piece_length st) (st_capacity st p))
       start may abort (st, p, x, []) = (st', p', x', out)"
  from refill_loop_facts [OF this, of "mset (outstanding_list st)" k] assms(1)
  show ?thesis by (auto simp: peer_ok_def issued_def tracks_def same_pool_def)
qed

lemma swarm_step_ok:
  assumes "swarm_step s s'" "swarm_ok s"
  shows "swarm_ok s' \<and> same_pool (sw_pool s) (sw_pool s')"
  using assms
proof (induction rule: swarm_step.induct)
  case (join s)
  then show ?case using from_pool_ok [of "sw_pool s"]
    by (auto simp: swarm_ok_def peer_ok_def tracks_def same_pool_def st_len_def from_pool_def)
next
  case (request i s now pipeline endgame start may abort x out st p x')
  from take_requests_peer [OF peer_of_swarm [OF request(3,1)] request(2)] put_peer_ok [OF request(3,1)]
  show ?case by (simp add: put_peer_def)
next
  case (block i s index b data r st)
  from ingest_facts [OF peer_of_swarm [OF block(3,1)] block(2)] put_peer_ok [OF block(3,1)]
  show ?case by (simp add: same_pool_def put_peer_def)
next
  case (hash i s index t st p)
  from take_for_hash_facts [OF peer_of_swarm [OF hash(3,1)] hash(2)] put_peer_ok [OF hash(3,1), of st p]
  show ?case by (simp add: same_pool_def put_peer_def)
next
  case (recycle i s index data st p)
  from reclaim_facts [OF peer_of_swarm [OF recycle(3,1)] recycle(2)] put_peer_ok [OF recycle(3,1), of st p]
  show ?case by (simp add: same_pool_def put_peer_def)
next
  case (reject i s index b len)
  from clear_request_ok [OF peer_of_swarm [OF reject(2,1)]] put_peer_ok [OF reject(2,1)]
  show ?case by (simp add: same_pool_def put_peer_def)
next
  case (timeout i s)
  from requeue_ok [OF peer_of_swarm [OF timeout(2,1)]] put_peer_ok [OF timeout(2,1)]
  show ?case by (simp add: same_pool_def put_peer_def)
next
  case (endgame i s)
  from endgame_ok [OF peer_of_swarm [OF endgame(2,1)]] put_peer_ok [OF endgame(2,1)]
  show ?case by (simp add: same_pool_def put_peer_def)
next
  case (leave i s st p)
  note cf = clear_facts [OF peer_of_swarm [OF leave(3,1)] leave(2)]
  have "set (take i (sw_peers s) @ drop (Suc i) (sw_peers s)) \<subseteq> set (sw_peers s)"
    by (auto dest: in_set_takeD in_set_dropD)
  with cf leave(3) show ?case
    by (auto simp: swarm_ok_def same_pool_def peer_ok_def tracks_def others_def)
qed

definition swarm_init :: "nat \<Rightarrow> nat \<Rightarrow> swarm" where
  "swarm_init piece_length limit = \<lparr>sw_pool = pool_new piece_length limit, sw_peers = []\<rparr>"

lemma swarm_reachable_ok:
  assumes "swarm_step\<^sup>*\<^sup>* (swarm_init plen limit) s"
  shows "swarm_ok s \<and> same_pool (pool_new plen limit) (sw_pool s)"
  using assms
proof (induction rule: rtranclp_induct)
  case base
  have "pp_outstanding (pool_new plen limit) = 0" by (simp add: pool_new_def with_torrent_def Let_def)
  then show ?case by (simp add: swarm_ok_def swarm_init_def pool_new_def with_torrent_ok same_pool_def)
next
  case (step s s')
  then show ?case using swarm_step_ok [of s s'] by (auto simp: same_pool_def)
qed

section \<open>Properties\<close>

text \<open>C9. The swarm stays within its memory budget and leaks no buffer. In every state reachable
  by any interleaving of peers joining, requesting, receiving, hashing, recycling, timing out
  and leaving, the buffers in use are exactly the pieces being assembled over all peers; with
  the recycled ones they never exceed the capacity computed from the limit, every recycled
  buffer has the piece length, and when the last peer has left none is in use.\<close>

theorem swarm_within_budget:
  assumes "swarm_step\<^sup>*\<^sup>* (swarm_init plen limit) s"
  shows "sum_list (map st_len (sw_peers s)) = pp_outstanding (sw_pool s)
    \<and> length (pp_free (sw_pool s)) + pp_outstanding (sw_pool s) \<le> buffer_count_for_limit plen limit
    \<and> (\<forall>b \<in> set (pp_free (sw_pool s)). length b = max plen 1)
    \<and> (sw_peers s = [] \<longrightarrow> pp_outstanding (sw_pool s) = 0)"
proof -
  have "buffer_count_for_limit (max plen 1) (if limit = 0 then DEFAULT_STAGING_MEM_LIMIT else limit)
      = buffer_count_for_limit plen limit"
    unfolding buffer_count_for_limit_def Let_def by (cases "limit = 0") simp_all
  then have "pp_capacity (pool_new plen limit) = buffer_count_for_limit plen limit"
    "pp_piece_length (pool_new plen limit) = max plen 1"
    by (simp_all add: pool_new_def with_torrent_def Let_def)
  with swarm_reachable_ok [OF assms] show ?thesis
    by (auto simp: swarm_ok_def pool_ok_def same_pool_def)
qed

theorem swarm_within_budget_witness:
  "\<exists>s. swarm_step\<^sup>*\<^sup>* (swarm_init 16384 0) s \<and> length (sw_peers s) = 1
     \<and> sum_list (map st_len (sw_peers s)) = pp_outstanding (sw_pool s)"
proof -
  define s where "s = (swarm_init 16384 0)\<lparr>sw_peers := sw_peers (swarm_init 16384 0) @ [from_pool (sw_pool (swarm_init 16384 0))]\<rparr>"
  have r: "swarm_step\<^sup>*\<^sup>* (swarm_init 16384 0) s"
    unfolding s_def by (rule r_into_rtranclp) (rule swarm_step.join)
  moreover have "length (sw_peers s) = 1" by (simp add: s_def swarm_init_def)
  ultimately show ?thesis using swarm_within_budget [OF r] by blast
qed

text \<open>C10. A completed piece is the data that was sent. If the blocks had so far agree with the
  piece's true data, ingesting a further true block (any offset, any overlap, any size the
  code accepts) keeps them in agreement, a newly opened piece agrees trivially, and when the
  code reports completion, the buffer that is handed to the hash thread starts with exactly
  the data and the recorded length is its length.\<close>

theorem completed_piece_is_the_data:
  assumes "staging_ok st" "st_shared st" "tracks k st p"
    and "find_assembling (st_slots st) index = Some (a, buf)" "agrees data a buf"
    and "ingest_if_staged index begin block st = Inr (r, st')" "block = take (length block) (drop begin data)"
  shows "(\<exists>a' buf'. find_assembling (st_slots st') index = Some (a', buf') \<and> agrees data a' buf'
      \<and> (r = Some True \<longrightarrow> (\<exists>st'' p'. take_for_hash index st' p = (Some (length data, buf'), st'', p')
            \<and> take (length data) buf' = data)))
    \<and> (length data = len \<and> len \<le> length fresh \<longrightarrow> agrees data (piece_open index len (num_blocks len)) fresh)"
proof -
  have slots: "slots_ok (st_piece_length st) (st_slots st)" using assms(1) by (simp add: staging_ok_def)
  note fa = find_assembling_ok [OF slots assms(4)]
  obtain c a' buf' where pi: "piece_ingest begin block a buf = Inr (c, a', buf')" and r: "r = Some c"
    and st': "st' = st\<lparr>st_slots := set_assembling (st_slots st) index (a', buf')\<rparr>"
    using assms(6) assms(4) by (auto simp: ingest_if_staged_def split: sum.splits prod.splits)
  have ok: "piece_ok a" using fa by simp
  note pf = piece_ingest_facts [OF ok pi]
  have ag: "agrees data a' buf'" by (rule ingest_agrees [OF ok assms(5) pi assms(7)])
  have f': "find_assembling (st_slots st') index = Some (a', buf')"
    using assms(4) fa pf(2) by (simp add: st' find_set_assembling)
  have "peer_ok k st p" using assms by (simp add: peer_ok_def)
  then have "peer_ok k st' p" by (rule ingest_facts [OF _ assms(6)])
  moreover obtain t st'' p' where tk: "take_for_hash index st' p = (t, st'', p')"
    by (cases "take_for_hash index st' p") auto
  ultimately have t: "t = Some (ap_length a', buf')" using take_for_hash_facts f' by fastforce
  have ld: "ap_length a' = length data" using ag by (simp add: agrees_def)
  have "take (length data) buf' = data" if "c"
    using complete_is_data [OF pf(1) ag] that pf(8) ld by simp
  moreover have "agrees data (piece_open index len (num_blocks len)) fresh" if "length data = len \<and> len \<le> length fresh"
    using that in_block(1) [of _ len] by (auto simp: agrees_def piece_open_def Let_def)
  ultimately show ?thesis using f' ag r tk t ld by auto
qed

theorem completed_piece_witness:
  "\<exists>a' buf'. agrees [1, 2, 3] a' buf' \<and> take 3 buf' = [1, 2, 3]"
proof -
  let ?a = "piece_open 0 3 (num_blocks 3)"
  let ?st = "\<lparr>st_slots = [Assembling ?a [0, 0, 0]], st_piece_length = 3, st_max_blocks = num_blocks 3, st_shared = True\<rparr>"
  let ?p = "\<lparr>pp_torrent_id = 0, pp_torrent_name = [], pp_piece_length = 3, pp_limit_bytes = 0, pp_capacity = 2,
      pp_free = [], pp_outstanding = 1, pp_last_full_warn_secs = 0\<rparr>"
  have nb: "num_blocks 3 = 1" by (simp add: num_blocks_def div_ceil_def)
  have 1: "staging_ok ?st" "tracks 0 ?st ?p" "find_assembling (st_slots ?st) 0 = Some (?a, [0, 0, 0])"
    "agrees [1, 2, 3] ?a [0, 0, 0]"
    by (auto simp: staging_ok_def slots_ok_def tracks_def pool_ok_def st_len_def piece_open_def piece_ok_def
        nb agrees_def Let_def)
  have "ingest_if_staged 0 0 [1, 2, 3] ?st = Inr (Some True,
      ?st\<lparr>st_slots := [Assembling (?a\<lparr>ap_have := [True]\<rparr>) [1, 2, 3]]\<rparr>)"
    by (simp add: ingest_if_staged_def piece_open_def piece_ingest_def mark_range_have_def nb Let_def
        div_ceil_def block_len_def is_complete_def)
  from completed_piece_is_the_data [OF 1(1) _ 1(2,3,4) this, of 3 "[]"] show ?thesis by (auto simp: numeral_3_eq_3)
qed

end
