(* ===== verification/Hot.thy ===== *)
theory Hot
  imports Spans Bitfield Piece_Pool "HOL-Library.Product_Lexorder"
begin

text \<open>
  The in-memory torrent, \<open>hot.rs\<close>, \<open>hot/pieces.rs\<close>, \<open>hot/have.rs\<close> and
  \<open>hot/peer_avail.rs\<close>: what it has, wants and is fetching, the counters derived from that, the
  availability of pieces among the connected peers and the piece picker. Every field behind
  a lock or an atomic is a field of one record; an operation is a function on the record.
  The random draws of the picker are an argument.
\<close>

section \<open>State\<close>

record piece_state =
  ps_bitfield :: bytes
  ps_complete :: bool
  ps_have_count :: nat

text \<open>A subscriber of the have hub: whether its receiver lives, and what it was sent.\<close>

record have_sub =
  hs_alive :: bool
  hs_queue :: "nat list"

record hot_torrent =
  ht_id :: int
  ht_infohash :: bytes
  ht_name :: string
  ht_layout :: storage_layout
  ht_piece_count :: nat
  ht_piece_hashes :: bytes
  ht_pieces :: piece_state
  ht_file_priority :: "int list"
  ht_tracker_tiers :: "(int \<times> string list) list"
  ht_tracker_key :: nat
  ht_wanted_bf :: bytes
  ht_download_missing :: nat
  ht_have_count_atomic :: nat
  ht_completed_payload :: nat
  ht_in_flight :: "nat set"
  ht_availability :: "nat list"
  ht_have_hub :: "have_sub list"
  ht_staging_pool :: "piece_pool option"
  ht_staging_mem_limit :: nat

section \<open>The have hub\<close>

definition hub_subscribe :: "have_sub list \<Rightarrow> have_sub list" where
  "hub_subscribe subs = subs @ [\<lparr>hs_alive = True, hs_queue = []\<rparr>]"

text \<open>\<open>retain(|tx| tx.send(index).is_ok())\<close>: dead receivers are pruned.\<close>

definition hub_publish :: "nat \<Rightarrow> have_sub list \<Rightarrow> have_sub list" where
  "hub_publish index subs =
     map (\<lambda>s. s\<lparr>hs_queue := hs_queue s @ [index]\<rparr>) (filter hs_alive subs)"

definition subscribe_have :: "hot_torrent \<Rightarrow> hot_torrent" where
  "subscribe_have t = t\<lparr>ht_have_hub := hub_subscribe (ht_have_hub t)\<rparr>"

section \<open>Possession\<close>

definition has_piece :: "hot_torrent \<Rightarrow> nat \<Rightarrow> bool" where
  "has_piece t index \<longleftrightarrow>
     (if index \<ge> ht_piece_count t then False
      else if ps_complete (ht_pieces t) then True
      else bitfield_get (ps_bitfield (ht_pieces t)) index)"

definition wants_piece :: "hot_torrent \<Rightarrow> nat \<Rightarrow> bool" where
  "wants_piece t index \<longleftrightarrow> index < ht_piece_count t \<and> bitfield_get (ht_wanted_bf t) index"

text \<open>\<open>as u32\<close> on a \<open>u64\<close>.\<close>

definition as_u32 :: "nat \<Rightarrow> nat" where
  "as_u32 n = n mod 2 ^ 32"

definition mark_file :: "storage_layout \<Rightarrow> int list \<Rightarrow> bytes \<Rightarrow> nat \<times> file_layout \<Rightarrow> bytes" where
  "mark_file lay prios bf = (\<lambda>(i, f).
     let plen = piece_length lay;
         last = piece_count lay - 1;
         p = (if i < length prios then prios ! i else fl_priority f)
     in if p \<le> 0 \<or> fl_size f = 0 then bf
        else let start = as_u32 (fl_offset f div plen);
                 end_off = sat_add64 (fl_offset f) (fl_size f) - 1;
                 fin = as_u32 (end_off div plen);
                 start = min start last;
                 fin = min fin last
             in fold (\<lambda>idx b. bitfield_set b idx) [start..<Suc fin] bf)"

definition build_wanted_bitfield :: "storage_layout \<Rightarrow> int list \<Rightarrow> bytes" where
  "build_wanted_bitfield lay prios =
     (let pc = piece_count lay; bf = empty_bitfield pc
      in if pc = 0 \<or> piece_length lay = 0 then bf
         else foldl (mark_file lay prios) bf (enumerate 0 (files lay)))"

definition count_missing :: "bytes \<Rightarrow> bytes \<Rightarrow> nat \<Rightarrow> nat" where
  "count_missing wanted have_bf pc =
     foldl (\<lambda>n i. if bitfield_get wanted i \<and> \<not> bitfield_get have_bf i then n + 1 else n) 0 [0..<pc]"

definition rebuild_wanted_and_missing :: "hot_torrent \<Rightarrow> hot_torrent" where
  "rebuild_wanted_and_missing t =
     (let wanted = build_wanted_bitfield (ht_layout t) (ht_file_priority t)
      in if ps_complete (ht_pieces t)
         then t\<lparr>ht_wanted_bf := wanted, ht_download_missing := 0\<rparr>
         else t\<lparr>ht_wanted_bf := wanted,
                ht_download_missing := count_missing wanted (ps_bitfield (ht_pieces t)) (ht_piece_count t)\<rparr>)"

definition recount_completed_payload :: "hot_torrent \<Rightarrow> hot_torrent" where
  "recount_completed_payload t =
     (if ps_complete (ht_pieces t) then t\<lparr>ht_completed_payload := total_size (ht_layout t)\<rparr>
      else t\<lparr>ht_completed_payload :=
         foldl (\<lambda>n i. if bitfield_get (ps_bitfield (ht_pieces t)) i
                      then n + piece_size_or0 (ht_layout t) i else n) 0 [0..<ht_piece_count t]\<rparr>)"

definition is_download_complete :: "hot_torrent \<Rightarrow> bool" where
  "is_download_complete t \<longleftrightarrow> ht_download_missing t = 0"

definition is_torrent_complete :: "hot_torrent \<Rightarrow> bool" where
  "is_torrent_complete t \<longleftrightarrow> ps_complete (ht_pieces t)"

definition missing_piece_count :: "hot_torrent \<Rightarrow> nat" where
  "missing_piece_count t = ht_download_missing t"

definition should_endgame :: "hot_torrent \<Rightarrow> bool" where
  "should_endgame t \<longleftrightarrow>
     (let missing = missing_piece_count t
      in if missing = 0 then False
         else if missing \<le> 8 then True
         else card (ht_in_flight t) \<ge> missing)"

definition completed_bytes :: "hot_torrent \<Rightarrow> nat" where
  "completed_bytes t = ht_completed_payload t"

definition left_bytes :: "hot_torrent \<Rightarrow> nat" where
  "left_bytes t = total_size (ht_layout t) - completed_bytes t"

definition bitfield_snapshot :: "hot_torrent \<Rightarrow> bytes" where
  "bitfield_snapshot t =
     (if ps_complete (ht_pieces t) then all_set_bitfield (ht_piece_count t) else ps_bitfield (ht_pieces t))"

definition piece_hash :: "hot_torrent \<Rightarrow> nat \<Rightarrow> bytes option" where
  "piece_hash t index =
     (let start = index * 20; fin = start + 20
      in if fin > length (ht_piece_hashes t) then None else Some (slice start fin (ht_piece_hashes t)))"

definition drop_piece_hashes_if_complete :: "hot_torrent \<Rightarrow> hot_torrent" where
  "drop_piece_hashes_if_complete t =
     (if is_torrent_complete t then t\<lparr>ht_piece_hashes := []\<rparr> else t)"

section \<open>The staging pool's life\<close>

definition set_staging_mem_limit :: "nat \<Rightarrow> hot_torrent \<Rightarrow> hot_torrent" where
  "set_staging_mem_limit limit_bytes t =
     t\<lparr>ht_staging_mem_limit := (if limit_bytes = 0 then DEFAULT_STAGING_MEM_LIMIT else limit_bytes)\<rparr>"

definition ensure_staging_pool :: "hot_torrent \<Rightarrow> hot_torrent" where
  "ensure_staging_pool t =
     (if is_download_complete t then t
      else case ht_staging_pool t of
        Some p \<Rightarrow> t
      | None \<Rightarrow> t\<lparr>ht_staging_pool :=
          Some (with_torrent (ht_id t) (ht_name t) (piece_length (ht_layout t)) (ht_staging_mem_limit t))\<rparr>)"

definition release_staging_pool :: "hot_torrent \<Rightarrow> hot_torrent" where
  "release_staging_pool t = t\<lparr>ht_staging_pool := None\<rparr>"

definition staging_fill :: "hot_torrent \<Rightarrow> (nat \<times> nat \<times> nat) option" where
  "staging_fill t =
     (case ht_staging_pool t of None \<Rightarrow> None
      | Some p \<Rightarrow> Some (pp_capacity p - available p, pp_capacity p, pp_limit_bytes p))"

definition set_file_priority :: "nat \<Rightarrow> int \<Rightarrow> hot_torrent \<Rightarrow> hot_torrent" where
  "set_file_priority file_idx priority t =
     (let prios = ht_file_priority t; nf = length (files (ht_layout t));
          prios = (if file_idx < length prios then prios[file_idx := priority]
                   else if file_idx < nf
                   then (take nf prios @ replicate (nf - length prios) 1)[file_idx := priority]
                   else prios);
          t = rebuild_wanted_and_missing (t\<lparr>ht_file_priority := prios\<rparr>)
      in if is_download_complete t then release_staging_pool t else ensure_staging_pool t)"

section \<open>Claims\<close>

definition try_claim_piece :: "nat \<Rightarrow> bool \<Rightarrow> hot_torrent \<Rightarrow> bool \<times> hot_torrent" where
  "try_claim_piece index endgame t =
     (if index \<ge> ht_piece_count t \<or> has_piece t index then (False, t)
      else let t' = t\<lparr>ht_in_flight := insert index (ht_in_flight t)\<rparr>
           in if endgame then (True, t') else (index \<notin> ht_in_flight t, t'))"

definition release_piece_claim :: "nat \<Rightarrow> hot_torrent \<Rightarrow> hot_torrent" where
  "release_piece_claim index t = t\<lparr>ht_in_flight := ht_in_flight t - {index}\<rparr>"

section \<open>A new piece\<close>

definition mark_have :: "nat \<Rightarrow> hot_torrent \<Rightarrow> bool \<times> hot_torrent" where
  "mark_have index t0 =
     (let t = release_piece_claim index t0;
          wanted = wants_piece t index;
          plen = piece_size_or0 (ht_layout t) index;
          st = ht_pieces t
      in if ps_complete st \<or> bitfield_get (ps_bitfield st) index then (ps_complete st, t)
         else
           let st = st\<lparr>ps_bitfield := bitfield_set (ps_bitfield st) index,
                       ps_have_count := ps_have_count st + 1\<rparr>;
               t = t\<lparr>ht_have_count_atomic := ps_have_count st,
                     ht_completed_payload := ht_completed_payload t + plen\<rparr>;
               t = (if wanted then t\<lparr>ht_download_missing := ht_download_missing t - 1\<rparr> else t);
               fully = (ps_have_count st \<ge> ht_piece_count t \<and> ht_piece_count t > 0);
               t = (if fully then
                      t\<lparr>ht_pieces := \<lparr>ps_bitfield = all_set_bitfield (ht_piece_count t), ps_complete = True,
                                      ps_have_count = ht_piece_count t\<rparr>,
                        ht_have_count_atomic := ht_piece_count t,
                        ht_download_missing := 0,
                        ht_completed_payload := total_size (ht_layout t)\<rparr>
                    else t\<lparr>ht_pieces := st\<rparr>);
               t = t\<lparr>ht_have_hub := hub_publish index (ht_have_hub t)\<rparr>;
               t = (if fully then drop_piece_hashes_if_complete t else t);
               t = (if is_download_complete t then release_staging_pool t else t)
           in (fully, t))"

definition next_interest_piece :: "(nat \<Rightarrow> bool) \<Rightarrow> hot_torrent \<Rightarrow> nat option" where
  "next_interest_piece peer_has t =
     (if is_download_complete t then None
      else if ps_complete (ht_pieces t) then None
      else List.find (\<lambda>i. bitfield_get (ht_wanted_bf t) i \<and> \<not> bitfield_get (ps_bitfield (ht_pieces t)) i
                      \<and> peer_has i) [0..<ht_piece_count t])"

section \<open>Availability\<close>

abbreviation u16_max :: nat where "u16_max \<equiv> 65535"

definition availability :: "hot_torrent \<Rightarrow> nat \<Rightarrow> nat" where
  "availability t index =
     (if index < length (ht_availability t) then ht_availability t ! index else 0)"

definition bump :: "nat \<Rightarrow> nat list \<Rightarrow> nat list" where
  "bump i a = (if i < length a then a[i := min (a ! i + 1) u16_max] else a)"

definition unbump :: "nat \<Rightarrow> nat list \<Rightarrow> nat list" where
  "unbump i a = (if i < length a then a[i := a ! i - 1] else a)"

definition avail_inc :: "nat \<Rightarrow> hot_torrent \<Rightarrow> hot_torrent" where
  "avail_inc index t = t\<lparr>ht_availability := bump index (ht_availability t)\<rparr>"

definition avail_dec :: "nat \<Rightarrow> hot_torrent \<Rightarrow> hot_torrent" where
  "avail_dec index t = t\<lparr>ht_availability := unbump index (ht_availability t)\<rparr>"

definition avail_add_bitfield :: "bytes \<Rightarrow> hot_torrent \<Rightarrow> hot_torrent" where
  "avail_add_bitfield bf t =
     (let pc = ht_piece_count t; a = ht_availability t;
          a = (if length a < pc then a @ replicate (pc - length a) 0 else a)
      in t\<lparr>ht_availability := foldl (\<lambda>a i. if bitfield_get bf i then bump i a else a) a [0..<pc]\<rparr>)"

definition avail_sub_bitfield :: "bytes \<Rightarrow> hot_torrent \<Rightarrow> hot_torrent" where
  "avail_sub_bitfield bf t =
     t\<lparr>ht_availability := foldl (\<lambda>a i. if bitfield_get bf i then unbump i a else a)
         (ht_availability t) [0..<ht_piece_count t]\<rparr>"

text \<open>\<open>PeerAvailability\<close> holds one connection's contribution; its torrent is the shared state
  threaded through. \<open>peer_avail_drop\<close> is its \<open>Drop\<close>.\<close>

definition peer_avail_new :: "hot_torrent \<Rightarrow> bytes" where
  "peer_avail_new t = empty_bitfield (ht_piece_count t)"

definition peer_on_bitfield :: "bytes \<Rightarrow> bytes \<Rightarrow> hot_torrent \<Rightarrow> bytes \<times> hot_torrent" where
  "peer_on_bitfield bf own t =
     (let t = avail_sub_bitfield own t;
          n = min (length own) (length bf);
          own = take n bf @ replicate (length own - n) 0
      in (own, avail_add_bitfield own t))"

definition peer_on_have :: "nat \<Rightarrow> bytes \<Rightarrow> hot_torrent \<Rightarrow> bytes \<times> hot_torrent" where
  "peer_on_have index own t =
     (if index \<ge> ht_piece_count t \<or> bitfield_get own index then (own, t)
      else (bitfield_set own index, avail_inc index t))"

definition peer_avail_drop :: "bytes \<Rightarrow> hot_torrent \<Rightarrow> hot_torrent" where
  "peer_avail_drop own t = avail_sub_bitfield own t"

section \<open>Construction\<close>

definition finish_new :: "hot_torrent \<Rightarrow> hot_torrent" where
  "finish_new t = recount_completed_payload (rebuild_wanted_and_missing t)"

text \<open>\<open>key\<close> is the random tracker key.\<close>

definition new_complete :: "int \<Rightarrow> bytes \<Rightarrow> string \<Rightarrow> storage_layout \<Rightarrow> bytes \<Rightarrow> nat \<Rightarrow> hot_torrent" where
  "new_complete tid infohash nm lay hashes key =
     finish_new
       \<lparr>ht_id = tid, ht_infohash = infohash, ht_name = nm, ht_layout = lay, ht_piece_count = piece_count lay,
        ht_piece_hashes = (if length hashes = piece_count lay * 20 then hashes else []),
        ht_pieces = \<lparr>ps_bitfield = all_set_bitfield (piece_count lay), ps_complete = True,
                     ps_have_count = piece_count lay\<rparr>,
        ht_file_priority = map fl_priority (files lay), ht_tracker_tiers = [], ht_tracker_key = key,
        ht_wanted_bf = empty_bitfield (piece_count lay), ht_download_missing = 0,
        ht_have_count_atomic = piece_count lay, ht_completed_payload = 0, ht_in_flight = {},
        ht_availability = replicate (piece_count lay) 0, ht_have_hub = [], ht_staging_pool = None,
        ht_staging_mem_limit = DEFAULT_STAGING_MEM_LIMIT\<rparr>"

definition new_empty :: "int \<Rightarrow> bytes \<Rightarrow> string \<Rightarrow> storage_layout \<Rightarrow> bytes \<Rightarrow> nat \<Rightarrow> hot_torrent" where
  "new_empty tid infohash nm lay hashes key =
     finish_new
       \<lparr>ht_id = tid, ht_infohash = infohash, ht_name = nm, ht_layout = lay, ht_piece_count = piece_count lay,
        ht_piece_hashes = hashes,
        ht_pieces = \<lparr>ps_bitfield = empty_bitfield (piece_count lay), ps_complete = False, ps_have_count = 0\<rparr>,
        ht_file_priority = map fl_priority (files lay), ht_tracker_tiers = [], ht_tracker_key = key,
        ht_wanted_bf = empty_bitfield (piece_count lay), ht_download_missing = 0,
        ht_have_count_atomic = 0, ht_completed_payload = 0, ht_in_flight = {},
        ht_availability = replicate (piece_count lay) 0, ht_have_hub = [], ht_staging_pool = None,
        ht_staging_mem_limit = DEFAULT_STAGING_MEM_LIMIT\<rparr>"

definition set_data_root_live :: "fs_path \<Rightarrow> hot_torrent \<Rightarrow> fs_path \<times> hot_torrent" where
  "set_data_root_live new_root t =
     (let old = data_root (ht_layout t)
      in if old = new_root then (old, t)
         else (old, t\<lparr>ht_layout := (ht_layout t)\<lparr>data_root := new_root\<rparr>\<rparr>))"

section \<open>The piece picker\<close>

text \<open>\<open>draw k\<close> is the \<open>k\<close>-th random number drawn; \<open>try_claim\<close> carries the state of the
  caller's closure.\<close>

record pick_view =
  pv_pc :: nat
  pv_complete :: bool
  pv_have_n :: nat
  pv_have_bf :: bytes
  pv_wanted :: bytes
  pv_avail :: "nat list"
  pv_missing_n :: nat
  pv_inflight :: "nat set"

definition pick_snapshot :: "hot_torrent \<Rightarrow> pick_view" where
  "pick_snapshot t =
     \<lparr>pv_pc = ht_piece_count t, pv_complete = ps_complete (ht_pieces t),
      pv_have_n = ps_have_count (ht_pieces t), pv_have_bf = ps_bitfield (ht_pieces t),
      pv_wanted = ht_wanted_bf t, pv_avail = ht_availability t,
      pv_missing_n = (if ps_complete (ht_pieces t) then 0 else ht_download_missing t),
      pv_inflight = ht_in_flight t\<rparr>"

definition eligible ::
  "pick_view \<Rightarrow> bytes \<Rightarrow> (nat \<Rightarrow> bool) \<Rightarrow> (nat \<Rightarrow> bool) \<Rightarrow> (nat \<Rightarrow> bool) \<Rightarrow> bool \<Rightarrow> nat \<Rightarrow> bool" where
  "eligible v peer_bf in_staging is_hashing piece_ok endgame i =
     (if i \<ge> pv_pc v \<or> is_hashing i \<or> in_staging i \<or> \<not> piece_ok i then False
      else if pv_complete v then False
      else if bitfield_get (pv_have_bf v) i then False
      else if \<not> bitfield_get (pv_wanted v) i then False
      else if \<not> endgame \<and> i \<in> pv_inflight v then False
      else bitfield_get peer_bf i)"

definition rarity :: "pick_view \<Rightarrow> nat \<Rightarrow> nat" where
  "rarity v i = (if i < length (pv_avail v) then pv_avail v ! i else 0)"

abbreviation PICK_SAMPLE_ATTEMPTS :: nat where "PICK_SAMPLE_ATTEMPTS \<equiv> 256"
abbreviation PICK_CANDIDATE_CAP :: nat where "PICK_CANDIDATE_CAP \<equiv> 32"
abbreviation INITIAL_RANDOM_PIECES :: nat where "INITIAL_RANDOM_PIECES \<equiv> 4"
abbreviation INITIAL_RANDOM_MIN_PC :: nat where "INITIAL_RANDOM_MIN_PC \<equiv> 16"

text \<open>The exact pass over all pieces from a starting index, capped.\<close>

fun exact_walk :: "(nat \<Rightarrow> bool) \<Rightarrow> pick_view \<Rightarrow> nat \<Rightarrow> nat list \<Rightarrow> (nat \<times> nat) list \<Rightarrow> (nat \<times> nat) list" where
  "exact_walk elig v start [] cand = cand"
| "exact_walk elig v start (off # offs) cand =
     (if length cand \<ge> PICK_CANDIDATE_CAP then cand
      else let i = (start + off) mod pv_pc v
           in exact_walk elig v start offs (if elig i then cand @ [(i, rarity v i)] else cand))"

text \<open>The bounded random sample; returns the candidates and the next draw.\<close>

fun sample_walk :: "(nat \<Rightarrow> bool) \<Rightarrow> pick_view \<Rightarrow> (nat \<Rightarrow> nat) \<Rightarrow> nat \<Rightarrow> nat \<Rightarrow> (nat \<times> nat) list \<Rightarrow> (nat \<times> nat) list \<times> nat" where
  "sample_walk elig v draw 0 k cand = (cand, k)"
| "sample_walk elig v draw (Suc n) k cand =
     (if length cand \<ge> PICK_CANDIDATE_CAP then (cand, k)
      else let i = draw k
           in sample_walk elig v draw n (Suc k)
                (if elig i \<and> \<not> list_ex (\<lambda>(j, _). j = i) cand then cand @ [(i, rarity v i)] else cand))"

definition random_start :: "pick_view \<Rightarrow> (nat \<Rightarrow> nat) \<Rightarrow> nat \<Rightarrow> nat \<times> nat" where
  "random_start v draw k = (if pv_pc v > 1 then (draw k, Suc k) else (0, k))"

definition exact_pass :: "(nat \<Rightarrow> bool) \<Rightarrow> pick_view \<Rightarrow> (nat \<Rightarrow> nat) \<Rightarrow> nat \<Rightarrow> (nat \<times> nat) list \<times> nat" where
  "exact_pass elig v draw k =
     (let (start, k) = random_start v draw k in (exact_walk elig v start [0..<pv_pc v] [], k))"

fun try_from ::
  "storage_layout \<Rightarrow> (nat \<Rightarrow> 'x \<Rightarrow> bool \<times> 'x) \<Rightarrow> (nat \<times> nat) list \<Rightarrow> 'x \<Rightarrow> ((nat \<times> nat) option) option \<times> 'x" where
  "try_from lay try_claim [] x = (None, x)"
| "try_from lay try_claim ((i, r) # cand) x =
     (case try_claim i x of
        (False, x) \<Rightarrow> try_from lay try_claim cand x
      | (True, x) \<Rightarrow>
          (case piece_size lay i of Inl _ \<Rightarrow> (Some None, x) | Inr plen \<Rightarrow> (Some (Some (i, plen)), x)))"

definition order_candidates :: "pick_view \<Rightarrow> bool \<Rightarrow> bool \<Rightarrow> (nat \<times> nat) list \<Rightarrow> (nat \<times> nat) list" where
  "order_candidates v endgame random_first cand =
     (if endgame then sort_key (\<lambda>(i, r). (i \<notin> pv_inflight v, r)) cand
      else if \<not> random_first then sort_key snd cand
      else cand)"

text \<open>\<open>try_from\<close> returns \<open>None\<close> both when no claim succeeds and when the claimed piece has no
  size; in the code both fall through \<open>if let Some(hit)\<close>, as here.\<close>

definition pick_rarest_piece ::
  "hot_torrent \<Rightarrow> bytes \<Rightarrow> (nat \<Rightarrow> bool) \<Rightarrow> (nat \<Rightarrow> bool) \<Rightarrow> (nat \<Rightarrow> 'x \<Rightarrow> bool \<times> 'x) \<Rightarrow> (nat \<Rightarrow> bool)
     \<Rightarrow> bool \<Rightarrow> (nat \<Rightarrow> nat) \<Rightarrow> 'x \<Rightarrow> (nat \<times> nat) option \<times> 'x" where
  "pick_rarest_piece t peer_bf in_staging is_hashing try_claim piece_ok endgame draw x =
     (let v = pick_snapshot t; pc = pv_pc v
      in if pc = 0 then (None, x)
         else
           let elig = eligible v peer_bf in_staging is_hashing piece_ok endgame;
               (cand, k) = (if pc \<le> PICK_SAMPLE_ATTEMPTS then exact_pass elig v draw 0
                            else sample_walk elig v draw PICK_SAMPLE_ATTEMPTS 0 []);
               exact = (cand = [] \<or> pv_missing_n v \<le> PICK_CANDIDATE_CAP);
               (cand, k) = (if exact then exact_pass elig v draw k else (cand, k));
               random_first = (\<not> endgame \<and> pv_have_n v < INITIAL_RANDOM_PIECES
                 \<and> pc \<ge> INITIAL_RANDOM_MIN_PC \<and> pv_missing_n v > PICK_CANDIDATE_CAP);
               cand = order_candidates v endgame random_first cand
           in case try_from (ht_layout t) try_claim cand x of
                (Some (Some hit), x) \<Rightarrow> (Some hit, x)
              | (_, x) \<Rightarrow>
                  if \<not> exact then
                    let (cand, k) = exact_pass elig v draw k;
                        cand = (if \<not> random_first then sort_key snd cand else cand)
                    in case try_from (ht_layout t) try_claim cand x of
                         (Some (Some hit), x) \<Rightarrow> (Some hit, x)
                       | (_, x) \<Rightarrow> (None, x)
                  else (None, x))"

end
