(* ===== verification/Hot_Correct.thy ===== *)
theory Hot_Correct
  imports Hot
begin

text \<open>
  The in-memory torrent is consistent: every derived counter equals what it stands for,
  after any sequence of operations, and the wanted pieces are exactly those that overlap a
  file the user wants.
\<close>

section \<open>The sets behind the bitfields\<close>

definition have_set :: "hot_torrent \<Rightarrow> nat set" where
  "have_set t = bf.members (ps_bitfield (ht_pieces t)) (ht_piece_count t)"

definition wanted_set :: "hot_torrent \<Rightarrow> nat set" where
  "wanted_set t = bf.members (ht_wanted_bf t) (ht_piece_count t)"

lemma count_missing_card:
  "count_missing wanted have_bf pc = card (bf.members wanted pc - bf.members have_bf pc)"
proof -
  have "{i. i < pc \<and> (bitfield_get wanted i \<and> \<not> bitfield_get have_bf i)}
      = bf.members wanted pc - bf.members have_bf pc"
    by (auto simp: bf.members_def)
  then show ?thesis
    using foldl_count_card [of "\<lambda>i. bitfield_get wanted i \<and> \<not> bitfield_get have_bf i" 0 pc]
    by (simp add: count_missing_def)
qed

lemma foldl_sum:
  "foldl (\<lambda>n i. if P i then n + f i else n) (c :: nat) [0..<m] = c + (\<Sum>i \<in> {i. i < m \<and> P i}. f i)"
proof (induction m)
  case (Suc m)
  have "{i. i < Suc m \<and> P i} = (if P m then insert m {i. i < m \<and> P i} else {i. i < m \<and> P i})"
    by (auto simp: less_Suc_eq)
  with Suc show ?case by auto
qed simp

section \<open>Wanted pieces\<close>

definition wanted_range :: "storage_layout \<Rightarrow> int list \<Rightarrow> nat \<times> file_layout \<Rightarrow> nat set" where
  "wanted_range lay prios = (\<lambda>(i, f).
     if (if i < length prios then prios ! i else fl_priority f) \<le> 0 \<or> fl_size f = 0 then {}
     else {fl_offset f div piece_length lay .. (fl_offset f + fl_size f - 1) div piece_length lay})"

lemma contiguous_bounds:
  "contiguous off fs \<Longrightarrow> f \<in> set fs \<Longrightarrow> off \<le> fl_offset f \<and> fl_offset f + fl_size f \<le> off + sum_list (map fl_size fs)"
  by (induction off fs rule: contiguous.induct) force+

lemma fold_bitfield_set:
  assumes "bf_fits bits pc" "set is \<subseteq> {..<pc}"
  shows "bf.members (fold (\<lambda>i b. bitfield_set b i) is bits) pc = bf.members bits pc \<union> set is"
    "bf_fits (fold (\<lambda>i b. bitfield_set b i) is bits) pc"
  using assms bf.get_fold [OF assms] bf.fits_fold [OF assms(1)] by (auto simp: bf.members_def)

lemma length_fold_set: "length (fold (\<lambda>i b. bitfield_set b i) is bits) = length bits"
  by (induction "is" arbitrary: bits) auto

definition small_layout :: "storage_layout \<Rightarrow> bool" where
  "small_layout lay \<longleftrightarrow> layout_ok lay \<and> piece_count lay < 2 ^ 32"

lemma file_range:
  assumes "small_layout lay" "f \<in> set (files lay)" "0 < fl_size f"
  shows "fl_offset f div piece_length lay \<le> (fl_offset f + fl_size f - 1) div piece_length lay"
    "(fl_offset f + fl_size f - 1) div piece_length lay < piece_count lay"
    "fl_offset f + fl_size f \<le> u64_max"
proof -
  have lay: "layout_ok lay" using assms(1) by (simp add: small_layout_def)
  then have tot: "fl_offset f + fl_size f \<le> total_size lay" "total_size lay \<le> u64_max" "0 < piece_length lay"
    using contiguous_bounds [of 0 "files lay" f] assms(2) by (auto simp: layout_ok_def)
  then show "fl_offset f + fl_size f \<le> u64_max" by linarith
  show "fl_offset f div piece_length lay \<le> (fl_offset f + fl_size f - 1) div piece_length lay"
    using assms(3) by (intro div_le_mono) simp
  have "fl_offset f + fl_size f - 1 < total_size lay" using tot assms(3) by linarith
  also have "\<dots> \<le> piece_count lay * piece_length lay"
    using lay div_ceil_mult_ge [of "piece_length lay" "total_size lay"] by (simp add: layout_ok_def)
  finally show "(fl_offset f + fl_size f - 1) div piece_length lay < piece_count lay"
    by (simp add: less_mult_imp_div_less)
qed

lemma mark_file_members:
  assumes lay: "small_layout lay" and f: "f \<in> set (files lay)" and fit: "bf_fits bits (piece_count lay)"
  shows "bf.members (mark_file lay prios bits (i, f)) (piece_count lay)
       = bf.members bits (piece_count lay) \<union> wanted_range lay prios (i, f)"
    and "bf_fits (mark_file lay prios bits (i, f)) (piece_count lay)"
    and "length (mark_file lay prios bits (i, f)) = length bits"
proof -
  let ?p = "if i < length prios then prios ! i else fl_priority f"
  let ?a = "fl_offset f div piece_length lay" and ?b = "(fl_offset f + fl_size f - 1) div piece_length lay"
  have "bf.members (mark_file lay prios bits (i, f)) (piece_count lay)
       = bf.members bits (piece_count lay) \<union> wanted_range lay prios (i, f)
     \<and> bf_fits (mark_file lay prios bits (i, f)) (piece_count lay)
     \<and> length (mark_file lay prios bits (i, f)) = length bits"
  proof (cases "?p \<le> 0 \<or> fl_size f = 0")
    case True
    then show ?thesis using fit by (auto simp: mark_file_def wanted_range_def Let_def)
  next
    case False
    then have r: "?a \<le> ?b" "?b < piece_count lay" "fl_offset f + fl_size f \<le> u64_max"
      using file_range [OF lay f] by auto
    then have u: "as_u32 ?a = ?a" "as_u32 ?b = ?b" "sat_add64 (fl_offset f) (fl_size f) = fl_offset f + fl_size f"
      using lay by (auto simp: as_u32_def small_layout_def)
    have m: "min ?a (piece_count lay - 1) = ?a" "min ?b (piece_count lay - 1) = ?b" using r by auto
    have lo: "min (as_u32 ?a) (piece_count lay - 1) = ?a" unfolding u(1) by (rule m(1))
    have hi: "min (as_u32 ((sat_add64 (fl_offset f) (fl_size f) - 1) div piece_length lay)) (piece_count lay - 1) = ?b"
      unfolding u(3) u(2) by (rule m(2))
    have "mark_file lay prios bits (i, f) = (if ?p \<le> 0 \<or> fl_size f = 0 then bits
        else fold (\<lambda>idx b. bitfield_set b idx) [min (as_u32 ?a) (piece_count lay - 1)..<
          Suc (min (as_u32 ((sat_add64 (fl_offset f) (fl_size f) - 1) div piece_length lay)) (piece_count lay - 1))] bits)"
      unfolding mark_file_def Let_def prod.case by (rule refl)
    then have e: "mark_file lay prios bits (i, f) = fold (\<lambda>idx b. bitfield_set b idx) [?a..<Suc ?b] bits"
      unfolding lo hi if_not_P [OF False] .
    have "set [?a..<Suc ?b] \<subseteq> {..<piece_count lay}" using r by auto
    note fold_bitfield_set [OF fit this]
    moreover have "wanted_range lay prios (i, f) = set [?a..<Suc ?b]"
      unfolding wanted_range_def prod.case if_not_P [OF False] by (simp add: atLeastLessThanSuc_atLeastAtMost del: upt_Suc)
    ultimately show ?thesis
      unfolding e by (simp only: length_fold_set simp_thms)
  qed
  then show "bf.members (mark_file lay prios bits (i, f)) (piece_count lay)
       = bf.members bits (piece_count lay) \<union> wanted_range lay prios (i, f)"
    "bf_fits (mark_file lay prios bits (i, f)) (piece_count lay)"
    "length (mark_file lay prios bits (i, f)) = length bits" by blast+
qed

lemma build_wanted_members:
  assumes lay: "small_layout lay"
  shows "bf.members (build_wanted_bitfield lay prios) (piece_count lay)
       = (\<Union>e \<in> set (enumerate 0 (files lay)). wanted_range lay prios e)"
    and "length (build_wanted_bitfield lay prios) = bitfield_size_bytes (piece_count lay)"
proof -
  have gen: "set (map snd es) \<subseteq> set (files lay) \<Longrightarrow> bf_fits bits (piece_count lay) \<Longrightarrow>
     bf.members (foldl (mark_file lay prios) bits es) (piece_count lay)
       = bf.members bits (piece_count lay) \<union> (\<Union>e \<in> set es. wanted_range lay prios e)
     \<and> length (foldl (mark_file lay prios) bits es) = length bits" for es bits
  proof (induction es arbitrary: bits)
    case (Cons e es)
    obtain i f where e: "e = (i, f)" by (cases e)
    with Cons mark_file_members [OF lay, of f bits prios i] show ?case by auto
  qed simp
  have pl: "0 < piece_length lay" using lay by (simp add: small_layout_def layout_ok_def)
  have sn: "set (map snd (enumerate 0 (files lay))) \<subseteq> set (files lay)"
    by (auto simp: in_set_enumerate_eq)
  show "bf.members (build_wanted_bitfield lay prios) (piece_count lay)
       = (\<Union>e \<in> set (enumerate 0 (files lay)). wanted_range lay prios e)"
  proof (cases "piece_count lay = 0")
    case True
    have "wanted_range lay prios e = {}" if "e \<in> set (enumerate 0 (files lay))" for e
    proof -
      obtain i f where e: "e = (i, f)" by (cases e)
      with that sn have "f \<in> set (files lay)" by (metis image_eqI set_map snd_conv subsetD)
      with e file_range(2) [OF lay, of f] True show ?thesis
        by (cases "fl_size f = 0") (simp_all add: wanted_range_def)
    qed
    with True show ?thesis by (simp add: build_wanted_bitfield_def Let_def bf.members_def)
  qed (use gen [OF sn bf_fits_empty] pl in \<open>simp add: build_wanted_bitfield_def Let_def\<close>)
  show "length (build_wanted_bitfield lay prios) = bitfield_size_bytes (piece_count lay)"
    using gen [OF sn bf_fits_empty] pl by (simp add: build_wanted_bitfield_def Let_def)
qed

text \<open>Byte ranges \<open>[a, a + s)\<close> and \<open>[i * n, (i + 1) * n)\<close> overlap.\<close>

definition overlaps :: "storage_layout \<Rightarrow> nat \<Rightarrow> file_layout \<Rightarrow> bool" where
  "overlaps lay i f \<longleftrightarrow> (\<exists>k. fl_offset f \<le> k \<and> k < fl_offset f + fl_size f \<and> k div piece_length lay = i)"

lemma div_range_iff:
  assumes "0 < (n :: nat)" "0 < s"
  shows "i \<in> {a div n .. (a + s - 1) div n} \<longleftrightarrow> (\<exists>k. a \<le> k \<and> k < a + s \<and> k div n = i)"
proof
  assume i: "i \<in> {a div n .. (a + s - 1) div n}"
  show "\<exists>k. a \<le> k \<and> k < a + s \<and> k div n = i"
  proof (cases "i = a div n")
    case True
    then show ?thesis using assms(2) by (intro exI [of _ a]) simp
  next
    case False
    with i have "a div n < i" by simp
    then have "a < i * n" using assms(1) by (simp add: div_less_iff_less_mult)
    moreover have "i * n \<le> a + s - 1"
      using i by (metis atLeastAtMost_iff div_times_less_eq_dividend le_trans mult_le_mono1)
    ultimately show ?thesis using assms by (intro exI [of _ "i * n"]) auto
  qed
next
  assume "\<exists>k. a \<le> k \<and> k < a + s \<and> k div n = i"
  then obtain k where "a \<le> k" "k \<le> a + s - 1" "k div n = i" by auto
  then show "i \<in> {a div n .. (a + s - 1) div n}" by (auto intro: div_le_mono)
qed

text \<open>The priority in force for the file with index \<open>i\<close>.\<close>

definition effective_priority :: "int list \<Rightarrow> nat \<times> file_layout \<Rightarrow> int" where
  "effective_priority prios = (\<lambda>(i, f). if i < length prios then prios ! i else fl_priority f)"

lemma wanted_range_overlaps:
  assumes "0 < piece_length lay"
  shows "i \<in> wanted_range lay prios e \<longleftrightarrow> 0 < effective_priority prios e \<and> overlaps lay i (snd e)"
proof (cases e)
  case (Pair j f)
  show ?thesis
  proof (cases "fl_size f = 0")
    case False
    then show ?thesis
      using Pair div_range_iff [OF assms, of "fl_size f" i "fl_offset f"]
      by (auto simp: wanted_range_def effective_priority_def overlaps_def)
  qed (use Pair in \<open>auto simp: wanted_range_def overlaps_def\<close>)
qed

lemma ex_enumerate:
  "(\<exists>e \<in> set (enumerate 0 xs). P e) \<longleftrightarrow> (\<exists>k < length xs. P (k, xs ! k))"
  by (auto simp: in_set_enumerate_eq Bex_def)

text \<open>C11. The wanted bitfield against its definition. The code marks, file by file, a range of piece
  numbers computed with \<open>u32\<close> casts, saturating additions and clamps; the specification is: a
  piece is wanted exactly when some byte of it belongs to a file whose priority is positive.
  For every layout whose files are laid end to end and with fewer than \<open>2^32\<close> pieces the two
  agree on every piece, and the bitfield has exactly the wire's length.\<close>

theorem wanted_bitfield_spec:
  assumes "small_layout lay" "i < piece_count lay"
  shows "bitfield_get (build_wanted_bitfield lay prios) i
      = (\<exists>k < length (files lay). 0 < effective_priority prios (k, files lay ! k)
           \<and> overlaps lay i (files lay ! k))
    \<and> length (build_wanted_bitfield lay prios) = bitfield_size_bytes (piece_count lay)"
proof -
  have pl: "0 < piece_length lay" using assms(1) by (simp add: small_layout_def layout_ok_def)
  have "bitfield_get (build_wanted_bitfield lay prios) i
      \<longleftrightarrow> i \<in> bf.members (build_wanted_bitfield lay prios) (piece_count lay)"
    using assms(2) by (simp add: bf.members_def)
  also have "\<dots> \<longleftrightarrow> (\<exists>e \<in> set (enumerate 0 (files lay)). i \<in> wanted_range lay prios e)"
    by (simp add: build_wanted_members(1) [OF assms(1)])
  also have "\<dots> \<longleftrightarrow> (\<exists>k < length (files lay). 0 < effective_priority prios (k, files lay ! k)
           \<and> overlaps lay i (files lay ! k))"
    by (simp add: ex_enumerate wanted_range_overlaps [OF pl])
  finally show ?thesis using build_wanted_members(2) [OF assms(1)] by simp
qed

lemma test_layout_small: "small_layout test_layout"
  using test_layout_ok by (simp add: small_layout_def test_layout_def)

theorem wanted_bitfield_witness:
  "bitfield_get (build_wanted_bitfield test_layout [0, 1]) 0"
proof -
  have "overlaps test_layout 0 (files test_layout ! 1)"
    unfolding overlaps_def by (intro exI [of _ 3]) (simp add: test_layout_def Let_def)
  moreover have "0 < effective_priority [0, 1] (1, files test_layout ! 1)" "1 < length (files test_layout)"
    "0 < piece_count test_layout"
    by (simp_all add: effective_priority_def test_layout_def Let_def)
  ultimately show ?thesis
    using wanted_bitfield_spec [OF test_layout_small, of 0 "[0, 1]"] by blast
qed

end
