(* ===== verification/Hot_Invariant.thy ===== *)
theory Hot_Invariant
  imports Hot_Correct
begin

text \<open>
  The counters of the in-memory torrent through any sequence of events: pieces arriving,
  claims, priority changes, subscribers coming and going, and the staging pool's life.
\<close>

section \<open>Events\<close>

datatype hot_event =
    Ev_have nat
  | Ev_claim nat bool
  | Ev_release nat
  | Ev_priority nat int
  | Ev_subscribe
  | Ev_unsubscribe nat
  | Ev_ensure_pool
  | Ev_release_pool
  | Ev_mem_limit nat
  | Ev_data_root fs_path
  | Ev_avail_inc nat
  | Ev_avail_dec nat
  | Ev_avail_add bytes
  | Ev_avail_sub bytes

fun hot_apply :: "hot_event \<Rightarrow> hot_torrent \<Rightarrow> hot_torrent" where
  "hot_apply (Ev_have i) t = snd (mark_have i t)"
| "hot_apply (Ev_claim i endgame) t = snd (try_claim_piece i endgame t)"
| "hot_apply (Ev_release i) t = release_piece_claim i t"
| "hot_apply (Ev_priority i p) t = set_file_priority i p t"
| "hot_apply Ev_subscribe t = subscribe_have t"
| "hot_apply (Ev_unsubscribe k) t =
     t\<lparr>ht_have_hub := (if k < length (ht_have_hub t)
        then (ht_have_hub t)[k := (ht_have_hub t ! k)\<lparr>hs_alive := False\<rparr>] else ht_have_hub t)\<rparr>"
| "hot_apply Ev_ensure_pool t = ensure_staging_pool t"
| "hot_apply Ev_release_pool t = release_staging_pool t"
| "hot_apply (Ev_mem_limit n) t = set_staging_mem_limit n t"
| "hot_apply (Ev_data_root p) t = snd (set_data_root_live p t)"
| "hot_apply (Ev_avail_inc i) t = avail_inc i t"
| "hot_apply (Ev_avail_dec i) t = avail_dec i t"
| "hot_apply (Ev_avail_add bf) t = avail_add_bitfield bf t"
| "hot_apply (Ev_avail_sub bf) t = avail_sub_bitfield bf t"

text \<open>The code calls \<open>mark_have\<close> with a piece number it has checked.\<close>

fun event_ok :: "storage_layout \<Rightarrow> hot_event \<Rightarrow> bool" where
  "event_ok lay (Ev_have i) = (i < piece_count lay)"
| "event_ok lay _ = True"

section \<open>The invariant\<close>

definition payload_of :: "storage_layout \<Rightarrow> nat set \<Rightarrow> nat" where
  "payload_of lay S = (\<Sum>i \<in> S. piece_size_or0 lay i)"

definition counters_ok :: "hot_torrent \<Rightarrow> bool" where
  "counters_ok t \<longleftrightarrow>
     ps_have_count (ht_pieces t) = card (have_set t) \<and> ht_have_count_atomic t = card (have_set t)
     \<and> ht_download_missing t = card (wanted_set t - have_set t)
     \<and> ht_completed_payload t = payload_of (ht_layout t) (have_set t)"

definition complete_ok :: "hot_torrent \<Rightarrow> bool" where
  "complete_ok t \<longleftrightarrow>
     (ps_complete (ht_pieces t) \<longrightarrow> have_set t = {..<ht_piece_count t})
     \<and> (have_set t = {..<ht_piece_count t} \<and> 0 < ht_piece_count t \<longrightarrow> ps_complete (ht_pieces t))"

definition claims_ok :: "hot_torrent \<Rightarrow> bool" where
  "claims_ok t \<longleftrightarrow> ht_in_flight t \<subseteq> {..<ht_piece_count t} - have_set t"

definition hub_ok :: "hot_torrent \<Rightarrow> bool" where
  "hub_ok t \<longleftrightarrow> (\<forall>s \<in> set (ht_have_hub t). distinct (hs_queue s) \<and> set (hs_queue s) \<subseteq> have_set t)"

definition shape_ok :: "hot_torrent \<Rightarrow> bool" where
  "shape_ok t \<longleftrightarrow> small_layout (ht_layout t) \<and> piece_count (ht_layout t) = ht_piece_count t
     \<and> bf_fits (ps_bitfield (ht_pieces t)) (ht_piece_count t)
     \<and> ht_wanted_bf t = build_wanted_bitfield (ht_layout t) (ht_file_priority t)"

definition staging_released :: "hot_torrent \<Rightarrow> bool" where
  "staging_released t \<longleftrightarrow> (ht_download_missing t = 0 \<longrightarrow> ht_staging_pool t = None)"

definition hot_ok :: "hot_torrent \<Rightarrow> bool" where
  "hot_ok t \<longleftrightarrow> shape_ok t \<and> counters_ok t \<and> complete_ok t \<and> claims_ok t \<and> hub_ok t \<and> staging_released t"

lemmas hot_ok_defs = hot_ok_def shape_ok_def counters_ok_def complete_ok_def claims_ok_def hub_ok_def
  staging_released_def

lemma have_set_finite [simp]: "finite (have_set t)" "finite (wanted_set t)"
  by (simp_all add: have_set_def wanted_set_def)

lemma have_set_below: "have_set t \<subseteq> {..<ht_piece_count t}" "wanted_set t \<subseteq> {..<ht_piece_count t}"
  by (auto simp: have_set_def wanted_set_def bf.members_def)

lemma has_piece_have_set: "complete_ok t \<Longrightarrow> has_piece t i \<longleftrightarrow> i \<in> have_set t"
proof (cases "ps_complete (ht_pieces t)")
  case True
  moreover assume "complete_ok t"
  ultimately have "have_set t = {..<ht_piece_count t}" by (simp add: complete_ok_def)
  with True show ?thesis by (simp only: has_piece_def lessThan_iff) auto
qed (auto simp: has_piece_def have_set_def bf.members_def)

lemma wants_piece_wanted_set: "wants_piece t i \<longleftrightarrow> i \<in> wanted_set t"
  by (auto simp: wants_piece_def wanted_set_def bf.members_def)

lemma payload_all: "layout_ok lay \<Longrightarrow> payload_of lay {..<piece_count lay} = total_size lay"
  by (simp add: payload_of_def sum_piece_sizes)

lemma payload_insert: "finite S \<Longrightarrow> i \<notin> S \<Longrightarrow> payload_of lay (insert i S) = payload_of lay S + piece_size_or0 lay i"
  by (simp add: payload_of_def)

lemma piece_size_root [simp]: "piece_size_or0 (lay\<lparr>data_root := r\<rparr>) i = piece_size_or0 lay i"
  by (simp add: piece_size_or0_def piece_size_def Let_def)

lemma payload_root [simp]: "payload_of (lay\<lparr>data_root := r\<rparr>) S = payload_of lay S"
  by (simp add: payload_of_def)

lemma small_root [simp]: "small_layout (lay\<lparr>data_root := r\<rparr>) = small_layout lay"
  by (simp add: small_layout_def layout_ok_def)

lemma wanted_root [simp]: "build_wanted_bitfield (lay\<lparr>data_root := r\<rparr>) prios = build_wanted_bitfield lay prios"
proof -
  have "mark_file (lay\<lparr>data_root := r\<rparr>) prios = mark_file lay prios"
    by (intro ext) (simp add: mark_file_def Let_def)
  then show ?thesis by (simp add: build_wanted_bitfield_def Let_def)
qed

lemma foldl_payload:
  "foldl (\<lambda>n i. if bitfield_get bf i then n + piece_size_or0 lay i else n) 0 [0..<pc]
     = payload_of lay (bf.members bf pc)"
  using foldl_sum [of "bitfield_get bf" "piece_size_or0 lay" 0 pc]
  by (simp add: payload_of_def bf.members_def)

section \<open>Every operation keeps it\<close>

definition new_piece_state :: "nat \<Rightarrow> hot_torrent \<Rightarrow> bool \<Rightarrow> piece_state" where
  "new_piece_state i t fully =
     (if fully then \<lparr>ps_bitfield = all_set_bitfield (ht_piece_count t), ps_complete = True,
                     ps_have_count = ht_piece_count t\<rparr>
      else (ht_pieces t)\<lparr>ps_bitfield := bitfield_set (ps_bitfield (ht_pieces t)) i,
                         ps_have_count := ps_have_count (ht_pieces t) + 1\<rparr>)"

definition new_missing :: "nat \<Rightarrow> hot_torrent \<Rightarrow> bool \<Rightarrow> nat" where
  "new_missing i t fully =
     (if fully then 0 else if wants_piece t i then ht_download_missing t - 1 else ht_download_missing t)"

lemma mark_have_new:
  assumes "\<not> ps_complete (ht_pieces t)" "\<not> bitfield_get (ps_bitfield (ht_pieces t)) i"
  defines "fully \<equiv> ps_have_count (ht_pieces t) + 1 \<ge> ht_piece_count t \<and> ht_piece_count t > 0"
  shows "mark_have i t = (fully,
    t\<lparr>ht_in_flight := ht_in_flight t - {i},
      ht_pieces := new_piece_state i t fully,
      ht_have_count_atomic := (if fully then ht_piece_count t else ps_have_count (ht_pieces t) + 1),
      ht_completed_payload := (if fully then total_size (ht_layout t)
         else ht_completed_payload t + piece_size_or0 (ht_layout t) i),
      ht_download_missing := new_missing i t fully,
      ht_have_hub := hub_publish i (ht_have_hub t),
      ht_piece_hashes := (if fully then [] else ht_piece_hashes t),
      ht_staging_pool := (if new_missing i t fully = 0 then None else ht_staging_pool t)\<rparr>)"
proof (cases fully)
  case True
  then have "ht_piece_count t \<le> Suc (ps_have_count (ht_pieces t))" "0 < ht_piece_count t"
    by (simp_all add: fully_def)
  with True assms(1,2) show ?thesis
    by (simp add: mark_have_def release_piece_claim_def Let_def new_piece_state_def new_missing_def
        drop_piece_hashes_if_complete_def is_torrent_complete_def is_download_complete_def
        release_staging_pool_def)
next
  case False
  then have "ht_piece_count t = 0 \<or> \<not> ht_piece_count t \<le> Suc (ps_have_count (ht_pieces t))"
    by (auto simp: fully_def)
  note defs = mark_have_def Let_def new_piece_state_def new_missing_def is_download_complete_def
    release_staging_pool_def
  have w: "wants_piece (release_piece_claim i t) i = wants_piece t i"
    by (simp add: wants_piece_def release_piece_claim_def)
  have r: "ht_piece_count (release_piece_claim i t) = ht_piece_count t"
    "ht_pieces (release_piece_claim i t) = ht_pieces t"
    "ht_download_missing (release_piece_claim i t) = ht_download_missing t"
    by (simp_all add: release_piece_claim_def)
  define m where "m = (if wants_piece t i then ht_download_missing t - 1 else ht_download_missing t)"
  show ?thesis
    using \<open>ht_piece_count t = 0 \<or> \<not> ht_piece_count t \<le> Suc (ps_have_count (ht_pieces t))\<close> False assms(1,2)
    by (elim disjE; cases "wants_piece t i"; cases "m = 0")
      (simp_all add: defs w r m_def, simp_all add: release_piece_claim_def)
qed

lemma mark_have_old:
  "ps_complete (ht_pieces t) \<or> bitfield_get (ps_bitfield (ht_pieces t)) i \<Longrightarrow>
   mark_have i t = (ps_complete (ht_pieces t), release_piece_claim i t)"
  by (auto simp: mark_have_def release_piece_claim_def Let_def)

lemma hub_publish_ok:
  assumes "\<forall>s \<in> set subs. distinct (hs_queue s) \<and> set (hs_queue s) \<subseteq> S" "i \<notin> S"
  shows "\<forall>s \<in> set (hub_publish i subs). distinct (hs_queue s) \<and> set (hs_queue s) \<subseteq> insert i S"
  using assms by (auto simp: hub_publish_def)

lemma release_claim_ok: "hot_ok t \<Longrightarrow> hot_ok (release_piece_claim i t)"
  by (auto simp: hot_ok_defs release_piece_claim_def have_set_def wanted_set_def)

lemma mark_have_ok:
  assumes ok: "hot_ok t" and i: "i < ht_piece_count t"
  shows "hot_ok (snd (mark_have i t)) \<and> have_set (snd (mark_have i t)) = insert i (have_set t)"
proof (cases "ps_complete (ht_pieces t) \<or> bitfield_get (ps_bitfield (ht_pieces t)) i")
  case True
  have "i \<in> have_set t"
    using True ok i has_piece_have_set [of t i]
    by (cases "ps_complete (ht_pieces t)") (simp_all add: hot_ok_def has_piece_def)
  moreover have "have_set (release_piece_claim i t) = have_set t"
    by (simp add: have_set_def release_piece_claim_def)
  ultimately show ?thesis using release_claim_ok [OF ok] by (auto simp: mark_have_old [OF True])
next
  case False
  let ?pc = "ht_piece_count t" and ?S = "have_set t" and ?S' = "insert i (have_set t)"
  define fully where "fully \<longleftrightarrow> ps_have_count (ht_pieces t) + 1 \<ge> ht_piece_count t \<and> ht_piece_count t > 0"
  define t' where "t' = snd (mark_have i t)"
  have new: "i \<notin> ?S" using False by (simp add: have_set_def bf.members_def)
  have n: "ps_have_count (ht_pieces t) = card ?S" and fit: "bf_fits (ps_bitfield (ht_pieces t)) ?pc"
    and lay: "layout_ok (ht_layout t)" "piece_count (ht_layout t) = ?pc"
    using ok by (auto simp: hot_ok_defs small_layout_def)
  have card': "card ?S' = card ?S + 1" using new by simp
  have full: "fully \<longleftrightarrow> ?S' = {..<?pc}"
  proof
    assume "fully"
    then have "card {..<?pc} \<le> card ?S'" using n card' by (simp add: fully_def)
    then show "?S' = {..<?pc}" using have_set_below(1) [of t] i by (intro card_seteq) auto
  next
    assume "?S' = {..<?pc}"
    then have "card ?S' = ?pc" by simp
    then show "fully" using n card' i by (simp add: fully_def)
  qed
  have mk: "t' = t\<lparr>ht_in_flight := ht_in_flight t - {i}, ht_pieces := new_piece_state i t fully,
      ht_have_count_atomic := (if fully then ?pc else ps_have_count (ht_pieces t) + 1),
      ht_completed_payload := (if fully then total_size (ht_layout t)
         else ht_completed_payload t + piece_size_or0 (ht_layout t) i),
      ht_download_missing := new_missing i t fully, ht_have_hub := hub_publish i (ht_have_hub t),
      ht_piece_hashes := (if fully then [] else ht_piece_hashes t),
      ht_staging_pool := (if new_missing i t fully = 0 then None else ht_staging_pool t)\<rparr>"
    using False mark_have_new [of t i] by (simp add: t'_def fully_def)
  have S': "have_set t' = ?S'"
    using full bf.members_set [OF fit i] by (simp add: mk have_set_def new_piece_state_def)
  have W': "wanted_set t' = wanted_set t" by (simp add: mk wanted_set_def)
  have "shape_ok t'" using ok fit bf.fits_set [OF fit]
    by (simp add: hot_ok_def shape_ok_def mk new_piece_state_def)
  moreover have "complete_ok t'"
    using full False unfolding complete_ok_def S' by (simp add: mk new_piece_state_def)
  moreover have "claims_ok t'" using ok unfolding hot_ok_def claims_ok_def S' by (auto simp: mk)
  moreover have "hub_ok t'" using ok hub_publish_ok [OF _ new, of "ht_have_hub t"]
    unfolding hot_ok_def hub_ok_def S' by (simp add: mk)
  moreover have "staging_released t'" by (simp add: mk staging_released_def)
  moreover have "counters_ok t'"
  proof -
    have "wanted_set t - ?S' = wanted_set t - ?S - {i}" by auto
    then have "card (wanted_set t - ?S') = new_missing i t False"
      using ok new by (simp add: new_missing_def hot_ok_defs wants_piece_wanted_set card_Diff_singleton_if)
    moreover have "card (wanted_set t - {..<?pc}) = 0"
      using have_set_below(2) [of t] by (metis Diff_eq_empty_iff card.empty)
    ultimately have "new_missing i t fully = card (wanted_set t - ?S')"
      using full unfolding new_missing_def by (cases fully) (simp_all only: if_True if_False simp_thms)
    moreover have "payload_of (ht_layout t) ?S' = ht_completed_payload t + piece_size_or0 (ht_layout t) i"
      using ok new by (simp add: payload_insert hot_ok_defs)
    moreover have "fully \<Longrightarrow> payload_of (ht_layout t) ?S' = total_size (ht_layout t)"
      using full payload_all [OF lay(1)] lay(2) by simp
    moreover have "fully \<Longrightarrow> card ?S' = ?pc" using full by simp
    ultimately show ?thesis
      unfolding counters_ok_def S' W' using n card' by (cases fully) (simp_all add: mk new_piece_state_def)
  qed
  ultimately show ?thesis using S' by (simp add: hot_ok_def t'_def)
qed

lemma rebuild_ok:
  assumes "shape_ok (t\<lparr>ht_wanted_bf := build_wanted_bitfield (ht_layout t) (ht_file_priority t)\<rparr>)"
    "ps_have_count (ht_pieces t) = card (have_set t)" "ht_have_count_atomic t = card (have_set t)"
    "complete_ok t"
  shows "shape_ok (rebuild_wanted_and_missing t)"
    "have_set (rebuild_wanted_and_missing t) = have_set t"
    "ht_download_missing (rebuild_wanted_and_missing t)
       = card (wanted_set (rebuild_wanted_and_missing t) - have_set t)"
proof -
  show "shape_ok (rebuild_wanted_and_missing t)" "have_set (rebuild_wanted_and_missing t) = have_set t"
    using assms(1) by (simp_all add: rebuild_wanted_and_missing_def Let_def shape_ok_def have_set_def)
  show "ht_download_missing (rebuild_wanted_and_missing t)
       = card (wanted_set (rebuild_wanted_and_missing t) - have_set t)"
  proof (cases "ps_complete (ht_pieces t)")
    case True
    then have h: "have_set t = {..<ht_piece_count t}" using assms(4) by (simp add: complete_ok_def)
    have "wanted_set (rebuild_wanted_and_missing t) \<subseteq> {..<ht_piece_count t}"
      using have_set_below(2) [of "rebuild_wanted_and_missing t"]
      by (simp add: rebuild_wanted_and_missing_def Let_def split: if_splits)
    then have "wanted_set (rebuild_wanted_and_missing t) - have_set t = {}" using h by simp
    then show ?thesis using True by (simp only: card.empty) (simp add: rebuild_wanted_and_missing_def Let_def)
  next
    case False
    then show ?thesis
      by (simp add: rebuild_wanted_and_missing_def Let_def count_missing_card wanted_set_def have_set_def)
  qed
qed

lemma rebuild_other [simp]:
  "ht_pieces (rebuild_wanted_and_missing t) = ht_pieces t"
  "ht_layout (rebuild_wanted_and_missing t) = ht_layout t"
  "ht_piece_count (rebuild_wanted_and_missing t) = ht_piece_count t"
  "ht_have_count_atomic (rebuild_wanted_and_missing t) = ht_have_count_atomic t"
  "ht_completed_payload (rebuild_wanted_and_missing t) = ht_completed_payload t"
  "ht_in_flight (rebuild_wanted_and_missing t) = ht_in_flight t"
  "ht_have_hub (rebuild_wanted_and_missing t) = ht_have_hub t"
  "ht_staging_pool (rebuild_wanted_and_missing t) = ht_staging_pool t"
  "ht_file_priority (rebuild_wanted_and_missing t) = ht_file_priority t"
  by (simp_all add: rebuild_wanted_and_missing_def Let_def)

lemma release_pool_ok:
  "shape_ok t \<Longrightarrow> counters_ok t \<Longrightarrow> complete_ok t \<Longrightarrow> claims_ok t \<Longrightarrow> hub_ok t \<Longrightarrow>
   hot_ok (if is_download_complete t then release_staging_pool t else ensure_staging_pool t)"
  by (cases "ht_staging_pool t")
    (simp_all add: hot_ok_defs release_staging_pool_def ensure_staging_pool_def is_download_complete_def
      have_set_def wanted_set_def)

lemma set_file_priority_ok:
  assumes ok: "hot_ok t"
  shows "hot_ok (set_file_priority k p t)"
proof -
  obtain prios where sp: "set_file_priority k p t =
      (let t' = rebuild_wanted_and_missing (t\<lparr>ht_file_priority := prios\<rparr>)
       in if is_download_complete t' then release_staging_pool t' else ensure_staging_pool t')"
    unfolding set_file_priority_def Let_def by blast
  let ?u = "t\<lparr>ht_file_priority := prios\<rparr>"
  have h: "have_set ?u = have_set t" by (simp add: have_set_def)
  have r: "shape_ok (rebuild_wanted_and_missing ?u)" "have_set (rebuild_wanted_and_missing ?u) = have_set t"
    "ht_download_missing (rebuild_wanted_and_missing ?u)
       = card (wanted_set (rebuild_wanted_and_missing ?u) - have_set t)"
    using rebuild_ok [of ?u] ok unfolding h by (simp_all add: hot_ok_defs h)
  have "counters_ok (rebuild_wanted_and_missing ?u)" "complete_ok (rebuild_wanted_and_missing ?u)"
    "claims_ok (rebuild_wanted_and_missing ?u)" "hub_ok (rebuild_wanted_and_missing ?u)"
    using ok r by (simp_all add: hot_ok_defs)
  then show ?thesis unfolding sp Let_def by (intro release_pool_ok r(1))
qed

lemma claim_state:
  "snd (try_claim_piece i e t) =
     (if i \<ge> ht_piece_count t \<or> has_piece t i then t else t\<lparr>ht_in_flight := insert i (ht_in_flight t)\<rparr>)"
  by (simp add: try_claim_piece_def Let_def)

lemma claim_ok:
  assumes "hot_ok t"
  shows "hot_ok (snd (try_claim_piece i e t))"
proof (cases "i \<ge> ht_piece_count t \<or> has_piece t i")
  case False
  then have "i \<notin> have_set t" "i < ht_piece_count t"
    using assms has_piece_have_set [of t i] by (simp_all add: hot_ok_def)
  then show ?thesis
    using assms False by (simp add: claim_state hot_ok_defs have_set_def wanted_set_def)
qed (use assms claim_state [of i e t] in simp)

lemma ball_list_update: "\<forall>x \<in> set xs. P x \<Longrightarrow> P y \<Longrightarrow> \<forall>x \<in> set (xs[k := y]). P x"
  using set_update_subset_insert [of xs k y] by blast

lemma hot_apply_ok:
  assumes "hot_ok t" "event_ok (ht_layout t) e"
  shows "hot_ok (hot_apply e t)"
proof (cases e)
  case (Ev_have i)
  then show ?thesis using assms mark_have_ok [of t i] by (simp add: hot_ok_def shape_ok_def)
next
  case (Ev_priority k p)
  then show ?thesis using assms set_file_priority_ok by simp
next
  case (Ev_claim i b)
  then show ?thesis using assms claim_ok by simp
next
  case (Ev_release i)
  then show ?thesis using assms release_claim_ok by simp
next
  case (Ev_unsubscribe k)
  show ?thesis
  proof (cases "k < length (ht_have_hub t)")
    case True
    let ?subs = "(ht_have_hub t)[k := (ht_have_hub t ! k)\<lparr>hs_alive := False\<rparr>]"
    have old: "\<forall>s \<in> set (ht_have_hub t). distinct (hs_queue s) \<and> set (hs_queue s) \<subseteq> have_set t"
      using assms(1) by (simp add: hot_ok_def hub_ok_def)
    moreover have "ht_have_hub t ! k \<in> set (ht_have_hub t)" using True by simp
    ultimately have "\<forall>s \<in> set ?subs. distinct (hs_queue s) \<and> set (hs_queue s) \<subseteq> have_set t"
      by (intro ball_list_update) simp_all
    moreover have "hot_apply e t = t\<lparr>ht_have_hub := ?subs\<rparr>" using True by (simp add: Ev_unsubscribe)
    ultimately show ?thesis using assms(1) by (simp add: hot_ok_defs have_set_def wanted_set_def)
  qed (use assms(1) Ev_unsubscribe in simp)
next
  case Ev_ensure_pool
  have "hot_apply e t = t \<or> \<not> is_download_complete t \<and> (\<exists>p. hot_apply e t = t\<lparr>ht_staging_pool := Some p\<rparr>)"
    unfolding Ev_ensure_pool hot_apply.simps ensure_staging_pool_def by (cases "ht_staging_pool t") auto
  then show ?thesis
  proof (elim disjE conjE exE)
    fix p
    assume m: "\<not> is_download_complete t" and e: "hot_apply e t = t\<lparr>ht_staging_pool := Some p\<rparr>"
    let ?t = "t\<lparr>ht_staging_pool := Some p\<rparr>"
    have "have_set ?t = have_set t" "wanted_set ?t = wanted_set t"
      by (simp_all add: have_set_def wanted_set_def)
    then have "shape_ok ?t = shape_ok t" "counters_ok ?t = counters_ok t" "complete_ok ?t = complete_ok t"
      "claims_ok ?t = claims_ok t" "hub_ok ?t = hub_ok t" "staging_released ?t"
      using m by (simp_all add: shape_ok_def counters_ok_def complete_ok_def claims_ok_def hub_ok_def
        staging_released_def is_download_complete_def)
    with assms(1) show ?thesis unfolding e by (simp add: hot_ok_def)
  qed (use assms(1) in simp)
qed (use assms(1) in \<open>simp_all add: hot_ok_defs have_set_def wanted_set_def subscribe_have_def hub_subscribe_def
    release_staging_pool_def set_staging_mem_limit_def set_data_root_live_def avail_inc_def avail_dec_def
    avail_add_bitfield_def avail_sub_bitfield_def Let_def\<close>)

section \<open>Event sequences\<close>

definition hot_run :: "hot_event list \<Rightarrow> hot_torrent \<Rightarrow> hot_torrent" where
  "hot_run es t = fold hot_apply es t"

text \<open>The layout never changes but for its root.\<close>

definition same_layout :: "storage_layout \<Rightarrow> storage_layout \<Rightarrow> bool" where
  "same_layout a b \<longleftrightarrow> (\<exists>r. b = a\<lparr>data_root := r\<rparr>)"

lemma same_layout_refl: "same_layout a a"
  unfolding same_layout_def by (intro exI [of _ "data_root a"]) simp

lemma same_layout_simps:
  "same_layout a (a\<lparr>data_root := r\<rparr>)"
  "same_layout a b \<Longrightarrow> piece_count b = piece_count a"
  "same_layout a b \<Longrightarrow> piece_size_or0 b i = piece_size_or0 a i"
  "same_layout a b \<Longrightarrow> same_layout b c \<Longrightarrow> same_layout a c"
  by (auto simp: same_layout_def)

lemma layout_step: "same_layout (ht_layout t) (ht_layout (hot_apply e t))"
proof (cases e)
  case (Ev_have i)
  then show ?thesis
    by (cases "ps_complete (ht_pieces t) \<or> bitfield_get (ps_bitfield (ht_pieces t)) i")
      (simp_all add: mark_have_old mark_have_new release_piece_claim_def same_layout_refl)
next
  case Ev_ensure_pool
  then show ?thesis by (simp add: ensure_staging_pool_def same_layout_refl split: option.split)
next
  case (Ev_priority k p)
  then show ?thesis
    by (simp add: set_file_priority_def Let_def release_staging_pool_def ensure_staging_pool_def
        same_layout_refl split: option.split)
qed (simp_all add: claim_state release_piece_claim_def subscribe_have_def release_staging_pool_def
    set_staging_mem_limit_def set_data_root_live_def avail_inc_def avail_dec_def avail_add_bitfield_def
    avail_sub_bitfield_def Let_def same_layout_refl same_layout_simps(1))

lemma have_set_step:
  assumes "hot_ok t" "event_ok (ht_layout t) e"
  shows "have_set (hot_apply e t) = have_set t \<union> {i. e = Ev_have i}"
proof (cases e)
  case (Ev_have i)
  then show ?thesis using assms mark_have_ok [of t i] by (simp add: hot_ok_def shape_ok_def)
next
  case Ev_ensure_pool
  then show ?thesis by (simp add: ensure_staging_pool_def have_set_def split: option.split)
next
  case (Ev_priority k p)
  then show ?thesis
    by (simp add: set_file_priority_def Let_def release_staging_pool_def ensure_staging_pool_def
        have_set_def split: option.split)
qed (simp_all add: claim_state release_piece_claim_def subscribe_have_def release_staging_pool_def
    set_staging_mem_limit_def set_data_root_live_def avail_inc_def avail_dec_def avail_add_bitfield_def
    avail_sub_bitfield_def Let_def have_set_def)

lemma hot_run_ok:
  assumes "hot_ok t" "list_all (event_ok (ht_layout t)) es"
  shows "hot_ok (hot_run es t) \<and> same_layout (ht_layout t) (ht_layout (hot_run es t))
    \<and> have_set (hot_run es t) = have_set t \<union> {i. Ev_have i \<in> set es}"
  using assms
proof (induction es arbitrary: t)
  case (Cons e es)
  have "event_ok (ht_layout (hot_apply e t)) e' = event_ok (ht_layout t) e'" for e'
    by (cases e') (simp_all add: same_layout_simps(2) [OF layout_step])
  with Cons hot_apply_ok [of t e] have "hot_ok (hot_run es (hot_apply e t))
      \<and> same_layout (ht_layout (hot_apply e t)) (ht_layout (hot_run es (hot_apply e t)))
      \<and> have_set (hot_run es (hot_apply e t)) = have_set (hot_apply e t) \<union> {i. Ev_have i \<in> set es}" by simp
  moreover have "have_set (hot_apply e t) = have_set t \<union> {i. e = Ev_have i}"
    using Cons.prems by (intro have_set_step) simp_all
  ultimately show ?case
    using same_layout_simps(4) [OF layout_step [of t e]] by (auto simp: hot_run_def)
qed (simp add: hot_run_def same_layout_refl)

lemma finish_new_ok:
  assumes "small_layout (ht_layout t)" "piece_count (ht_layout t) = ht_piece_count t"
    "bf_fits (ps_bitfield (ht_pieces t)) (ht_piece_count t)"
    "ps_have_count (ht_pieces t) = card (have_set t)" "ht_have_count_atomic t = card (have_set t)"
    "complete_ok t" "ht_in_flight t = {}" "ht_have_hub t = []" "ht_staging_pool t = None"
  shows "hot_ok (finish_new t)"
proof -
  let ?r = "rebuild_wanted_and_missing t"
  have r: "shape_ok ?r" "have_set ?r = have_set t" "ht_download_missing ?r = card (wanted_set ?r - have_set t)"
    using rebuild_ok [of t] assms by (simp_all add: shape_ok_def)
  have fin: "finish_new t = ?r\<lparr>ht_completed_payload := payload_of (ht_layout t) (have_set t)\<rparr>"
  proof (cases "ps_complete (ht_pieces t)")
    case True
    then have "have_set t = {..<ht_piece_count t}" using assms(6) by (simp add: complete_ok_def)
    then have "payload_of (ht_layout t) (have_set t) = total_size (ht_layout t)"
      using payload_all [of "ht_layout t"] assms(1,2) by (simp add: small_layout_def)
    with True show ?thesis by (simp add: finish_new_def recount_completed_payload_def)
  next
    case False
    then show ?thesis
      by (simp add: finish_new_def recount_completed_payload_def foldl_payload have_set_def)
  qed
  have F: "have_set (finish_new t) = have_set t" "wanted_set (finish_new t) = wanted_set ?r"
    unfolding fin using r(2) by (simp_all add: have_set_def wanted_set_def)
  have G: "ht_layout (finish_new t) = ht_layout t" "ht_piece_count (finish_new t) = ht_piece_count t"
    "ht_pieces (finish_new t) = ht_pieces t" "ht_wanted_bf (finish_new t) = ht_wanted_bf ?r"
    "ht_file_priority (finish_new t) = ht_file_priority t" "ht_in_flight (finish_new t) = ht_in_flight t"
    "ht_have_hub (finish_new t) = ht_have_hub t" "ht_staging_pool (finish_new t) = ht_staging_pool t"
    "ht_have_count_atomic (finish_new t) = ht_have_count_atomic t"
    "ht_download_missing (finish_new t) = ht_download_missing ?r"
    "ht_completed_payload (finish_new t) = payload_of (ht_layout t) (have_set t)"
    unfolding fin by simp_all
  show ?thesis using r(1,3) assms unfolding hot_ok_defs F G rebuild_other by simp
qed

lemma new_ok:
  assumes "small_layout lay"
  shows "hot_ok (new_empty tid ih nm lay hashes key)" "hot_ok (new_complete tid ih nm lay hashes key)"
  using assms unfolding new_empty_def new_complete_def
  by (auto intro!: finish_new_ok simp: have_set_def complete_ok_def)

lemma not_have_payload:
  assumes "hot_ok t"
  shows "left_bytes t = payload_of (ht_layout t) ({..<ht_piece_count t} - have_set t)"
proof -
  have "payload_of (ht_layout t) {..<ht_piece_count t}
      = payload_of (ht_layout t) ({..<ht_piece_count t} - have_set t) + payload_of (ht_layout t) (have_set t)"
    unfolding payload_of_def using have_set_below(1) [of t] by (intro sum.subset_diff) auto
  moreover have "payload_of (ht_layout t) {..<ht_piece_count t} = total_size (ht_layout t)"
    using payload_all [of "ht_layout t"] assms by (simp add: hot_ok_defs small_layout_def)
  ultimately show ?thesis using assms by (simp add: left_bytes_def completed_bytes_def hot_ok_defs)
qed

text \<open>C12. The counters of a torrent are what they are called, after any sequence of events (pieces
  arriving in any order and more than once, claims taken and released, priorities changed,
  subscribers coming and going, the pool created and dropped) from a fresh or a complete torrent
  with at least one piece: exactly the pieces
  that arrived are had, and the number of pieces had, its atomic mirror, the number of wanted pieces still missing (so
  \<open>is_download_complete\<close>), the bytes left, and completeness all agree with \<open>has_piece\<close> and
  \<open>wants_piece\<close>; a claimed piece is never one we have; no subscriber was told of a piece twice or
  of one we do not have; and a finished download holds no staging pool.\<close>

theorem torrent_counters_consistent:
  assumes "small_layout lay" "list_all (event_ok lay) es" "0 < piece_count lay"
    "t0 = new_empty tid ih nm lay hashes key \<or> t0 = new_complete tid ih nm lay hashes key"
    "t = hot_run es t0"
  shows "(\<forall>i. has_piece t i \<longleftrightarrow> has_piece t0 i \<or> Ev_have i \<in> set es)
    \<and> ps_have_count (ht_pieces t) = card {i. i < piece_count lay \<and> has_piece t i}
    \<and> ht_have_count_atomic t = ps_have_count (ht_pieces t)
    \<and> missing_piece_count t = card {i. i < piece_count lay \<and> wants_piece t i \<and> \<not> has_piece t i}
    \<and> left_bytes t = (\<Sum>i \<in> {i. i < piece_count lay \<and> \<not> has_piece t i}. piece_size_or0 lay i)
    \<and> (is_torrent_complete t \<longleftrightarrow> (\<forall>i < piece_count lay. has_piece t i))
    \<and> (\<forall>i \<in> ht_in_flight t. i < piece_count lay \<and> \<not> has_piece t i)
    \<and> (\<forall>s \<in> set (ht_have_hub t). distinct (hs_queue s) \<and> (\<forall>i \<in> set (hs_queue s). has_piece t i))
    \<and> (is_download_complete t \<longrightarrow> ht_staging_pool t = None)"
proof -
  have t0: "hot_ok t0" "ht_layout t0 = lay"
    using assms(4) new_ok [OF assms(1)]
    by (auto simp: new_empty_def new_complete_def finish_new_def recount_completed_payload_def)
  then have ok: "hot_ok t" and same: "same_layout lay (ht_layout t)"
    and got: "have_set t = have_set t0 \<union> {i. Ev_have i \<in> set es}"
    using hot_run_ok [of t0 es] assms(2,5) by simp_all
  have pc: "ht_piece_count t = piece_count lay"
    using ok same_layout_simps(2) [OF same] by (simp add: hot_ok_def shape_ok_def)
  have has: "has_piece t i \<longleftrightarrow> i \<in> have_set t" for i
    using ok by (simp add: hot_ok_def has_piece_have_set)
  have h: "{i. i < piece_count lay \<and> has_piece t i} = have_set t"
    "{i. i < piece_count lay \<and> wants_piece t i \<and> \<not> has_piece t i} = wanted_set t - have_set t"
    "{i. i < piece_count lay \<and> \<not> has_piece t i} = {..<piece_count lay} - have_set t"
    using have_set_below [of t] pc by (auto simp: has wants_piece_wanted_set)
  have "(\<forall>i < piece_count lay. has_piece t i) \<longleftrightarrow> have_set t = {..<piece_count lay}"
    using have_set_below(1) [of t] pc has by auto
  then have "is_torrent_complete t \<longleftrightarrow> (\<forall>i < piece_count lay. has_piece t i)"
    using ok pc assms(3) by (auto simp: hot_ok_def complete_ok_def is_torrent_complete_def)
  moreover have "left_bytes t = (\<Sum>i \<in> {..<piece_count lay} - have_set t. piece_size_or0 lay i)"
    using not_have_payload [OF ok] by (simp add: payload_of_def pc same_layout_simps(3) [OF same])
  moreover have "\<forall>i \<in> ht_in_flight t. i < piece_count lay \<and> i \<notin> have_set t"
    using ok pc by (auto simp: hot_ok_def claims_ok_def)
  moreover have "\<forall>s \<in> set (ht_have_hub t). distinct (hs_queue s) \<and> (\<forall>i \<in> set (hs_queue s). i \<in> have_set t)"
    using ok by (auto simp: hot_ok_def hub_ok_def)
  moreover have "\<forall>i. has_piece t i \<longleftrightarrow> has_piece t0 i \<or> Ev_have i \<in> set es"
    using got has has_piece_have_set [of t0] t0(1) by (simp add: hot_ok_def)
  ultimately show ?thesis
    unfolding h using ok
    by (simp add: has missing_piece_count_def is_download_complete_def hot_ok_def counters_ok_def
        staging_released_def)
qed

definition test_events :: "hot_event list" where
  "test_events = [Ev_subscribe, Ev_claim 1 False, Ev_have 1, Ev_have 1, Ev_have 0]"

theorem torrent_counters_witness:
  "let t = hot_run test_events (new_empty 7 [] ''x'' test_layout [] 0)
   in is_torrent_complete t \<and> ps_have_count (ht_pieces t) = 2 \<and> missing_piece_count t = 0 \<and> left_bytes t = 0"
proof -
  let ?t = "hot_run test_events (new_empty 7 [] ''x'' test_layout [] 0)"
  have pc: "piece_count test_layout = 2" by (simp add: test_layout_def Let_def)
  have ev: "list_all (event_ok test_layout) test_events" "0 < piece_count test_layout"
    by (simp_all add: test_events_def pc)
  note C = torrent_counters_consistent [OF test_layout_small ev, of _ 7 "[]" "''x''" "[]" 0, OF disjI1 [OF refl] refl]
  have has: "has_piece ?t i" if "i < 2" for i
  proof -
    from that have "Ev_have i \<in> set test_events" by (auto simp: test_events_def less_2_cases_iff)
    with C show ?thesis by blast
  qed
  then have S: "{i. i < piece_count test_layout \<and> has_piece ?t i} = {..<2}"
    "{i. i < piece_count test_layout \<and> wants_piece ?t i \<and> \<not> has_piece ?t i} = {}"
    "{i. i < piece_count test_layout \<and> \<not> has_piece ?t i} = {}"
    by (auto simp: pc)
  have "ps_have_count (ht_pieces ?t) = card {i. i < piece_count test_layout \<and> has_piece ?t i}"
    "missing_piece_count ?t = card {i. i < piece_count test_layout \<and> wants_piece ?t i \<and> \<not> has_piece ?t i}"
    "left_bytes ?t = (\<Sum>i \<in> {i. i < piece_count test_layout \<and> \<not> has_piece ?t i}. piece_size_or0 test_layout i)"
    "is_torrent_complete ?t"
    using C has by (blast, blast, blast, metis pc)
  then show ?thesis unfolding S Let_def by simp
qed

end
