(* ===== verification/Picker.thy ===== *)
theory Picker
  imports Hot_Invariant
begin

text \<open>
  The piece picker of \<open>hot/pieces.rs\<close>: what it returns can be fetched from this peer and was
  claimed, it looks at 32 eligible pieces or at all of them, and of those it takes a rarest one
  whose claim succeeds.
\<close>

section \<open>The candidate lists\<close>

text \<open>The walk is the first 32 eligible pieces in the order of the offsets.\<close>

definition walk_order :: "pick_view \<Rightarrow> nat \<Rightarrow> nat list \<Rightarrow> nat list" where
  "walk_order v start offs = map (\<lambda>off. (start + off) mod pv_pc v) offs"

lemma exact_walk_take:
  "length cand \<le> PICK_CANDIDATE_CAP \<Longrightarrow>
   exact_walk elig v start offs cand =
     take PICK_CANDIDATE_CAP (cand @ map (\<lambda>i. (i, rarity v i)) (filter elig (walk_order v start offs)))"
proof (induction offs arbitrary: cand)
  case (Cons off offs)
  show ?case
  proof (cases "length cand = PICK_CANDIDATE_CAP")
    case False
    with Cons.prems have lt: "length cand < PICK_CANDIDATE_CAP" by simp
    define c where "c = (if elig ((start + off) mod pv_pc v)
        then cand @ [((start + off) mod pv_pc v, rarity v ((start + off) mod pv_pc v))] else cand)"
    have "exact_walk elig v start (off # offs) cand = exact_walk elig v start offs c"
      using lt by (simp add: Let_def c_def)
    also have "\<dots> = take PICK_CANDIDATE_CAP (c @ map (\<lambda>i. (i, rarity v i)) (filter elig (walk_order v start offs)))"
      using lt by (intro Cons.IH) (simp add: c_def)
    also have "c @ map (\<lambda>i. (i, rarity v i)) (filter elig (walk_order v start offs))
        = cand @ map (\<lambda>i. (i, rarity v i)) (filter elig (walk_order v start (off # offs)))"
      by (simp add: c_def walk_order_def)
    finally show ?thesis .
  qed (simp add: walk_order_def)
qed (simp add: walk_order_def)

text \<open>Adding a start to all offsets modulo the count reaches every piece.\<close>

lemma offsets_cover:
  assumes "0 < (n :: nat)"
  shows "(\<lambda>off. (start + off) mod n) ` {0..<n} = {0..<n}"
proof
  show "{0..<n} \<subseteq> (\<lambda>off. (start + off) mod n) ` {0..<n}"
  proof
    fix i assume i: "i \<in> {0..<n}"
    let ?off = "(i + (n - start mod n)) mod n"
    have "(start + ?off) mod n = (start mod n + (n - start mod n) + i) mod n"
      by (metis (no_types, opaque_lifting) add.commute add.left_commute mod_add_eq mod_mod_trivial)
    also have "start mod n + (n - start mod n) = n" using assms by (simp add: less_imp_le)
    also have "(n + i) mod n = i" using i by simp
    finally have "(start + ?off) mod n = i" .
    then show "i \<in> (\<lambda>off. (start + off) mod n) ` {0..<n}"
      using assms by (intro image_eqI [of _ _ ?off]) simp_all
  qed
qed (use assms in auto)

lemma walk_order_perm:
  assumes "0 < pv_pc v"
  shows "set (walk_order v start [0..<pv_pc v]) = {i. i < pv_pc v}" "distinct (walk_order v start [0..<pv_pc v])"
proof -
  show s: "set (walk_order v start [0..<pv_pc v]) = {i. i < pv_pc v}"
    using offsets_cover [OF assms, of start] by (auto simp: walk_order_def)
  show "distinct (walk_order v start [0..<pv_pc v])"
    by (rule card_distinct) (simp add: s, simp add: walk_order_def)
qed

definition cand_ok :: "(nat \<Rightarrow> bool) \<Rightarrow> pick_view \<Rightarrow> (nat \<times> nat) list \<Rightarrow> bool" where
  "cand_ok elig v cand \<longleftrightarrow> (\<forall>(i, r) \<in> set cand. elig i \<and> r = rarity v i)"

lemma exact_pass_eq:
  "fst (exact_pass elig v draw k) = take PICK_CANDIDATE_CAP
     (map (\<lambda>i. (i, rarity v i)) (filter elig (walk_order v (fst (random_start v draw k)) [0..<pv_pc v])))"
  by (simp add: exact_pass_def case_prod_beta exact_walk_take)

lemma exact_pass_ok: "cand_ok elig v (fst (exact_pass elig v draw k))"
  unfolding exact_pass_eq cand_ok_def by (auto dest!: in_set_takeD)

lemma exact_pass_finds:
  assumes "elig i" "i < pv_pc v"
  shows "fst (exact_pass elig v draw k) \<noteq> []"
proof -
  have "i \<in> set (filter elig (walk_order v (fst (random_start v draw k)) [0..<pv_pc v]))"
    using walk_order_perm(1) [of v] assms by auto
  then have "filter elig (walk_order v (fst (random_start v draw k)) [0..<pv_pc v]) \<noteq> []" by force
  then show ?thesis unfolding exact_pass_eq by simp
qed

lemma exact_pass_all:
  assumes "card {i. i < pv_pc v \<and> elig i} \<le> PICK_CANDIDATE_CAP" "0 < pv_pc v"
  shows "fst ` set (fst (exact_pass elig v draw k)) = {i. i < pv_pc v \<and> elig i}"
proof -
  let ?f = "filter elig (walk_order v (fst (random_start v draw k)) [0..<pv_pc v])"
  have s: "set ?f = {i. i < pv_pc v \<and> elig i}" using walk_order_perm(1) [OF assms(2)] by auto
  have "length ?f = card (set ?f)"
    using distinct_card [OF distinct_filter [OF walk_order_perm(2) [OF assms(2)]], symmetric] .
  then have "length ?f \<le> PICK_CANDIDATE_CAP" using assms(1) s by simp
  then show ?thesis unfolding exact_pass_eq using s by (simp add: image_image)
qed

lemma sample_walk_ok: "cand_ok elig v cand \<Longrightarrow> cand_ok elig v (fst (sample_walk elig v draw n k cand))"
proof (induction n arbitrary: k cand)
  case (Suc n)
  have "cand_ok elig v (if elig (draw k) \<and> \<not> list_ex (\<lambda>(j, _). j = draw k) cand
      then cand @ [(draw k, rarity v (draw k))] else cand)"
    using Suc.prems by (auto simp: cand_ok_def)
  with Suc show ?case by (simp add: Let_def)
qed simp

section \<open>The choice\<close>

lemma order_candidates_set: "set (order_candidates v e rf cand) = set cand"
  by (simp add: order_candidates_def)

lemma try_from_Some:
  "try_from lay tc cand x = (Some (Some (i, plen)), x') \<Longrightarrow>
   i \<in> fst ` set cand \<and> piece_size lay i = Inr plen \<and> (\<exists>y y'. tc i y = (True, y') \<and> x' = y')"
proof (induction lay tc cand x rule: try_from.induct)
  case (2 lay tc i' r cand x)
  show ?case
  proof (cases "tc i' x")
    case (Pair ok y)
    with 2 show ?thesis by (cases ok) (auto split: sum.splits)
  qed
qed simp

lemma try_from_accepts:
  assumes "\<And>i y. fst (tc i y)" "cand \<noteq> []" "\<forall>(i, r) \<in> set cand. \<exists>n. piece_size lay i = Inr n"
  shows "\<exists>n x'. try_from lay tc cand x = (Some (Some (fst (hd cand), n)), x')"
proof -
  obtain i r cs where c: "cand = (i, r) # cs" using assms(2) by (cases cand) auto
  with assms(3) obtain n where "piece_size lay i = Inr n" by auto
  moreover obtain y where "tc i x = (True, y)" using assms(1) [of i x] by (cases "tc i x") simp
  ultimately show ?thesis by (simp add: c)
qed

lemma try_from_result:
  assumes "try_from lay tc cand x = (res, x')" "cand_ok elig v cand" "res = Some (Some (i, plen))"
  shows "elig i \<and> piece_size lay i = Inr plen \<and> (\<exists>y. tc i y = (True, x'))"
  using try_from_Some [of lay tc cand x i plen x'] assms by (auto simp: cand_ok_def)

text \<open>The two lists of candidates the picker goes through.\<close>

lemma picker_shape:
  fixes peer_bf in_staging is_hashing may endgame
  assumes "ht_piece_count t \<noteq> 0"
  defines "v \<equiv> pick_snapshot t"
  defines "elig \<equiv> eligible v peer_bf in_staging is_hashing may endgame"
  shows "\<exists>cand cand2 rf. cand_ok elig v cand \<and> cand_ok elig v cand2
    \<and> ((\<exists>i < pv_pc v. elig i) \<longrightarrow> cand \<noteq> [])
    \<and> (pv_pc v \<le> PICK_SAMPLE_ATTEMPTS \<or> pv_missing_n v \<le> PICK_CANDIDATE_CAP \<longrightarrow>
          (\<exists>k. cand = fst (exact_pass elig v draw k)))
    \<and> (rf \<longleftrightarrow> \<not> endgame \<and> pv_have_n v < INITIAL_RANDOM_PIECES \<and> pv_pc v \<ge> INITIAL_RANDOM_MIN_PC
          \<and> pv_missing_n v > PICK_CANDIDATE_CAP)
    \<and> (cand2 = [] \<or> (\<exists>k. cand2 = (if rf then fst (exact_pass elig v draw k)
          else sort_key snd (fst (exact_pass elig v draw k)))))
    \<and> pick_rarest_piece t peer_bf in_staging is_hashing tc may endgame draw x =
        (case try_from (ht_layout t) tc (order_candidates v endgame rf cand) x of
           (Some (Some hit), x) \<Rightarrow> (Some hit, x)
         | (_, x) \<Rightarrow>
             (case try_from (ht_layout t) tc cand2 x of
                (Some (Some hit), x) \<Rightarrow> (Some hit, x) | (_, x) \<Rightarrow> (None, x)))"
proof -
  have pc: "pv_pc v \<noteq> 0" using assms(1) by (simp add: v_def pick_snapshot_def)
  obtain c0 k0 where c0: "(if pv_pc v \<le> PICK_SAMPLE_ATTEMPTS then exact_pass elig v draw 0
      else sample_walk elig v draw PICK_SAMPLE_ATTEMPTS 0 []) = (c0, k0)" by (rule prod.exhaust)
  define exact where "exact \<longleftrightarrow> c0 = [] \<or> pv_missing_n v \<le> PICK_CANDIDATE_CAP"
  obtain c1 k1 where c1: "(if exact then exact_pass elig v draw k0 else (c0, k0)) = (c1, k1)" by (rule prod.exhaust)
  define rf where "rf \<longleftrightarrow> \<not> endgame \<and> pv_have_n v < INITIAL_RANDOM_PIECES \<and> pv_pc v \<ge> INITIAL_RANDOM_MIN_PC
      \<and> pv_missing_n v > PICK_CANDIDATE_CAP"
  obtain c2 k2 where c2: "exact_pass elig v draw k1 = (c2, k2)" by (rule prod.exhaust)
  define cand2 where "cand2 = (if exact then [] else if \<not> rf then sort_key snd c2 else c2)"
  have ok0: "cand_ok elig v c0"
  proof (cases "pv_pc v \<le> PICK_SAMPLE_ATTEMPTS")
    case True
    with c0 exact_pass_ok [of elig v draw 0] show ?thesis by simp
  next
    case False
    with c0 sample_walk_ok [of elig v "[]" draw PICK_SAMPLE_ATTEMPTS 0] show ?thesis by (simp add: cand_ok_def)
  qed
  have ok1: "cand_ok elig v c1"
  proof (cases exact)
    case True
    with c1 exact_pass_ok [of elig v draw k0] show ?thesis by simp
  qed (use c1 ok0 in simp)
  have ok2: "cand_ok elig v cand2"
    using c2 exact_pass_ok [of elig v draw k1] by (auto simp: cand2_def cand_ok_def)
  have ne: "c1 \<noteq> []" if "i < pv_pc v" "elig i" for i
  proof (cases exact)
    case True
    with c1 exact_pass_finds [of elig i v draw k0] that show ?thesis by simp
  qed (use c1 in \<open>simp add: exact_def\<close>)
  have first: "\<exists>k. c1 = fst (exact_pass elig v draw k)"
    if "pv_pc v \<le> PICK_SAMPLE_ATTEMPTS \<or> pv_missing_n v \<le> PICK_CANDIDATE_CAP"
  proof (cases exact)
    case True
    with c1 have "c1 = fst (exact_pass elig v draw k0)" by simp
    then show ?thesis ..
  next
    case False
    with that c0 c1 have "c1 = fst (exact_pass elig v draw 0)" by (simp add: exact_def)
    then show ?thesis ..
  qed
  have second: "cand2 = [] \<or> (\<exists>k. cand2 = (if rf then fst (exact_pass elig v draw k)
      else sort_key snd (fst (exact_pass elig v draw k))))"
  proof (cases exact)
    case False
    then have "cand2 = (if rf then fst (exact_pass elig v draw k1) else sort_key snd (fst (exact_pass elig v draw k1)))"
      using c2 by (simp add: cand2_def)
    then show ?thesis by blast
  qed (simp add: cand2_def)
  have eq: "pick_rarest_piece t peer_bf in_staging is_hashing tc may endgame draw x =
        (case try_from (ht_layout t) tc (order_candidates v endgame rf c1) x of
           (Some (Some hit), x) \<Rightarrow> (Some hit, x)
         | (_, x) \<Rightarrow> if \<not> exact then
             (case try_from (ht_layout t) tc (if \<not> rf then sort_key snd c2 else c2) x of
                (Some (Some hit), x) \<Rightarrow> (Some hit, x) | (_, x) \<Rightarrow> (None, x)) else (None, x))"
    unfolding pick_rarest_piece_def Let_def v_def [symmetric] elig_def [symmetric] if_not_P [OF pc] c0 prod.case
      exact_def [symmetric] c1 rf_def [symmetric] c2 by (rule refl)
  show ?thesis
  proof (rule exI [of _ c1], rule exI [of _ cand2], rule exI [of _ rf], intro conjI)
    show "pick_rarest_piece t peer_bf in_staging is_hashing tc may endgame draw x =
        (case try_from (ht_layout t) tc (order_candidates v endgame rf c1) x of
           (Some (Some hit), x) \<Rightarrow> (Some hit, x)
         | (_, x) \<Rightarrow>
             (case try_from (ht_layout t) tc cand2 x of
                (Some (Some hit), x) \<Rightarrow> (Some hit, x) | (_, x) \<Rightarrow> (None, x)))"
      unfolding eq cand2_def by (cases exact) (auto split: option.split prod.split)
  qed (use ok1 ok2 ne first second in \<open>auto simp: rf_def\<close>)
qed

lemma pick_none:
  "ht_piece_count t = 0 \<Longrightarrow>
   pick_rarest_piece t peer_bf in_staging is_hashing tc may endgame draw x = (None, x)"
  unfolding pick_rarest_piece_def Let_def by (simp add: pick_snapshot_def)

section \<open>Properties\<close>

text \<open>What the picker returns can be fetched. Whatever the random draws, the peer's bitfield and the
  state of the claims, a piece it returns is in range, not had, wanted, offered by the peer,
  not being staged or hashed by this connection, allowed by the choke state, outside endgame not
  in flight elsewhere when the picker looked, of the size it returns, and the caller's claim on it
  succeeded.\<close>

theorem picked_piece_is_eligible:
  assumes "pick_rarest_piece t peer_bf in_staging is_hashing tc may endgame draw x = (Some (i, plen), x')"
  shows "i < ht_piece_count t \<and> \<not> has_piece t i \<and> wants_piece t i \<and> bitfield_get peer_bf i
    \<and> \<not> in_staging i \<and> \<not> is_hashing i \<and> may i \<and> (endgame \<or> i \<notin> ht_in_flight t)
    \<and> piece_size (ht_layout t) i = Inr plen \<and> (\<exists>y. tc i y = (True, x'))"
proof -
  let ?e = "eligible (pick_snapshot t) peer_bf in_staging is_hashing may endgame"
  have pc: "ht_piece_count t \<noteq> 0"
  proof
    assume "ht_piece_count t = 0"
    from pick_none [OF this, of peer_bf in_staging is_hashing tc may endgame draw x] assms show False by simp
  qed
  obtain cand cand2 rf where c: "cand_ok ?e (pick_snapshot t) cand" "cand_ok ?e (pick_snapshot t) cand2"
    and p: "(case try_from (ht_layout t) tc (order_candidates (pick_snapshot t) endgame rf cand) x of
           (Some (Some hit), x) \<Rightarrow> (Some hit, x)
         | (_, x) \<Rightarrow>
             (case try_from (ht_layout t) tc cand2 x of
                (Some (Some hit), x) \<Rightarrow> (Some hit, x) | (_, x) \<Rightarrow> (None, x)))
          = pick_rarest_piece t peer_bf in_staging is_hashing tc may endgame draw x"
    using picker_shape [OF pc, of peer_bf in_staging is_hashing may endgame draw tc x] by (elim exE conjE) (rule that, simp_all)
  have co: "cand_ok ?e (pick_snapshot t) (order_candidates (pick_snapshot t) endgame rf cand)"
    using c(1) by (simp add: cand_ok_def order_candidates_set)
  have "?e i \<and> piece_size (ht_layout t) i = Inr plen \<and> (\<exists>y. tc i y = (True, x'))"
    using p [unfolded assms] try_from_result [OF _ co, of "ht_layout t" tc x _ _ i plen]
      try_from_result [OF _ c(2), of "ht_layout t" tc _ _ _ i plen]
    by (auto split: prod.splits option.splits)
  then show ?thesis
    by (auto simp: eligible_def pick_snapshot_def has_piece_def wants_piece_def split: if_splits)
qed

text \<open>\<open>refused_to tc x y\<close>: claims that fail take the closure from state \<open>x\<close> to \<open>y\<close>; and the claim on a piece is
  refused in such a state.\<close>

inductive refused_to :: "(nat \<Rightarrow> 'x \<Rightarrow> bool \<times> 'x) \<Rightarrow> 'x \<Rightarrow> 'x \<Rightarrow> bool" for tc where
  refused_refl: "refused_to tc x x"
| refused_step: "refused_to tc y z \<Longrightarrow> tc i x = (False, y) \<Longrightarrow> refused_to tc x z"

definition claim_refused :: "(nat \<Rightarrow> 'x \<Rightarrow> bool \<times> 'x) \<Rightarrow> 'x \<Rightarrow> nat \<Rightarrow> bool" where
  "claim_refused tc x i \<longleftrightarrow> (\<exists>y. refused_to tc x y \<and> \<not> fst (tc i y))"

lemma refused_to_trans:
  assumes "refused_to tc x y" "refused_to tc y z"
  shows "refused_to tc x z"
  using assms
proof (induction rule: refused_to.induct)
  case (refused_step y' z' i x')
  show ?case by (rule refused_to.refused_step [OF refused_step.IH [OF refused_step.prems] refused_step.hyps(2)])
qed

lemma claim_refused_trans:
  assumes "refused_to tc x y" "claim_refused tc y i"
  shows "claim_refused tc x i"
proof -
  obtain z where z: "refused_to tc y z" "\<not> fst (tc i z)" using assms(2) unfolding claim_refused_def by (elim exE conjE)
  show ?thesis unfolding claim_refused_def by (intro exI [of _ z] conjI refused_to_trans [OF assms(1) z(1)] z(2))
qed

lemma claim_refused_now:
  assumes "tc i x = (False, y)"
  shows "claim_refused tc x i"
  unfolding claim_refused_def by (rule exI [of _ x]) (simp add: refused_refl assms)

lemma try_from_first:
  assumes "\<forall>(i, r) \<in> set cand. \<exists>n. piece_size lay i = Inr n"
  shows "(fst (try_from lay tc cand x) = None \<and> refused_to tc x (snd (try_from lay tc cand x))
       \<and> (\<forall>(i, r) \<in> set cand. claim_refused tc x i))
    \<or> (\<exists>pre j r post n. cand = pre @ (j, r) # post \<and> fst (try_from lay tc cand x) = Some (Some (j, n))
         \<and> (\<forall>(i, r) \<in> set pre. claim_refused tc x i))"
  using assms
proof (induction cand arbitrary: x)
  case (Cons ir cand)
  obtain i r where ir: "ir = (i, r)" by (cases ir)
  obtain ok y where tc: "tc i x = (ok, y)" by (cases "tc i x")
  show ?case
  proof (cases ok)
    case True
    obtain n where "piece_size lay i = Inr n" using Cons.prems ir by auto
    then have "fst (try_from lay tc (ir # cand) x) = Some (Some (i, n))" using tc True ir by simp
    then show ?thesis using ir by (metis append_Nil empty_iff list.set(1))
  next
    case False
    then have t: "tc i x = (False, y)" using tc by simp
    have ref: "claim_refused tc x i" by (rule claim_refused_now [where tc = tc and i = i and x = x, OF t])
    have step: "refused_to tc x z" if "refused_to tc y z" for z by (rule refused_to.refused_step [where tc = tc and i = i and x = x, OF that t])
    have later: "claim_refused tc x k" if "claim_refused tc y k" for k
      using claim_refused_trans [OF step [OF refused_refl] that] .
    have e: "try_from lay tc (ir # cand) x = try_from lay tc cand y" using t ir by simp
    have "\<forall>(i, r) \<in> set cand. \<exists>n. piece_size lay i = Inr n" using Cons.prems by simp
    from Cons.IH [OF this, of y] show ?thesis unfolding e
    proof (elim disjE exE conjE, goal_cases)
      case (2 pre j r' post n)
      then show ?case using ref later ir
        by (intro disjI2 exI [of _ "ir # pre"] exI [of _ j] exI [of _ r'] exI [of _ post] exI [of _ n]) auto
    qed (use ref later step ir in auto)
  qed
qed (simp add: refused_refl)

lemma sorted_before:
  assumes "sort_key f xs = pre @ y # post" "z \<in> set xs" "f z < f y"
  shows "z \<in> set pre"
proof -
  have "sorted (map f (pre @ y # post))" using sorted_sort_key [of f xs] assms(1) by simp
  moreover have "z \<in> set (pre @ y # post)" using assms(1,2) by (metis set_sort)
  ultimately show ?thesis using assms(3) by (auto simp: sorted_append)
qed

lemma rarity_snapshot: "rarity (pick_snapshot t) i = availability t i"
  by (simp add: rarity_def availability_def pick_snapshot_def)

text \<open>What is known of one pass over a list of candidates \<open>C\<close> that ended with \<open>r\<close>.\<close>

definition pass_ok ::
  "hot_torrent \<Rightarrow> bool \<Rightarrow> bool \<Rightarrow> (nat \<Rightarrow> 'x \<Rightarrow> bool \<times> 'x) \<Rightarrow> 'x \<Rightarrow> nat set \<Rightarrow> nat option \<Rightarrow> bool" where
  "pass_ok t endgame rf tc x C r \<longleftrightarrow>
     (case r of
        None \<Rightarrow> \<forall>i \<in> C. claim_refused tc x i
      | Some j \<Rightarrow> j \<in> C
          \<and> (\<not> endgame \<and> \<not> rf \<longrightarrow> (\<forall>i \<in> C. availability t i < availability t j \<longrightarrow> claim_refused tc x i))
          \<and> (endgame \<and> (\<forall>i. \<not> claim_refused tc x i) \<longrightarrow>
               (\<forall>i \<in> C. (j \<notin> ht_in_flight t, availability t j) \<le> (i \<notin> ht_in_flight t, availability t i))))"

lemma first_pass_ok:
  assumes c: "cand_ok elig (pick_snapshot t) cand" "\<forall>(i, r) \<in> set cand. \<exists>n. piece_size lay i = Inr n"
    and tf: "try_from lay tc (order_candidates (pick_snapshot t) endgame rf cand) x = (res, x')"
  shows "(res = None \<and> refused_to tc x x' \<and> pass_ok t endgame rf tc x (fst ` set cand) None)
    \<or> (\<exists>j n. res = Some (Some (j, n)) \<and> pass_ok t endgame rf tc x (fst ` set cand) (Some j))"
proof -
  let ?o = "order_candidates (pick_snapshot t) endgame rf cand"
  have so: "set ?o = set cand" by (rule order_candidates_set)
  have rar: "(i, r) \<in> set cand \<Longrightarrow> r = availability t i" for i r
    using c(1) by (auto simp: cand_ok_def rarity_snapshot)
  consider "res = None" "refused_to tc x x'" "\<forall>(i, r) \<in> set cand. claim_refused tc x i"
    | pre j r post n where "?o = pre @ (j, r) # post" "res = Some (Some (j, n))" "\<forall>(i, r) \<in> set pre. claim_refused tc x i"
    using try_from_first [of ?o lay tc x] c(2) tf so by auto
  then show ?thesis
  proof cases
    case 1
    then show ?thesis by (auto simp: pass_ok_def)
  next
    case (2 pre j r post n)
    have jr: "(j, r) \<in> set cand" using so 2(1) by (metis in_set_conv_decomp)
    have steady: "claim_refused tc x i"
      if "\<not> endgame" "\<not> rf" "(i, s) \<in> set cand" "availability t i < availability t j" for i s
    proof -
      have "sort_key snd cand = pre @ (j, r) # post" using 2(1) that(1,2) by (simp add: order_candidates_def)
      from sorted_before [OF this that(3)] that(3,4) rar jr 2(3) show ?thesis by fastforce
    qed
    have race: "(j \<notin> ht_in_flight t, availability t j) \<le> (i \<notin> ht_in_flight t, availability t i)"
      if "endgame" "\<forall>i. \<not> claim_refused tc x i" "(i, s) \<in> set cand" for i s
    proof (rule ccontr)
      let ?f = "\<lambda>(i, r). (i \<notin> ht_in_flight t, r)"
      assume "\<not> ?thesis"
      then have "?f (i, s) < ?f (j, r)" using rar [OF that(3)] rar [OF jr] by auto
      moreover have "sort_key ?f cand = pre @ (j, r) # post"
        using 2(1) that(1) by (simp add: order_candidates_def pick_snapshot_def)
      ultimately have "(i, s) \<in> set pre" by (metis sorted_before that(3))
      with 2(3) that(2) show False by auto
    qed
    have "pass_ok t endgame rf tc x (fst ` set cand) (Some j)"
      unfolding pass_ok_def option.case
    proof (intro conjI impI ballI)
      show "j \<in> fst ` set cand" using jr by force
    next
      fix i assume "\<not> endgame \<and> \<not> rf" "i \<in> fst ` set cand" "availability t i < availability t j"
      then show "claim_refused tc x i" using steady by auto
    next
      fix i assume "endgame \<and> (\<forall>i. \<not> claim_refused tc x i)" "i \<in> fst ` set cand"
      then obtain s where "endgame" "\<forall>i. \<not> claim_refused tc x i" "(i, s) \<in> set cand" by auto
      then show "(j \<notin> ht_in_flight t, availability t j) \<le> (i \<notin> ht_in_flight t, availability t i)" by (rule race)
    qed
    with 2(2) show ?thesis by blast
  qed
qed

lemma exact_pass_card:
  assumes "0 < pv_pc v"
  shows "card (fst ` set (fst (exact_pass elig v draw k))) = min PICK_CANDIDATE_CAP (card {i. i < pv_pc v \<and> elig i})"
proof -
  let ?f = "filter elig (walk_order v (fst (random_start v draw k)) [0..<pv_pc v])"
  have s: "set ?f = {i. i < pv_pc v \<and> elig i}" using walk_order_perm(1) [OF assms] by auto
  have d: "distinct ?f" by (rule distinct_filter [OF walk_order_perm(2) [OF assms]])
  have "fst ` set (fst (exact_pass elig v draw k)) = set (take PICK_CANDIDATE_CAP ?f)"
    unfolding exact_pass_eq by (simp add: take_map image_image)
  also have "card \<dots> = length (take PICK_CANDIDATE_CAP ?f)" by (rule distinct_card) (simp add: d)
  also have "\<dots> = min PICK_CANDIDATE_CAP (length ?f)" by simp
  also have "length ?f = card {i. i < pv_pc v \<and> elig i}" unfolding s [symmetric] by (rule distinct_card [OF d, symmetric])
  finally show ?thesis .
qed

lemma second_pass_ok:
  assumes c: "cand_ok elig (pick_snapshot t) cand" "\<forall>(i, r) \<in> set cand. \<exists>n. piece_size lay i = Inr n"
    and tf: "try_from lay tc (if rf then cand else sort_key snd cand) y = (res, x')"
    and e: "endgame \<longrightarrow> (\<exists>i. claim_refused tc x i)" and y: "refused_to tc x y"
  shows "(res = None \<and> pass_ok t endgame rf tc x (fst ` set cand) None)
    \<or> (\<exists>j n. res = Some (Some (j, n)) \<and> pass_ok t endgame rf tc x (fst ` set cand) (Some j))"
proof -
  have "try_from lay tc (order_candidates (pick_snapshot t) False rf cand) y = (res, x')"
    using tf by (simp add: order_candidates_def split: if_splits)
  from first_pass_ok [OF c this] e claim_refused_trans [OF y] show ?thesis by (auto simp: pass_ok_def)
qed

lemma candidate_sizes:
  assumes "layout_ok (ht_layout t)" "piece_count (ht_layout t) = ht_piece_count t"
    "cand_ok (eligible (pick_snapshot t) peer_bf in_staging is_hashing may endgame) (pick_snapshot t) cand"
  shows "\<forall>(i, r) \<in> set cand. \<exists>n. piece_size (ht_layout t) i = Inr n"
  using assms(3) piece_size_Inr(1) [OF assms(1)] assms(2)
  by (fastforce simp: cand_ok_def eligible_def pick_snapshot_def split: if_splits)

text \<open>The pieces among which the pass that decided chose.\<close>

definition chosen_among ::
  "hot_torrent \<Rightarrow> bool \<Rightarrow> bool \<Rightarrow> (nat \<Rightarrow> 'x \<Rightarrow> bool \<times> 'x) \<Rightarrow> 'x \<Rightarrow> nat set \<Rightarrow> (nat \<times> nat) option \<Rightarrow> nat set \<Rightarrow> bool" where
  "chosen_among t endgame rf tc x E res C \<longleftrightarrow> C \<subseteq> E \<and> (E \<noteq> {} \<longrightarrow> C \<noteq> {})
     \<and> (ht_piece_count t \<le> PICK_SAMPLE_ATTEMPTS \<or> pv_missing_n (pick_snapshot t) \<le> PICK_CANDIDATE_CAP \<longrightarrow>
          card C = min PICK_CANDIDATE_CAP (card E))
     \<and> pass_ok t endgame rf tc x C (map_option fst res)"

lemma exact_pass_chosen:
  fixes elig draw k t
  defines "C \<equiv> fst ` set (fst (exact_pass elig (pick_snapshot t) draw k))"
  assumes "0 < ht_piece_count t" "fst (exact_pass elig (pick_snapshot t) draw k) \<noteq> []"
    "pass_ok t endgame rf tc x C (map_option fst res)" "\<forall>i. elig i \<longrightarrow> i < ht_piece_count t"
  shows "chosen_among t endgame rf tc x {i. elig i} res C"
proof -
  have "{i. i < pv_pc (pick_snapshot t) \<and> elig i} = {i. elig i}" using assms(5) by (auto simp: pick_snapshot_def)
  with exact_pass_card [of "pick_snapshot t" elig draw k] assms exact_pass_ok [of elig "pick_snapshot t" draw k]
  show ?thesis by (auto simp: chosen_among_def pick_snapshot_def cand_ok_def)
qed

lemma first_pass_chosen:
  fixes cand t
  defines "C \<equiv> fst ` set cand" and "v \<equiv> pick_snapshot t"
  assumes "0 < ht_piece_count t" "cand_ok elig v cand" "(\<exists>i < pv_pc v. elig i) \<longrightarrow> cand \<noteq> []"
    "pv_pc v \<le> PICK_SAMPLE_ATTEMPTS \<or> pv_missing_n v \<le> PICK_CANDIDATE_CAP \<longrightarrow> (\<exists>k. cand = fst (exact_pass elig v draw k))"
    "pass_ok t endgame rf tc x C (map_option fst res)" "\<forall>i. elig i \<longrightarrow> i < ht_piece_count t"
  shows "chosen_among t endgame rf tc x {i. elig i} res C"
proof -
  have "{i. i < pv_pc v \<and> elig i} = {i. elig i}" using assms(8) by (auto simp: v_def pick_snapshot_def)
  with exact_pass_card [of v elig draw] assms(3-8)
  show ?thesis by (auto simp: chosen_among_def pick_snapshot_def cand_ok_def C_def v_def)
qed

lemma picker_candidates:
  fixes peer_bf in_staging is_hashing may endgame
  assumes lay: "layout_ok (ht_layout t)" "piece_count (ht_layout t) = ht_piece_count t"
    and pick: "pick_rarest_piece t peer_bf in_staging is_hashing tc may endgame draw x = (res, x')"
  defines "v \<equiv> pick_snapshot t" and "elig \<equiv> eligible (pick_snapshot t) peer_bf in_staging is_hashing may endgame"
  shows "\<exists>C rf. chosen_among t endgame rf tc x {i. elig i} res C
    \<and> (rf \<longrightarrow> pv_have_n v < INITIAL_RANDOM_PIECES \<and> pv_pc v \<ge> INITIAL_RANDOM_MIN_PC \<and> pv_missing_n v > PICK_CANDIDATE_CAP)"
proof (cases "ht_piece_count t = 0")
  case True
  then have "{i. elig i} = {}" by (auto simp: elig_def eligible_def pick_snapshot_def)
  moreover have "res = None" using pick pick_none [OF True, of peer_bf in_staging is_hashing tc may endgame draw x] by simp
  ultimately show ?thesis by (intro exI [of _ "{}"] exI [of _ False]) (simp add: pass_ok_def chosen_among_def)
next
  case pc: False
  then have pos: "0 < ht_piece_count t" by simp
  have below: "\<forall>i. elig i \<longrightarrow> i < ht_piece_count t" by (auto simp: elig_def eligible_def pick_snapshot_def split: if_splits)
  note sz = candidate_sizes [OF lay, of peer_bf in_staging is_hashing may endgame, folded elig_def v_def]
  obtain cand cand2 rf where c: "cand_ok elig v cand" "cand_ok elig v cand2" "(\<exists>i < pv_pc v. elig i) \<longrightarrow> cand \<noteq> []"
      "pv_pc v \<le> PICK_SAMPLE_ATTEMPTS \<or> pv_missing_n v \<le> PICK_CANDIDATE_CAP \<longrightarrow> (\<exists>k. cand = fst (exact_pass elig v draw k))"
    and rf: "rf \<longleftrightarrow> \<not> endgame \<and> pv_have_n v < INITIAL_RANDOM_PIECES \<and> pv_pc v \<ge> INITIAL_RANDOM_MIN_PC
          \<and> pv_missing_n v > PICK_CANDIDATE_CAP"
    and c2: "cand2 = [] \<or> (\<exists>k. cand2 = (if rf then fst (exact_pass elig v draw k) else sort_key snd (fst (exact_pass elig v draw k))))"
    and p: "pick_rarest_piece t peer_bf in_staging is_hashing tc may endgame draw x =
        (case try_from (ht_layout t) tc (order_candidates v endgame rf cand) x of
           (Some (Some hit), x) \<Rightarrow> (Some hit, x)
         | (_, x) \<Rightarrow>
             (case try_from (ht_layout t) tc cand2 x of
                (Some (Some hit), x) \<Rightarrow> (Some hit, x) | (_, x) \<Rightarrow> (None, x)))"
    using picker_shape [OF pc, of peer_bf in_staging is_hashing may endgame draw tc x, folded v_def, folded elig_def [folded v_def]]
    by (elim exE conjE) (rule that)
  let ?C = "fst ` set cand"
  note first = first_pass_chosen [OF pos c(1,3,4) [unfolded v_def] _ below]
  obtain r1 x1 where t1: "try_from (ht_layout t) tc (order_candidates v endgame rf cand) x = (r1, x1)" by (rule prod.exhaust)
  obtain r2 x2 where t2: "try_from (ht_layout t) tc cand2 x1 = (r2, x2)" by (rule prod.exhaust)
  have "\<exists>C. chosen_among t endgame rf tc x {i. elig i} res C"
    using first_pass_ok [OF c(1) [unfolded v_def] sz [OF c(1)] t1 [unfolded v_def]]
  proof (elim disjE exE conjE)
    fix j n assume "r1 = Some (Some (j, n))" "pass_ok t endgame rf tc x ?C (Some j)"
    then have "pass_ok t endgame rf tc x ?C (map_option fst res)" using p t1 pick by simp
    then show ?thesis by (intro exI [of _ ?C] first)
  next
    assume miss: "r1 = None" "pass_ok t endgame rf tc x ?C None" and x1: "refused_to tc x x1"
    show ?thesis
    proof (cases "cand2 = []")
      case True
      then have "pass_ok t endgame rf tc x ?C (map_option fst res)" using p t1 pick miss by simp
      then show ?thesis by (intro exI [of _ ?C] first)
    next
      case False
      then obtain k where k: "cand2 = (if rf then fst (exact_pass elig v draw k) else sort_key snd (fst (exact_pass elig v draw k)))"
        using c2 by blast
      then have ne: "fst (exact_pass elig v draw k) \<noteq> []" using False by (auto split: if_splits)
      then have "cand \<noteq> []" using c(3) exact_pass_ok [of elig v draw k] below
        by (cases "fst (exact_pass elig v draw k)") (auto simp: cand_ok_def v_def pick_snapshot_def)
      then have "\<exists>i. claim_refused tc x i" using miss(2) by (cases cand) (auto simp: pass_ok_def)
      then have "pass_ok t endgame rf tc x (fst ` set (fst (exact_pass elig v draw k))) (map_option fst res)"
        using second_pass_ok [OF exact_pass_ok [of elig v draw k, unfolded v_def] sz [OF exact_pass_ok, unfolded v_def]
            t2 [unfolded k v_def], of endgame x] x1 p t1 t2 pick miss(1) by (auto simp: v_def)
      from exact_pass_chosen [OF pos ne [unfolded v_def] this [unfolded v_def] below] show ?thesis by blast
    qed
  qed
  with rf show ?thesis by blast
qed

lemma eligible_missing:
  assumes "hot_ok t" "missing_piece_count t \<le> 32"
  shows "card {i. eligible (pick_snapshot t) peer_bf in_staging is_hashing may endgame i} \<le> 32"
    "finite {i. eligible (pick_snapshot t) peer_bf in_staging is_hashing may endgame i}"
proof -
  have "{i. eligible (pick_snapshot t) peer_bf in_staging is_hashing may endgame i} \<subseteq> wanted_set t - have_set t"
    by (auto simp: eligible_def pick_snapshot_def wanted_set_def have_set_def bf.members_def split: if_splits)
  moreover have "card (wanted_set t - have_set t) \<le> 32"
    using assms by (simp add: hot_ok_def counters_ok_def missing_piece_count_def)
  moreover have "finite (wanted_set t - have_set t)" using have_set_below(2) [of t] finite_subset [of "wanted_set t"] by blast
  ultimately show "card {i. eligible (pick_snapshot t) peer_bf in_staging is_hashing may endgame i} \<le> 32"
    "finite {i. eligible (pick_snapshot t) peer_bf in_staging is_hashing may endgame i}"
    using card_mono le_trans finite_subset by metis+
qed


lemma picker_finds:
  assumes "layout_ok (ht_layout t)" "piece_count (ht_layout t) = ht_piece_count t"
    "\<And>i y. fst (tc i y)"
    "eligible (pick_snapshot t) peer_bf in_staging is_hashing may endgame i"
  shows "\<exists>j plen x'. pick_rarest_piece t peer_bf in_staging is_hashing tc may endgame draw x = (Some (j, plen), x')"
proof -
  obtain res x' where p: "pick_rarest_piece t peer_bf in_staging is_hashing tc may endgame draw x = (res, x')"
    by (rule prod.exhaust)
  obtain C rf where "chosen_among t endgame rf tc x {i. eligible (pick_snapshot t) peer_bf in_staging is_hashing may endgame i} res C"
    using picker_candidates [OF assms(1,2) p] by blast
  then have "res \<noteq> None" using assms(3,4) by (cases res) (auto simp: chosen_among_def pass_ok_def claim_refused_def)
  with p show ?thesis by auto
qed

definition test_torrent :: hot_torrent where
  "test_torrent = avail_inc 1 (new_empty 7 [] ''x'' test_layout [] 0)"

lemma test_torrent_ok: "hot_ok test_torrent" "ht_layout test_torrent = test_layout"
    "ht_piece_count test_torrent = 2" "missing_piece_count test_torrent \<le> 32"
    "eligible (pick_snapshot test_torrent) (all_set_bitfield 2) (\<lambda>_. False) (\<lambda>_. False) (\<lambda>_. True) False 0"
    "availability test_torrent 0 = 0"
proof -
  let ?n = "new_empty 7 [] ''x'' test_layout [] 0"
  have n: "hot_ok ?n" by (rule new_ok(1) [OF test_layout_small])
  have pc: "piece_count test_layout = 2" by (simp add: test_layout_def Let_def)
  show ok: "hot_ok test_torrent"
    using hot_apply_ok [OF n, of "Ev_avail_inc 1"] by (simp add: test_torrent_def)
  show lay: "ht_layout test_torrent = test_layout" and pc2: "ht_piece_count test_torrent = 2"
    by (simp_all add: test_torrent_def avail_inc_def new_empty_def finish_new_def recount_completed_payload_def pc)
  have hv: "have_set test_torrent = {}"
    by (simp add: test_torrent_def avail_inc_def new_empty_def finish_new_def recount_completed_payload_def have_set_def)
  have wt: "ht_wanted_bf test_torrent = build_wanted_bitfield test_layout (map fl_priority (files test_layout))"
    by (simp add: test_torrent_def avail_inc_def new_empty_def finish_new_def recount_completed_payload_def
        rebuild_wanted_and_missing_def Let_def)
  have "card (wanted_set test_torrent) \<le> card {..<2::nat}"
    using have_set_below(2) [of test_torrent] pc2 by (intro card_mono) auto
  then show "missing_piece_count test_torrent \<le> 32"
    using ok hv by (simp add: hot_ok_def counters_ok_def missing_piece_count_def)
  have "0 \<in> wanted_range test_layout (map fl_priority (files test_layout)) (0, files test_layout ! 0)"
    by (simp add: wanted_range_def test_layout_def Let_def)
  moreover have "(0, files test_layout ! 0) \<in> set (enumerate 0 (files test_layout))"
    by (simp add: test_layout_def Let_def)
  ultimately have "0 \<in> bf.members (build_wanted_bitfield test_layout (map fl_priority (files test_layout))) 2"
    using build_wanted_members(1) [OF test_layout_small] pc by fastforce
  then have "bitfield_get (ht_wanted_bf test_torrent) 0" by (simp add: wt bf.members_def)
  moreover have "ps_bitfield (ht_pieces test_torrent) = empty_bitfield 2" "ps_complete (ht_pieces test_torrent) = False"
    "ht_in_flight test_torrent = {}"
    by (simp_all add: test_torrent_def avail_inc_def new_empty_def finish_new_def recount_completed_payload_def pc)
  ultimately show "eligible (pick_snapshot test_torrent) (all_set_bitfield 2) (\<lambda>_. False) (\<lambda>_. False) (\<lambda>_. True) False 0"
    by (simp add: eligible_def pick_snapshot_def pc2 bitfield_get_all_set)
  show "availability test_torrent 0 = 0"
    by (simp add: availability_def test_torrent_def avail_inc_def bump_def new_empty_def finish_new_def
        recount_completed_payload_def rebuild_wanted_and_missing_def Let_def pc nth_Cons' numeral_2_eq_2)
qed


theorem picked_piece_is_eligible_witness:
  "\<exists>j plen. j < 2 \<and> wants_piece test_torrent j \<and> \<not> has_piece test_torrent j
    \<and> piece_size (ht_layout test_torrent) j = Inr plen"
proof -
  obtain j plen x' where "pick_rarest_piece test_torrent (all_set_bitfield 2) (\<lambda>_. False) (\<lambda>_. False)
      (\<lambda>i (x :: nat). (True, x)) (\<lambda>_. True) False (\<lambda>k. k) 0 = (Some (j, plen), x')"
    using picker_finds [of test_torrent "\<lambda>i (x :: nat). (True, x)" "all_set_bitfield 2" "\<lambda>_. False" "\<lambda>_. False"
      "\<lambda>_. True" False 0 "\<lambda>k. k" 0] test_torrent_ok test_layout_ok
    by (auto simp: test_layout_def Let_def)
  from picked_piece_is_eligible [OF this] show ?thesis using test_torrent_ok(3) by auto
qed

end
