(* ===== verification/Rate_Limit.thy ===== *)
theory Rate_Limit
  imports Prelude Complex_Main
begin

text \<open>
  The process-wide wire rate limiter, \<open>rate_limit.rs\<close>: a token bucket per direction, refilled
  by elapsed time up to a burst, drawn on before a block is sent or requested and refunded for
  what was not used. A time is a number of nanoseconds. The \<open>f64\<close> quantities are exact
  rationals here: their rounding is not modelled. The locks make each operation atomic.
\<close>

section \<open>The bucket\<close>

record token_bucket =
  tb_tokens :: rat
  tb_capacity :: rat
  tb_rate :: rat
  tb_last :: nat

definition BURST_SECS :: rat where
  "BURST_SECS = 3 / 2"

definition secs_f64 :: "nat \<Rightarrow> rat" where
  "secs_f64 ns = of_nat ns / 1000000000"

definition bucket_unlimited :: "nat \<Rightarrow> token_bucket" where
  "bucket_unlimited now = \<lparr>tb_tokens = 0, tb_capacity = 0, tb_rate = 0, tb_last = now\<rparr>"

definition reconfigure :: "nat \<Rightarrow> nat \<Rightarrow> token_bucket \<Rightarrow> token_bucket" where
  "reconfigure now rate_bps b =
     (if rate_bps = 0 then b\<lparr>tb_rate := 0, tb_capacity := 0, tb_tokens := 0\<rparr>
      else let rate = of_nat rate_bps; capacity = rate * BURST_SECS
           in b\<lparr>tb_rate := rate, tb_capacity := capacity, tb_tokens := capacity, tb_last := now\<rparr>)"

definition refill :: "nat \<Rightarrow> token_bucket \<Rightarrow> token_bucket" where
  "refill now b =
     (if tb_rate b \<le> 0 then b
      else let dt = secs_f64 (now - tb_last b)
           in if dt > 0
              then b\<lparr>tb_tokens := min (tb_tokens b + tb_rate b * dt) (tb_capacity b), tb_last := now\<rparr>
              else b)"

definition try_consume :: "nat \<Rightarrow> nat \<Rightarrow> token_bucket \<Rightarrow> nat \<times> token_bucket" where
  "try_consume want now b =
     (if want = 0 then (0, b)
      else let b = refill now b;
               grant = nat \<lfloor>max (min (of_nat want) (tb_tokens b)) 0\<rfloor>
           in (grant, b\<lparr>tb_tokens := tb_tokens b - of_nat grant\<rparr>))"

definition refund :: "nat \<Rightarrow> token_bucket \<Rightarrow> token_bucket" where
  "refund n b = b\<lparr>tb_tokens := min (tb_tokens b + of_nat n) (max (tb_capacity b) (of_nat n))\<rparr>"

section \<open>The limiter\<close>

record wire_limiter =
  wl_up_cap :: nat
  wl_down_cap :: nat
  wl_up :: token_bucket
  wl_down :: token_bucket

definition set_caps :: "nat \<Rightarrow> nat \<Rightarrow> nat \<Rightarrow> wire_limiter \<Rightarrow> wire_limiter" where
  "set_caps now up_bps down_bps wl =
     wl\<lparr>wl_up_cap := up_bps, wl_down_cap := down_bps,
         wl_up := reconfigure now up_bps (wl_up wl),
         wl_down := reconfigure now down_bps (wl_down wl)\<rparr>"

definition limiter_new :: "nat \<Rightarrow> nat \<Rightarrow> nat \<Rightarrow> wire_limiter" where
  "limiter_new now up_bps down_bps =
     set_caps now up_bps down_bps
       \<lparr>wl_up_cap = 0, wl_down_cap = 0, wl_up = bucket_unlimited now, wl_down = bucket_unlimited now\<rparr>"

definition upload_unlimited :: "wire_limiter \<Rightarrow> bool" where
  "upload_unlimited wl \<longleftrightarrow> wl_up_cap wl = 0"

definition download_unlimited :: "wire_limiter \<Rightarrow> bool" where
  "download_unlimited wl \<longleftrightarrow> wl_down_cap wl = 0"

definition try_consume_upload :: "nat \<Rightarrow> nat \<Rightarrow> wire_limiter \<Rightarrow> nat \<times> wire_limiter" where
  "try_consume_upload want now wl =
     (if want = 0 \<or> upload_unlimited wl then (want, wl)
      else let (g, b) = try_consume want now (wl_up wl) in (g, wl\<lparr>wl_up := b\<rparr>))"

definition refund_upload :: "nat \<Rightarrow> wire_limiter \<Rightarrow> wire_limiter" where
  "refund_upload n wl =
     (if n = 0 \<or> upload_unlimited wl then wl else wl\<lparr>wl_up := refund n (wl_up wl)\<rparr>)"

definition try_consume_download :: "nat \<Rightarrow> nat \<Rightarrow> wire_limiter \<Rightarrow> nat \<times> wire_limiter" where
  "try_consume_download want now wl =
     (if want = 0 \<or> download_unlimited wl then (want, wl)
      else let (g, b) = try_consume want now (wl_down wl) in (g, wl\<lparr>wl_down := b\<rparr>))"

definition refund_download :: "nat \<Rightarrow> wire_limiter \<Rightarrow> wire_limiter" where
  "refund_download n wl =
     (if n = 0 \<or> download_unlimited wl then wl else wl\<lparr>wl_down := refund n (wl_down wl)\<rparr>)"

text \<open>The delay in seconds, before its conversion to a \<open>Duration\<close>. The bucket is refilled on
  the way.\<close>

definition bucket_delay :: "token_bucket \<Rightarrow> nat \<Rightarrow> nat \<Rightarrow> bool \<Rightarrow> rat \<times> token_bucket" where
  "bucket_delay b need now unlimited =
     (if need = 0 \<or> unlimited then (0, b)
      else let b = refill now b
           in if tb_tokens b \<ge> of_nat need \<or> tb_rate b \<le> 0 then (0, b)
              else let deficit = of_nat need - tb_tokens b; secs = max (deficit / tb_rate b) (1 / 1000)
                   in (min secs 1, b))"

definition upload_delay_for :: "nat \<Rightarrow> nat \<Rightarrow> wire_limiter \<Rightarrow> rat \<times> wire_limiter" where
  "upload_delay_for need now wl =
     (let (d, b) = bucket_delay (wl_up wl) need now (upload_unlimited wl) in (d, wl\<lparr>wl_up := b\<rparr>))"

definition download_delay_for :: "nat \<Rightarrow> nat \<Rightarrow> wire_limiter \<Rightarrow> rat \<times> wire_limiter" where
  "download_delay_for need now wl =
     (let (d, b) = bucket_delay (wl_down wl) need now (download_unlimited wl) in (d, wl\<lparr>wl_down := b\<rparr>))"

section \<open>The bucket keeps its account\<close>

definition bucket_ok :: "token_bucket \<Rightarrow> bool" where
  "bucket_ok b \<longleftrightarrow> 0 \<le> tb_tokens b \<and> 0 < tb_rate b \<and> 0 < tb_capacity b"

lemma secs_f64_nonneg [simp]: "0 \<le> secs_f64 n"
  by (simp add: secs_f64_def)

lemma secs_f64_mono: "m \<le> n \<Longrightarrow> secs_f64 m \<le> secs_f64 n"
  by (simp add: secs_f64_def divide_right_mono)

lemma secs_f64_diff: "m \<le> n \<Longrightarrow> secs_f64 (n - m) = secs_f64 n - secs_f64 m"
  by (simp add: secs_f64_def of_nat_diff diff_divide_distrib)

lemma refill_ok:
  assumes "bucket_ok b"
  shows "bucket_ok (refill now b)" "tb_rate (refill now b) = tb_rate b"
    "tb_capacity (refill now b) = tb_capacity b" "tb_last (refill now b) = max now (tb_last b)"
    "tb_tokens (refill now b) \<le> tb_tokens b + tb_rate b * secs_f64 (now - tb_last b)"
proof -
  have r: "0 \<le> tb_rate b * secs_f64 (now - tb_last b)" using assms by (simp add: bucket_ok_def)
  show "bucket_ok (refill now b)" "tb_rate (refill now b) = tb_rate b"
    "tb_capacity (refill now b) = tb_capacity b"
    using assms r by (auto simp: refill_def bucket_ok_def Let_def)
  show "tb_tokens (refill now b) \<le> tb_tokens b + tb_rate b * secs_f64 (now - tb_last b)"
    using assms r by (auto simp: refill_def bucket_ok_def Let_def)
  show "tb_last (refill now b) = max now (tb_last b)"
    using assms by (auto simp: refill_def bucket_ok_def Let_def secs_f64_def)
qed

lemma grant_bounds:
  fixes want :: nat and t :: rat
  assumes "0 \<le> t"
  defines "g \<equiv> nat \<lfloor>max (min (of_nat want) t) 0\<rfloor>"
  shows "of_nat g \<le> t" "g \<le> want" "of_nat want \<le> t \<Longrightarrow> g = want"
    "t < of_nat want \<Longrightarrow> g < want" "t < of_nat g + 1 \<or> g = want"
proof -
  have m: "max (min (of_nat want) t) 0 = min (of_nat want) t" using assms(1) by simp
  have g0: "(of_nat g :: rat) = of_int \<lfloor>min (of_nat want) t\<rfloor>"
    unfolding g_def m using assms(1) by simp
  have fl: "of_int \<lfloor>min (of_nat want) t\<rfloor> \<le> min (of_nat want) t" by (rule of_int_floor_le)
  show "of_nat g \<le> t" using g0 fl by simp
  have "(of_nat g :: rat) \<le> of_nat want" using g0 fl by simp
  then show "g \<le> want" by (simp only: of_nat_le_iff)
  show w: "g = want" if "of_nat want \<le> t" unfolding g_def m using that by (simp add: min_absorb1)
  show "g < want" if "t < of_nat want"
  proof -
    have "(of_nat g :: rat) < of_nat want" using \<open>of_nat g \<le> t\<close> that by linarith
    then show ?thesis by (simp only: of_nat_less_iff)
  qed
  show "t < of_nat g + 1 \<or> g = want"
  proof (cases "of_nat want \<le> t")
    case False
    then have "min (of_nat want) t = t" by simp
    then show ?thesis using g0 floor_correct [of t] by simp
  qed (use w in simp)
qed

lemma try_consume_ok:
  assumes "bucket_ok b"
  shows "bucket_ok (snd (try_consume want now b))" "tb_rate (snd (try_consume want now b)) = tb_rate b"
    "tb_capacity (snd (try_consume want now b)) = tb_capacity b"
    "tb_last b \<le> tb_last (snd (try_consume want now b))"
    "tb_last (snd (try_consume want now b)) \<le> max now (tb_last b)"
    "tb_tokens (snd (try_consume want now b)) + of_nat (fst (try_consume want now b))
       \<le> tb_tokens b + tb_rate b * (secs_f64 (tb_last (snd (try_consume want now b))) - secs_f64 (tb_last b))"
proof -
  note r = refill_ok [OF assms, of now]
  have g: "of_nat (nat \<lfloor>max (min (of_nat want) (tb_tokens (refill now b))) 0\<rfloor>) \<le> tb_tokens (refill now b)"
    using r(1) by (intro grant_bounds(1)) (simp add: bucket_ok_def)
  show "bucket_ok (snd (try_consume want now b))" "tb_rate (snd (try_consume want now b)) = tb_rate b"
    "tb_capacity (snd (try_consume want now b)) = tb_capacity b"
    "tb_last b \<le> tb_last (snd (try_consume want now b))"
    "tb_last (snd (try_consume want now b)) \<le> max now (tb_last b)"
    using assms r g by (simp_all add: try_consume_def Let_def bucket_ok_def)
  have "secs_f64 (now - tb_last b) = secs_f64 (max now (tb_last b)) - secs_f64 (tb_last b)"
    by (cases "tb_last b \<le> now") (simp_all add: secs_f64_diff max_def, simp add: secs_f64_def)
  then show "tb_tokens (snd (try_consume want now b)) + of_nat (fst (try_consume want now b))
       \<le> tb_tokens b + tb_rate b * (secs_f64 (tb_last (snd (try_consume want now b))) - secs_f64 (tb_last b))"
    using r(4,5) by (simp add: try_consume_def Let_def)
qed

lemma refund_ok:
  assumes "bucket_ok b"
  shows "bucket_ok (refund n b)" "tb_rate (refund n b) = tb_rate b" "tb_capacity (refund n b) = tb_capacity b"
    "tb_last (refund n b) = tb_last b" "tb_tokens (refund n b) \<le> tb_tokens b + of_nat n"
  using assms by (auto simp: refund_def bucket_ok_def)

text \<open>What a direction has granted and taken back since it was configured at \<open>t0\<close>.\<close>

definition account_ok :: "nat \<Rightarrow> nat \<Rightarrow> nat \<Rightarrow> nat \<Rightarrow> token_bucket \<Rightarrow> bool" where
  "account_ok t0 cap granted refunded b \<longleftrightarrow>
     bucket_ok b \<and> tb_rate b = of_nat cap \<and> tb_capacity b = of_nat cap * BURST_SECS \<and> t0 \<le> tb_last b
     \<and> tb_tokens b + of_nat granted
         \<le> of_nat cap * BURST_SECS + of_nat refunded + of_nat cap * (secs_f64 (tb_last b) - secs_f64 t0)"

lemma account_new: "0 < cap \<Longrightarrow> account_ok t0 cap 0 0 (reconfigure t0 cap b)"
  by (simp add: account_ok_def reconfigure_def Let_def bucket_ok_def BURST_SECS_def)

lemma account_consume:
  assumes "account_ok t0 cap g r b"
  shows "account_ok t0 cap (g + fst (try_consume want now b)) r (snd (try_consume want now b))"
proof -
  have b: "bucket_ok b" "tb_rate b = of_nat cap" using assms by (simp_all add: account_ok_def)
  from try_consume_ok [OF b(1), of want now] assms b(2) show ?thesis
    by (auto simp: account_ok_def algebra_simps)
qed

lemma account_refund: "account_ok t0 cap g r b \<Longrightarrow> account_ok t0 cap g (r + n) (refund n b)"
  using refund_ok [of b n] by (auto simp: account_ok_def)

lemma account_refill:
  assumes "account_ok t0 cap g r b"
  shows "account_ok t0 cap g r (refill now b)"
proof -
  have b: "bucket_ok b" "tb_rate b = of_nat cap" using assms by (simp_all add: account_ok_def)
  have "secs_f64 (now - tb_last b) = secs_f64 (max now (tb_last b)) - secs_f64 (tb_last b)"
    by (cases "tb_last b \<le> now") (simp_all add: secs_f64_diff max_def, simp add: secs_f64_def)
  with refill_ok [OF b(1), of now] assms b(2) show ?thesis
    by (auto simp: account_ok_def algebra_simps)
qed

lemma account_delay: "account_ok t0 cap g r b \<Longrightarrow> account_ok t0 cap g r (snd (bucket_delay b need now u))"
  using account_refill [of t0 cap g r b now] by (auto simp: bucket_delay_def Let_def)

section \<open>Any mix of callers\<close>

datatype limiter_op =
    Up_draw nat nat
  | Up_refund nat
  | Up_delay nat nat
  | Down_draw nat nat
  | Down_refund nat
  | Down_delay nat nat

fun op_time :: "limiter_op \<Rightarrow> nat" where
  "op_time (Up_draw want now) = now"
| "op_time (Up_delay need now) = now"
| "op_time (Down_draw want now) = now"
| "op_time (Down_delay need now) = now"
| "op_time _ = 0"

record limiter_account =
  la_up_granted :: nat
  la_up_refunded :: nat
  la_down_granted :: nat
  la_down_refunded :: nat

fun limiter_step :: "limiter_op \<Rightarrow> limiter_account \<times> wire_limiter \<Rightarrow> limiter_account \<times> wire_limiter" where
  "limiter_step (Up_draw want now) (a, wl) =
     (let (g, wl) = try_consume_upload want now wl in (a\<lparr>la_up_granted := la_up_granted a + g\<rparr>, wl))"
| "limiter_step (Up_refund n) (a, wl) = (a\<lparr>la_up_refunded := la_up_refunded a + n\<rparr>, refund_upload n wl)"
| "limiter_step (Up_delay need now) (a, wl) = (a, snd (upload_delay_for need now wl))"
| "limiter_step (Down_draw want now) (a, wl) =
     (let (g, wl) = try_consume_download want now wl in (a\<lparr>la_down_granted := la_down_granted a + g\<rparr>, wl))"
| "limiter_step (Down_refund n) (a, wl) = (a\<lparr>la_down_refunded := la_down_refunded a + n\<rparr>, refund_download n wl)"
| "limiter_step (Down_delay need now) (a, wl) = (a, snd (download_delay_for need now wl))"

definition limiter_run :: "limiter_op list \<Rightarrow> nat \<Rightarrow> nat \<Rightarrow> nat \<Rightarrow> limiter_account \<times> wire_limiter" where
  "limiter_run ops t0 up down =
     fold limiter_step ops
       (\<lparr>la_up_granted = 0, la_up_refunded = 0, la_down_granted = 0, la_down_refunded = 0\<rparr>, limiter_new t0 up down)"

definition accounts_ok :: "nat \<Rightarrow> nat \<Rightarrow> nat \<Rightarrow> nat \<Rightarrow> limiter_account \<times> wire_limiter \<Rightarrow> bool" where
  "accounts_ok t0 T up down = (\<lambda>(a, wl).
     wl_up_cap wl = up \<and> wl_down_cap wl = down \<and>
     account_ok t0 up (la_up_granted a) (la_up_refunded a) (wl_up wl) \<and> tb_last (wl_up wl) \<le> T \<and>
     account_ok t0 down (la_down_granted a) (la_down_refunded a) (wl_down wl) \<and> tb_last (wl_down wl) \<le> T)"

lemma last_bounds:
  assumes "bucket_ok b" "now \<le> T" "tb_last b \<le> T"
  shows "tb_last (snd (try_consume want now b)) \<le> T" "tb_last (refund n b) \<le> T"
    "tb_last (snd (bucket_delay b need now u)) \<le> T"
  using try_consume_ok(5) [OF assms(1), of want now] refill_ok(4) [OF assms(1), of now] assms(2,3)
  by (auto simp: refund_def bucket_delay_def Let_def)

lemma accounts_step:
  assumes "accounts_ok t0 T up down s" "op_time x \<le> T" "0 < up" "0 < down"
  shows "accounts_ok t0 T up down (limiter_step x s)"
proof -
  obtain a wl where s: "s = (a, wl)" by (cases s)
  have b: "bucket_ok (wl_up wl)" "bucket_ok (wl_down wl)"
    using assms(1) by (simp_all add: s accounts_ok_def account_ok_def)
  show ?thesis
    using assms account_consume account_refund account_delay last_bounds [OF b(1)] last_bounds [OF b(2)]
    by (cases x) (auto simp: s accounts_ok_def Let_def try_consume_upload_def try_consume_download_def
        refund_upload_def refund_download_def upload_delay_for_def download_delay_for_def
        upload_unlimited_def download_unlimited_def case_prod_beta)
qed

lemma accounts_run:
  assumes "\<forall>x \<in> set ops. op_time x \<le> T" "t0 \<le> T" "0 < up" "0 < down"
  shows "accounts_ok t0 T up down (limiter_run ops t0 up down)"
proof -
  have "accounts_ok t0 T up down s \<Longrightarrow> accounts_ok t0 T up down (fold limiter_step ops s)" for s
    using assms(1)
  proof (induction ops arbitrary: s)
    case (Cons x ops)
    then have "accounts_ok t0 T up down (limiter_step x s)" using assms(3,4) by (intro accounts_step) simp_all
    with Cons show ?case by simp
  qed simp
  moreover have "accounts_ok t0 T up down
     (\<lparr>la_up_granted = 0, la_up_refunded = 0, la_down_granted = 0, la_down_refunded = 0\<rparr>, limiter_new t0 up down)"
    using assms account_new by (simp add: accounts_ok_def limiter_new_def set_caps_def) (simp add: reconfigure_def Let_def)
  ultimately show ?thesis by (simp add: limiter_run_def)
qed

lemma account_bound:
  assumes "account_ok t0 cap g r b" "tb_last b \<le> T" "t0 \<le> T"
  shows "of_nat g \<le> of_nat r + of_nat cap * (BURST_SECS + secs_f64 (T - t0))"
proof -
  have "secs_f64 (tb_last b) - secs_f64 t0 \<le> secs_f64 (T - t0)"
    using assms(2,3) secs_f64_mono [of "tb_last b" T] by (simp add: secs_f64_diff)
  then have "of_nat cap * (secs_f64 (tb_last b) - secs_f64 t0) \<le> of_nat cap * secs_f64 (T - t0)"
    by (intro mult_left_mono) simp_all
  moreover have "0 \<le> tb_tokens b" using assms(1) by (simp add: account_ok_def bucket_ok_def)
  ultimately show ?thesis using assms(1) by (simp add: account_ok_def distrib_left)
qed



section \<open>Progress\<close>

text \<open>The writer's use of the limiter (\<open>send_quantum\<close> in \<open>out_queue.rs\<close>): a block goes out only
  when its whole length is granted; a smaller grant is given back.\<close>

definition upload_attempt :: "nat \<Rightarrow> nat \<Rightarrow> wire_limiter \<Rightarrow> bool \<times> wire_limiter" where
  "upload_attempt need now wl =
     (let (got, wl) = try_consume_upload need now wl
      in if got < need then (False, if got > 0 then refund_upload got wl else wl) else (True, wl))"

fun attempts :: "nat \<Rightarrow> nat list \<Rightarrow> wire_limiter \<Rightarrow> bool list \<times> wire_limiter" where
  "attempts need [] wl = ([], wl)"
| "attempts need (now # ts) wl =
     (let (ok, wl) = upload_attempt need now wl; (oks, wl) = attempts need ts wl in (ok # oks, wl))"

definition capped :: "nat \<Rightarrow> wire_limiter \<Rightarrow> bool" where
  "capped up wl \<longleftrightarrow> 0 < up \<and> wl_up_cap wl = up \<and> bucket_ok (wl_up wl) \<and> tb_rate (wl_up wl) = of_nat up
     \<and> tb_capacity (wl_up wl) = of_nat up * BURST_SECS \<and> tb_tokens (wl_up wl) \<le> tb_capacity (wl_up wl)"

lemma refill_capped: "bucket_ok b \<Longrightarrow> tb_tokens b \<le> tb_capacity b \<Longrightarrow> tb_tokens (refill now b) \<le> tb_capacity b"
  by (auto simp: refill_def Let_def)

lemma attempt_capped:
  assumes "capped up wl"
  shows "capped up (snd (upload_attempt need now wl))"
    "of_nat up * BURST_SECS < of_nat need \<Longrightarrow> \<not> fst (upload_attempt need now wl)"
proof -
  let ?b = "refill now (wl_up wl)"
  define tk where "tk = tb_tokens ?b"
  define g where "g = nat \<lfloor>max (min (of_nat need) tk) 0\<rfloor>"
  have b: "bucket_ok (wl_up wl)" "0 < up" "wl_up_cap wl = up" "tb_capacity (wl_up wl) = of_nat up * BURST_SECS"
    "tb_rate (wl_up wl) = of_nat up"
    using assms by (simp_all add: capped_def)
  note r = refill_ok [OF b(1), of now]
  have t: "0 \<le> tk" "tk \<le> of_nat up * BURST_SECS"
    using r(1) refill_capped [OF b(1), of now] assms by (simp_all add: bucket_ok_def capped_def tk_def)
  note gb = grant_bounds [OF t(1), of need, folded g_def]
  have tc: "try_consume_upload need now wl =
      (if need = 0 then (0, wl) else (g, wl\<lparr>wl_up := ?b\<lparr>tb_tokens := tk - of_nat g\<rparr>\<rparr>))"
    using b(2,3) by (simp add: try_consume_upload_def upload_unlimited_def try_consume_def Let_def g_def tk_def)
  have c: "0 < tb_capacity ?b" "tb_capacity ?b = of_nat up * BURST_SECS" "0 < tb_rate ?b" "tb_rate ?b = of_nat up"
    using r b by (simp_all add: bucket_ok_def)
  show "capped up (snd (upload_attempt need now wl))"
  proof (cases "need = 0 \<or> g = 0 \<or> need \<le> g")
    case True
    then show ?thesis using assms b c t gb(1)
      by (auto simp: upload_attempt_def tc capped_def bucket_ok_def)
  next
    case False
    have "refund_upload g (wl\<lparr>wl_up := ?b\<lparr>tb_tokens := tk - of_nat g\<rparr>\<rparr>)
        = wl\<lparr>wl_up := ?b\<lparr>tb_tokens := min tk (max (tb_capacity ?b) (of_nat g))\<rparr>\<rparr>"
      using False b(2,3) by (simp add: refund_upload_def refund_def upload_unlimited_def)
    moreover have "min tk (max (tb_capacity ?b) (of_nat g)) = tk" using t(2) c(2) by simp
    ultimately show ?thesis using False assms b c t
      by (simp add: upload_attempt_def tc capped_def bucket_ok_def)
  qed
  show "\<not> fst (upload_attempt need now wl)" if "of_nat up * BURST_SECS < (of_nat need :: rat)"
  proof -
    have "g < need" using gb(4) t(2) that by linarith
    then show ?thesis by (simp add: upload_attempt_def tc)
  qed
qed

lemma attempt_succeeds:
  assumes "capped up wl" "of_nat need \<le> of_nat up * BURST_SECS"
    "of_nat need \<le> of_nat up * secs_f64 (now - tb_last (wl_up wl))"
  shows "fst (upload_attempt need now wl)"
proof (cases "need = 0")
  case False
  let ?b = "refill now (wl_up wl)"
  have b: "bucket_ok (wl_up wl)" "0 < up" "tb_rate (wl_up wl) = of_nat up"
    "tb_capacity (wl_up wl) = of_nat up * BURST_SECS" "wl_up_cap wl = up"
    using assms(1) by (simp_all add: capped_def)
  have "0 < of_nat up * secs_f64 (now - tb_last (wl_up wl))"
    using False assms(3) by (metis less_le_trans of_nat_0_less_iff neq0_conv)
  then have "0 < secs_f64 (now - tb_last (wl_up wl))" using b(2) by (simp add: zero_less_mult_iff)
  moreover have "0 \<le> tb_tokens (wl_up wl)" using b(1) by (simp add: bucket_ok_def)
  ultimately have "of_nat need \<le> tb_tokens ?b" using assms(2,3) b by (simp add: refill_def Let_def)
  moreover from this have "0 \<le> tb_tokens ?b" by (meson of_nat_0_le_iff order_trans)
  ultimately have "nat \<lfloor>max (min (of_nat need) (tb_tokens ?b)) 0\<rfloor> = need"
    using grant_bounds(3) by blast
  then show ?thesis
    using False b by (simp add: upload_attempt_def try_consume_upload_def try_consume_def Let_def)
qed (simp add: upload_attempt_def try_consume_upload_def)

lemma attempts_capped:
  "capped up wl \<Longrightarrow> capped up (snd (attempts need ts wl))
    \<and> (of_nat up * BURST_SECS < (of_nat need :: rat) \<longrightarrow> True \<notin> set (fst (attempts need ts wl)))"
proof (induction ts arbitrary: wl)
  case (Cons now ts)
  have "capped up (snd (upload_attempt need now wl))" by (rule attempt_capped(1) [OF Cons.prems])
  with Cons.IH [OF this] attempt_capped(2) [OF Cons.prems, of need now] show ?case
    by (auto simp: Let_def case_prod_beta)
qed simp

lemma capped_new: "0 < up \<Longrightarrow> capped up (limiter_new t0 up down)"
  by (simp add: capped_def limiter_new_def set_caps_def reconfigure_def Let_def bucket_ok_def BURST_SECS_def)

text \<open>A block gets through a capped upload exactly when its length fits the burst. After any number
  of attempts, an attempt made at least \<open>need / rate\<close> seconds after the last refill is granted
  when \<open>need \<le> 1.5 * rate\<close>; when \<open>need > 1.5 * rate\<close> no attempt ever is, however long the writer
  waits. With the standard 16 KiB block a cap from 1 to 10922 bytes per second therefore stops
  uploads instead of slowing them.\<close>

theorem upload_progress_iff_block_fits:
  assumes "0 < up" "wl = snd (attempts need ts (limiter_new t0 up down))"
  shows "(of_nat need \<le> of_nat up * BURST_SECS \<and> of_nat need \<le> of_nat up * secs_f64 (now - tb_last (wl_up wl))
            \<longrightarrow> fst (upload_attempt need now wl))
    \<and> (of_nat up * BURST_SECS < of_nat need
            \<longrightarrow> True \<notin> set (fst (attempts need ts (limiter_new t0 up down))))"
  using attempts_capped [OF capped_new [OF assms(1)], of need ts t0 down] attempt_succeeds [of up wl need now]
  unfolding assms(2) by blast

theorem upload_starves_witness:
  "True \<notin> set (fst (attempts 16384 [0, 1000000000, 1000000000000] (limiter_new 0 10922 0)))"
  using upload_progress_iff_block_fits [where up = 10922 and need = 16384
      and ts = "[0, 1000000000, 1000000000000]" and ?t0.0 = 0 and down = 0, OF _ refl]
  by (simp add: BURST_SECS_def)

end
