(* ===== verification/Peer_Download.thy ===== *)
theory Peer_Download
  imports Hot_Invariant Scheduler Rate_Limit Wire Fast
begin

text \<open>
  One connection's download half, \<open>peer/download.rs\<close> with its helpers in \<open>peer/helpers.rs\<close>:
  the claims it holds on pieces of the torrent, the suggestions of the remote, the issue of
  requests under the global rate limit, the intake of blocks and the outcome of hashing. What
  the connections of a torrent share (the torrent, its buffer pool, the process-wide limiter)
  is a record threaded through; control frames go to the caller as bytes; the hash
  pool's answer, the random draws of the picker and the clock are arguments.
\<close>

section \<open>Helpers\<close>

abbreviation SUGGEST_CAP :: nat where "SUGGEST_CAP \<equiv> 32"

definition can_request_from :: "bool \<Rightarrow> nat set \<Rightarrow> bool" where
  "can_request_from peer_choking allowed_fast \<longleftrightarrow> \<not> peer_choking \<or> allowed_fast \<noteq> {}"

text \<open>The front of the \<open>VecDeque\<close> is the head of the list; \<open>while len > cap\<close> pops the back.\<close>

definition push_suggest :: "nat list \<Rightarrow> nat \<Rightarrow> nat \<Rightarrow> nat list" where
  "push_suggest suggested index pc =
     (if index \<ge> pc then suggested
      else take SUGGEST_CAP (index # remove1 index suggested))"

fun take_suggested :: "(nat \<Rightarrow> 'x \<Rightarrow> bool \<times> 'x) \<Rightarrow> nat list \<Rightarrow> 'x \<Rightarrow> nat option \<times> nat list \<times> 'x" where
  "take_suggested elig [] x = (None, [], x)"
| "take_suggested elig (i # suggested) x =
     (case elig i x of
        (True, x) \<Rightarrow> (Some i, suggested, x)
      | (False, x) \<Rightarrow> take_suggested elig suggested x)"

text \<open>Durations and instants are nanoseconds.\<close>

definition idle_close_limit :: "bool \<Rightarrow> bool \<Rightarrow> nat \<Rightarrow> nat \<Rightarrow> nat option" where
  "idle_close_limit we_seed peer_is_seed redundant useless =
     (if we_seed \<and> peer_is_seed \<and> redundant \<noteq> 0 then Some redundant
      else if useless = 0 then None else Some useless)"

definition connection_transfer_busy :: "nat \<Rightarrow> bool \<Rightarrow> bool" where
  "connection_transfer_busy upload_pending hashing \<longleftrightarrow> upload_pending > 0 \<or> hashing"

definition note_or_expire_idle :: "nat \<Rightarrow> nat \<Rightarrow> bool \<Rightarrow> bool \<Rightarrow> nat \<Rightarrow> nat \<Rightarrow> bool \<Rightarrow> bool \<times> nat" where
  "note_or_expire_idle now last_useful we_seed peer_is_seed redundant useless busy =
     (if busy then (False, now)
      else case idle_close_limit we_seed peer_is_seed redundant useless of
        None \<Rightarrow> (False, last_useful)
      | Some limit \<Rightarrow> (now - last_useful \<ge> limit, last_useful))"

section \<open>Claims\<close>

definition claims_try :: "nat \<Rightarrow> bool \<Rightarrow> nat set \<Rightarrow> hot_torrent \<Rightarrow> bool \<times> nat set \<times> hot_torrent" where
  "claims_try index endgame held t =
     (case try_claim_piece index endgame t of
        (False, t) \<Rightarrow> (False, held, t)
      | (True, t) \<Rightarrow> (True, insert index held, t))"

definition claims_release :: "nat \<Rightarrow> nat set \<Rightarrow> hot_torrent \<Rightarrow> nat set \<times> hot_torrent" where
  "claims_release index held t =
     (held - {index},
      if index \<in> held \<and> \<not> has_piece t index then release_piece_claim index t else t)"

text \<open>\<open>Drop\<close>: the order in which the set is drained does not matter.\<close>

definition claims_drop :: "nat set \<Rightarrow> hot_torrent \<Rightarrow> hot_torrent" where
  "claims_drop held t =
     t\<lparr>ht_in_flight := {i \<in> ht_in_flight t. \<not> (i \<in> held \<and> \<not> has_piece t i)}\<rparr>"

section \<open>State\<close>

record peer_download =
  pd_peer_bf :: bytes
  pd_staging :: staging
  pd_pipeline :: nat
  pd_hashing :: "nat set"
  pd_endgame :: bool
  pd_claims :: "nat set"
  pd_peer_choking :: bool
  pd_allowed_fast :: "nat set"
  pd_suggested :: "nat list"
  pd_peer_avail :: "bytes option"

record shared =
  sh_torrent :: hot_torrent
  sh_pool :: piece_pool
  sh_limiter :: "wire_limiter option"

definition peer_download_new :: "bytes \<Rightarrow> staging \<Rightarrow> nat \<Rightarrow> bytes option \<Rightarrow> peer_download" where
  "peer_download_new peer_bf st pipeline avail =
     \<lparr>pd_peer_bf = peer_bf, pd_staging = st, pd_pipeline = pipeline, pd_hashing = {}, pd_endgame = False,
      pd_claims = {}, pd_peer_choking = True, pd_allowed_fast = {}, pd_suggested = [], pd_peer_avail = avail\<rparr>"

definition can_request :: "peer_download \<Rightarrow> bool" where
  "can_request dl \<longleftrightarrow> can_request_from (pd_peer_choking dl) (pd_allowed_fast dl)"

definition dl_push_suggest :: "nat \<Rightarrow> hot_torrent \<Rightarrow> peer_download \<Rightarrow> peer_download" where
  "dl_push_suggest index t dl =
     dl\<lparr>pd_suggested := push_suggest (pd_suggested dl) index (ht_piece_count t)\<rparr>"

definition outstanding :: "peer_download \<Rightarrow> nat" where
  "outstanding dl = total_outstanding (pd_staging dl)"

section \<open>Requests\<close>

definition cancel_frames :: "request list \<Rightarrow> bytes" where
  "cancel_frames reqs = foldl (\<lambda>out (i, b, l). append_cancel out (of_nat i) (of_nat b) (of_nat l)) [] reqs"

definition request_frames :: "request list \<Rightarrow> bytes" where
  "request_frames reqs = foldl (\<lambda>out (i, b, l). append_request out (of_nat i) (of_nat b) (of_nat l)) [] reqs"

text \<open>The result is the control bytes pushed, \<open>None\<close> when nothing was.\<close>

definition cancel_outstanding :: "peer_download \<Rightarrow> bytes option" where
  "cancel_outstanding dl =
     (let l = outstanding_list (pd_staging dl) in if l = [] then None else Some (cancel_frames l))"

text \<open>What the two closures of \<open>issue_requests\<close> capture: the suggestions, the claims and the torrent
  behind them, and the number of picks made (which selects the random draws).\<close>

record pick_ctx =
  pc_suggested :: "nat list"
  pc_claims :: "nat set"
  pc_torrent :: hot_torrent
  pc_picks :: nat

definition try_claim_ctx :: "bool \<Rightarrow> nat \<Rightarrow> pick_ctx \<Rightarrow> bool \<times> pick_ctx" where
  "try_claim_ctx endgame i c =
     (let (ok, held, t) = claims_try i endgame (pc_claims c) (pc_torrent c)
      in (ok, c\<lparr>pc_claims := held, pc_torrent := t\<rparr>))"

definition suggest_eligible ::
  "bytes \<Rightarrow> (nat \<Rightarrow> bool) \<Rightarrow> (nat \<Rightarrow> bool) \<Rightarrow> (nat \<Rightarrow> bool) \<Rightarrow> bool \<Rightarrow> nat \<Rightarrow> pick_ctx \<Rightarrow> bool \<times> pick_ctx" where
  "suggest_eligible peer_bf in_staging is_hashing may_fetch endgame i c =
     (if wants_piece (pc_torrent c) i \<and> \<not> has_piece (pc_torrent c) i \<and> bitfield_get peer_bf i
         \<and> \<not> in_staging i \<and> \<not> is_hashing i \<and> may_fetch i
      then try_claim_ctx endgame i c else (False, c))"

definition start_piece ::
  "(nat \<Rightarrow> nat \<Rightarrow> nat) \<Rightarrow> bytes \<Rightarrow> (nat \<Rightarrow> bool) \<Rightarrow> (nat \<Rightarrow> bool) \<Rightarrow> (nat \<Rightarrow> bool) \<Rightarrow> bool \<Rightarrow> pick_ctx
     \<Rightarrow> (nat \<times> nat) option \<times> pick_ctx" where
  "start_piece draws peer_bf in_staging is_hashing may_fetch endgame c =
     (case take_suggested (suggest_eligible peer_bf in_staging is_hashing may_fetch endgame) (pc_suggested c) c of
        (Some i, suggested, c) \<Rightarrow>
          (case piece_size (ht_layout (pc_torrent c)) i of
             Inl _ \<Rightarrow> (None, c\<lparr>pc_suggested := suggested\<rparr>)
           | Inr plen \<Rightarrow> (Some (i, plen), c\<lparr>pc_suggested := suggested\<rparr>))
      | (None, suggested, c) \<Rightarrow>
          let c = c\<lparr>pc_suggested := suggested, pc_picks := pc_picks c + 1\<rparr>
          in pick_rarest_piece (pc_torrent c) peer_bf in_staging is_hashing (try_claim_ctx endgame) may_fetch
               endgame (draws (pc_picks c)) c)"

text \<open>The tokens reserved up front: the number of blocks they allow, or \<open>None\<close> when they allow none.\<close>

definition reserve_blocks :: "nat \<Rightarrow> nat \<Rightarrow> wire_limiter option \<Rightarrow> nat option \<times> wire_limiter option" where
  "reserve_blocks now pipeline wlo =
     (case wlo of
        None \<Rightarrow> (Some pipeline, None)
      | Some wl \<Rightarrow>
          if download_unlimited wl then (Some pipeline, Some wl)
          else let (pre, wl) = try_consume_download (pipeline * BLOCK_SIZE) now wl
               in if pre < BLOCK_SIZE then (None, Some (if pre > 0 then refund_download pre wl else wl))
                  else (Some (pre div BLOCK_SIZE), Some wl))"

definition requested_bytes :: "request list \<Rightarrow> nat" where
  "requested_bytes reqs = sum_list (map (\<lambda>(i, b, l). l) reqs)"

definition settle_reservation :: "nat \<Rightarrow> request list \<Rightarrow> wire_limiter option \<Rightarrow> wire_limiter option" where
  "settle_reservation max_blocks reqs wlo =
     (case wlo of
        None \<Rightarrow> None
      | Some wl \<Rightarrow>
          Some (if download_unlimited wl then wl
                else if reqs = [] then refund_download (max_blocks * BLOCK_SIZE) wl
                else let actual = requested_bytes reqs; reserved = max_blocks * BLOCK_SIZE
                     in if reserved > actual then refund_download (reserved - actual) wl else wl))"

text \<open>The closures: \<open>may\<close>, the start of a piece and the release of a claim whose piece got no buffer.\<close>

definition may_request :: "peer_download \<Rightarrow> nat \<Rightarrow> bool" where
  "may_request dl i \<longleftrightarrow> \<not> pd_peer_choking dl \<or> i \<in> pd_allowed_fast dl"

definition start_for :: "(nat \<Rightarrow> nat \<Rightarrow> nat) \<Rightarrow> peer_download \<Rightarrow> staging \<Rightarrow> pick_ctx \<Rightarrow> (nat \<times> nat) option \<times> pick_ctx" where
  "start_for draws dl st c =
     start_piece draws (pd_peer_bf dl) (contains st) (\<lambda>i. i \<in> pd_hashing dl) (may_request dl) (pd_endgame dl) c"

definition abort_start :: "nat \<Rightarrow> pick_ctx \<Rightarrow> pick_ctx" where
  "abort_start i c =
     (let (held, t) = claims_release i (pc_claims c) (pc_torrent c) in c\<lparr>pc_claims := held, pc_torrent := t\<rparr>)"

definition pick_ctx_of :: "peer_download \<Rightarrow> hot_torrent \<Rightarrow> pick_ctx" where
  "pick_ctx_of dl t = \<lparr>pc_suggested = pd_suggested dl, pc_claims = pd_claims dl, pc_torrent = t, pc_picks = 0\<rparr>"

definition issue_requests ::
  "nat \<Rightarrow> (nat \<Rightarrow> nat \<Rightarrow> nat) \<Rightarrow> peer_download \<times> shared \<Rightarrow> bytes option \<times> request list \<times> peer_download \<times> shared" where
  "issue_requests now draws = (\<lambda>(dl, sh).
     case reserve_blocks now (pd_pipeline dl) (sh_limiter sh) of
       (None, wlo) \<Rightarrow> (None, [], dl, sh\<lparr>sh_limiter := wlo\<rparr>)
     | (Some max_blocks, wlo) \<Rightarrow>
         let (reqs, st, p, c) =
               take_requests now max_blocks (pd_endgame dl) (start_for draws dl) (may_request dl) abort_start
                 (pd_staging dl) (sh_pool sh) (pick_ctx_of dl (sh_torrent sh));
             dl = dl\<lparr>pd_staging := st, pd_suggested := pc_suggested c, pd_claims := pc_claims c\<rparr>;
             sh = sh\<lparr>sh_torrent := pc_torrent c, sh_pool := p, sh_limiter := settle_reservation max_blocks reqs wlo\<rparr>
         in if reqs = [] then (None, [], dl, sh) else (Some (request_frames reqs), reqs, dl, sh))"

text \<open>The pipeline counters published for the user interface are outputs only.\<close>

definition refresh_outbound ::
  "nat \<Rightarrow> (nat \<Rightarrow> nat \<Rightarrow> nat) \<Rightarrow> bool \<Rightarrow> bool \<Rightarrow> peer_download \<times> shared \<Rightarrow> bytes option \<times> peer_download \<times> shared" where
  "refresh_outbound now draws downloading need_fill = (\<lambda>(dl, sh).
     if need_fill \<and> downloading \<and> can_request dl
     then (let (out, reqs, dl, sh) = issue_requests now draws (dl, sh) in (out, dl, sh))
     else (None, dl, sh))"

section \<open>Blocks and hash results\<close>

record hash_job =
  hj_index :: nat
  hj_plen :: nat
  hj_data :: bytes
  hj_expected :: bytes
  hj_layout :: storage_layout

datatype download_error = Staging_error staging_error | Missing_piece_hash | Hash_pool_closed

text \<open>\<open>accepts\<close> is the answer of the hash pool's \<open>submit\<close>; the job handed over is a result. The
  staging state after an error of \<open>ingest\<close> is the one before it.\<close>

definition handle_piece ::
  "(hash_job \<Rightarrow> bool) \<Rightarrow> nat \<Rightarrow> nat \<Rightarrow> bytes \<Rightarrow> peer_download \<times> shared
     \<Rightarrow> (download_error + bool) \<times> hash_job option \<times> peer_download \<times> shared" where
  "handle_piece accepts index begin block = (\<lambda>(dl, sh).
     if has_piece (sh_torrent sh) index \<or> index \<in> pd_hashing dl then (Inr False, None, dl, sh)
     else case ingest_if_staged index begin block (pd_staging dl) of
       Inl e \<Rightarrow> (Inl (Staging_error e), None, dl, sh)
     | Inr (None, st) \<Rightarrow> (Inr False, None, dl\<lparr>pd_staging := st\<rparr>, sh)
     | Inr (Some False, st) \<Rightarrow> (Inr True, None, dl\<lparr>pd_staging := st\<rparr>, sh)
     | Inr (Some True, st) \<Rightarrow>
         (case take_for_hash index st (sh_pool sh) of
            (None, st, p) \<Rightarrow> (Inr True, None, dl\<lparr>pd_staging := st\<rparr>, sh\<lparr>sh_pool := p\<rparr>)
          | (Some (plen, data), st, p) \<Rightarrow>
              (case piece_hash (sh_torrent sh) index of
                 None \<Rightarrow>
                   (let (st, p) = reclaim index data st p
                    in (Inl Missing_piece_hash, None, dl\<lparr>pd_staging := st\<rparr>, sh\<lparr>sh_pool := p\<rparr>))
               | Some expected \<Rightarrow>
                   (let job = \<lparr>hj_index = index, hj_plen = plen, hj_data = data, hj_expected = expected,
                               hj_layout = ht_layout (sh_torrent sh)\<rparr>;
                        dl = dl\<lparr>pd_staging := st, pd_hashing := insert index (pd_hashing dl)\<rparr>
                    in if accepts job then (Inr True, Some job, dl, sh\<lparr>sh_pool := p\<rparr>)
                       else let (st, p) = reclaim index data st p
                            in (Inl Hash_pool_closed, None,
                                dl\<lparr>pd_staging := st, pd_hashing := pd_hashing dl - {index}\<rparr>, sh\<lparr>sh_pool := p\<rparr>)))))"

datatype hash_outcome =
    Outcome_ok nat nat bytes
  | Outcome_hash_fail nat nat bytes
  | Outcome_write_fail nat nat bytes

definition settle_hash :: "nat \<Rightarrow> bytes \<Rightarrow> peer_download \<times> shared \<Rightarrow> peer_download \<times> shared" where
  "settle_hash index data = (\<lambda>(dl, sh).
     let (st, p) = reclaim index data (pd_staging dl) (sh_pool sh)
     in (dl\<lparr>pd_hashing := pd_hashing dl - {index}, pd_staging := st\<rparr>, sh\<lparr>sh_pool := p\<rparr>))"

text \<open>The list returned holds the calls of the \<open>on_piece\<close> callback: piece and length.\<close>

fun apply_hash_outcome ::
  "hash_outcome \<Rightarrow> peer_download \<times> shared \<Rightarrow> (nat \<times> nat) list \<times> peer_download \<times> shared" where
  "apply_hash_outcome (Outcome_ok index plen data) s =
     (let (dl, sh) = settle_hash index data s
      in if has_piece (sh_torrent sh) index then ([], dl, sh)
         else ([(index, plen)], dl, sh\<lparr>sh_torrent := snd (mark_have index (sh_torrent sh))\<rparr>))"
| "apply_hash_outcome (Outcome_hash_fail index plen data) s =
     (let (dl, sh) = settle_hash index data s
      in ([], dl, sh\<lparr>sh_torrent := release_piece_claim index (sh_torrent sh)\<rparr>))"
| "apply_hash_outcome (Outcome_write_fail index plen data) s =
     (let (dl, sh) = settle_hash index data s
      in ([], dl, sh\<lparr>sh_torrent := release_piece_claim index (sh_torrent sh)\<rparr>))"

end
