(* ===== verification/Claims.thy ===== *)
theory Claims
  imports Peer_Download Picker
begin

text \<open>
  Exclusive claims on pieces (\<open>PeerPieceClaims\<close> in \<open>peer/download.rs\<close> over
  \<open>try_claim_piece\<close> in \<open>hot/pieces.rs\<close>): the connections of a torrent, each with the download half
  that holds its claims, over the one set of pieces in flight. A hash result reaches the connection that
  submitted the piece and goes through \<open>apply_hash_outcome\<close>.
\<close>

section \<open>All connections of a torrent\<close>

datatype claim_event =
    Cl_try nat nat
  | Cl_release nat nat
  | Cl_drop nat
  | Cl_hash nat hash_outcome

type_synonym claim_state = "(nat \<Rightarrow> peer_download) \<times> shared"

definition set_claims :: "nat \<Rightarrow> nat set \<Rightarrow> hot_torrent \<Rightarrow> claim_state \<Rightarrow> claim_state" where
  "set_claims p h t = (\<lambda>(dls, sh). (dls(p := (dls p)\<lparr>pd_claims := h\<rparr>), sh\<lparr>sh_torrent := t\<rparr>))"

fun claim_step :: "claim_event \<Rightarrow> claim_state \<Rightarrow> claim_state" where
  "claim_step (Cl_try p i) (dls, sh) =
     (let (ok, h, t) = claims_try i False (pd_claims (dls p)) (sh_torrent sh) in set_claims p h t (dls, sh))"
| "claim_step (Cl_release p i) (dls, sh) =
     (let (h, t) = claims_release i (pd_claims (dls p)) (sh_torrent sh) in set_claims p h t (dls, sh))"
| "claim_step (Cl_drop p) (dls, sh) =
     set_claims p {} (claims_drop (pd_claims (dls p)) (sh_torrent sh)) (dls, sh)"
| "claim_step (Cl_hash p out) (dls, sh) =
     (let (calls, dl, sh) = apply_hash_outcome out (dls p, sh) in (dls(p := dl), sh))"

definition claim_run :: "claim_event list \<Rightarrow> claim_state \<Rightarrow> claim_state" where
  "claim_run es s = fold claim_step es s"

text \<open>The invariant of one piece: a claim on it is recorded in flight and is the only one.\<close>

definition claims_inv :: "nat \<Rightarrow> nat \<Rightarrow> claim_state \<Rightarrow> bool" where
  "claims_inv i pc = (\<lambda>(dls, sh). hot_ok (sh_torrent sh) \<and> ht_piece_count (sh_torrent sh) = pc
     \<and> (i \<notin> have_set (sh_torrent sh) \<longrightarrow>
          (\<forall>p. i \<in> pd_claims (dls p) \<longrightarrow> i \<in> ht_in_flight (sh_torrent sh))
          \<and> (\<forall>p q. p \<noteq> q \<longrightarrow> \<not> (i \<in> pd_claims (dls p) \<and> i \<in> pd_claims (dls q)))))"

fun claim_event_ok :: "nat \<Rightarrow> nat \<Rightarrow> claim_event \<Rightarrow> bool" where
  "claim_event_ok i pc (Cl_hash p (Outcome_ok j plen data)) = (j < pc)"
| "claim_event_ok i pc (Cl_hash p (Outcome_hash_fail j plen data)) = (j \<noteq> i)"
| "claim_event_ok i pc (Cl_hash p (Outcome_write_fail j plen data)) = (j \<noteq> i)"
| "claim_event_ok i pc _ = True"

lemma hot_ok_in_flight:
  assumes "hot_ok t" "F \<subseteq> ht_in_flight t"
  shows "hot_ok (t\<lparr>ht_in_flight := F\<rparr>)"
proof -
  have "have_set (t\<lparr>ht_in_flight := F\<rparr>) = have_set t" "wanted_set (t\<lparr>ht_in_flight := F\<rparr>) = wanted_set t"
    by (simp_all add: have_set_def wanted_set_def)
  with assms show ?thesis unfolding hot_ok_defs by auto
qed

lemma have_set_in_flight [simp]: "have_set (t\<lparr>ht_in_flight := F\<rparr>) = have_set t"
  by (simp add: have_set_def)

text \<open>What a hash result does to the claims and the torrent.\<close>

lemma claim_step_hash:
  assumes "claim_step (Cl_hash p out) (dls, sh) = (dls', sh')"
  shows "pd_claims (dls' q) = pd_claims (dls q)"
    and "out = Outcome_ok j plen data \<Longrightarrow> sh_torrent sh' =
      (if has_piece (sh_torrent sh) j then sh_torrent sh else snd (mark_have j (sh_torrent sh)))"
    and "out = Outcome_hash_fail j plen data \<or> out = Outcome_write_fail j plen data \<Longrightarrow>
      sh_torrent sh' = release_piece_claim j (sh_torrent sh)"
  using assms by (cases out; auto simp: settle_hash_def split: prod.splits if_splits)+

lemma mark_have_claims:
  assumes "hot_ok t" "j < ht_piece_count t"
  shows "hot_ok (snd (mark_have j t))" "have_set (snd (mark_have j t)) = insert j (have_set t)"
    "ht_piece_count (snd (mark_have j t)) = ht_piece_count t" "ht_in_flight (snd (mark_have j t)) = ht_in_flight t - {j}"
  using mark_have_ok [OF assms]
  by (cases "ps_complete (ht_pieces t) \<or> bitfield_get (ps_bitfield (ht_pieces t)) j";
      simp add: mark_have_old mark_have_new release_piece_claim_def)+

lemma claim_step_inv:
  assumes inv: "claims_inv i pc s" and e: "claim_event_ok i pc e"
  shows "claims_inv i pc (claim_step e s)"
proof -
  obtain dls sh where s: "s = (dls, sh)" by (cases s)
  let ?t = "sh_torrent sh"
  have ok: "hot_ok ?t" and pc: "ht_piece_count ?t = pc" using inv by (simp_all add: s claims_inv_def)
  have has: "has_piece ?t j \<longleftrightarrow> j \<in> have_set ?t" for j using ok by (simp add: hot_ok_def has_piece_have_set)
  show ?thesis
  proof (cases e)
    case (Cl_try p j)
    show ?thesis
    proof (cases "j \<ge> pc \<or> has_piece ?t j \<or> j \<in> ht_in_flight ?t")
      case True
      then have "claim_step e s = (dls, sh)"
        using pc by (auto simp: s Cl_try claims_try_def try_claim_piece_def set_claims_def Let_def insert_absorb)
      with inv show ?thesis by (simp add: s)
    next
      case False
      then have st: "claim_step e s = set_claims p (insert j (pd_claims (dls p)))
          (?t\<lparr>ht_in_flight := insert j (ht_in_flight ?t)\<rparr>) s"
        using pc by (simp add: s Cl_try claims_try_def try_claim_piece_def Let_def)
      have "hot_ok (?t\<lparr>ht_in_flight := insert j (ht_in_flight ?t)\<rparr>)"
        using claim_ok [OF ok, of j False] False pc by (simp add: claim_state)
      then show ?thesis using inv False has unfolding st by (auto simp: s claims_inv_def set_claims_def)
    qed
  next
    case (Cl_release p j)
    have "hot_ok (release_piece_claim j ?t)" by (rule release_claim_ok [OF ok])
    then show ?thesis using inv has
      by (auto simp: s Cl_release claims_release_def claims_inv_def release_piece_claim_def set_claims_def)
  next
    case (Cl_drop p)
    have "hot_ok (claims_drop (pd_claims (dls p)) ?t)"
      unfolding claims_drop_def by (rule hot_ok_in_flight [OF ok]) auto
    then show ?thesis using inv has by (auto simp: s Cl_drop claims_drop_def claims_inv_def set_claims_def)
  next
    case (Cl_hash p out)
    obtain dls' sh' where c: "claim_step (Cl_hash p out) (dls, sh) = (dls', sh')" by (rule prod.exhaust)
    note h = claim_step_hash [OF c]
    show ?thesis
    proof (cases out)
      case (Outcome_ok j plen data)
      then have "j < ht_piece_count ?t" using e pc Cl_hash by simp
      note m = mark_have_claims [OF ok this]
      show ?thesis using inv h(1) h(2) [OF Outcome_ok] m c by (auto simp: s Cl_hash claims_inv_def)
    next
      case (Outcome_hash_fail j plen data)
      then show ?thesis using inv h(1) h(3) [of j plen data] c e release_claim_ok [OF ok, of j]
        by (auto simp: s Cl_hash claims_inv_def release_piece_claim_def)
    next
      case (Outcome_write_fail j plen data)
      then show ?thesis using inv h(1) h(3) [of j plen data] c e release_claim_ok [OF ok, of j]
        by (auto simp: s Cl_hash claims_inv_def release_piece_claim_def)
    qed
  qed
qed

lemma claim_run_inv:
  "claims_inv i pc s \<Longrightarrow> list_all (claim_event_ok i pc) es \<Longrightarrow> claims_inv i pc (claim_run es s)"
proof (induction es arbitrary: s)
  case (Cons e es)
  then have "claims_inv i pc (claim_step e s)" by (intro claim_step_inv) simp_all
  with Cons show ?case by (simp add: claim_run_def)
qed (simp add: claim_run_def)

text \<open>C15. Outside endgame a piece whose hashing never failed is fetched by one connection at a time. From a
  fresh torrent, after any interleaving of claims, releases, connections closing and hash results, as
  long as no hash or write of this piece has failed: while the torrent does not have the piece, two
  different connections never hold a claim on it, and a claim held is recorded in flight, so nobody
  else can take it. Failures of other pieces are allowed. The condition is needed, as the next
  property shows.\<close>

theorem claims_are_exclusive:
  assumes "small_layout lay" "\<forall>p. pd_claims (dls p) = {}" "sh_torrent sh = new_empty tid ih nm lay hashes key"
    and "claim_run es (dls, sh) = (dls', sh')"
    and "\<forall>p j plen data. Cl_hash p (Outcome_ok j plen data) \<in> set es \<longrightarrow> j < piece_count lay"
    and "\<forall>p plen data. Cl_hash p (Outcome_hash_fail i plen data) \<notin> set es
      \<and> Cl_hash p (Outcome_write_fail i plen data) \<notin> set es"
    and "i \<in> pd_claims (dls' p)" "\<not> has_piece (sh_torrent sh') i"
  shows "i \<in> ht_in_flight (sh_torrent sh') \<and> (\<forall>q. q \<noteq> p \<longrightarrow> i \<notin> pd_claims (dls' q))
    \<and> \<not> fst (try_claim_piece i False (sh_torrent sh'))"
proof -
  have start: "claims_inv i (piece_count lay) (dls, sh)"
    using new_ok(1) [OF assms(1)] assms(2,3)
    by (simp add: claims_inv_def) (simp add: new_empty_def finish_new_def recount_completed_payload_def)
  have "claim_event_ok i (piece_count lay) e" if "e \<in> set es" for e
    using that assms(5,6) by (cases "(i, piece_count lay, e)" rule: claim_event_ok.cases) auto
  then have "list_all (claim_event_ok i (piece_count lay)) es" by (simp add: list_all_iff)
  from claim_run_inv [OF start this] have inv: "claims_inv i (piece_count lay) (dls', sh')" by (simp add: assms(4))
  then have "i \<notin> have_set (sh_torrent sh')"
    using assms(8) has_piece_have_set [of "sh_torrent sh'" i] by (simp add: claims_inv_def hot_ok_def)
  with inv assms(7) have "i \<in> ht_in_flight (sh_torrent sh')" "\<forall>q. q \<noteq> p \<longrightarrow> i \<notin> pd_claims (dls' q)"
    by (auto simp: claims_inv_def)
  then show ?thesis by (simp add: try_claim_piece_def Let_def)
qed

lemma fresh_test_torrent:
  fixes t :: hot_torrent
  assumes "t = new_empty 7 [] ''x'' test_layout [] 0"
  shows "ht_piece_count t = 2" "ps_complete (ht_pieces t) = False" "ps_bitfield (ht_pieces t) = empty_bitfield 2"
    "ht_in_flight t = {}"
  using assms by (simp_all add: new_empty_def finish_new_def recount_completed_payload_def test_layout_def Let_def)

lemma try_claim_fresh:
  assumes "ht_piece_count t = 2" "ps_complete (ht_pieces t) = False" "ps_bitfield (ht_pieces t) = empty_bitfield 2"
  shows "i < 2 \<Longrightarrow> try_claim_piece i False t = (i \<notin> ht_in_flight t, t\<lparr>ht_in_flight := insert i (ht_in_flight t)\<rparr>)"
    "\<not> has_piece t i"
  using assms by (simp_all add: try_claim_piece_def has_piece_def Let_def)

definition test_conns :: "nat \<Rightarrow> peer_download" where
  "test_conns = (\<lambda>p. peer_download_new [] (staging_empty 16) 1 None)"

definition test_shared :: shared where
  "test_shared = \<lparr>sh_torrent = new_empty 7 [] ''x'' test_layout [] 0, sh_pool = pool_new 16 0, sh_limiter = None\<rparr>"

theorem claims_are_exclusive_witness:
  "\<exists>dls' sh'. claim_run [Cl_try 0 0, Cl_hash 0 (Outcome_hash_fail 0 1 []), Cl_try 0 1, Cl_try 1 1] (test_conns, test_shared)
       = (dls', sh')
     \<and> 1 \<in> pd_claims (dls' 0) \<and> 1 \<notin> pd_claims (dls' 1)"
proof -
  let ?es = "[Cl_try 0 0, Cl_hash 0 (Outcome_hash_fail 0 1 []), Cl_try 0 1, Cl_try 1 1]"
  note f = fresh_test_torrent [OF refl]
  obtain dls' sh' where s: "claim_run ?es (test_conns, test_shared) = (dls', sh')" by (rule prod.exhaust)
  then have "pd_claims (dls' 0) = {0, 1}" "sh_torrent sh' = (sh_torrent test_shared)\<lparr>ht_in_flight := {1}\<rparr>"
    by (auto simp: claim_run_def claims_try_def try_claim_fresh f set_claims_def test_conns_def test_shared_def
        settle_hash_def reclaim_def peer_download_new_def staging_empty_def release_piece_claim_def Let_def)
  moreover have "\<not> has_piece ((sh_torrent test_shared)\<lparr>ht_in_flight := {1}\<rparr>) 1"
    using f by (intro try_claim_fresh(2)) (simp_all add: test_shared_def)
  moreover have "\<forall>p. pd_claims (test_conns p) = {}" by (simp add: test_conns_def peer_download_new_def)
  moreover have "sh_torrent test_shared = new_empty 7 [] ''x'' test_layout [] 0" by (simp add: test_shared_def)
  ultimately have "1 \<notin> pd_claims (dls' 1)"
    using claims_are_exclusive [OF test_layout_small _ _ s, of 7 "[]" "''x''" "[]" 0 1 0] by simp
  with s \<open>pd_claims (dls' 0) = {0, 1}\<close> show ?thesis by blast
qed

text \<open>C16. A failed hash breaks the exclusion. \<open>apply_hash_outcome\<close> releases the torrent's claim on a
  piece whose hash or write failed but leaves the piece in the connection's own set. So for every missing
  piece nobody has claimed and any three connections: one claims it, its hash fails, the second
  claims it, the first closes, and its destructor releases the claim of the second; then the third
  can claim it too, and two connections fetch the same missing piece outside endgame.\<close>

theorem failed_hash_breaks_exclusion:
  assumes "i < ht_piece_count (sh_torrent sh)" "\<not> has_piece (sh_torrent sh) i" "i \<notin> ht_in_flight (sh_torrent sh)"
    and "p \<noteq> q" "q \<noteq> r" "p \<noteq> r"
    and "out = Outcome_hash_fail i plen data \<or> out = Outcome_write_fail i plen data"
  shows "\<exists>dls' sh'. claim_run [Cl_try p i, Cl_hash p out, Cl_try q i, Cl_drop p, Cl_try r i] (dls, sh) = (dls', sh')
    \<and> i \<in> pd_claims (dls' q) \<and> i \<in> pd_claims (dls' r) \<and> \<not> has_piece (sh_torrent sh') i"
proof -
  let ?es = "[Cl_try q i, Cl_drop p, Cl_try r i]"
  have has: "has_piece (t\<lparr>ht_in_flight := F\<rparr>) j = has_piece t j" for t F j by (simp add: has_piece_def)
  let ?h = "insert i (pd_claims (dls p))" and ?F = "ht_in_flight (sh_torrent sh)"
  obtain dls1 sh1 where c: "claim_step (Cl_hash p out)
      (set_claims p ?h ((sh_torrent sh)\<lparr>ht_in_flight := insert i ?F\<rparr>) (dls, sh)) = (dls1, sh1)" by (rule prod.exhaust)
  have one: "claim_step (Cl_try p i) (dls, sh) = set_claims p ?h ((sh_torrent sh)\<lparr>ht_in_flight := insert i ?F\<rparr>) (dls, sh)"
    using assms(1-3) by (simp add: claims_try_def try_claim_piece_def Let_def)
  note h = claim_step_hash [OF c [unfolded set_claims_def prod.case]]
  have d1: "pd_claims (dls1 p) = ?h" using h(1) [of p] by simp
  have t1: "sh_torrent sh1 = (sh_torrent sh)\<lparr>ht_in_flight := ?F\<rparr>"
    using h(3) [OF assms(7)] assms(3) by (simp add: release_piece_claim_def)
  have "claim_run (Cl_try p i # Cl_hash p out # ?es) (dls, sh) = claim_run ?es (dls1, sh1)"
    using one c by (simp add: claim_run_def)
  then show ?thesis
    using assms(1-6) d1 t1 has
    by (auto simp: claim_run_def claims_try_def try_claim_piece_def set_claims_def claims_drop_def Let_def)
qed

theorem failed_hash_breaks_exclusion_witness:
  "\<exists>dls' sh'. claim_run [Cl_try 0 1, Cl_hash 0 (Outcome_hash_fail 1 1 []), Cl_try 1 1, Cl_drop 0, Cl_try 2 1]
       (test_conns, test_shared) = (dls', sh')
     \<and> 1 \<in> pd_claims (dls' 1) \<and> 1 \<in> pd_claims (dls' 2)"
proof -
  note f = fresh_test_torrent [OF refl]
  have "1 < ht_piece_count (sh_torrent test_shared)" "\<not> has_piece (sh_torrent test_shared) 1"
    "1 \<notin> ht_in_flight (sh_torrent test_shared)"
    using f by (simp_all add: test_shared_def try_claim_fresh(2) [OF f(1-3)])
  from failed_hash_breaks_exclusion [OF this, of 0 1 2 "Outcome_hash_fail 1 1 []" 1 "[]" test_conns] show ?thesis by auto
qed

end
