(* ===== verification/Pipeline.thy ===== *)
theory Pipeline
  imports Rate_Limit Staging
begin

text \<open>
  Sizing of the request pipeline, \<open>runtime/pipeline.rs\<close>: a smoothed download rate gives the number
  of blocks to keep outstanding; growth is immediate, shrinking has a hold time. Rates and
  factors are exact rationals where the code has \<open>f64\<close>; instants are nanoseconds.
\<close>

abbreviation MIN_PIPELINE :: nat where "MIN_PIPELINE \<equiv> 2"
abbreviation DEFAULT_PIPELINE :: nat where "DEFAULT_PIPELINE \<equiv> 16"
abbreviation MAX_PIPELINE :: nat where "MAX_PIPELINE \<equiv> 8192"

definition REQUEST_QUEUE_TIME_SECS :: rat where "REQUEST_QUEUE_TIME_SECS = 5"
definition PIPELINE_RATE_ALPHA :: rat where "PIPELINE_RATE_ALPHA = 1 / 4"
definition PIPELINE_SAMPLE_SECS :: rat where "PIPELINE_SAMPLE_SECS = 1 / 2"
definition PIPELINE_SHRINK_RATIO :: rat where "PIPELINE_SHRINK_RATIO = 85 / 100"
definition PIPELINE_SHRINK_HOLD_SECS :: rat where "PIPELINE_SHRINK_HOLD_SECS = 2"

definition clamp :: "'a::linorder \<Rightarrow> 'a \<Rightarrow> 'a \<Rightarrow> 'a" where
  "clamp lo hi x = (if x < lo then lo else if hi < x then hi else x)"

definition desired_pipeline_blocks :: "nat \<Rightarrow> rat \<Rightarrow> nat \<Rightarrow> nat \<Rightarrow> nat" where
  "desired_pipeline_blocks rate_bps queue_time_secs mn mx =
     (let mn = max mn 1; mx = max mx mn
      in if rate_bps = 0 \<or> queue_time_secs \<le> 0 then mn
         else let blocks = queue_time_secs * of_nat rate_bps / of_nat BLOCK_SIZE;
                  n = (if blocks > 0 then nat (round blocks) else mn)
              in clamp mn mx n)"

record pipeline_tuning =
  pt_min :: nat
  pt_max :: nat
  pt_queue_time_secs :: rat
  pt_alpha :: rat
  pt_sample_secs :: rat
  pt_shrink_ratio :: rat
  pt_shrink_hold_secs :: rat

definition with_max :: "nat \<Rightarrow> pipeline_tuning" where
  "with_max pipeline_max =
     (let mx = max pipeline_max MIN_PIPELINE
      in \<lparr>pt_min = MIN_PIPELINE, pt_max = mx, pt_queue_time_secs = REQUEST_QUEUE_TIME_SECS,
          pt_alpha = PIPELINE_RATE_ALPHA, pt_sample_secs = PIPELINE_SAMPLE_SECS,
          pt_shrink_ratio = PIPELINE_SHRINK_RATIO, pt_shrink_hold_secs = PIPELINE_SHRINK_HOLD_SECS\<rparr>)"

record pipeline_state =
  ps_smooth_bps :: nat
  ps_rate_bytes :: nat
  ps_rate_at :: nat
  ps_pipeline :: nat
  ps_shrink_since :: "nat option"
  ps_rate_seeded :: bool

definition pipeline_state_new :: "nat \<Rightarrow> nat \<Rightarrow> pipeline_tuning \<Rightarrow> pipeline_state" where
  "pipeline_state_new now initial tuning =
     \<lparr>ps_smooth_bps = 0, ps_rate_bytes = 0, ps_rate_at = now,
      ps_pipeline = max (min (max initial (pt_min tuning)) (pt_max tuning)) 1,
      ps_shrink_since = None, ps_rate_seeded = False\<rparr>"

datatype pipeline_outcome = Unchanged | Grew nat | Shrank nat

text \<open>The new rate sample.\<close>

definition sample_rate :: "nat \<Rightarrow> nat \<Rightarrow> pipeline_tuning \<Rightarrow> pipeline_state \<Rightarrow> pipeline_state" where
  "sample_rate wire_down now tuning s =
     (let delta = wire_down - ps_rate_bytes s;
          dt = max (secs_f64 (now - ps_rate_at s)) (1 / 1000000);
          inst_bps = nat \<lfloor>of_nat delta / dt\<rfloor>;
          alpha = clamp (1 / 100) 1 (pt_alpha tuning);
          s = s\<lparr>ps_rate_bytes := wire_down, ps_rate_at := now\<rparr>
      in if \<not> ps_rate_seeded s then s\<lparr>ps_smooth_bps := inst_bps, ps_rate_seeded := True\<rparr>
         else let sm = (1 - alpha) * of_nat (ps_smooth_bps s) + alpha * of_nat inst_bps
              in s\<lparr>ps_smooth_bps := nat \<lfloor>max sm 0\<rfloor>\<rparr>)"

definition resize_pipeline :: "nat \<Rightarrow> nat \<Rightarrow> pipeline_tuning \<Rightarrow> pipeline_state \<Rightarrow> pipeline_state \<times> pipeline_outcome" where
  "resize_pipeline desired now tuning s =
     (let current = max (ps_pipeline s) 1
      in if desired > current
         then (s\<lparr>ps_pipeline := desired, ps_shrink_since := None\<rparr>, Grew desired)
         else
           let shrink_floor = nat \<lfloor>of_nat current * clamp (1 / 100) 1 (pt_shrink_ratio tuning)\<rfloor>
           in if desired < max shrink_floor (pt_min tuning) then
                (case ps_shrink_since s of
                   None \<Rightarrow> (s\<lparr>ps_shrink_since := Some now\<rparr>, Unchanged)
                 | Some since \<Rightarrow>
                     if secs_f64 (now - since) < max (pt_shrink_hold_secs tuning) 0 then (s, Unchanged)
                     else let nxt = max desired (pt_min tuning)
                          in if nxt < current
                             then (s\<lparr>ps_pipeline := nxt, ps_shrink_since := None\<rparr>, Shrank nxt)
                             else (s\<lparr>ps_shrink_since := None\<rparr>, Unchanged))
              else (s\<lparr>ps_shrink_since := None\<rparr>, Unchanged))"

definition adapt_pipeline :: "nat \<Rightarrow> nat \<Rightarrow> pipeline_tuning \<Rightarrow> pipeline_state \<Rightarrow> pipeline_state \<times> pipeline_outcome" where
  "adapt_pipeline wire_down now tuning s =
     (if secs_f64 (now - ps_rate_at s) < max (pt_sample_secs tuning) (5 / 100) then (s, Unchanged)
      else let s = sample_rate wire_down now tuning s;
               desired = desired_pipeline_blocks (ps_smooth_bps s) (pt_queue_time_secs tuning) (pt_min tuning) (pt_max tuning)
           in resize_pipeline desired now tuning s)"

definition clamp_initial_pipeline :: "nat \<Rightarrow> nat \<Rightarrow> nat" where
  "clamp_initial_pipeline initial mx =
     (let mx = max mx MIN_PIPELINE in max (min (max initial MIN_PIPELINE) mx) 1)"

section \<open>Properties\<close>

definition depth_ok :: "pipeline_tuning \<Rightarrow> pipeline_state \<Rightarrow> bool" where
  "depth_ok tuning s \<longleftrightarrow> pt_min tuning \<le> ps_pipeline s \<and> ps_pipeline s \<le> pt_max tuning"

lemma desired_bounds:
  assumes "1 \<le> mn" "mn \<le> mx"
  shows "mn \<le> desired_pipeline_blocks r q mn mx" "desired_pipeline_blocks r q mn mx \<le> mx"
  using assms by (auto simp: desired_pipeline_blocks_def clamp_def Let_def)

lemma sample_rate_same [simp]:
  "ps_pipeline (sample_rate w now tuning s) = ps_pipeline s"
  "ps_shrink_since (sample_rate w now tuning s) = ps_shrink_since s"
  by (simp_all add: sample_rate_def Let_def)

lemma resize_pipeline_facts:
  assumes "1 \<le> pt_min tuning" "pt_min tuning \<le> d" "d \<le> pt_max tuning" "depth_ok tuning s"
    "resize_pipeline d now tuning s = (s', out)"
  shows "depth_ok tuning s'"
    and "ps_pipeline s < d \<Longrightarrow> out = Grew d \<and> ps_pipeline s' = d"
    and "d \<le> ps_pipeline s \<Longrightarrow> out = Unchanged \<and> ps_pipeline s' = ps_pipeline s \<or>
      (\<exists>since. ps_shrink_since s = Some since \<and> pt_shrink_hold_secs tuning \<le> secs_f64 (now - since)
         \<and> d < ps_pipeline s \<and> out = Shrank d \<and> ps_pipeline s' = d)"
proof -
  have c: "max (ps_pipeline s) 1 = ps_pipeline s" "max d (pt_min tuning) = d"
    using assms(1,2,4) by (simp_all add: depth_ok_def)
  show "depth_ok tuning s'"
    using assms unfolding resize_pipeline_def c Let_def
    by (auto simp: depth_ok_def split: if_splits option.splits)
  show "ps_pipeline s < d \<Longrightarrow> out = Grew d \<and> ps_pipeline s' = d"
    using assms(5) unfolding resize_pipeline_def c Let_def by auto
  show "d \<le> ps_pipeline s \<Longrightarrow> out = Unchanged \<and> ps_pipeline s' = ps_pipeline s \<or>
      (\<exists>since. ps_shrink_since s = Some since \<and> pt_shrink_hold_secs tuning \<le> secs_f64 (now - since)
         \<and> d < ps_pipeline s \<and> out = Shrank d \<and> ps_pipeline s' = d)"
    using assms(5) unfolding resize_pipeline_def c Let_def
    by (auto split: if_splits option.splits)
qed

definition pipeline_run :: "pipeline_tuning \<Rightarrow> (nat \<times> nat) list \<Rightarrow> pipeline_state \<Rightarrow> pipeline_state" where
  "pipeline_run tuning samples s = foldl (\<lambda>s (wire_down, now). fst (adapt_pipeline wire_down now tuning s)) s samples"

lemma adapt_depth_ok:
  assumes "1 \<le> pt_min tuning" "pt_min tuning \<le> pt_max tuning" "depth_ok tuning s"
  shows "depth_ok tuning (fst (adapt_pipeline w now tuning s))"
proof (cases "secs_f64 (now - ps_rate_at s) < max (pt_sample_secs tuning) (5 / 100)")
  case False
  let ?s = "sample_rate w now tuning s"
  let ?d = "desired_pipeline_blocks (ps_smooth_bps ?s) (pt_queue_time_secs tuning) (pt_min tuning) (pt_max tuning)"
  have "depth_ok tuning ?s" using assms(3) by (simp add: depth_ok_def)
  from resize_pipeline_facts(1) [OF assms(1) desired_bounds [OF assms(1,2)] this, of _ _ now "fst (resize_pipeline ?d now tuning ?s)"
      "snd (resize_pipeline ?d now tuning ?s)"]
  show ?thesis using False by (simp add: adapt_pipeline_def Let_def)
qed (simp add: adapt_pipeline_def assms(3))

text \<open>The pipeline follows the rate inside its bounds. After any sequence of samples from a fresh state
  the depth lies between the minimum and the configured maximum; the next sample that is due
  raises it at once to the bandwidth-delay target when that is larger, and lowers it, to the
  target, only when the target has stayed low for the hold time.\<close>

theorem pipeline_depth_bounded:
  assumes "tuning = with_max pipeline_max" "s = pipeline_run tuning samples (pipeline_state_new t0 initial tuning)"
    "PIPELINE_SAMPLE_SECS \<le> secs_f64 (now - ps_rate_at s)" "adapt_pipeline wire_down now tuning s = (s', out)"
    "d = desired_pipeline_blocks (ps_smooth_bps s') REQUEST_QUEUE_TIME_SECS MIN_PIPELINE (pt_max tuning)"
  shows "MIN_PIPELINE \<le> ps_pipeline s' \<and> ps_pipeline s' \<le> max pipeline_max MIN_PIPELINE
    \<and> (ps_pipeline s < d \<longrightarrow> ps_pipeline s' = d \<and> out = Grew d)
    \<and> (ps_pipeline s' < ps_pipeline s \<longrightarrow> ps_pipeline s' = d \<and> out = Shrank d \<and>
        (\<exists>since. ps_shrink_since s = Some since \<and> PIPELINE_SHRINK_HOLD_SECS \<le> secs_f64 (now - since)))"
proof -
  have tun: "1 \<le> pt_min tuning" "pt_min tuning \<le> pt_max tuning" "pt_min tuning = MIN_PIPELINE"
    "pt_max tuning = max pipeline_max MIN_PIPELINE" "pt_queue_time_secs tuning = REQUEST_QUEUE_TIME_SECS"
    "pt_shrink_hold_secs tuning = PIPELINE_SHRINK_HOLD_SECS" "pt_sample_secs tuning = PIPELINE_SAMPLE_SECS"
    using assms(1) by (simp_all add: with_max_def Let_def)
  have "depth_ok tuning (pipeline_state_new t0 initial tuning)"
    using tun(1,2) by (auto simp: depth_ok_def pipeline_state_new_def)
  moreover have "depth_ok tuning u \<Longrightarrow> depth_ok tuning (pipeline_run tuning samples u)" for u
    unfolding pipeline_run_def by (induction samples arbitrary: u) (auto intro: adapt_depth_ok [OF tun(1,2)])
  ultimately have ok: "depth_ok tuning s" by (simp add: assms(2))
  let ?s = "sample_rate wire_down now tuning s"
  have due: "\<not> secs_f64 (now - ps_rate_at s) < max (pt_sample_secs tuning) (5 / 100)"
    using assms(3) tun(7) by (simp add: PIPELINE_SAMPLE_SECS_def)
  have ok1: "depth_ok tuning ?s" using ok by (simp add: depth_ok_def)
  let ?d = "desired_pipeline_blocks (ps_smooth_bps ?s) REQUEST_QUEUE_TIME_SECS MIN_PIPELINE (pt_max tuning)"
  have r: "resize_pipeline ?d now tuning ?s = (s', out)"
    using assms(4) due by (simp add: adapt_pipeline_def Let_def tun(3,5))
  have "ps_smooth_bps s' = ps_smooth_bps ?s"
    using r by (auto simp: resize_pipeline_def Let_def split: if_splits option.splits)
  then have d: "?d = d" using assms(5) by simp
  have db: "pt_min tuning \<le> ?d" "?d \<le> pt_max tuning"
    using desired_bounds [OF tun(1,2)] tun(3) by simp_all
  note f = resize_pipeline_facts [OF tun(1) db ok1 r]
  have "MIN_PIPELINE \<le> ps_pipeline s'" "ps_pipeline s' \<le> max pipeline_max MIN_PIPELINE"
    using f(1) tun(3,4) by (simp_all add: depth_ok_def)
  moreover have "ps_pipeline s < d \<longrightarrow> ps_pipeline s' = d \<and> out = Grew d" using f(2) unfolding d by simp
  moreover have "ps_pipeline s' = d \<and> out = Shrank d \<and>
        (\<exists>since. ps_shrink_since s = Some since \<and> PIPELINE_SHRINK_HOLD_SECS \<le> secs_f64 (now - since))"
    if "ps_pipeline s' < ps_pipeline s"
  proof (cases "ps_pipeline s < d")
    case True
    then show ?thesis using f(2) that unfolding d by simp
  next
    case False
    then show ?thesis using f(3) that tun(6) unfolding d by auto
  qed
  ultimately show ?thesis by blast
qed

theorem pipeline_depth_witness:
  "\<exists>s' out. adapt_pipeline 1000000 500000000 (with_max 8192) (pipeline_state_new 0 16 (with_max 8192)) = (s', out)
     \<and> ps_pipeline s' \<le> 8192 \<and> 2 \<le> ps_pipeline s'"
proof -
  let ?s = "pipeline_state_new 0 16 (with_max 8192)"
  obtain s' out where a: "adapt_pipeline 1000000 500000000 (with_max 8192) ?s = (s', out)" by (rule prod.exhaust)
  have "?s = pipeline_run (with_max 8192) [] ?s" by (simp add: pipeline_run_def)
  moreover have "PIPELINE_SAMPLE_SECS \<le> secs_f64 (500000000 - ps_rate_at ?s)"
    by (simp add: PIPELINE_SAMPLE_SECS_def secs_f64_def pipeline_state_new_def)
  ultimately show ?thesis using pipeline_depth_bounded [OF refl _ _ a refl] a by auto
qed

end
