(* ===== verification/Peer_Id.thy ===== *)
theory Peer_Id
  imports Bencode
begin

text \<open>
  Client labels, \<open>wire/peer_id.rs\<close>: the label guessed from the 20 bytes of a peer id (Azureus,
  Mainline and Shadow style) and the version string of the extension handshake. A label is a
  list of code points.
\<close>

section \<open>Text\<close>

text \<open>\<open>char::is_whitespace\<close> and \<open>str::trim\<close>.\<close>

definition is_space :: "nat \<Rightarrow> bool" where
  "is_space c \<longleftrightarrow> (9 \<le> c \<and> c \<le> 13) \<or> (0x2000 \<le> c \<and> c \<le> 0x200A) \<or>
     c \<in> {32, 0x85, 0xA0, 0x1680, 0x2028, 0x2029, 0x202F, 0x205F, 0x3000}"

definition trim_by :: "('a \<Rightarrow> bool) \<Rightarrow> 'a list \<Rightarrow> 'a list" where
  "trim_by P s = rev (dropWhile P (rev (dropWhile P s)))"

definition trim :: "nat list \<Rightarrow> nat list" where
  "trim s = trim_by is_space s"

definition is_ascii_digit :: "byte \<Rightarrow> bool" where
  "is_ascii_digit b \<longleftrightarrow> 48 \<le> unat b \<and> unat b \<le> 57"

definition is_ascii_alphanumeric :: "byte \<Rightarrow> bool" where
  "is_ascii_alphanumeric b \<longleftrightarrow> is_ascii_digit b \<or> (65 \<le> unat b \<and> unat b \<le> 90) \<or> (97 \<le> unat b \<and> unat b \<le> 122)"

definition is_ascii_graphic :: "byte \<Rightarrow> bool" where
  "is_ascii_graphic b \<longleftrightarrow> 33 \<le> unat b \<and> unat b \<le> 126"

definition bytes_cps :: "bytes \<Rightarrow> nat list" where
  "bytes_cps bs = map unat bs"

section \<open>Labels from the peer id\<close>

definition azureus_clients :: "(string \<times> nat list) list" where
  "azureus_clients = [
     (''7T'', ascii_cps ''aTorrent''),
     (''AB'', ascii_cps ''AnyEvent::BitTorrent''),
     (''AG'', ascii_cps ''Ares''),
     (''A~'', ascii_cps ''Ares''),
     (''AR'', ascii_cps ''Arctic''),
     (''AT'', ascii_cps ''Artemis''),
     (''AV'', ascii_cps ''Avicora''),
     (''AX'', ascii_cps ''BitPump''),
     (''AZ'', ascii_cps ''Azureus''),
     (''BB'', ascii_cps ''BitBuddy''),
     (''BC'', ascii_cps ''BitComet''),
     (''BE'', ascii_cps ''BitTorrent SDK''),
     (''BF'', ascii_cps ''Bitflu''),
     (''BG'', ascii_cps ''BTG''),
     (''BL'', ascii_cps ''BitBlinder''),
     (''BP'', ascii_cps ''BitTorrent Pro''),
     (''BR'', ascii_cps ''BitRocket''),
     (''BS'', ascii_cps ''BTSlave''),
     (''BT'', ascii_cps ''Mainline''),
     (''BW'', ascii_cps ''BitWombat''),
     (''BX'', ascii_cps ''Bittorrent X''),
     (''CD'', ascii_cps ''Enhanced CTorrent''),
     (''CT'', ascii_cps ''CTorrent''),
     (''DE'', ascii_cps ''Deluge''),
     (''DP'', ascii_cps ''Propagate Data Client''),
     (''EB'', ascii_cps ''EBit''),
     (''ES'', ascii_cps ''electric sheep''),
     (''FC'', ascii_cps ''FileCroc''),
     (''FD'', ascii_cps ''Free Download Manager''),
     (''FT'', ascii_cps ''FoxTorrent''),
     (''FX'', ascii_cps ''Freebox BitTorrent''),
     (''GS'', ascii_cps ''GSTorrent''),
     (''HK'', ascii_cps ''Hekate''),
     (''HL'', ascii_cps ''Halite''),
     (''HM'', ascii_cps ''hMule''),
     (''HN'', ascii_cps ''Hydranode''),
     (''IL'', ascii_cps ''iLivid''),
     (''JS'', ascii_cps ''Justseed.it''),
     (''JT'', ascii_cps ''JavaTorrent''),
     (''KG'', ascii_cps ''KGet''),
     (''KT'', ascii_cps ''KTorrent''),
     (''LC'', ascii_cps ''LeechCraft''),
     (''LH'', ascii_cps ''LH-ABC''),
     (''LP'', ascii_cps ''Lphant''),
     (''LT'', ascii_cps ''libtorrent''),
     (''lt'', ascii_cps ''libtorrent''),
     (''LW'', ascii_cps ''LimeWire''),
     (''MK'', ascii_cps ''Meerkat''),
     (''MO'', ascii_cps ''MonoTorrent''),
     (''MP'', ascii_cps ''MooPolice''),
     (''MR'', ascii_cps ''Miro''),
     (''MT'', ascii_cps ''MoonlightTorrent''),
     (''NB'', ascii_cps ''Net::BitTorrent''),
     (''NX'', ascii_cps ''Net Transport''),
     (''OS'', ascii_cps ''OneSwarm''),
     (''OT'', ascii_cps ''OmegaTorrent''),
     (''PB'', ascii_cps ''Protocol::BitTorrent''),
     (''PD'', ascii_cps ''Pando''),
     (''PI'', ascii_cps ''PicoTorrent''),
     (''PT'', ascii_cps ''PHPTracker''),
     (''qB'', ascii_cps ''qBittorrent''),
     (''QD'', ascii_cps ''QQDownload''),
     (''QT'', ascii_cps ''Qt 4 Torrent''),
     (''RT'', ascii_cps ''Retriever''),
     (''RZ'', ascii_cps ''RezTorrent''),
     (''S~'', ascii_cps ''Shareaza alpha/beta''),
     (''SB'', ascii_cps ''SwiftBit''),
     (''SD'', ascii_cps ''Xunlei''),
     (''SM'', ascii_cps ''SoMud''),
     (''SP'', ascii_cps ''BitSpirit''),
     (''SS'', ascii_cps ''SwarmScope''),
     (''ST'', ascii_cps ''SymTorrent''),
     (''st'', ascii_cps ''sharktorrent''),
     (''SZ'', ascii_cps ''Shareaza''),
     (''TB'', ascii_cps ''Torch''),
     (''TE'', ascii_cps ''terasaur Seed Bank''),
     (''TL'', ascii_cps ''Tribler''),
     (''TN'', ascii_cps ''Torrent.NET''),
     (''TR'', ascii_cps ''Transmission''),
     (''TS'', ascii_cps ''TorrentStorm''),
     (''TT'', ascii_cps ''TuoTu''),
     (''UL'', ascii_cps ''uLeecher!''),
     (''UM'', 0xB5 # ascii_cps ''Torrent Mac''),
     (''UT'', 0xB5 # ascii_cps ''Torrent''),
     (''VG'', ascii_cps ''Vagaa''),
     (''WD'', ascii_cps ''WebTorrent Desktop''),
     (''WT'', ascii_cps ''BitLet''),
     (''WW'', ascii_cps ''WebTorrent''),
     (''WY'', ascii_cps ''FireTorrent''),
     (''XL'', ascii_cps ''Xunlei''),
     (''XT'', ascii_cps ''XanTorrent''),
     (''XX'', ascii_cps ''Xtorrent''),
     (''ZT'', ascii_cps ''ZipTorrent''),
     (''sc'', ascii_cps ''seedchamp''),
     (''SC'', ascii_cps ''seedchamp'')]"

definition azureus_client_name :: "bytes \<Rightarrow> nat list option" where
  "azureus_client_name code = map_of (map (\<lambda>(c, n). (ascii c, n)) azureus_clients) code"

text \<open>\<open>a\<close> to \<open>d\<close> are single digits.\<close>

definition format_with_version :: "nat list \<Rightarrow> bytes \<Rightarrow> nat list" where
  "format_with_version name ver =
     (if length ver = 4 \<and> list_all is_ascii_digit ver then
        let a = unat (ver ! 0); b = unat (ver ! 1); c = unat (ver ! 2); d = unat (ver ! 3)
        in if d = 48 then
             (if c = 48 then name @ [32, a, 46, b] else name @ [32, a, 46, b, 46, c])
           else name @ [32, a, 46, b, 46, c, 46, d]
      else if list_all is_ascii_graphic ver then name @ 47 # bytes_cps ver
      else name)"

definition azureus_style :: "bytes \<Rightarrow> nat list option" where
  "azureus_style pid =
     (if pid ! 0 \<noteq> 45 \<or> pid ! 7 \<noteq> 45 then None
      else let code = slice 1 3 pid
           in if \<not> utf8_ok code then None
              else if \<not> list_all (\<lambda>b. is_ascii_alphanumeric b \<or> b = 126) code then None
              else map_option (\<lambda>name. format_with_version name (slice 3 7 pid)) (azureus_client_name code))"

definition find_double_dash :: "bytes \<Rightarrow> nat option" where
  "find_double_dash s = List.find (\<lambda>i. slice i (i + 2) s = [45, 45]) [0..<length s]"

text \<open>\<open>s.get(1..end)\<close> is \<open>None\<close> when \<open>end\<close> is inside a character.\<close>

definition mainline_style :: "bytes \<Rightarrow> nat list option" where
  "mainline_style pid =
     (if pid ! 0 \<noteq> 77 then None
      else if \<not> utf8_ok pid then None
      else let fin = (case find_double_dash pid of Some i \<Rightarrow> i | None \<Rightarrow> min (length pid) 12)
           in if fin < length pid \<and> cont_byte (pid ! fin) then None
              else let ver = trim_by (\<lambda>b. b = 45) (slice 1 fin pid)
                   in if ver = [] \<or> \<not> list_all (\<lambda>b. is_ascii_digit b \<or> b = 45) ver then None
                      else Some (ascii_cps ''Mainline '' @ bytes_cps ver))"

definition shadow_clients :: "(char \<times> string) list" where
  "shadow_clients =
     [(CHR ''A'', ''ABC''), (CHR ''O'', ''Osprey''), (CHR ''Q'', ''BTQueue''), (CHR ''R'', ''Tribler''),
      (CHR ''S'', ''Shadow''), (CHR ''T'', ''BitTornado''), (CHR ''U'', ''UPnP NAT Bit Torrent'')]"

definition shadow_style :: "bytes \<Rightarrow> nat list option" where
  "shadow_style pid =
     (case map_of (map (\<lambda>(c, n). (of_char c, ascii_cps n)) shadow_clients) (unat (pid ! 0)) of
        None \<Rightarrow> None
      | Some client \<Rightarrow>
          let ver = takeWhile is_ascii_digit (tl pid)
          in Some (if ver = [] then client else client @ 32 # bytes_cps ver))"

definition printable_fallback :: "bytes \<Rightarrow> nat list" where
  "printable_fallback pid =
     (let s = takeWhile (\<lambda>b. is_ascii_graphic b \<and> b \<noteq> 32) (take 12 pid)
      in if length s \<ge> 2 then ascii_cps ''peer:'' @ bytes_cps s else ascii_cps ''unknown'')"

definition identify_peer_id :: "bytes \<Rightarrow> nat list" where
  "identify_peer_id pid =
     (case azureus_style pid of Some s \<Rightarrow> s
      | None \<Rightarrow>
          (case mainline_style pid of Some s \<Rightarrow> s
           | None \<Rightarrow> (case shadow_style pid of Some s \<Rightarrow> s | None \<Rightarrow> printable_fallback pid)))"

section \<open>The extension handshake's version\<close>

definition ltep_client_version :: "bytes \<Rightarrow> nat list option" where
  "ltep_client_version payload =
     (case decode payload of
        Inl _ \<Rightarrow> None
      | Inr (val, _) \<Rightarrow>
          (case dict_get_str val (ascii ''v'') of
             None \<Rightarrow> None
           | Some v \<Rightarrow>
               (case utf8_decode v of
                  None \<Rightarrow> None
                | Some cps \<Rightarrow>
                    let cps = trim cps
                    in if cps = [] then None
                       else let s = take 64 cps in if s = [] then None else Some s)))"

definition prefer_client_label :: "nat list \<Rightarrow> nat list option \<Rightarrow> nat list" where
  "prefer_client_label from_peer_id from_ltep =
     (case from_ltep of
        Some v \<Rightarrow> if trim v \<noteq> [] then take 64 (trim v) else from_peer_id
      | None \<Rightarrow> from_peer_id)"

section \<open>Labels are short and visible\<close>

lemma takeWhile_len: "length (takeWhile P xs) \<le> length xs"
  by (induction xs) auto

lemma azureus_names_short: "list_all (\<lambda>(c, n). n \<noteq> [] \<and> length n \<le> 21) azureus_clients"
  by (simp add: azureus_clients_def ascii_cps_def)

lemma format_len: "n \<noteq> [] \<Longrightarrow> length v = 4 \<Longrightarrow> format_with_version n v \<noteq> [] \<and> length (format_with_version n v) \<le> length n + 8"
  by (simp add: format_with_version_def bytes_cps_def Let_def)

lemma prefer_label_len: "from_ltep = Some v \<Longrightarrow> trim v \<noteq> [] \<Longrightarrow> length (prefer_client_label l from_ltep) \<le> 64"
  by (simp add: prefer_client_label_def)

end
