(* ===== verification/Out_Queue.thy ===== *)
theory Out_Queue
  imports Wire Rc4 Spans Rate_Limit
begin

text \<open>
  The outbound half of a connection: \<open>peer/out_queue.rs\<close> (control frames before pieces, one active
  message, the cipher applied when a message becomes active), \<open>upload/queue.rs\<close> (which requests are
  served), \<open>upload/inflight.rs\<close> and \<open>upload/read.rs\<close> (filling and writing a piece),
  \<open>peer/send.rs\<close>, and the writer's commands of \<open>peer/duplex.rs\<close>. Disk reads, socket
  writes and the clock are the environment: the \<open>k\<close>-th read, write or clock query has the
  environment's \<open>k\<close>-th answer.
\<close>

section \<open>Requests from the peer\<close>

abbreviation MAX_UPLOAD_REQQ :: nat where "MAX_UPLOAD_REQQ \<equiv> 8192"
abbreviation MAX_REQUEST_LENGTH :: nat where "MAX_REQUEST_LENGTH \<equiv> 131072"
abbreviation UPLOAD_BLOCK_LEN :: nat where "UPLOAD_BLOCK_LEN \<equiv> 16384"
abbreviation PIECE_HEADER_LEN :: nat where "PIECE_HEADER_LEN \<equiv> 13"
abbreviation COALESCE_MAX :: nat where "COALESCE_MAX \<equiv> 65536"

record upload_block =
  ub_index :: nat
  ub_begin :: nat
  ub_length :: nat

datatype upload_request_status = Accept | Reject

definition classify_upload_request ::
  "nat \<Rightarrow> nat \<Rightarrow> bool \<Rightarrow> bool \<Rightarrow> nat \<Rightarrow> nat \<Rightarrow> nat \<Rightarrow> upload_request_status" where
  "classify_upload_request pc piece_len has peer_interested index begin len =
     (if len = 0 \<or> len > MAX_REQUEST_LENGTH then Reject
      else if index \<ge> pc \<or> piece_len = 0 then Reject
      else if sat_add64 begin len > piece_len then Reject
      else if \<not> peer_interested \<or> \<not> has then Reject
      else Accept)"

section \<open>A piece being sent\<close>

record in_flight_upload =
  if_block :: upload_block
  if_cipher_applied :: bool
  if_rate_reserved :: nat
  if_total :: nat
  if_sent :: nat
  if_payload :: nat

definition any_wire_bytes :: "in_flight_upload \<Rightarrow> bool" where
  "any_wire_bytes up \<longleftrightarrow> if_sent up > 0"

definition can_abort :: "in_flight_upload \<Rightarrow> bool" where
  "can_abort up \<longleftrightarrow> \<not> any_wire_bytes up \<and> \<not> if_cipher_applied up"

definition fill_piece_header :: "nat \<Rightarrow> nat \<Rightarrow> nat \<Rightarrow> bytes" where
  "fill_piece_header index begin len =
     be32 (of_nat (9 + len)) @ [7] @ be32 (of_nat index) @ be32 (of_nat begin)"

datatype upload_error =
    Up_layout span_error
  | Past_piece_end
  | Zero_length
  | Over_block nat
  | Not_found
  | Fill_failed

definition is_not_found :: "upload_error \<Rightarrow> bool" where
  "is_not_found e \<longleftrightarrow> e = Not_found"

definition crypt_opt :: "rc4 option \<Rightarrow> bytes \<Rightarrow> bytes \<times> rc4 option" where
  "crypt_opt c bs = (case c of None \<Rightarrow> (bs, None) | Some c \<Rightarrow> (let (o', c) = crypt_inplace c bs in (o', Some c)))"

text \<open>\<open>fill\<close> is the read of the payload's spans by either backend. The scratch buffer, of
  fixed length, holds the framed piece; what a failed read leaves in it is overwritten before it
  is used.\<close>

definition begin_upload ::
  "(io_span list \<Rightarrow> upload_error + bytes) \<Rightarrow> storage_layout \<Rightarrow> upload_block \<Rightarrow> rc4 option \<Rightarrow> bytes
     \<Rightarrow> upload_error + (in_flight_upload \<times> rc4 option \<times> bytes)" where
  "begin_upload fill lay block c scratch =
     (let index = ub_index block; begin = ub_begin block; len = ub_length block in
      case piece_size lay index of Inl e \<Rightarrow> Inl (Up_layout e)
      | Inr plen \<Rightarrow>
          if begin + len > plen then Inl Past_piece_end
          else if len = 0 then Inl Zero_length
          else if len > UPLOAD_BLOCK_LEN then Inl (Over_block len)
          else
            case spans_for_range lay (index * piece_length lay + begin) len of
              Inl e \<Rightarrow> Inl (Up_layout e)
            | Inr spans \<Rightarrow>
                (case fill spans of Inl e \<Rightarrow> Inl e
                 | Inr payload \<Rightarrow>
                     let total = PIECE_HEADER_LEN + len;
                         (h, c1) = crypt_opt c (fill_piece_header index begin len);
                         (d, c2) = crypt_opt c1 payload
                     in Inr (\<lparr>if_block = block, if_cipher_applied = (c \<noteq> None), if_rate_reserved = 0,
                              if_total = total, if_sent = 0, if_payload = len\<rparr>,
                             c2, h @ d @ drop total scratch)))"

section \<open>The queue\<close>

datatype active = ACtrl bytes | APiece in_flight_upload

record out_queue =
  oq_ctrl :: "bytes list"
  oq_pieces :: "upload_block list"
  oq_active :: "active option"
  oq_piece_max :: nat
  oq_keepalive_queued :: bool

definition out_queue_new :: out_queue where
  "out_queue_new = \<lparr>oq_ctrl = [], oq_pieces = [], oq_active = None, oq_piece_max = MAX_UPLOAD_REQQ,
     oq_keepalive_queued = False\<rparr>"

fun is_piece :: "active option \<Rightarrow> bool" where
  "is_piece (Some (APiece up)) = True"
| "is_piece _ = False"

fun is_ctrl :: "active option \<Rightarrow> bool" where
  "is_ctrl (Some (ACtrl buf)) = True"
| "is_ctrl _ = False"

definition has_work :: "out_queue \<Rightarrow> bool" where
  "has_work q \<longleftrightarrow> oq_active q \<noteq> None \<or> oq_ctrl q \<noteq> [] \<or> oq_pieces q \<noteq> []"

definition piece_pending_count :: "out_queue \<Rightarrow> nat" where
  "piece_pending_count q = (if is_piece (oq_active q) then 1 else 0) + length (oq_pieces q)"

definition push_ctrl_owned :: "bytes \<Rightarrow> out_queue \<Rightarrow> out_queue" where
  "push_ctrl_owned plain q =
     (if plain = [] then q
      else if oq_ctrl q \<noteq> [] \<and> length (last (oq_ctrl q)) + length plain \<le> COALESCE_MAX
      then q\<lparr>oq_ctrl := butlast (oq_ctrl q) @ [last (oq_ctrl q) @ plain]\<rparr>
      else q\<lparr>oq_ctrl := oq_ctrl q @ [plain]\<rparr>)"

definition push_keepalive :: "out_queue \<Rightarrow> out_queue" where
  "push_keepalive q =
     (if oq_keepalive_queued q then q
      else push_ctrl_owned (append_keepalive []) (q\<lparr>oq_keepalive_queued := True\<rparr>))"

definition note_ctrl_fully_sent :: "out_queue \<Rightarrow> out_queue" where
  "note_ctrl_fully_sent q =
     (if oq_ctrl q = [] \<and> \<not> is_ctrl (oq_active q) then q\<lparr>oq_keepalive_queued := False\<rparr> else q)"

fun active_block :: "active option \<Rightarrow> upload_block option" where
  "active_block (Some (APiece up)) = Some (if_block up)"
| "active_block _ = None"

definition try_push_piece :: "upload_block \<Rightarrow> out_queue \<Rightarrow> bool \<times> out_queue" where
  "try_push_piece block q =
     (if ub_length block = 0 \<or> ub_length block > MAX_REQUEST_LENGTH then (False, q)
      else if piece_pending_count q \<ge> oq_piece_max q then (False, q)
      else if block \<in> set (oq_pieces q) then (False, q)
      else if active_block (oq_active q) = Some block then (False, q)
      else (True, q\<lparr>oq_pieces := oq_pieces q @ [block]\<rparr>))"

fun abortable :: "active option \<Rightarrow> bool" where
  "abortable (Some (APiece up)) = can_abort up"
| "abortable _ = False"

definition cancel_piece :: "upload_block \<Rightarrow> out_queue \<Rightarrow> bool \<times> out_queue" where
  "cancel_piece block q =
     (let removed = (block \<in> set (oq_pieces q));
          q = q\<lparr>oq_pieces := remove1 block (oq_pieces q)\<rparr>
      in if active_block (oq_active q) = Some block then
           (if abortable (oq_active q) then (True, q\<lparr>oq_active := None\<rparr>) else (removed, q))
         else (removed, q))"

definition clear_pieces :: "out_queue \<Rightarrow> out_queue" where
  "clear_pieces q =
     (let q = q\<lparr>oq_pieces := []\<rparr> in if abortable (oq_active q) then q\<lparr>oq_active := None\<rparr> else q)"

definition push_reject :: "upload_block \<Rightarrow> bool \<Rightarrow> out_queue \<Rightarrow> out_queue" where
  "push_reject block fast_enabled q =
     (if \<not> fast_enabled then q
      else push_ctrl_owned (append_reject_request [] (of_nat (ub_index block)) (of_nat (ub_begin block))
                              (of_nat (ub_length block))) q)"

section \<open>Sending\<close>

record send_env =
  en_fill :: "nat \<Rightarrow> io_span list \<Rightarrow> upload_error + bytes"
  en_write :: "nat \<Rightarrow> bool"
  en_clock :: "nat \<Rightarrow> nat"

record sender =
  sd_q :: out_queue
  sd_rc4 :: "rc4 option"
  sd_scratch :: bytes
  sd_limiter :: "wire_limiter option"
  sd_wire :: bytes
  sd_uploaded :: nat
  sd_fills :: nat
  sd_writes :: nat
  sd_ticks :: nat

definition pick_next_active :: "send_env \<Rightarrow> storage_layout \<Rightarrow> bool \<Rightarrow> sender \<Rightarrow> sender" where
  "pick_next_active env lay fast_enabled s =
     (let q = sd_q s in
      if oq_active q \<noteq> None then s
      else case oq_ctrl q of
        plain # rest \<Rightarrow>
          (let (buf, c) = crypt_opt (sd_rc4 s) plain
           in s\<lparr>sd_rc4 := c, sd_q := q\<lparr>oq_ctrl := rest, oq_active := Some (ACtrl buf)\<rparr>\<rparr>)
      | [] \<Rightarrow>
          (case oq_pieces q of
             [] \<Rightarrow> s
           | block # rest \<Rightarrow>
               let q = q\<lparr>oq_pieces := rest\<rparr>;
                   r = begin_upload (en_fill env (sd_fills s)) lay block (sd_rc4 s) (sd_scratch s);
                   s = s\<lparr>sd_fills := sd_fills s + 1\<rparr>;
                   again = (case r of Inl e \<Rightarrow> is_not_found e | Inr _ \<Rightarrow> False);
                   r = (if again then begin_upload (en_fill env (sd_fills s)) lay block (sd_rc4 s) (sd_scratch s) else r);
                   s = (if again then s\<lparr>sd_fills := sd_fills s + 1\<rparr> else s)
               in (case r of
                     Inr (up, c, scratch) \<Rightarrow>
                       s\<lparr>sd_rc4 := c, sd_scratch := scratch, sd_q := q\<lparr>oq_active := Some (APiece up)\<rparr>\<rparr>
                   | Inl e \<Rightarrow> s\<lparr>sd_q := push_reject block fast_enabled q\<rparr>)))"

text \<open>A socket write of whole bytes: what a failed write leaves on the wire does not matter, the
  session ends.\<close>

definition write_all :: "send_env \<Rightarrow> bytes \<Rightarrow> sender \<Rightarrow> bool \<times> sender" where
  "write_all env buf s =
     (let s' = s\<lparr>sd_writes := sd_writes s + 1\<rparr>
      in if en_write env (sd_writes s) then (True, s'\<lparr>sd_wire := sd_wire s @ buf\<rparr>) else (False, s'))"

text \<open>The reservation of a block's bytes: \<open>None\<close> when it was granted, else the time to wait.\<close>

definition reserve_upload :: "send_env \<Rightarrow> nat \<Rightarrow> sender \<Rightarrow> rat option \<times> sender" where
  "reserve_upload env need s =
     (case sd_limiter s of
        None \<Rightarrow> (None, s)
      | Some wl \<Rightarrow>
          let (got, wl) = try_consume_upload need (en_clock env (sd_ticks s)) wl;
              s = s\<lparr>sd_ticks := sd_ticks s + 1\<rparr>
          in if got < need then
               let wl = (if got > 0 then refund_upload got wl else wl);
                   (wait, wl) = upload_delay_for need (en_clock env (sd_ticks s)) wl
               in (Some (if wait = 0 then 1 / 1000 else wait), s\<lparr>sd_limiter := Some wl, sd_ticks := sd_ticks s + 1\<rparr>)
             else (None, s\<lparr>sd_limiter := Some wl\<rparr>))"

datatype quantum_end = Finished | Rate_limited rat | Write_failed

definition write_piece :: "send_env \<Rightarrow> in_flight_upload \<Rightarrow> sender \<Rightarrow> quantum_end option \<times> sender" where
  "write_piece env up s =
     (let (ok, s) = (if if_sent up < if_total up then write_all env (take (if_total up) (sd_scratch s)) s else (True, s))
      in if ok then
           let payload = if_payload up;
               s = s\<lparr>sd_q := (sd_q s)\<lparr>oq_active := None\<rparr>, sd_uploaded := sd_uploaded s + payload\<rparr>
           in (None, if if_rate_reserved up > payload
                     then s\<lparr>sd_limiter := map_option (refund_upload (if_rate_reserved up - payload)) (sd_limiter s)\<rparr>
                     else s)
         else (Some Write_failed, s\<lparr>sd_q := (sd_q s)\<lparr>oq_active := Some (APiece up)\<rparr>\<rparr>))"

definition send_piece :: "send_env \<Rightarrow> in_flight_upload \<Rightarrow> sender \<Rightarrow> quantum_end option \<times> sender" where
  "send_piece env up s =
     (let need = ub_length (if_block up);
          (wait, s) = (if any_wire_bytes up then (None, s) else reserve_upload env need s)
      in case wait of
           Some w \<Rightarrow> (Some (Rate_limited w), s)
         | None \<Rightarrow>
             write_piece env
               (if any_wire_bytes up \<or> sd_limiter s = None then up else up\<lparr>if_rate_reserved := need\<rparr>) s)"

text \<open>One round of the loop. The flag is \<open>any\<close>; the result is \<open>None\<close> when the loop goes on.\<close>

definition send_active :: "send_env \<Rightarrow> bool \<Rightarrow> sender \<times> bool \<Rightarrow> quantum_end option \<times> sender \<times> bool" where
  "send_active env allow_upload = (\<lambda>(s, any).
     if \<not> allow_upload \<and> abortable (oq_active (sd_q s))
     then (None, s\<lparr>sd_q := (sd_q s)\<lparr>oq_active := None\<rparr>\<rparr>, any)
     else case oq_active (sd_q s) of
       None \<Rightarrow> (Some Finished, s, any)
     | Some (ACtrl buf) \<Rightarrow>
         (let (ok, s) = write_all env buf (s\<lparr>sd_q := (sd_q s)\<lparr>oq_active := None\<rparr>\<rparr>)
          in if ok then (None, s\<lparr>sd_q := note_ctrl_fully_sent (sd_q s)\<rparr>, True)
             else (Some Write_failed, s, any))
     | Some (APiece up) \<Rightarrow>
         (let (r, s) = send_piece env up s in (r, s, if r = None then True else any)))"

definition quantum_step ::
  "send_env \<Rightarrow> storage_layout \<Rightarrow> bool \<Rightarrow> bool \<Rightarrow> sender \<times> bool \<Rightarrow> quantum_end option \<times> sender \<times> bool" where
  "quantum_step env lay allow_upload fast_enabled = (\<lambda>(s, any).
     if oq_active (sd_q s) = None then
       (if \<not> allow_upload \<and> oq_ctrl (sd_q s) = [] then (Some Finished, s, any)
        else
          let s = pick_next_active env lay fast_enabled s; q = sd_q s
          in if oq_active q = None then
               (if \<not> allow_upload then (Some Finished, s, any)
                else if oq_pieces q = [] \<and> oq_ctrl q = [] then (Some Finished, s, any)
                else if oq_ctrl q = [] \<and> oq_pieces q \<noteq> [] then (None, s, any)
                else (Some Finished, s, any))
             else send_active env allow_upload (s, any))
     else send_active env allow_upload (s, any))"

text \<open>The loop runs on fuel; \<open>quantum_fuel\<close> is enough (\<open>send_quantum_returns\<close>).\<close>

fun quantum_loop ::
  "nat \<Rightarrow> send_env \<Rightarrow> storage_layout \<Rightarrow> bool \<Rightarrow> bool \<Rightarrow> sender \<times> bool \<Rightarrow> (quantum_end \<times> sender \<times> bool) option" where
  "quantum_loop 0 env lay allow_upload fast_enabled sa = None"
| "quantum_loop (Suc n) env lay allow_upload fast_enabled sa =
     (case quantum_step env lay allow_upload fast_enabled sa of
        (Some e, s, any) \<Rightarrow> Some (e, s, any)
      | (None, s, any) \<Rightarrow> quantum_loop n env lay allow_upload fast_enabled (s, any))"

definition quantum_size :: "sender \<Rightarrow> nat" where
  "quantum_size s =
     2 * (length (oq_ctrl (sd_q s)) + length (oq_pieces (sd_q s))) + (if oq_active (sd_q s) = None then 0 else 1)"

datatype out_progress = Idle | Progress | RateLimited rat

text \<open>\<open>Inl ()\<close> is a failed socket write.\<close>

definition send_quantum ::
  "send_env \<Rightarrow> storage_layout \<Rightarrow> bool \<Rightarrow> bool \<Rightarrow> sender \<Rightarrow> ((unit + out_progress \<times> bool) \<times> sender) option" where
  "send_quantum env lay allow_upload fast_enabled s =
     (let s = (if allow_upload then s else s\<lparr>sd_q := (sd_q s)\<lparr>oq_pieces := []\<rparr>\<rparr>)
      in case quantum_loop (quantum_size s + 1) env lay allow_upload fast_enabled (s, False) of
           None \<Rightarrow> None
         | Some (Finished, s, any) \<Rightarrow> Some (Inr (if any then (Progress, True) else (Idle, False)), s)
         | Some (Rate_limited w, s, any) \<Rightarrow> Some (Inr (RateLimited w, any), s)
         | Some (Write_failed, s, any) \<Rightarrow> Some (Inl (), s))"

section \<open>The writer's commands\<close>

datatype writer_msg =
    W_ctrl bytes
  | W_upload upload_block
  | W_cancel upload_block
  | W_clear_pieces
  | W_reader_done

fun apply_writer_msg :: "bool \<Rightarrow> writer_msg \<Rightarrow> out_queue \<Rightarrow> bool \<times> out_queue" where
  "apply_writer_msg fast_enabled (W_ctrl b) q = (False, push_ctrl_owned b q)"
| "apply_writer_msg fast_enabled (W_upload block) q =
     (case try_push_piece block q of
        (True, q) \<Rightarrow> (False, q)
      | (False, q) \<Rightarrow> (False, push_reject block fast_enabled q))"
| "apply_writer_msg fast_enabled (W_cancel block) q = (False, snd (cancel_piece block q))"
| "apply_writer_msg fast_enabled W_clear_pieces q = (False, clear_pieces q)"
| "apply_writer_msg fast_enabled W_reader_done q = (True, q)"

definition enqueue_have_messages :: "nat list \<Rightarrow> out_queue \<Rightarrow> out_queue" where
  "enqueue_have_messages haves q = push_ctrl_owned (foldl (\<lambda>out i. append_have out (of_nat i)) [] haves) q"

end
