(* ===== verification/Out_Queue_Correct.thy ===== *)
theory Out_Queue_Correct
  imports Out_Queue
begin

text \<open>
  What the outbound queue puts on the wire: the receiver, decrypting with the mirrored cipher,
  sees each control buffer whole and in the order they were queued, between whole pieces that
  carry the torrent's data; every quantum returns; and an upload cap below the block size silences the
  connection.
\<close>

section \<open>The cipher across calls\<close>

lemma crypt_opt_append:
  "crypt_opt c (xs @ ys) =
     (fst (crypt_opt c xs) @ fst (crypt_opt (snd (crypt_opt c xs)) ys), snd (crypt_opt (snd (crypt_opt c xs)) ys))"
  by (cases c) (simp_all add: crypt_opt_def case_prod_beta rc.crypt_append)

lemma crypt_opt_length [simp]: "length (fst (crypt_opt c xs)) = length xs"
  by (cases c) (simp_all add: crypt_opt_def case_prod_beta rc.crypt_length)

lemma crypt_opt_crypt: "fst (crypt_opt c (fst (crypt_opt c xs))) = xs"
  using rc.crypt_crypt by (cases c) (simp_all add: crypt_opt_def case_prod_beta)

lemma crypt_opt_Nil [simp]: "crypt_opt c [] = ([], c)"
  by (cases c) (simp_all add: crypt_opt_def)

lemma crypt_opt_plain [simp]: "crypt_opt None xs = (xs, None)"
  by (simp add: crypt_opt_def)

lemma crypt_opt_None [simp]: "snd (crypt_opt c xs) = None \<longleftrightarrow> c = None"
  by (cases c) (simp_all add: crypt_opt_def case_prod_beta)

section \<open>Frames\<close>

text \<open>A control frame is one buffer handed to the queue, with its origin: pushed by the session, or a
  keepalive or a reject made by the writer itself.\<close>

datatype origin = Pushed | Keepalive_frame | Reject_frame

datatype frame = FCtrl origin bytes | FPiece upload_block bytes

fun frame_bytes :: "frame \<Rightarrow> bytes" where
  "frame_bytes (FCtrl og b) = b"
| "frame_bytes (FPiece u d) = encode_message (Piece (of_nat (ub_index u)) (of_nat (ub_begin u)) d)"

fun frame_ctrl :: "frame \<Rightarrow> (origin \<times> bytes) list" where
  "frame_ctrl (FCtrl og b) = [(og, b)]"
| "frame_ctrl (FPiece u d) = []"

definition ctrls :: "frame list \<Rightarrow> (origin \<times> bytes) list" where
  "ctrls frames = concat (map frame_ctrl frames)"

definition as_frames :: "(origin \<times> bytes) list \<Rightarrow> frame list" where
  "as_frames es = map (\<lambda>(og, b). FCtrl og b) es"

lemma ctrls_simps [simp]:
  "ctrls [] = []" "ctrls (xs @ ys) = ctrls xs @ ctrls ys" "ctrls [FPiece u d] = []" "ctrls (as_frames es) = es"
  by (simp_all add: ctrls_def) (induction es; auto simp: as_frames_def ctrls_def)

definition block_data :: "(fs_path \<Rightarrow> bytes) \<Rightarrow> storage_layout \<Rightarrow> upload_block \<Rightarrow> bytes" where
  "block_data disk lay u =
     take (ub_length u) (drop (ub_index u * piece_length lay + ub_begin u) (stream disk lay))"

definition fills_from :: "send_env \<Rightarrow> (fs_path \<Rightarrow> bytes) \<Rightarrow> bool" where
  "fills_from env disk \<longleftrightarrow> (\<forall>k spans bs. en_fill env k spans = Inr bs \<longrightarrow> bs = read_spans disk spans)"

lemma header_frame: "length d = ub_length u \<Longrightarrow>
  fill_piece_header (ub_index u) (ub_begin u) (ub_length u) @ d = frame_bytes (FPiece u d)"
  by (simp add: fill_piece_header_def encode_id_def append_id_def add.commute)

lemma begin_upload_frame:
  assumes b: "begin_upload (en_fill env k) lay u c scratch = Inr (up, c', scratch')"
    and ok: "layout_ok lay" "sized disk lay" "fills_from env disk"
  defines "fr \<equiv> frame_bytes (FPiece u (block_data disk lay u))"
  shows "if_block up = u \<and> if_sent up = 0 \<and> if_total up = length fr \<and> if_payload up = ub_length u
    \<and> if_cipher_applied up = (c \<noteq> None) \<and> take (if_total up) scratch' = fst (crypt_opt c fr) \<and> c' = snd (crypt_opt c fr)
    \<and> ub_length u \<noteq> 0 \<and> length (block_data disk lay u) = ub_length u"
proof -
  let ?off = "ub_index u * piece_length lay + ub_begin u" and ?h = "fill_piece_header (ub_index u) (ub_begin u) (ub_length u)"
  obtain plen where p: "piece_size lay (ub_index u) = Inr plen" "\<not> ub_begin u + ub_length u > plen" "ub_length u \<noteq> 0"
    using b by (auto simp: begin_upload_def Let_def split: sum.splits if_splits)
  obtain spans payload where s: "spans_for_range lay ?off (ub_length u) = Inr spans" "en_fill env k spans = Inr payload"
    using b p by (auto simp: begin_upload_def Let_def split: sum.splits if_splits)
  have i: "ub_index u < piece_count lay" using p(1) by (auto simp: piece_size_def split: if_splits)
  then have "?off + ub_length u \<le> total_size lay"
    using piece_size_Inr [OF ok(1) i] p(1,2) by auto
  then obtain spans' where "spans_for_range lay ?off (ub_length u) = Inr spans'"
    "read_spans disk spans' = block_data disk lay u"
    using spans_for_range_correct [OF ok(1,2), of ?off "ub_length u"] by (auto simp: block_data_def)
  with s ok(3) have d: "payload = block_data disk lay u" by (simp add: fills_from_def)
  have "length (stream disk lay) = total_size lay"
    using ok(1,2) by (simp add: stream_def layout_ok_def sized_def length_concat comp_def cong: map_cong)
  then have len: "length (block_data disk lay u) = ub_length u"
    using \<open>?off + ub_length u \<le> total_size lay\<close> by (simp add: block_data_def)
  have fr: "fr = ?h @ payload" using header_frame [OF len] by (simp add: fr_def d)
  have "length ?h = 13" by (simp add: fill_piece_header_def)
  then have lf: "length fr = 13 + ub_length u" using len fr d by simp
  have e: "(up, c', scratch') = (\<lparr>if_block = u, if_cipher_applied = (c \<noteq> None), if_rate_reserved = 0,
       if_total = 13 + ub_length u, if_sent = 0, if_payload = ub_length u\<rparr>,
      snd (crypt_opt (snd (crypt_opt c ?h)) payload),
      fst (crypt_opt c ?h) @ fst (crypt_opt (snd (crypt_opt c ?h)) payload) @ drop (13 + ub_length u) scratch)"
    using b p s by (auto simp: begin_upload_def Let_def case_prod_beta split: if_splits)
  then show ?thesis
    using crypt_opt_append [of c ?h payload] fr lf p(3) len \<open>length ?h = 13\<close> d by simp
qed

section \<open>The invariant\<close>

text \<open>\<open>c0\<close> is the cipher at the start; \<open>frames\<close> are the frames completely written, \<open>cur\<close> those of the
  active message (several control buffers when the queue joined them), \<open>hist\<close> all control buffers
  ever queued, in order.\<close>

definition sent_bytes :: "frame list \<Rightarrow> bytes" where
  "sent_bytes frames = concat (map frame_bytes frames)"

lemma sent_bytes_simps [simp]:
  "sent_bytes [] = []" "sent_bytes (xs @ ys) = sent_bytes xs @ sent_bytes ys"
  "sent_bytes [f] = frame_bytes f" "sent_bytes (as_frames es) = concat (map snd es)"
  by (simp_all add: sent_bytes_def) (induction es; auto simp: as_frames_def sent_bytes_def)

lemma as_frames_no_piece [simp]: "FPiece u d \<notin> set (as_frames es)"
  by (auto simp: as_frames_def)

definition active_ok :: "rc4 option \<Rightarrow> rc4 option \<Rightarrow> active option \<Rightarrow> bytes \<Rightarrow> frame list \<Rightarrow> bool" where
  "active_ok ck c act scratch cur \<longleftrightarrow>
     (case act of
        None \<Rightarrow> cur = [] \<and> c = ck
      | Some (ACtrl buf) \<Rightarrow>
          (\<exists>es. cur = as_frames es) \<and> buf = fst (crypt_opt ck (sent_bytes cur)) \<and> c = snd (crypt_opt ck (sent_bytes cur))
      | Some (APiece up) \<Rightarrow>
          (\<exists>d. cur = [FPiece (if_block up) d] \<and> if_sent up = 0 \<and> if_cipher_applied up = (ck \<noteq> None)
             \<and> if_total up = length (frame_bytes (FPiece (if_block up) d))
             \<and> take (if_total up) scratch = fst (crypt_opt ck (frame_bytes (FPiece (if_block up) d)))
             \<and> c = snd (crypt_opt ck (frame_bytes (FPiece (if_block up) d)))))"

text \<open>The queued messages are \<open>qs\<close>, each a group of whole buffers.\<close>

definition queued_as :: "bytes list \<Rightarrow> (origin \<times> bytes) list \<Rightarrow> bool" where
  "queued_as q es \<longleftrightarrow> (\<exists>qs. q = map (\<lambda>g. concat (map snd g)) qs \<and> es = concat qs \<and> [] \<notin> set qs)"

lemma queued_as_Nil [simp]: "queued_as [] es \<longleftrightarrow> es = []"
  by (auto simp: queued_as_def)

lemma queued_as_Cons:
  assumes "queued_as (b # q) es"
  obtains g es' where "es = g @ es'" "b = concat (map snd g)" "queued_as q es'" "g \<noteq> []"
proof -
  from assms obtain qs where qs: "b # q = map (\<lambda>g. concat (map snd g)) qs" "es = concat qs" "[] \<notin> set qs"
    unfolding queued_as_def by (elim exE conjE)
  then obtain g gs where g: "qs = g # gs" by (cases qs) auto
  with qs have "queued_as q (concat gs)" by (auto simp: queued_as_def)
  with that [of g "concat gs"] qs g show thesis by auto
qed

definition piece_frames_ok :: "(fs_path \<Rightarrow> bytes) \<Rightarrow> storage_layout \<Rightarrow> upload_block set \<Rightarrow> frame set \<Rightarrow> bool" where
  "piece_frames_ok disk lay asked F \<longleftrightarrow>
     (\<forall>u d. FPiece u d \<in> F \<longrightarrow> u \<in> asked \<and> d = block_data disk lay u \<and> length d = ub_length u \<and> ub_length u \<noteq> 0)"

definition out_inv ::
  "(fs_path \<Rightarrow> bytes) \<Rightarrow> storage_layout \<Rightarrow> rc4 option \<Rightarrow> upload_block set \<Rightarrow> (origin \<times> bytes) list \<Rightarrow> frame list
     \<Rightarrow> frame list \<Rightarrow> sender \<Rightarrow> bool" where
  "out_inv disk lay c0 asked hist frames cur s \<longleftrightarrow>
     sd_wire s = fst (crypt_opt c0 (sent_bytes frames))
     \<and> active_ok (snd (crypt_opt c0 (sent_bytes frames))) (sd_rc4 s) (oq_active (sd_q s)) (sd_scratch s) cur
     \<and> (\<exists>es. hist = ctrls (frames @ cur) @ es \<and> queued_as (oq_ctrl (sd_q s)) es)
     \<and> set (oq_pieces (sd_q s)) \<subseteq> asked
     \<and> piece_frames_ok disk lay asked (set (frames @ cur))"

text \<open>A pushed buffer becomes a message of its own or joins the last one whole.\<close>

lemma push_ctrl_queued:
  assumes "queued_as (oq_ctrl q) es" "b \<noteq> []"
  shows "queued_as (oq_ctrl (push_ctrl_owned b q)) (es @ [(og, b)])"
proof -
  obtain qs where qs: "oq_ctrl q = map (\<lambda>g. concat (map snd g)) qs" "es = concat qs" "[] \<notin> set qs"
    using assms(1) by (auto simp: queued_as_def)
  show ?thesis
  proof (cases "oq_ctrl q \<noteq> [] \<and> length (last (oq_ctrl q)) + length b \<le> COALESCE_MAX")
    case True
    then have ne: "qs \<noteq> []" using qs(1) by auto
    then obtain qs0 g where g: "qs = qs0 @ [g]" by (metis append_butlast_last_id)
    show ?thesis
      using True assms(2) qs g
      by (auto simp: push_ctrl_owned_def queued_as_def intro!: exI [of _ "qs0 @ [g @ [(og, b)]]"])
  next
    case False
    then show ?thesis
      using assms(2) qs
      by (auto simp: push_ctrl_owned_def queued_as_def intro!: exI [of _ "qs @ [[(og, b)]]"])
  qed
qed

lemma push_ctrl_other [simp]:
  "oq_pieces (push_ctrl_owned b q) = oq_pieces q" "oq_active (push_ctrl_owned b q) = oq_active q"
  by (simp_all add: push_ctrl_owned_def)

lemma inv_push_ctrl:
  assumes "out_inv disk lay c0 asked hist frames cur s"
  shows "out_inv disk lay c0 asked (if b = [] then hist else hist @ [(og, b)]) frames cur
    (s\<lparr>sd_q := push_ctrl_owned b (sd_q s)\<rparr>)"
proof (cases "b = []")
  case True
  then show ?thesis using assms by (simp add: push_ctrl_owned_def)
next
  case False
  from assms obtain es where "hist = ctrls (frames @ cur) @ es" "queued_as (oq_ctrl (sd_q s)) es"
    by (auto simp: out_inv_def)
  with push_ctrl_queued [OF this(2) False, of og] assms False show ?thesis
    by (auto simp: out_inv_def)
qed

lemma inv_drop_active:
  assumes "out_inv disk lay c0 asked hist frames cur s" "abortable (oq_active (sd_q s))"
  shows "out_inv disk lay c0 asked hist frames [] (s\<lparr>sd_q := (sd_q s)\<lparr>oq_active := None\<rparr>\<rparr>)"
proof -
  from assms(2) obtain up where up: "oq_active (sd_q s) = Some (APiece up)" "can_abort up"
    by (cases "oq_active (sd_q s)" rule: abortable.cases) auto
  then have c: "\<not> if_cipher_applied up" by (simp add: can_abort_def)
  with assms(1) up(1) have "snd (crypt_opt c0 (sent_bytes frames)) = None" "ctrls cur = []" "sd_rc4 s = None"
    by (auto simp: out_inv_def active_ok_def)
  with assms(1) show ?thesis by (auto simp: out_inv_def active_ok_def piece_frames_ok_def)
qed

lemma inv_pieces_subset:
  assumes "out_inv disk lay c0 asked hist frames cur s" "set ps \<subseteq> asked"
  shows "out_inv disk lay c0 asked hist frames cur (s\<lparr>sd_q := (sd_q s)\<lparr>oq_pieces := ps\<rparr>\<rparr>)"
  using assms by (simp add: out_inv_def)

lemma inv_frame_sent:
  assumes "out_inv disk lay c0 asked hist frames cur s"
    "sd_wire s' = sd_wire s @ fst (crypt_opt (snd (crypt_opt c0 (sent_bytes frames))) (sent_bytes cur))"
    "sd_rc4 s = snd (crypt_opt (snd (crypt_opt c0 (sent_bytes frames))) (sent_bytes cur))"
    "sd_rc4 s' = sd_rc4 s" "oq_active (sd_q s') = None" "oq_ctrl (sd_q s') = oq_ctrl (sd_q s)"
    "oq_pieces (sd_q s') = oq_pieces (sd_q s)"
  shows "out_inv disk lay c0 asked hist (frames @ cur) [] s'"
  using assms by (simp add: out_inv_def active_ok_def crypt_opt_append)

section \<open>Rounds of the loop\<close>

definition reject_bytes :: "upload_block \<Rightarrow> bytes" where
  "reject_bytes u = append_reject_request [] (of_nat (ub_index u)) (of_nat (ub_begin u)) (of_nat (ub_length u))"

lemma reject_bytes_ne [simp]: "reject_bytes u \<noteq> []"
  by (simp add: reject_bytes_def append_is_encode del: encode_message.simps)

lemma pick_next_inv:
  assumes inv: "out_inv disk lay c0 asked hist frames [] s" and act: "oq_active (sd_q s) = None"
    and ok: "layout_ok lay" "sized disk lay" "fills_from env disk"
  shows "\<exists>hist' cur. out_inv disk lay c0 asked hist' frames cur (pick_next_active env lay fast s)
    \<and> (hist' = hist \<or> (\<exists>u \<in> asked. hist' = hist @ [(Reject_frame, reject_bytes u)]))"
proof (cases "oq_ctrl (sd_q s)")
  case (Cons plain rest)
  let ?ck = "snd (crypt_opt c0 (sent_bytes frames))"
  have c: "sd_rc4 s = ?ck" using inv act by (simp add: out_inv_def active_ok_def)
  have "pick_next_active env lay fast s = s\<lparr>sd_rc4 := snd (crypt_opt ?ck plain),
      sd_q := (sd_q s)\<lparr>oq_ctrl := rest, oq_active := Some (ACtrl (fst (crypt_opt ?ck plain)))\<rparr>\<rparr>"
    using act Cons c by (simp add: pick_next_active_def case_prod_beta)
  moreover obtain g es where "hist = ctrls frames @ g @ es" "plain = concat (map snd g)" "queued_as rest es"
    using inv Cons by (auto simp: out_inv_def elim: queued_as_Cons)
  ultimately have "out_inv disk lay c0 asked hist frames (as_frames g) (pick_next_active env lay fast s)"
    using inv by (auto simp: out_inv_def active_ok_def piece_frames_ok_def)
  then show ?thesis by blast
next
  case Nil
  show ?thesis
  proof (cases "oq_pieces (sd_q s)")
    case Nil
    then have "pick_next_active env lay fast s = s"
      using act \<open>oq_ctrl (sd_q s) = []\<close> by (simp add: pick_next_active_def)
    with inv show ?thesis by auto
  next
    case (Cons u rest)
    let ?ck = "snd (crypt_opt c0 (sent_bytes frames))" and ?q = "(sd_q s)\<lparr>oq_pieces := rest\<rparr>"
    have c: "sd_rc4 s = ?ck" using inv act by (simp add: out_inv_def active_ok_def)
    obtain k n r where r: "r = begin_upload (en_fill env k) lay u ?ck (sd_scratch s)"
      and p: "pick_next_active env lay fast s = (case r of
                     Inr (up, c, scratch) \<Rightarrow>
                       s\<lparr>sd_fills := n, sd_rc4 := c, sd_scratch := scratch, sd_q := ?q\<lparr>oq_active := Some (APiece up)\<rparr>\<rparr>
                   | Inl e \<Rightarrow> s\<lparr>sd_fills := n, sd_q := push_reject u fast ?q\<rparr>)"
    proof -
      let ?r0 = "begin_upload (en_fill env (sd_fills s)) lay u ?ck (sd_scratch s)"
      let ?r1 = "begin_upload (en_fill env (sd_fills s + 1)) lay u ?ck (sd_scratch s)"
      show thesis
      proof (cases "case ?r0 of Inl e \<Rightarrow> is_not_found e | Inr _ \<Rightarrow> False")
        case True
        show thesis
          by (rule that [of ?r1 "sd_fills s + 1" "sd_fills s + 2"])
            (use act \<open>oq_ctrl (sd_q s) = []\<close> Cons c True in \<open>simp_all add: pick_next_active_def Let_def split: sum.split prod.split\<close>)
      next
        case False
        show thesis
          by (rule that [of ?r0 "sd_fills s" "sd_fills s + 1"])
            (use act \<open>oq_ctrl (sd_q s) = []\<close> Cons c False in \<open>simp_all add: pick_next_active_def Let_def split: sum.split prod.split\<close>)
      qed
    qed
    have u: "u \<in> asked" "set rest \<subseteq> asked" using inv Cons by (simp_all add: out_inv_def)
    show ?thesis
    proof (cases r)
      case (Inr a)
      obtain up c' scratch' where a: "a = (up, c', scratch')" by (rule prod_cases3)
      let ?f = "FPiece u (block_data disk lay u)"
      from begin_upload_frame [OF r [symmetric, unfolded Inr a] ok]
      have f: "if_block up = u" "if_sent up = 0" "if_total up = length (frame_bytes ?f)"
        "if_cipher_applied up = (?ck \<noteq> None)" "take (if_total up) scratch' = fst (crypt_opt ?ck (frame_bytes ?f))"
        "c' = snd (crypt_opt ?ck (frame_bytes ?f))" "ub_length u \<noteq> 0" "length (block_data disk lay u) = ub_length u"
        by blast+
      have "active_ok ?ck c' (Some (APiece up)) scratch' [?f]"
        using f(1-6) by (simp add: active_ok_def del: frame_bytes.simps)
      then have "out_inv disk lay c0 asked hist frames [?f] (pick_next_active env lay fast s)"
        using inv u f(7,8) unfolding p Inr a
        by (simp add: out_inv_def piece_frames_ok_def)
      then show ?thesis by blast
    next
      case (Inl e)
      have base: "out_inv disk lay c0 asked hist frames [] (s\<lparr>sd_fills := n, sd_q := ?q\<rparr>)"
        using inv u(2) by (simp add: out_inv_def)
      show ?thesis
      proof (cases fast)
        case True
        from inv_push_ctrl [OF base, of "reject_bytes u" Reject_frame] True u(1) reject_bytes_ne [of u] show ?thesis
          unfolding p Inl push_reject_def reject_bytes_def [symmetric] by auto
      next
        case False
        with base show ?thesis unfolding p Inl push_reject_def by auto
      qed
    qed
  qed
qed

lemma write_all_fields:
  assumes "write_all env b s = (ok, s')"
  shows "sd_q s' = sd_q s" "sd_rc4 s' = sd_rc4 s" "sd_scratch s' = sd_scratch s"
    "ok \<Longrightarrow> sd_wire s' = sd_wire s @ b"
  using assms by (auto simp: write_all_def Let_def split: if_splits)

lemma reserve_upload_fields:
  assumes "reserve_upload env need s = (w, s')"
  shows "sd_q s' = sd_q s" "sd_rc4 s' = sd_rc4 s" "sd_scratch s' = sd_scratch s" "sd_wire s' = sd_wire s"
  using assms by (auto simp: reserve_upload_def Let_def split: option.splits prod.splits if_splits)

lemma send_piece_inv:
  assumes inv: "out_inv disk lay c0 asked hist frames cur s" and act: "oq_active (sd_q s) = Some (APiece up)"
    and sp: "send_piece env up s = (r, s')" "r \<noteq> Some Write_failed"
  shows "\<exists>frames' cur'. out_inv disk lay c0 asked hist frames' cur' s'
    \<and> (r = None \<longrightarrow> oq_active (sd_q s') = None) \<and> oq_ctrl (sd_q s') = oq_ctrl (sd_q s)
    \<and> oq_pieces (sd_q s') = oq_pieces (sd_q s)"
proof -
  let ?ck = "snd (crypt_opt c0 (sent_bytes frames))"
  from inv act obtain d where d: "cur = [FPiece (if_block up) d]" "if_sent up = 0"
    "if_total up = length (frame_bytes (FPiece (if_block up) d))"
    "take (if_total up) (sd_scratch s) = fst (crypt_opt ?ck (frame_bytes (FPiece (if_block up) d)))"
    "sd_rc4 s = snd (crypt_opt ?ck (frame_bytes (FPiece (if_block up) d)))"
    by (auto simp: out_inv_def active_ok_def simp del: frame_bytes.simps)
  obtain w s1 where w: "reserve_upload env (ub_length (if_block up)) s = (w, s1)" by (rule prod.exhaust)
  note f1 = reserve_upload_fields [OF w]
  have nz: "0 < if_total up" using d(3) by (simp add: encode_id_def append_id_def)
  show ?thesis
  proof (cases w)
    case (Some x)
    then have "r = Some (Rate_limited x)" "s' = s1"
      using sp(1) w d(2) by (simp_all add: send_piece_def any_wire_bytes_def)
    then show ?thesis using inv f1 by (intro exI [of _ frames] exI [of _ cur]) (simp add: out_inv_def)
  next
    case None
    obtain ok s2 where wr: "write_all env (take (if_total up) (sd_scratch s1)) s1 = (ok, s2)" by (rule prod.exhaust)
    note f2 = write_all_fields [OF wr]
    obtain v where up: "if_sent v = 0" "if_total v = if_total up" and wp: "write_piece env v s1 = (r, s')"
    proof (rule that [of "if sd_limiter s1 = None then up else up\<lparr>if_rate_reserved := ub_length (if_block up)\<rparr>"])
    qed (use sp(1) w d(2) None in \<open>simp_all add: send_piece_def any_wire_bytes_def\<close>)
    have okT: ok using wp sp(2) wr nz up by (cases ok) (auto simp: write_piece_def Let_def)
    have r: "r = None" and s': "sd_q s' = (sd_q s2)\<lparr>oq_active := None\<rparr>" "sd_wire s' = sd_wire s2" "sd_rc4 s' = sd_rc4 s2"
      using wp okT wr nz up unfolding write_piece_def Let_def by (auto split: if_splits)
    have "out_inv disk lay c0 asked hist (frames @ cur) [] s'"
      by (rule inv_frame_sent [of disk lay c0 asked hist frames cur s])
        (use inv d f1 f2(1-3) f2(4) [OF okT] s' in \<open>simp_all del: frame_bytes.simps\<close>)
    then show ?thesis using r s' f1 f2 by auto
  qed
qed

lemma abortable_active: "abortable act \<Longrightarrow> act \<noteq> None"
  by (cases act) auto

lemma note_ctrl_fields [simp]:
  "oq_ctrl (note_ctrl_fully_sent q) = oq_ctrl q" "oq_pieces (note_ctrl_fully_sent q) = oq_pieces q"
  "oq_active (note_ctrl_fully_sent q) = oq_active q"
  by (simp_all add: note_ctrl_fully_sent_def)

lemma send_active_inv:
  assumes inv: "out_inv disk lay c0 asked hist frames cur s"
    and st: "send_active env allow (s, any) = (r, s', any')" "r \<noteq> Some Write_failed"
  shows "\<exists>frames' cur'. out_inv disk lay c0 asked hist frames' cur' s'"
    and "r = None \<Longrightarrow> oq_active (sd_q s) \<noteq> None \<and> oq_active (sd_q s') = None
      \<and> oq_ctrl (sd_q s') = oq_ctrl (sd_q s) \<and> oq_pieces (sd_q s') = oq_pieces (sd_q s)"
proof -
  have "(\<exists>frames' cur'. out_inv disk lay c0 asked hist frames' cur' s') \<and> (r = None \<longrightarrow> oq_active (sd_q s) \<noteq> None
      \<and> oq_active (sd_q s') = None \<and> oq_ctrl (sd_q s') = oq_ctrl (sd_q s) \<and> oq_pieces (sd_q s') = oq_pieces (sd_q s))"
  proof (cases "\<not> allow \<and> abortable (oq_active (sd_q s))")
    case True
    then have "s' = s\<lparr>sd_q := (sd_q s)\<lparr>oq_active := None\<rparr>\<rparr>" "r = None" "oq_active (sd_q s) \<noteq> None"
      using st(1) abortable_active [of "oq_active (sd_q s)"] by (simp_all add: send_active_def)
    with inv_drop_active [OF inv] True show ?thesis by auto
  next
    case False
    show ?thesis
    proof (cases "oq_active (sd_q s)")
      case None
      with st(1) inv show ?thesis by (auto simp: send_active_def)
    next
      case (Some a)
      show ?thesis
      proof (cases a)
        case (ACtrl buf)
        obtain ok s1 where w: "write_all env buf (s\<lparr>sd_q := (sd_q s)\<lparr>oq_active := None\<rparr>\<rparr>) = (ok, s1)" by (rule prod.exhaust)
        note f = write_all_fields [OF w]
        have ok: ok using st False Some ACtrl w by (auto simp: send_active_def split: if_splits)
        then have s': "s' = s1\<lparr>sd_q := note_ctrl_fully_sent (sd_q s1)\<rparr>" "r = None"
          using st(1) False Some ACtrl w by (auto simp: send_active_def split: if_splits)
        from inv Some ACtrl have p: "buf = fst (crypt_opt (snd (crypt_opt c0 (sent_bytes frames))) (sent_bytes cur))"
          "sd_rc4 s = snd (crypt_opt (snd (crypt_opt c0 (sent_bytes frames))) (sent_bytes cur))"
          by (auto simp: out_inv_def active_ok_def)
        have "out_inv disk lay c0 asked hist (frames @ cur) [] s'"
          by (rule inv_frame_sent [of disk lay c0 asked hist frames cur s]) (use inv p f(1-3) f(4) [OF ok] s' in simp_all)
        then show ?thesis using s' f(1) Some by auto
      next
        case (APiece up)
        obtain r1 s1 where sp: "send_piece env up s = (r1, s1)" by (rule prod.exhaust)
        have e: "r = r1" "s' = s1" using st(1) False Some APiece sp by (auto simp: send_active_def split: if_splits)
        from send_piece_inv [OF inv Some [unfolded APiece] sp] st(2) Some e show ?thesis by auto
      qed
    qed
  qed
  then show "\<exists>frames' cur'. out_inv disk lay c0 asked hist frames' cur' s'"
    "r = None \<Longrightarrow> oq_active (sd_q s) \<noteq> None \<and> oq_active (sd_q s') = None
      \<and> oq_ctrl (sd_q s') = oq_ctrl (sd_q s) \<and> oq_pieces (sd_q s') = oq_pieces (sd_q s)" by blast+
qed

text \<open>Rejects are the only control bytes a quantum adds.\<close>

definition adds_rejects :: "upload_block set \<Rightarrow> (origin \<times> bytes) list \<Rightarrow> (origin \<times> bytes) list \<Rightarrow> bool" where
  "adds_rejects asked hist hist' \<longleftrightarrow>
     (\<exists>ext. hist' = hist @ ext \<and> set ext \<subseteq> (\<lambda>u. (Reject_frame, reject_bytes u)) ` asked)"

lemma adds_rejects_refl [simp]: "adds_rejects asked hist hist"
  by (simp add: adds_rejects_def)

lemma adds_rejects_trans: "adds_rejects asked a b \<Longrightarrow> adds_rejects asked b c \<Longrightarrow> adds_rejects asked a c"
  by (auto simp: adds_rejects_def)

lemma quantum_step_inv:
  assumes inv: "out_inv disk lay c0 asked hist frames cur s"
    and ok: "layout_ok lay" "sized disk lay" "fills_from env disk"
    and st: "quantum_step env lay allow fast (s, any) = (r, s', any')" "r \<noteq> Some Write_failed"
  shows "\<exists>hist' frames' cur'. out_inv disk lay c0 asked hist' frames' cur' s' \<and> adds_rejects asked hist hist'"
proof (cases "oq_active (sd_q s) = None")
  case True
  then have cur: "cur = []" using inv by (simp add: out_inv_def active_ok_def)
  show ?thesis
  proof (cases "\<not> allow \<and> oq_ctrl (sd_q s) = []")
    case True
    then have "s' = s" using st(1) \<open>oq_active (sd_q s) = None\<close> by (simp add: quantum_step_def)
    with inv show ?thesis by (intro exI [of _ hist]) auto
  next
    case False
    let ?s = "pick_next_active env lay fast s"
    obtain hist1 cur1 where p: "out_inv disk lay c0 asked hist1 frames cur1 ?s" "adds_rejects asked hist hist1"
      using pick_next_inv [OF inv [unfolded cur] True ok, of fast] by (auto simp: adds_rejects_def)
    show ?thesis
    proof (cases "oq_active (sd_q ?s) = None")
      case True
      then have "s' = ?s"
        using st(1) False \<open>oq_active (sd_q s) = None\<close> by (auto simp: quantum_step_def Let_def split: if_splits)
      with p show ?thesis by auto
    next
      case act: False
      then have "send_active env allow (?s, any) = (r, s', any')"
        using st(1) False True by (simp add: quantum_step_def Let_def del: not_None_eq)
      from send_active_inv(1) [OF p(1) this st(2)] p(2) show ?thesis by blast
    qed
  qed
next
  case False
  then have "send_active env allow (s, any) = (r, s', any')"
    using st(1) by (simp add: quantum_step_def del: not_None_eq)
  from send_active_inv(1) [OF inv this st(2)] show ?thesis by (intro exI [of _ hist]) auto
qed

lemma quantum_loop_inv:
  assumes ok: "layout_ok lay" "sized disk lay" "fills_from env disk"
  shows "out_inv disk lay c0 asked hist frames cur s \<Longrightarrow>
    quantum_loop n env lay allow fast (s, any) = Some (e, s', any') \<Longrightarrow> e \<noteq> Write_failed \<Longrightarrow>
    \<exists>hist' frames' cur'. out_inv disk lay c0 asked hist' frames' cur' s' \<and> adds_rejects asked hist hist'"
proof (induction n arbitrary: hist frames cur s any)
  case (Suc n)
  obtain r s1 any1 where st: "quantum_step env lay allow fast (s, any) = (r, s1, any1)" by (rule prod_cases3)
  have r: "r \<noteq> Some Write_failed" using Suc.prems(2,3) st by auto
  obtain hist1 frames1 cur1 where i: "out_inv disk lay c0 asked hist1 frames1 cur1 s1" "adds_rejects asked hist hist1"
    using quantum_step_inv [OF Suc.prems(1) ok st r] by blast
  show ?case
  proof (cases r)
    case None
    then have "quantum_loop n env lay allow fast (s1, any1) = Some (e, s', any')" using Suc.prems(2) st by simp
    from Suc.IH [OF i(1) this Suc.prems(3)] i(2) show ?thesis by (meson adds_rejects_trans)
  next
    case (Some x)
    then have "s' = s1" using Suc.prems(2) st by simp
    with i show ?thesis by blast
  qed
qed simp

section \<open>Every quantum returns\<close>

definition queue_size :: "out_queue \<Rightarrow> nat" where
  "queue_size q = 2 * (length (oq_ctrl q) + length (oq_pieces q)) + (if oq_active q = None then 0 else 1)"

lemma write_piece_done:
  assumes "write_piece env up s = (None, s')"
  shows "sd_q s' = (sd_q s)\<lparr>oq_active := None\<rparr>"
proof -
  obtain ok s1 where w: "(if if_sent up < if_total up then write_all env (take (if_total up) (sd_scratch s)) s else (True, s))
    = (ok, s1)" by (rule prod.exhaust)
  have "sd_q s1 = sd_q s" using w write_all_fields(1) by (auto split: if_splits)
  then show ?thesis using assms by (auto simp: write_piece_def w Let_def split: if_splits)
qed

lemma send_piece_done:
  assumes "send_piece env up s = (None, s')"
  shows "sd_q s' = (sd_q s)\<lparr>oq_active := None\<rparr>"
proof -
  let ?need = "ub_length (if_block up)"
  obtain w s2 where w: "(if any_wire_bytes up then (None, s) else reserve_upload env ?need s) = (w, s2)"
    by (rule prod.exhaust)
  have q2: "sd_q s2 = sd_q s" using w reserve_upload_fields(1) [of env ?need s] by (auto split: if_splits)
  obtain v where "write_piece env v s2 = (None, s')"
    using assms w by (auto simp: send_piece_def Let_def split: option.splits)
  from write_piece_done [OF this] q2 show ?thesis by simp
qed

lemma send_active_shrinks:
  assumes "send_active env allow (s, any) = (None, s', any')"
  shows "oq_active (sd_q s) \<noteq> None \<and> oq_active (sd_q s') = None
    \<and> oq_ctrl (sd_q s') = oq_ctrl (sd_q s) \<and> oq_pieces (sd_q s') = oq_pieces (sd_q s)"
proof (cases "\<not> allow \<and> abortable (oq_active (sd_q s))")
  case True
  then show ?thesis using assms abortable_active [of "oq_active (sd_q s)"] by (auto simp: send_active_def)
next
  case False
  show ?thesis
  proof (cases "oq_active (sd_q s)")
    case None
    then show ?thesis using assms False by (auto simp: send_active_def)
  next
    case (Some a)
    show ?thesis
    proof (cases a)
      case (ACtrl buf)
      obtain ok s1 where w: "write_all env buf (s\<lparr>sd_q := (sd_q s)\<lparr>oq_active := None\<rparr>\<rparr>) = (ok, s1)" by (rule prod.exhaust)
      show ?thesis using assms False Some ACtrl w write_all_fields(1) [OF w]
        by (cases ok) (auto simp: send_active_def)
    next
      case (APiece up)
      obtain r1 s1 where sp: "send_piece env up s = (r1, s1)" by (rule prod.exhaust)
      have e: "r1 = None" "s' = s1" using assms False Some APiece sp by (auto simp: send_active_def split: if_splits)
      from send_piece_done [OF sp [unfolded e(1)]] e(2) Some show ?thesis by simp
    qed
  qed
qed

lemma push_ctrl_length: "length (oq_ctrl (push_ctrl_owned b q)) \<le> Suc (length (oq_ctrl q))"
  by (auto simp: push_ctrl_owned_def)

lemma pick_next_shrinks:
  assumes "oq_active (sd_q s) = None"
  shows "oq_active (sd_q (pick_next_active env lay fast s)) \<noteq> None \<Longrightarrow>
      queue_size (sd_q (pick_next_active env lay fast s)) < queue_size (sd_q s)"
    and "oq_active (sd_q (pick_next_active env lay fast s)) = None \<Longrightarrow> oq_ctrl (sd_q (pick_next_active env lay fast s)) = [] \<Longrightarrow>
      oq_pieces (sd_q (pick_next_active env lay fast s)) \<noteq> [] \<Longrightarrow>
      queue_size (sd_q (pick_next_active env lay fast s)) < queue_size (sd_q s)"
proof -
  have "(oq_active (sd_q (pick_next_active env lay fast s)) \<noteq> None \<longrightarrow>
      queue_size (sd_q (pick_next_active env lay fast s)) < queue_size (sd_q s)) \<and>
    (oq_active (sd_q (pick_next_active env lay fast s)) = None \<and> oq_ctrl (sd_q (pick_next_active env lay fast s)) = []
      \<and> oq_pieces (sd_q (pick_next_active env lay fast s)) \<noteq> [] \<longrightarrow>
      queue_size (sd_q (pick_next_active env lay fast s)) < queue_size (sd_q s))"
  proof (cases "oq_ctrl (sd_q s)")
    case Nil
    show ?thesis
    proof (cases "oq_pieces (sd_q s)")
      case (Cons u rest)
      have "sd_q (pick_next_active env lay fast s) = push_reject u fast ((sd_q s)\<lparr>oq_pieces := rest\<rparr>)
        \<or> (\<exists>up. sd_q (pick_next_active env lay fast s) = (sd_q s)\<lparr>oq_pieces := rest, oq_active := Some (APiece up)\<rparr>)"
        using assms Nil Cons by (auto simp: pick_next_active_def Let_def split: sum.split prod.split)
      then show ?thesis
      proof (elim disjE exE)
        assume "sd_q (pick_next_active env lay fast s) = push_reject u fast ((sd_q s)\<lparr>oq_pieces := rest\<rparr>)"
        then show ?thesis using assms Nil Cons by (auto simp: queue_size_def push_reject_def)
      qed (use assms Nil Cons in \<open>simp add: queue_size_def\<close>)
    qed (use assms Nil in \<open>simp add: pick_next_active_def\<close>)
  qed (use assms in \<open>simp add: pick_next_active_def case_prod_beta queue_size_def\<close>)
  then show "oq_active (sd_q (pick_next_active env lay fast s)) \<noteq> None \<Longrightarrow>
      queue_size (sd_q (pick_next_active env lay fast s)) < queue_size (sd_q s)"
    "oq_active (sd_q (pick_next_active env lay fast s)) = None \<Longrightarrow> oq_ctrl (sd_q (pick_next_active env lay fast s)) = [] \<Longrightarrow>
      oq_pieces (sd_q (pick_next_active env lay fast s)) \<noteq> [] \<Longrightarrow>
      queue_size (sd_q (pick_next_active env lay fast s)) < queue_size (sd_q s)" by blast+
qed

lemma quantum_step_shrinks:
  assumes "quantum_step env lay allow fast (s, any) = (None, s', any')"
  shows "queue_size (sd_q s') < queue_size (sd_q s)"
proof (cases "oq_active (sd_q s) = None")
  case True
  let ?s = "pick_next_active env lay fast s"
  have e: "\<not> (\<not> allow \<and> oq_ctrl (sd_q s) = [])" using assms True by (auto simp: quantum_step_def)
  show ?thesis
  proof (cases "oq_active (sd_q ?s) = None")
    case n: True
    then have "s' = ?s" "oq_ctrl (sd_q ?s) = []" "oq_pieces (sd_q ?s) \<noteq> []"
      using assms True e by (auto simp: quantum_step_def Let_def split: if_splits)
    then show ?thesis using pick_next_shrinks(2) [OF True n] by simp
  next
    case False
    then have "send_active env allow (?s, any) = (None, s', any')"
      using assms True e by (simp add: quantum_step_def Let_def del: not_None_eq)
    from send_active_shrinks [OF this] have "queue_size (sd_q s') < queue_size (sd_q ?s)" by (simp add: queue_size_def)
    with pick_next_shrinks(1) [OF True False] show ?thesis by simp
  qed
next
  case False
  then have "send_active env allow (s, any) = (None, s', any')"
    using assms by (simp add: quantum_step_def del: not_None_eq)
  from send_active_shrinks [OF this] show ?thesis by (simp add: queue_size_def)
qed

lemma quantum_loop_returns:
  "queue_size (sd_q s) < n \<Longrightarrow> quantum_loop n env lay allow fast (s, any) \<noteq> None"
proof (induction n arbitrary: s any)
  case (Suc n)
  obtain r s1 any1 where st: "quantum_step env lay allow fast (s, any) = (r, s1, any1)" by (rule prod_cases3)
  show ?case
  proof (cases r)
    case None
    with quantum_step_shrinks [of env lay allow fast s any s1 any1] st Suc show ?thesis by simp
  qed (use st in simp)
qed simp

lemma send_quantum_returns: "send_quantum env lay allow fast s \<noteq> None"
proof -
  let ?s = "if allow then s else s\<lparr>sd_q := (sd_q s)\<lparr>oq_pieces := []\<rparr>\<rparr>"
  have "quantum_loop (quantum_size ?s + 1) env lay allow fast (?s, False) \<noteq> None"
    by (rule quantum_loop_returns) (simp add: quantum_size_def queue_size_def)
  then obtain e s' any where "quantum_loop (quantum_size ?s + 1) env lay allow fast (?s, False) = Some (e, s', any)"
    by auto
  then show ?thesis unfolding send_quantum_def Let_def by (cases e) simp_all
qed

section \<open>A session\<close>

text \<open>What the writer does in a session: its messages, the completion haves, keepalives, and quanta.\<close>

datatype out_op = Op_msg writer_msg | Op_haves "nat list" | Op_keepalive | Op_quantum bool

fun run_op :: "send_env \<Rightarrow> storage_layout \<Rightarrow> bool \<Rightarrow> out_op \<Rightarrow> sender \<Rightarrow> sender option" where
  "run_op env lay fast (Op_msg m) s = Some (s\<lparr>sd_q := snd (apply_writer_msg fast m (sd_q s))\<rparr>)"
| "run_op env lay fast (Op_haves is) s = Some (s\<lparr>sd_q := enqueue_have_messages is (sd_q s)\<rparr>)"
| "run_op env lay fast Op_keepalive s = Some (s\<lparr>sd_q := push_keepalive (sd_q s)\<rparr>)"
| "run_op env lay fast (Op_quantum allow) s =
     (case send_quantum env lay allow fast s of Some (Inr r, s') \<Rightarrow> Some s' | _ \<Rightarrow> None)"

fun run_ops :: "send_env \<Rightarrow> storage_layout \<Rightarrow> bool \<Rightarrow> out_op list \<Rightarrow> sender \<Rightarrow> sender option" where
  "run_ops env lay fast [] s = Some s"
| "run_ops env lay fast (m # ms) s =
     (case run_op env lay fast m s of None \<Rightarrow> None | Some s' \<Rightarrow> run_ops env lay fast ms s')"

fun op_pushed :: "out_op \<Rightarrow> bytes" where
  "op_pushed (Op_msg (W_ctrl b)) = b"
| "op_pushed (Op_haves is) = concat (map (\<lambda>i. encode_message (Have (of_nat i))) is)"
| "op_pushed _ = []"

lemma haves_encode:
  "foldl (\<lambda>out i. append_have out (of_nat i)) acc is = acc @ concat (map (\<lambda>i. encode_message (Have (of_nat i))) is)"
  by (induction "is" arbitrary: acc) (auto simp: append_is_encode simp del: encode_message.simps)

fun op_asked :: "out_op \<Rightarrow> upload_block set" where
  "op_asked (Op_msg (W_upload u)) = {u}"
| "op_asked _ = {}"

text \<open>The control buffers queued by the session, in order; an empty one is dropped by the queue.\<close>

definition pushed :: "out_op list \<Rightarrow> bytes list" where
  "pushed ops = filter (\<lambda>b. b \<noteq> []) (map op_pushed ops)"

lemma pushed_Cons: "pushed (m # ops) = pushed [m] @ pushed ops"
  by (simp add: pushed_def)

definition asked_blocks :: "out_op list \<Rightarrow> upload_block set" where
  "asked_blocks ops = \<Union> (set (map op_asked ops))"

text \<open>The history of a session: its pushes in order, and nothing else but keepalives and rejects of
  requested blocks.\<close>

definition pushed_in :: "(origin \<times> bytes) list \<Rightarrow> bytes list" where
  "pushed_in hist = map snd (filter (\<lambda>e. fst e = Pushed) hist)"

definition hist_ok :: "upload_block set \<Rightarrow> bytes list \<Rightarrow> (origin \<times> bytes) list \<Rightarrow> bool" where
  "hist_ok asked p hist \<longleftrightarrow>
     pushed_in hist = p
     \<and> (\<forall>e \<in> set hist. fst e \<noteq> Pushed \<longrightarrow>
          e = (Keepalive_frame, append_keepalive []) \<or> e \<in> (\<lambda>u. (Reject_frame, reject_bytes u)) ` asked)"

lemma hist_ok_push: "hist_ok asked p hist \<Longrightarrow> hist_ok asked (p @ [b]) (hist @ [(Pushed, b)])"
  by (auto simp: hist_ok_def pushed_in_def)

lemma hist_ok_rejects:
  assumes "hist_ok asked p hist" "adds_rejects asked hist hist'"
  shows "hist_ok asked p hist'"
proof -
  obtain ext where e: "hist' = hist @ ext" "set ext \<subseteq> (\<lambda>u. (Reject_frame, reject_bytes u)) ` asked"
    using assms(2) unfolding adds_rejects_def by blast
  then have "filter (\<lambda>e. fst e = Pushed) ext = []" by (auto simp: filter_empty_conv)
  then show ?thesis using assms(1) e(2) unfolding hist_ok_def pushed_in_def e(1) set_append filter_append by auto
qed

lemma hist_ok_keepalive: "hist_ok asked p hist \<Longrightarrow> hist_ok asked p (hist @ [(Keepalive_frame, append_keepalive [])])"
  by (auto simp: hist_ok_def pushed_in_def)

definition session_inv ::
  "(fs_path \<Rightarrow> bytes) \<Rightarrow> storage_layout \<Rightarrow> rc4 option \<Rightarrow> upload_block set \<Rightarrow> bytes list \<Rightarrow> sender \<Rightarrow> bool" where
  "session_inv disk lay c0 asked p s \<longleftrightarrow>
     (\<exists>hist frames cur. out_inv disk lay c0 asked hist frames cur s \<and> hist_ok asked p hist)"

lemma session_inv_mono:
  "session_inv disk lay c0 asked p s \<Longrightarrow> asked \<subseteq> asked' \<Longrightarrow> session_inv disk lay c0 asked' p s"
  unfolding session_inv_def out_inv_def hist_ok_def piece_frames_ok_def by (elim exE, intro exI) blast

lemma session_push:
  assumes "session_inv disk lay c0 asked p s"
  shows "session_inv disk lay c0 asked (p @ filter (\<lambda>b. b \<noteq> []) [b]) (s\<lparr>sd_q := push_ctrl_owned b (sd_q s)\<rparr>)"
proof -
  obtain hist frames cur where i: "out_inv disk lay c0 asked hist frames cur s" "hist_ok asked p hist"
    using assms unfolding session_inv_def by blast
  from inv_push_ctrl [OF i(1), of b Pushed] hist_ok_push [OF i(2), of b] i(2) show ?thesis
    unfolding session_inv_def by (cases "b = []") auto
qed

lemma session_reject:
  assumes "session_inv disk lay c0 asked p s" "u \<in> asked"
  shows "session_inv disk lay c0 asked p (s\<lparr>sd_q := push_reject u fast (sd_q s)\<rparr>)"
proof (cases fast)
  case True
  obtain hist frames cur where i: "out_inv disk lay c0 asked hist frames cur s" "hist_ok asked p hist"
    using assms unfolding session_inv_def by blast
  have "adds_rejects asked hist (hist @ [(Reject_frame, reject_bytes u)])"
    using assms(2) by (auto simp: adds_rejects_def)
  from hist_ok_rejects [OF i(2) this] inv_push_ctrl [OF i(1), of "reject_bytes u" Reject_frame] True show ?thesis
    unfolding session_inv_def push_reject_def reject_bytes_def [symmetric] by auto
qed (use assms in \<open>simp add: push_reject_def\<close>)

lemma session_pieces:
  assumes "session_inv disk lay c0 asked p s" "set ps \<subseteq> asked"
  shows "session_inv disk lay c0 asked p (s\<lparr>sd_q := (sd_q s)\<lparr>oq_pieces := ps\<rparr>\<rparr>)"
  using assms inv_pieces_subset unfolding session_inv_def by blast

lemma session_drop:
  assumes "session_inv disk lay c0 asked p s" "abortable (oq_active (sd_q s))"
  shows "session_inv disk lay c0 asked p (s\<lparr>sd_q := (sd_q s)\<lparr>oq_active := None\<rparr>\<rparr>)"
  using assms inv_drop_active unfolding session_inv_def by blast

lemma session_asked: "session_inv disk lay c0 asked p s \<Longrightarrow> set (oq_pieces (sd_q s)) \<subseteq> asked"
  by (auto simp: session_inv_def out_inv_def)

lemma session_msg:
  assumes "session_inv disk lay c0 asked p s"
  shows "session_inv disk lay c0 (asked \<union> op_asked (Op_msg m)) (p @ pushed [Op_msg m])
           (s\<lparr>sd_q := snd (apply_writer_msg fast m (sd_q s))\<rparr>)"
proof (cases m)
  case (W_ctrl b)
  with session_push [OF assms, of b] show ?thesis by (simp add: pushed_def)
next
  case (W_upload u)
  have s: "session_inv disk lay c0 (asked \<union> {u}) p s" using session_inv_mono [OF assms] by blast
  have "session_inv disk lay c0 (asked \<union> {u}) p (s\<lparr>sd_q := (sd_q s)\<lparr>oq_pieces := oq_pieces (sd_q s) @ [u]\<rparr>\<rparr>)"
    by (rule session_pieces [OF s]) (use session_asked [OF assms] in auto)
  with session_reject [OF s, of u fast] show ?thesis
    unfolding W_upload by (simp add: try_push_piece_def pushed_def)
next
  case (W_cancel u)
  have "session_inv disk lay c0 asked p (s\<lparr>sd_q := (sd_q s)\<lparr>oq_pieces := remove1 u (oq_pieces (sd_q s))\<rparr>\<rparr>)"
    by (rule session_pieces [OF assms]) (use session_asked [OF assms] set_remove1_subset in fastforce)
  with session_drop [OF this] show ?thesis
    unfolding W_cancel by (simp add: cancel_piece_def Let_def pushed_def)
next
  case W_clear_pieces
  have "session_inv disk lay c0 asked p (s\<lparr>sd_q := (sd_q s)\<lparr>oq_pieces := []\<rparr>\<rparr>)"
    by (rule session_pieces [OF assms]) simp
  with session_drop [OF this] show ?thesis
    unfolding W_clear_pieces by (simp add: clear_pieces_def Let_def pushed_def)
qed (use assms in \<open>simp add: pushed_def\<close>)

lemma append_keepalive_ne: "append_keepalive [] \<noteq> []"
  by (simp add: append_is_encode)

lemma session_keepalive:
  assumes "session_inv disk lay c0 asked p s"
  shows "session_inv disk lay c0 asked p (s\<lparr>sd_q := push_keepalive (sd_q s)\<rparr>)"
proof (cases "oq_keepalive_queued (sd_q s)")
  case False
  let ?s = "s\<lparr>sd_q := (sd_q s)\<lparr>oq_keepalive_queued := True\<rparr>\<rparr>"
  have "out_inv disk lay c0 asked hist frames cur ?s" if "out_inv disk lay c0 asked hist frames cur s" for hist frames cur
    using that by (simp add: out_inv_def)
  then have push: "out_inv disk lay c0 asked (hist @ [(Keepalive_frame, append_keepalive [])]) frames cur
      (s\<lparr>sd_q := push_keepalive (sd_q s)\<rparr>)" if "out_inv disk lay c0 asked hist frames cur s" for hist frames cur
    using inv_push_ctrl [of disk lay c0 asked hist frames cur ?s "append_keepalive []" Keepalive_frame] that False
    by (simp add: push_keepalive_def append_keepalive_ne del: append_keepalive_def)
  show ?thesis
    using assms push hist_ok_keepalive unfolding session_inv_def by blast
qed (use assms in \<open>simp add: push_keepalive_def\<close>)

lemma session_quantum:
  assumes ok: "layout_ok lay" "sized disk lay" "fills_from env disk"
    and s: "session_inv disk lay c0 asked p s" and q: "send_quantum env lay allow fast s = Some (Inr r, s')"
  shows "session_inv disk lay c0 asked p s'"
proof -
  let ?s = "if allow then s else s\<lparr>sd_q := (sd_q s)\<lparr>oq_pieces := []\<rparr>\<rparr>"
  have "session_inv disk lay c0 asked p ?s" using s session_pieces [OF s, of "[]"] by simp
  then obtain hist frames cur where i: "out_inv disk lay c0 asked hist frames cur ?s" "hist_ok asked p hist"
    unfolding session_inv_def by blast
  obtain n e any where l: "quantum_loop n env lay allow fast (?s, False) = Some (e, s', any)" "e \<noteq> Write_failed"
  proof (cases "quantum_loop (quantum_size ?s + 1) env lay allow fast (?s, False)")
    case None
    then show thesis using q by (simp add: send_quantum_def Let_def)
  next
    case (Some x)
    obtain e s1 any where x: "x = (e, s1, any)" by (rule prod_cases3)
    show thesis
      by (rule that [of "quantum_size ?s + 1" e any])
        (use q Some x in \<open>cases e; simp add: send_quantum_def Let_def\<close>)+
  qed
  from quantum_loop_inv [OF ok i(1) l] i(2) show ?thesis
    unfolding session_inv_def by (blast intro: hist_ok_rejects)
qed

lemma session_run:
  assumes ok: "layout_ok lay" "sized disk lay" "fills_from env disk"
  shows "session_inv disk lay c0 asked p s \<Longrightarrow> run_ops env lay fast ops s = Some s' \<Longrightarrow>
    session_inv disk lay c0 (asked \<union> asked_blocks ops) (p @ pushed ops) s'"
proof (induction ops arbitrary: asked p s)
  case (Cons m ops)
  obtain s1 where s1: "run_op env lay fast m s = Some s1" "run_ops env lay fast ops s1 = Some s'"
    using Cons.prems(2) by (auto split: option.splits)
  have "session_inv disk lay c0 (asked \<union> op_asked m) (p @ pushed [m]) s1"
  proof (cases m)
    case (Op_msg w)
    with s1(1) session_msg [OF Cons.prems(1), of w fast] show ?thesis by simp
  next
    case (Op_haves hs)
    with s1(1) session_push [OF Cons.prems(1), of "op_pushed m"] show ?thesis
      by (auto simp: enqueue_have_messages_def haves_encode pushed_def simp del: encode_message.simps)
  next
    case Op_keepalive
    with s1(1) session_keepalive [OF Cons.prems(1)] show ?thesis by (simp add: pushed_def)
  next
    case (Op_quantum allow)
    with s1(1) session_quantum [OF ok Cons.prems(1), of allow fast] show ?thesis
      by (auto simp: pushed_def split: option.splits prod.splits sum.splits)
  qed
  from Cons.IH [OF this s1(2)] pushed_Cons [of m ops] show ?case
    by (simp add: asked_blocks_def Un_assoc)
qed (simp add: pushed_def asked_blocks_def)

definition sender_new :: "rc4 option \<Rightarrow> wire_limiter option \<Rightarrow> bytes \<Rightarrow> sender" where
  "sender_new c lim0 scratch =
     \<lparr>sd_q = out_queue_new, sd_rc4 = c, sd_scratch = scratch, sd_limiter = lim0, sd_wire = [], sd_uploaded = 0,
      sd_fills = 0, sd_writes = 0, sd_ticks = 0\<rparr>"

lemma session_start: "session_inv disk lay c {} [] (sender_new c lim0 scratch)"
  unfolding session_inv_def out_inv_def hist_ok_def
  by (intro exI [of _ "[]"])
    (simp add: sender_new_def out_queue_new_def active_ok_def piece_frames_ok_def pushed_in_def)

text \<open>A buffer that holds whole messages.\<close>

definition whole :: "bytes \<Rightarrow> bool" where
  "whole bs \<longleftrightarrow> (\<exists>ms. bs = concat (map encode_message ms))"

lemma whole_concat: "\<forall>b \<in> set bss. whole b \<Longrightarrow> whole (concat bss)"
proof (induction bss)
  case (Cons b bss)
  then obtain ms ms' where "b = concat (map encode_message ms)" "concat bss = concat (map encode_message ms')"
    by (auto simp: whole_def)
  then show ?case unfolding whole_def by (intro exI [of _ "ms @ ms'"]) simp
qed (auto simp: whole_def)

lemma whole_encode: "whole (encode_message m)"
  unfolding whole_def by (intro exI [of _ "[m]"]) simp

lemma out_queue_stream_aux:
  assumes "layout_ok lay" "sized disk lay" "fills_from env disk"
    and "run_ops env lay fast ops (sender_new c lim0 scratch) = Some s"
  obtains frames unsent where "fst (crypt_opt c (sd_wire s)) = sent_bytes frames"
    "hist_ok (asked_blocks ops) (pushed ops) (ctrls frames @ unsent)" "\<not> has_work (sd_q s) \<longrightarrow> unsent = []"
    "piece_frames_ok disk lay (asked_blocks ops) (set frames)"
proof -
  obtain hist frames cur where i: "out_inv disk lay c (asked_blocks ops) hist frames cur s"
    and h: "hist_ok (asked_blocks ops) (pushed ops) hist"
    using session_run [OF assms(1-3) session_start assms(4)] unfolding session_inv_def by auto
  from i obtain es where es: "hist = ctrls frames @ ctrls cur @ es" "queued_as (oq_ctrl (sd_q s)) es"
    by (auto simp: out_inv_def)
  have "\<not> has_work (sd_q s) \<longrightarrow> ctrls cur @ es = []"
    using i es(2) by (auto simp: has_work_def out_inv_def active_ok_def)
  moreover have "fst (crypt_opt c (sd_wire s)) = sent_bytes frames" using i by (simp add: out_inv_def crypt_opt_crypt)
  moreover have "piece_frames_ok disk lay (asked_blocks ops) (set frames)"
    using i by (auto simp: out_inv_def piece_frames_ok_def)
  ultimately show thesis using that [of frames "ctrls cur @ es"] h es(1) by simp
qed

lemma frame_of_ctrls: "FCtrl og b \<in> set frames \<Longrightarrow> (og, b) \<in> set (ctrls frames)"
  by (force simp: ctrls_def)

lemma pushed_of_frames: "FCtrl Pushed b \<in> set frames \<Longrightarrow> b \<in> set (pushed_in (ctrls frames))"
  by (force simp: pushed_in_def dest: frame_of_ctrls)

lemma pushes_of_frames: "[b. FCtrl Pushed b \<leftarrow> frames] = pushed_in (ctrls frames)"
proof (induction frames)
  case (Cons f frames)
  then show ?case
  proof (cases f)
    case (FCtrl og b)
    with Cons show ?thesis by (cases og) (simp_all add: pushed_in_def ctrls_def)
  qed (simp add: pushed_in_def ctrls_def)
qed (simp add: pushed_in_def)

text \<open>The frames that are not the session's own.\<close>

lemma other_ctrl_frames:
  assumes "hist_ok asked p (ctrls frames @ unsent)" "FCtrl og b \<in> set frames"
  shows "og = Pushed \<or> b = encode_message KeepAlive
    \<or> (\<exists>u \<in> asked. b = encode_message
         (RejectRequest (of_nat (ub_index u)) (of_nat (ub_begin u)) (of_nat (ub_length u))))"
proof -
  have "(og, b) \<in> set (ctrls frames @ unsent)" using frame_of_ctrls [OF assms(2)] by simp
  with assms(1) have "og \<noteq> Pushed \<longrightarrow> (og, b) = (Keepalive_frame, append_keepalive [])
      \<or> (og, b) \<in> (\<lambda>u. (Reject_frame, reject_bytes u)) ` asked"
    unfolding hist_ok_def by (metis fst_conv)
  then show ?thesis by (auto simp: reject_bytes_def append_is_encode simp del: encode_message.simps)
qed

lemma frames_whole:
  assumes h: "hist_ok asked p (ctrls frames @ unsent)" and p: "\<forall>b \<in> set p. whole b"
  shows "whole (sent_bytes frames)"
proof -
  have "whole (frame_bytes f)" if f: "f \<in> set frames" for f
  proof (cases f)
    case (FCtrl og b)
    have "p = pushed_in (ctrls frames) @ pushed_in unsent" using h by (simp add: hist_ok_def pushed_in_def)
    then have "og = Pushed \<Longrightarrow> b \<in> set p" using pushed_of_frames [of b frames] f FCtrl by simp
    with other_ctrl_frames [OF h] f FCtrl p show ?thesis by (auto intro: whole_encode simp del: encode_message.simps)
  qed (use whole_encode in \<open>simp del: encode_message.simps\<close>)
  then show ?thesis unfolding sent_bytes_def by (intro whole_concat) simp
qed

text \<open>C13. What a connection's writer has put on the wire, after any sequence of queued control messages,
  upload requests, cancels, chokes, haves, keepalives and send quanta whose socket writes succeeded:
  decrypted with the mirrored cipher it is a sequence of frames, each of them one of the buffers the
  session queued, whole; a keepalive; the reject of a requested block; or the piece that answers a request and
  carries exactly the requested range of the torrent's data. The session's buffers appear in
  the order they were queued, none left out or cut by another frame, and all of them once the queue
  is empty. So if every queued buffer consists of whole messages, the wire does too.\<close>

theorem out_queue_stream:
  assumes "layout_ok lay" "sized disk lay" "fills_from env disk"
    and "run_ops env lay fast ops (sender_new c lim0 scratch) = Some s"
  shows "\<exists>frames. fst (crypt_opt c (sd_wire s)) = concat (map frame_bytes frames)
    \<and> (\<exists>unsent. pushed ops = [b. FCtrl Pushed b \<leftarrow> frames] @ unsent \<and> (\<not> has_work (sd_q s) \<longrightarrow> unsent = []))
    \<and> (\<forall>og b. FCtrl og b \<in> set frames \<longrightarrow> og = Pushed \<or> b = encode_message KeepAlive
         \<or> (\<exists>u \<in> asked_blocks ops. b = encode_message
              (RejectRequest (of_nat (ub_index u)) (of_nat (ub_begin u)) (of_nat (ub_length u)))))
    \<and> (\<forall>u d. FPiece u d \<in> set frames \<longrightarrow>
         u \<in> asked_blocks ops \<and> d = block_data disk lay u \<and> length d = ub_length u)
    \<and> ((\<forall>b \<in> set (pushed ops). whole b) \<longrightarrow> whole (fst (crypt_opt c (sd_wire s))))"
proof -
  obtain frames unsent where w: "fst (crypt_opt c (sd_wire s)) = sent_bytes frames"
    and h: "hist_ok (asked_blocks ops) (pushed ops) (ctrls frames @ unsent)"
    and e: "\<not> has_work (sd_q s) \<longrightarrow> unsent = []"
    and p: "piece_frames_ok disk lay (asked_blocks ops) (set frames)"
    by (rule out_queue_stream_aux [OF assms])
  have "pushed ops = [b. FCtrl Pushed b \<leftarrow> frames] @ pushed_in unsent"
    using h unfolding pushes_of_frames by (simp add: hist_ok_def pushed_in_def)
  moreover have "\<not> has_work (sd_q s) \<longrightarrow> pushed_in unsent = []" using e by (simp add: pushed_in_def)
  moreover have "\<forall>u d. FPiece u d \<in> set frames \<longrightarrow>
      u \<in> asked_blocks ops \<and> d = block_data disk lay u \<and> length d = ub_length u"
    using p by (auto simp: piece_frames_ok_def)
  ultimately show ?thesis
    using other_ctrl_frames [OF h] frames_whole [OF h] w
    by (intro exI [of _ frames]) (auto simp: sent_bytes_def simp del: encode_message.simps)
qed

definition wit_layout :: storage_layout where
  "wit_layout =
     (let path = \<lambda>n. \<lparr>is_abs = False, comps = [n]\<rparr> in
      \<lparr>data_root = \<lparr>is_abs = True, comps = [''data'']\<rparr>, piece_length = 4, piece_count = 2, total_size = 7,
       files = [\<lparr>fl_path = path ''a'', fl_size = 3, fl_offset = 0, fl_priority = 1\<rparr>,
                \<lparr>fl_path = path ''b'', fl_size = 4, fl_offset = 3, fl_priority = 0\<rparr>]\<rparr>)"

definition wit_disk :: "fs_path \<Rightarrow> bytes" where
  "wit_disk p = (if comps p = [''data'', ''a''] then [1, 2, 3] else [4, 5, 6, 7])"

definition wit_env :: send_env where
  "wit_env = \<lparr>en_fill = \<lambda>k spans. Inr (read_spans wit_disk spans), en_write = \<lambda>k. True, en_clock = \<lambda>k. k\<rparr>"

definition wit_ops :: "out_op list" where
  "wit_ops = [Op_msg (W_upload \<lparr>ub_index = 0, ub_begin = 2, ub_length = 2\<rparr>), Op_haves [1], Op_quantum True]"

lemma wit_layout_ok: "layout_ok wit_layout" "sized wit_disk wit_layout" "fills_from wit_env wit_disk"
  by (simp_all add: layout_ok_def sized_def wit_layout_def wit_disk_def absolute_def path_join_def
      div_ceil_def Let_def fills_from_def wit_env_def)

lemma wit_spans:
  "spans_for_range wit_layout 2 2 =
     Inr [\<lparr>sp_path = \<lparr>is_abs = True, comps = [''data'', ''a'']\<rparr>, sp_file_offset = 2, sp_length = 1\<rparr>,
          \<lparr>sp_path = \<lparr>is_abs = True, comps = [''data'', ''b'']\<rparr>, sp_file_offset = 0, sp_length = 1\<rparr>]"
  by (simp add: wit_layout_def absolute_def path_join_def spans_for_range_def spans_loop.simps covers_def
      file_end_def sat_add64_def)

lemma wit_read:
  "read_spans wit_disk
     [\<lparr>sp_path = \<lparr>is_abs = True, comps = [''data'', ''a'']\<rparr>, sp_file_offset = 2, sp_length = 1\<rparr>,
      \<lparr>sp_path = \<lparr>is_abs = True, comps = [''data'', ''b'']\<rparr>, sp_file_offset = 0, sp_length = 1\<rparr>] = [3, 4]"
  by code_simp

lemma wit_header: "fill_piece_header 0 2 2 = [0,0,0,11,7,0,0,0,0,0,0,0,2]"
  by code_simp

abbreviation wit_block :: upload_block where
  "wit_block \<equiv> \<lparr>ub_index = 0, ub_begin = 2, ub_length = 2\<rparr>"

lemma wit_upload:
  "begin_upload (en_fill wit_env 0) wit_layout wit_block None (replicate 15 0) =
     Inr (\<lparr>if_block = wit_block, if_cipher_applied = False, if_rate_reserved = 0, if_total = 15, if_sent = 0,
           if_payload = 2\<rparr>, None, [0,0,0,11,7,0,0,0,0,0,0,0,2,3,4])"
proof -
  have "piece_size wit_layout 0 = Inr 4" "piece_length wit_layout = 4" "en_fill wit_env 0 = (\<lambda>spans. Inr (read_spans wit_disk spans))"
    by (simp_all add: piece_size_def wit_layout_def wit_env_def)
  then show ?thesis by (simp add: begin_upload_def wit_spans wit_read wit_header del: add_2_eq_Suc' One_nat_def)
qed

lemma wit_haves: "foldl (\<lambda>out i. append_have out (of_nat i)) [] [Suc 0] = [0,0,0,5,4,0,0,0,1]"
  by code_simp

text \<open>The states of the run: after the two enqueues, and after each round of the quantum.\<close>

abbreviation wit_s1 :: sender where
  "wit_s1 \<equiv> (sender_new None None (replicate 15 0))
     \<lparr>sd_q := out_queue_new\<lparr>oq_ctrl := [[0,0,0,5,4,0,0,0,1]], oq_pieces := [wit_block]\<rparr>\<rparr>"

abbreviation wit_s2 :: sender where
  "wit_s2 \<equiv> wit_s1\<lparr>sd_q := out_queue_new\<lparr>oq_pieces := [wit_block]\<rparr>, sd_wire := [0,0,0,5,4,0,0,0,1], sd_writes := 1\<rparr>"

abbreviation wit_s3 :: sender where
  "wit_s3 \<equiv> wit_s2\<lparr>sd_q := out_queue_new, sd_wire := [0,0,0,5,4,0,0,0,1, 0,0,0,11,7,0,0,0,0,0,0,0,2,3,4],
     sd_writes := 2, sd_fills := 1, sd_uploaded := 2, sd_scratch := [0,0,0,11,7,0,0,0,0,0,0,0,2,3,4]\<rparr>"

lemma wit_round1: "quantum_step wit_env wit_layout True True (wit_s1, any) = (None, wit_s2, True)"
  by (simp add: quantum_step_def pick_next_active_def sender_new_def out_queue_new_def send_active_def write_all_def
      wit_env_def note_ctrl_fully_sent_def del: One_nat_def)

lemma wit_pick: "pick_next_active wit_env wit_layout True wit_s2 =
  wit_s2\<lparr>sd_fills := 1, sd_scratch := [0,0,0,11,7,0,0,0,0,0,0,0,2,3,4],
    sd_q := out_queue_new\<lparr>oq_active := Some (APiece \<lparr>if_block = wit_block, if_cipher_applied = False,
      if_rate_reserved = 0, if_total = 15, if_sent = 0, if_payload = 2\<rparr>)\<rparr>\<rparr>"
  using wit_upload by (simp add: pick_next_active_def sender_new_def out_queue_new_def del: One_nat_def)

lemma wit_round2: "quantum_step wit_env wit_layout True True (wit_s2, any) = (None, wit_s3, True)"
  using wit_pick
  by (simp add: quantum_step_def sender_new_def out_queue_new_def send_active_def send_piece_def write_piece_def
      reserve_upload_def any_wire_bytes_def write_all_def wit_env_def
      del: One_nat_def)

lemma wit_round3: "quantum_step wit_env wit_layout True True (wit_s3, any) = (Some Finished, wit_s3, any)"
  by (simp add: quantum_step_def pick_next_active_def sender_new_def out_queue_new_def)

lemma wit_loop: "quantum_loop 5 wit_env wit_layout True True (wit_s1, False) = Some (Finished, wit_s3, True)"
proof -
  have five: "(5 :: nat) = Suc (Suc (Suc 2))" by simp
  show ?thesis unfolding five quantum_loop.simps wit_round1 wit_round2 wit_round3 prod.case option.case by (rule refl)
qed

lemma wit_quantum: "send_quantum wit_env wit_layout True True wit_s1 = Some (Inr (Progress, True), wit_s3)"
proof -
  have q: "quantum_size wit_s1 + 1 = 5" by (simp add: quantum_size_def out_queue_new_def)
  show ?thesis unfolding send_quantum_def Let_def if_True q wit_loop by simp
qed

lemma wit_enqueue:
  "run_op wit_env wit_layout True (Op_msg (W_upload wit_block)) (sender_new None None (replicate 15 0)) =
     Some ((sender_new None None (replicate 15 0))\<lparr>sd_q := out_queue_new\<lparr>oq_pieces := [wit_block]\<rparr>\<rparr>)"
  "run_op wit_env wit_layout True (Op_haves [Suc 0])
     ((sender_new None None (replicate 15 0))\<lparr>sd_q := out_queue_new\<lparr>oq_pieces := [wit_block]\<rparr>\<rparr>) = Some wit_s1"
  by (simp_all add: try_push_piece_def piece_pending_count_def sender_new_def out_queue_new_def
      enqueue_have_messages_def wit_haves push_ctrl_owned_def del: foldl_Cons)

lemma wit_run: "run_ops wit_env wit_layout True wit_ops (sender_new None None (replicate 15 0)) = Some wit_s3"
proof -
  have "run_op wit_env wit_layout True (Op_quantum True) wit_s1 = Some wit_s3"
    using wit_quantum by (simp only: run_op.simps option.case prod.case sum.case)
  then show ?thesis using wit_enqueue by (simp only: wit_ops_def run_ops.simps option.case One_nat_def)
qed

theorem out_queue_stream_witness:
  "\<exists>frames. concat (map frame_bytes frames) = [0,0,0,5,4,0,0,0,1, 0,0,0,11,7,0,0,0,0,0,0,0,2,3,4]
     \<and> [b. FCtrl Pushed b \<leftarrow> frames] = [[0,0,0,5,4,0,0,0,1]] \<and> (\<forall>u d. FPiece u d \<in> set frames \<longrightarrow> u = wit_block)"
proof -
  have a: "asked_blocks wit_ops = {wit_block}"
    by (simp add: asked_blocks_def wit_ops_def)
  have h: "encode_message (Have 1) = [0,0,0,5,4,0,0,0,1]" by code_simp
  have p: "pushed wit_ops = [[0,0,0,5,4,0,0,0,1]]"
    using h by (simp add: pushed_def wit_ops_def del: encode_message.simps)
  have w: "sd_wire wit_s3 = [0,0,0,5,4,0,0,0,1, 0,0,0,11,7,0,0,0,0,0,0,0,2,3,4]" by simp
  have n: "\<not> has_work (sd_q wit_s3)" by (simp add: has_work_def out_queue_new_def)
  from out_queue_stream [OF wit_layout_ok wit_run] obtain frames where
    "fst (crypt_opt None (sd_wire wit_s3)) = concat (map frame_bytes frames)"
    "pushed wit_ops = [b. FCtrl Pushed b \<leftarrow> frames]"
    "\<forall>u d. FPiece u d \<in> set frames \<longrightarrow> u \<in> asked_blocks wit_ops"
    using n by (elim exE conjE) (rule that, simp_all, blast)
  then show ?thesis using a p w by (intro exI [of _ frames]) simp
qed

text \<open>A send quantum always returns: whatever the disk, the socket and the clock answer, the loop
  over the queue ends, after at most two rounds per queued message and one for the active one.\<close>

theorem send_quantum_total:
  "\<exists>r s'. send_quantum env lay allow fast s = Some (r, s')"
  using send_quantum_returns [of env lay allow fast s] by auto

section \<open>A starved piece\<close>

lemma capped_delay:
  assumes "capped up wl"
  shows "capped up (snd (upload_delay_for need now wl))"
proof -
  have b: "bucket_ok (wl_up wl)" using assms by (simp add: capped_def)
  note r = refill_ok [OF b, of now]
  have "tb_tokens (refill now (wl_up wl)) \<le> tb_capacity (wl_up wl)"
    using refill_capped [OF b, of now] assms by (simp add: capped_def)
  then show ?thesis
    using assms r(1-3) by (auto simp: capped_def upload_delay_for_def bucket_delay_def Let_def)
qed

lemma reserve_starved:
  assumes c: "sd_limiter s = Some wl" "capped up wl" "of_nat up * BURST_SECS < (of_nat need :: rat)"
  shows "\<exists>w wl' s'. reserve_upload env need s = (Some w, s') \<and> sd_limiter s' = Some wl' \<and> capped up wl'"
proof -
  let ?now = "en_clock env (sd_ticks s)"
  obtain g wl1 where g: "try_consume_upload need ?now wl = (g, wl1)" by (rule prod.exhaust)
  have lt: "g < need" using attempt_capped(2) [OF c(2,3), of ?now] by (simp add: upload_attempt_def g split: if_splits)
  then have "capped up (if g > 0 then refund_upload g wl1 else wl1)"
    using attempt_capped(1) [OF c(2), of need ?now] by (simp add: upload_attempt_def g)
  from capped_delay [OF this] show ?thesis using lt by (auto simp: reserve_upload_def c(1) g Let_def case_prod_beta)
qed

text \<open>The peer's or the user's actions that leave the active piece in place.\<close>

fun keeps_active :: "out_op \<Rightarrow> bool" where
  "keeps_active (Op_msg (W_ctrl b)) = True"
| "keeps_active (Op_msg (W_upload u)) = True"
| "keeps_active (Op_msg _) = False"
| "keeps_active (Op_haves hs) = True"
| "keeps_active Op_keepalive = True"
| "keeps_active (Op_quantum allow) = allow"

definition starved :: "nat \<Rightarrow> in_flight_upload \<Rightarrow> bytes \<Rightarrow> sender \<Rightarrow> bool" where
  "starved up p w s \<longleftrightarrow> oq_active (sd_q s) = Some (APiece p) \<and> sd_wire s = w
     \<and> (\<exists>wl. sd_limiter s = Some wl \<and> capped up wl)"

lemma starved_quantum:
  assumes st: "starved up p w s" and p: "if_sent p = 0" "of_nat up * BURST_SECS < (of_nat (ub_length (if_block p)) :: rat)"
  shows "\<exists>t s'. send_quantum env lay True fast s = Some (Inr (RateLimited t, False), s') \<and> starved up p w s'"
proof -
  obtain wl where wl: "sd_limiter s = Some wl" "capped up wl" and a: "oq_active (sd_q s) = Some (APiece p)"
    using st by (auto simp: starved_def)
  obtain t wl' s' where r: "reserve_upload env (ub_length (if_block p)) s = (Some t, s')" "sd_limiter s' = Some wl'" "capped up wl'"
    using reserve_starved [OF wl p(2)] by blast
  have "quantum_step env lay True fast (s, False) = (Some (Rate_limited t), s', False)"
    using a r(1) p(1) by (simp add: quantum_step_def send_active_def send_piece_def any_wire_bytes_def)
  moreover have "starved up p w s'" using st reserve_upload_fields [OF r(1)] r(2,3) by (simp add: starved_def)
  ultimately show ?thesis by (simp add: send_quantum_def)
qed

lemma starved_op:
  assumes "starved up p w s" "if_sent p = 0" "of_nat up * BURST_SECS < (of_nat (ub_length (if_block p)) :: rat)"
    "keeps_active m"
  shows "\<exists>s'. run_op env lay fast m s = Some s' \<and> starved up p w s'"
proof (cases m)
  case (Op_msg x)
  with assms show ?thesis
    by (cases x) (auto simp: starved_def try_push_piece_def push_reject_def)
next
  case (Op_quantum allow)
  with assms starved_quantum [OF assms(1-3), of env lay fast] show ?thesis by auto
qed (use assms in \<open>simp_all add: starved_def enqueue_have_messages_def push_keepalive_def\<close>)

lemma starved_ops:
  assumes "if_sent p = 0" "of_nat up * BURST_SECS < (of_nat (ub_length (if_block p)) :: rat)"
  shows "starved up p w s \<Longrightarrow> \<forall>m \<in> set ops. keeps_active m \<Longrightarrow>
    \<exists>s'. run_ops env lay fast ops s = Some s' \<and> starved up p w s'"
proof (induction ops arbitrary: s)
  case (Cons m ops)
  obtain s1 where "run_op env lay fast m s = Some s1" "starved up p w s1"
    using starved_op [OF Cons.prems(1) assms, of m env lay fast] Cons.prems(2) by auto
  with Cons.IH [of s1] Cons.prems(2) show ?case by simp
qed simp

text \<open>With an upload cap below two thirds of a block's length, a piece that has become active is never
  sent and holds back everything behind it: whatever is queued afterwards, control messages, haves
  and keepalives included, and however many quanta run, no further byte reaches the wire until the
  piece is cancelled or uploads are choked. The limit on upload data silences the connection.\<close>

theorem capped_upload_blocks_control:
  assumes "oq_active (sd_q s) = Some (APiece p)" "if_sent p = 0"
    and "sd_limiter s = Some (limiter_new t0 up down)" "0 < up"
    and "of_nat up * BURST_SECS < (of_nat (ub_length (if_block p)) :: rat)"
    and "\<forall>m \<in> set ops. keeps_active m"
  shows "\<exists>s'. run_ops env lay fast ops s = Some s' \<and> sd_wire s' = sd_wire s"
  using starved_ops [OF assms(2,5), of "sd_wire s" s ops env lay fast] assms(1,3,4,6) capped_new [OF assms(4)]
  by (auto simp: starved_def)

theorem capped_upload_witness:
  "\<exists>s'. run_ops wit_env wit_layout True [Op_keepalive, Op_msg (W_ctrl [0, 0, 0, 1, 2]), Op_quantum True, Op_quantum True]
     ((sender_new None (Some (limiter_new 0 1 0)) [])
       \<lparr>sd_q := out_queue_new\<lparr>oq_active := Some (APiece \<lparr>if_block = wit_block, if_cipher_applied = False,
          if_rate_reserved = 0, if_total = 15, if_sent = 0, if_payload = 2\<rparr>)\<rparr>\<rparr>) = Some s' \<and> sd_wire s' = []"
proof -
  let ?s = "(sender_new None (Some (limiter_new 0 1 0)) [])
       \<lparr>sd_q := out_queue_new\<lparr>oq_active := Some (APiece \<lparr>if_block = wit_block, if_cipher_applied = False,
          if_rate_reserved = 0, if_total = 15, if_sent = 0, if_payload = 2\<rparr>)\<rparr>\<rparr>"
  let ?p = "\<lparr>if_block = wit_block, if_cipher_applied = False, if_rate_reserved = 0, if_total = 15, if_sent = 0,
              if_payload = 2\<rparr>"
  have "\<exists>s'. run_ops wit_env wit_layout True
      [Op_keepalive, Op_msg (W_ctrl [0, 0, 0, 1, 2]), Op_quantum True, Op_quantum True] ?s = Some s' \<and> sd_wire s' = sd_wire ?s"
    by (rule capped_upload_blocks_control [where p = ?p and up = 1 and ?t0.0 = 0 and down = 0])
      (simp_all add: sender_new_def BURST_SECS_def)
  moreover have "sd_wire ?s = []" by (simp add: sender_new_def)
  ultimately show ?thesis by metis
qed

end
