(* ===== verification/Peer_Session.thy ===== *)
theory Peer_Session
  imports Peer_Download Out_Queue Pipeline Peer_Id Fast Framing Mse
begin

text \<open>
  The reading half of an established connection: frame dispatch (\<open>peer/established.rs\<close>) and the
  reader loop with its timers (\<open>reader_loop\<close>, \<open>reader_inter_socket\<close> in \<open>peer/duplex.rs\<close>).
  The socket, the hash workers and the clock are inputs of each iteration; commands to the writer, hash
  jobs and completed pieces are recorded as histories. All clock readings between two waits are one
  value. Atomics that only feed the user interface are left out.
\<close>

section \<open>State\<close>

record peer_cfg =
  cf_allow_upload :: bool
  cf_allow_download :: bool
  cf_hash :: bool
  cf_pipeline :: nat
  cf_pipeline_max :: nat
  cf_staging_mem_limit :: nat
  cf_redundant_seed_idle :: nat
  cf_useless_peer_idle :: nat
  cf_ltep_client :: bytes
  cf_listen_port :: nat
  cf_encryption :: encryption_mode
  cf_has_label :: bool

text \<open>What the hash pool answers to a job and the random draws of the \<open>n\<close>-th piece choice.\<close>

record session_env =
  se_accepts :: "hash_job \<Rightarrow> bool"
  se_draws :: "nat \<Rightarrow> nat \<Rightarrow> nat \<Rightarrow> nat"

datatype session_error =
    Wire_failed wire_error
  | Hash_not_configured
  | Download_failed download_error
  | Read_failed

record reader =
  rd_cursor :: read_cursor
  rd_decrypt :: "rc4 option"
  rd_dl :: peer_download
  rd_sh :: shared
  rd_fast :: fast_session
  rd_peer_interested :: bool
  rd_last_piece :: nat
  rd_last_useful :: nat
  rd_last_interested :: nat
  rd_am_interested :: bool
  rd_sent_not_interested :: bool
  rd_pipe :: pipeline_state
  rd_skip_speculative :: bool
  rd_wire_down :: nat
  rd_label :: "nat list"
  rd_idle_closed :: bool
  rd_cmds :: "writer_msg list"
  rd_jobs :: "hash_job list"
  rd_done_pieces :: "(nat \<times> nat) list"
  rd_requested :: "request list"
  rd_issues :: nat

abbreviation REQUEST_STALL :: nat where "REQUEST_STALL \<equiv> 20000000000"
abbreviation REQUEST_STALL_ENDGAME :: nat where "REQUEST_STALL_ENDGAME \<equiv> 4000000000"
abbreviation REINTEREST_AFTER :: nat where "REINTEREST_AFTER \<equiv> 45000000000"

abbreviation rd_torrent :: "reader \<Rightarrow> hot_torrent" where
  "rd_torrent r \<equiv> sh_torrent (rd_sh r)"

definition send_cmd :: "writer_msg \<Rightarrow> reader \<Rightarrow> reader" where
  "send_cmd m r = r\<lparr>rd_cmds := rd_cmds r @ [m]\<rparr>"

text \<open>\<open>OutCmd::push_ctrl_owned\<close>: nothing is sent for an empty buffer.\<close>

definition push_ctrl :: "bytes \<Rightarrow> reader \<Rightarrow> reader" where
  "push_ctrl b r = (if b = [] then r else send_cmd (W_ctrl b) r)"

definition set_dl :: "peer_download \<Rightarrow> reader \<Rightarrow> reader" where
  "set_dl dl r = r\<lparr>rd_dl := dl\<rparr>"

section \<open>Messages from the peer\<close>

text \<open>Frames of requests, as \<open>issue_requests\<close> pushes them; the requests are recorded.\<close>

definition issue :: "session_env \<Rightarrow> nat \<Rightarrow> reader \<Rightarrow> reader" where
  "issue en now r =
     (let (out, reqs, dl, sh) = issue_requests now (se_draws en (rd_issues r)) (rd_dl r, rd_sh r);
          r = r\<lparr>rd_dl := dl, rd_sh := sh, rd_issues := rd_issues r + 1, rd_requested := rd_requested r @ reqs\<rparr>
      in (case out of None \<Rightarrow> r | Some b \<Rightarrow> push_ctrl b r))"

definition refresh :: "session_env \<Rightarrow> nat \<Rightarrow> bool \<Rightarrow> bool \<Rightarrow> reader \<Rightarrow> reader" where
  "refresh en now downloading need_fill r =
     (if need_fill \<and> downloading \<and> can_request (rd_dl r) then issue en now r else r)"

definition avail_bitfield :: "reader \<Rightarrow> reader" where
  "avail_bitfield r =
     (case pd_peer_avail (rd_dl r) of
        None \<Rightarrow> r
      | Some own \<Rightarrow>
          (let (own, t) = peer_on_bitfield (pd_peer_bf (rd_dl r)) own (rd_torrent r)
           in r\<lparr>rd_dl := (rd_dl r)\<lparr>pd_peer_avail := Some own\<rparr>, rd_sh := (rd_sh r)\<lparr>sh_torrent := t\<rparr>\<rparr>))"

definition avail_have :: "nat \<Rightarrow> reader \<Rightarrow> reader" where
  "avail_have i r =
     (case pd_peer_avail (rd_dl r) of
        None \<Rightarrow> r
      | Some own \<Rightarrow>
          (let (own, t) = peer_on_have i own (rd_torrent r)
           in r\<lparr>rd_dl := (rd_dl r)\<lparr>pd_peer_avail := Some own\<rparr>, rd_sh := (rd_sh r)\<lparr>sh_torrent := t\<rparr>\<rparr>))"

text \<open>\<open>piece_size(index).unwrap_or(0)\<close>.\<close>

definition request_status :: "hot_torrent \<Rightarrow> bool \<Rightarrow> nat \<Rightarrow> nat \<Rightarrow> nat \<Rightarrow> upload_request_status" where
  "request_status t interested index begin len =
     classify_upload_request (ht_piece_count t) (piece_size_or0 (ht_layout t) index) (has_piece t index) interested
       index begin len"

definition on_request :: "nat \<Rightarrow> nat \<Rightarrow> nat \<Rightarrow> reader \<Rightarrow> reader" where
  "on_request index begin len r =
     (if request_status (rd_torrent r) (rd_peer_interested r) index begin len = Accept
      then send_cmd (W_upload \<lparr>ub_index = index, ub_begin = begin, ub_length = len\<rparr>) r
      else if fs_enabled (rd_fast r)
      then push_ctrl (append_reject_request [] (of_nat index) (of_nat begin) (of_nat len)) r
      else r)"

definition on_piece_frame ::
  "session_env \<Rightarrow> peer_cfg \<Rightarrow> bool \<Rightarrow> nat \<Rightarrow> nat \<Rightarrow> nat \<Rightarrow> bytes \<Rightarrow> reader \<Rightarrow> session_error option \<times> bool \<times> reader" where
  "on_piece_frame en cf downloading now index begin block r =
     (if block = [] \<or> \<not> downloading \<or> has_piece (rd_torrent r) index then (None, False, r)
      else if \<not> cf_hash cf then (Some Hash_not_configured, False, r)
      else
        case handle_piece (se_accepts en) index begin block (rd_dl r, rd_sh r) of
          (Inl e, job, dl, sh) \<Rightarrow> (Some (Download_failed e), False, r\<lparr>rd_dl := dl, rd_sh := sh\<rparr>)
        | (Inr got, job, dl, sh) \<Rightarrow>
            (let r = r\<lparr>rd_dl := dl, rd_sh := sh,
                       rd_jobs := (case job of None \<Rightarrow> rd_jobs r | Some j \<Rightarrow> rd_jobs r @ [j])\<rparr>
             in (None, True,
                 if got then r\<lparr>rd_last_piece := now, rd_last_useful := now, rd_wire_down := rd_wire_down r + length block\<rparr>
                 else r)))"

fun handle_msg :: "peer_cfg \<Rightarrow> bool \<Rightarrow> nat \<Rightarrow> message \<Rightarrow> reader \<Rightarrow> bool \<times> reader" where
  "handle_msg cf downloading now Choke r = (False, r\<lparr>rd_dl := (rd_dl r)\<lparr>pd_peer_choking := True\<rparr>\<rparr>)"
| "handle_msg cf downloading now Unchoke r =
     (let r = r\<lparr>rd_dl := (rd_dl r)\<lparr>pd_peer_choking := False\<rparr>\<rparr>
      in if downloading then (True, r\<lparr>rd_last_piece := now\<rparr>) else (False, r))"
| "handle_msg cf downloading now Interested r = (False, r\<lparr>rd_peer_interested := True\<rparr>)"
| "handle_msg cf downloading now NotInterested r = (False, send_cmd W_clear_pieces (r\<lparr>rd_peer_interested := False\<rparr>))"
| "handle_msg cf downloading now (Have w) r =
     (let i = unat w
      in if i div 8 < length (pd_peer_bf (rd_dl r))
         then let r = avail_have i r
              in (downloading, r\<lparr>rd_dl := (rd_dl r)\<lparr>pd_peer_bf := bitfield_set (pd_peer_bf (rd_dl r)) i\<rparr>\<rparr>)
         else (False, r))"
| "handle_msg cf downloading now HaveAll r =
     (downloading, avail_bitfield (r\<lparr>rd_dl := (rd_dl r)\<lparr>pd_peer_bf :=
        apply_have_all_none (pd_peer_bf (rd_dl r)) (ht_piece_count (rd_torrent r)) True\<rparr>\<rparr>))"
| "handle_msg cf downloading now HaveNone r =
     (False, avail_bitfield (r\<lparr>rd_dl := (rd_dl r)\<lparr>pd_peer_bf :=
        apply_have_all_none (pd_peer_bf (rd_dl r)) (ht_piece_count (rd_torrent r)) False\<rparr>\<rparr>))"
| "handle_msg cf downloading now (SuggestPiece w) r =
     (if downloading
      then let r = set_dl (dl_push_suggest (unat w) (rd_torrent r) (rd_dl r)) r in (can_request (rd_dl r), r)
      else (False, r))"
| "handle_msg cf downloading now (AllowedFast w) r =
     (if downloading
      then (True, r\<lparr>rd_fast := on_allowed_fast (rd_fast r) (unat w),
                    rd_dl := (rd_dl r)\<lparr>pd_allowed_fast := insert (unat w) (pd_allowed_fast (rd_dl r))\<rparr>\<rparr>)
      else (False, r))"
| "handle_msg cf downloading now (RejectRequest i b l) r =
     (if downloading
      then (True, r\<lparr>rd_dl := (rd_dl r)\<lparr>pd_staging :=
              snd (st_clear_request (unat i) (unat b) (unat l) (pd_staging (rd_dl r)))\<rparr>\<rparr>)
      else (False, r))"
| "handle_msg cf downloading now (Bitfield bf) r =
     (let own = pd_peer_bf (rd_dl r); n = min (length own) (length bf)
      in (downloading, avail_bitfield (r\<lparr>rd_dl := (rd_dl r)\<lparr>pd_peer_bf := take n bf @ drop n own\<rparr>\<rparr>)))"
| "handle_msg cf downloading now (Request i b l) r =
     (False, if cf_allow_upload cf then on_request (unat i) (unat b) (unat l) r else r)"
| "handle_msg cf downloading now (Cancel i b l) r =
     (False, if cf_allow_upload cf
             then send_cmd (W_cancel \<lparr>ub_index = unat i, ub_begin = unat b, ub_length = unat l\<rparr>) r else r)"
| "handle_msg cf downloading now (Extended ext_id payload) r =
     (False,
      if ext_id = EXT_HANDSHAKE then
        (case ltep_client_version payload of
           Some v \<Rightarrow> if cf_has_label cf then r\<lparr>rd_label := prefer_client_label (rd_label r) (Some v)\<rparr> else r
         | None \<Rightarrow> r)
      else r)"
| "handle_msg cf downloading now _ r = (False, r)"

fun handle_frame ::
  "session_env \<Rightarrow> peer_cfg \<Rightarrow> bool \<Rightarrow> nat \<Rightarrow> parsed_message \<Rightarrow> reader \<Rightarrow> session_error option \<times> bool \<times> reader" where
  "handle_frame en cf downloading now (PPiece i b block) r =
     on_piece_frame en cf downloading now (unat i) (unat b) block r"
| "handle_frame en cf downloading now (Msg m) r = (None, handle_msg cf downloading now m r)"

lemma parse_used: "parse_message u = Inr (Some (m, used)) \<Longrightarrow> 4 \<le> used \<and> used \<le> length u"
  by (auto simp: parse_message_def Let_def split: if_splits sum.splits)

text \<open>The frames of the unparsed bytes; the result has the bytes left over.\<close>

function parse_frames ::
  "session_env \<Rightarrow> peer_cfg \<Rightarrow> bool \<Rightarrow> nat \<Rightarrow> bytes \<Rightarrow> reader \<Rightarrow> session_error option \<times> bool \<times> bytes \<times> reader" where
  "parse_frames en cf downloading now u r =
     (case parse_message u of
        Inl e \<Rightarrow> (Some (Wire_failed e), False, u, r)
      | Inr None \<Rightarrow> (None, False, u, r)
      | Inr (Some (fm, used)) \<Rightarrow>
          (case handle_frame en cf downloading now fm r of
             (Some e, nf, r) \<Rightarrow> (Some e, nf, u, r)
           | (None, nf, r) \<Rightarrow>
               (case parse_frames en cf downloading now (drop used u) r of
                  (e, nf', rest, r) \<Rightarrow> (e, nf \<or> nf', rest, r))))"
  by pat_completeness auto
termination
  by (relation "measure (\<lambda>(en, cf, downloading, now, u, r). length u)") (auto dest: parse_used)

declare parse_frames.simps [simp del]

definition parse_available_messages ::
  "session_env \<Rightarrow> peer_cfg \<Rightarrow> bool \<Rightarrow> nat \<Rightarrow> reader \<Rightarrow> session_error option \<times> bool \<times> reader" where
  "parse_available_messages en cf downloading now r =
     (let u = unparsed (rd_cursor r)
      in case parse_frames en cf downloading now u r of
           (e, nf, rest, r') \<Rightarrow>
             (e, nf, r'\<lparr>rd_cursor := advance (rd_cursor r) (length u - length rest)\<rparr>))"

section \<open>Between two socket reads\<close>

definition peer_is_seed :: "peer_download \<Rightarrow> hot_torrent \<Rightarrow> bool" where
  "peer_is_seed dl t \<longleftrightarrow> ht_piece_count t > 0 \<and> count_have_bits (pd_peer_bf dl) (ht_piece_count t) \<ge> ht_piece_count t"

definition idle_should_close :: "peer_cfg \<Rightarrow> nat \<Rightarrow> nat \<Rightarrow> reader \<Rightarrow> bool \<times> reader" where
  "idle_should_close cf now pending r =
     (let busy = connection_transfer_busy pending (pd_hashing (rd_dl r) \<noteq> {});
          (close, useful) = note_or_expire_idle now (rd_last_useful r) (is_torrent_complete (rd_torrent r))
                              (peer_is_seed (rd_dl r) (rd_torrent r)) (cf_redundant_seed_idle cf)
                              (cf_useless_peer_idle cf) busy
      in (close, r\<lparr>rd_last_useful := useful\<rparr>))"

definition idle_park_deadline :: "peer_cfg \<Rightarrow> nat \<Rightarrow> reader \<Rightarrow> nat option" where
  "idle_park_deadline cf pending r =
     (if connection_transfer_busy pending (pd_hashing (rd_dl r) \<noteq> {}) then None
      else map_option (\<lambda>d. rd_last_useful r + d)
             (idle_close_limit (is_torrent_complete (rd_torrent r)) (peer_is_seed (rd_dl r) (rd_torrent r))
                (cf_redundant_seed_idle cf) (cf_useless_peer_idle cf)))"

definition stall_limit :: "reader \<Rightarrow> nat" where
  "stall_limit r = (if pd_endgame (rd_dl r) then REQUEST_STALL_ENDGAME else REQUEST_STALL)"

definition park_deadline :: "peer_cfg \<Rightarrow> bool \<Rightarrow> nat \<Rightarrow> reader \<Rightarrow> nat option" where
  "park_deadline cf downloading pending r =
     (let stall = (if downloading \<and> can_request (rd_dl r) \<and> outstanding (rd_dl r) > 0
                   then Some (rd_last_piece r + stall_limit r) else None)
      in case (stall, idle_park_deadline cf pending r) of
           (Some a, Some b) \<Rightarrow> Some (min a b)
         | (Some a, None) \<Rightarrow> Some a
         | (None, b) \<Rightarrow> b)"

text \<open>One result of the hash pool; every one asks for a refill.\<close>

definition on_hash :: "hash_outcome \<Rightarrow> reader \<Rightarrow> reader" where
  "on_hash h r =
     (let (calls, dl, sh) = apply_hash_outcome h (rd_dl r, rd_sh r)
      in r\<lparr>rd_dl := dl, rd_sh := sh, rd_done_pieces := rd_done_pieces r @ calls\<rparr>)"

definition drain_hash :: "hash_outcome list \<Rightarrow> reader \<Rightarrow> reader" where
  "drain_hash hs r = fold on_hash hs r"

definition cancel_all :: "reader \<Rightarrow> reader" where
  "cancel_all r = (case cancel_outstanding (rd_dl r) of None \<Rightarrow> r | Some b \<Rightarrow> push_ctrl b r)"

definition requeue :: "reader \<Rightarrow> reader" where
  "requeue r = r\<lparr>rd_dl := (rd_dl r)\<lparr>pd_staging := requeue_timed_out (pd_staging (rd_dl r))\<rparr>\<rparr>"

definition adapt :: "session_env \<Rightarrow> nat \<Rightarrow> pipeline_tuning \<Rightarrow> reader \<Rightarrow> reader" where
  "adapt en now tuning r =
     (let (ps, out) = adapt_pipeline (rd_wire_down r) now tuning (rd_pipe r);
          r = r\<lparr>rd_pipe := ps\<rparr>
      in case out of
           Grew n \<Rightarrow> refresh en now True True (r\<lparr>rd_dl := (rd_dl r)\<lparr>pd_pipeline := n\<rparr>\<rparr>)
         | Shrank n \<Rightarrow> r\<lparr>rd_dl := (rd_dl r)\<lparr>pd_pipeline := n\<rparr>\<rparr>
         | Unchanged \<Rightarrow> r)"

definition enter_endgame :: "session_env \<Rightarrow> nat \<Rightarrow> reader \<Rightarrow> reader" where
  "enter_endgame en now r =
     (if \<not> pd_endgame (rd_dl r) \<and> should_endgame (rd_torrent r)
      then let r = r\<lparr>rd_dl := (rd_dl r)\<lparr>pd_endgame := True, pd_staging := enable_endgame (pd_staging (rd_dl r))\<rparr>\<rparr>;
               r = (if outstanding (rd_dl r) > 0 then cancel_all r else r)
           in refresh en now True True (requeue r)
      else r)"

definition reinterest :: "nat \<Rightarrow> reader \<Rightarrow> reader" where
  "reinterest now r =
     (if rd_am_interested r \<and> pd_peer_choking (rd_dl r) \<and> now - rd_last_interested r > REINTEREST_AFTER
      then (push_ctrl (append_interested []) r)\<lparr>rd_last_interested := now\<rparr> else r)"

text \<open>The stall check: a refill is needed or not.\<close>

definition check_stall :: "nat \<Rightarrow> bool \<Rightarrow> reader \<Rightarrow> bool \<times> reader" where
  "check_stall now need_fill r =
     (if can_request (rd_dl r) \<and> now - rd_last_piece r \<ge> stall_limit r then
        (let n = outstanding (rd_dl r);
             r = (if n > 0 then requeue (cancel_all r) else if pd_hashing (rd_dl r) = {} then requeue r else r)
         in (n > 0 \<or> pd_hashing (rd_dl r) = {}, r\<lparr>rd_last_piece := now\<rparr>))
      else if can_request (rd_dl r) \<and> need_fill then (need_fill, r)
      else if can_request (rd_dl r) \<and> outstanding (rd_dl r) < pd_pipeline (rd_dl r) then (True, r)
      else (need_fill, r))"

datatype inter_progress = Inter_close | Inter_reloop | Inter_go bool

text \<open>Waiting for download tokens when nothing else would wake the reader.\<close>

definition wait_tokens :: "nat \<Rightarrow> bool \<Rightarrow> bool \<Rightarrow> reader \<Rightarrow> bool \<times> reader" where
  "wait_tokens now downloading has_frame r =
     (if downloading \<and> can_request (rd_dl r) \<and> outstanding (rd_dl r) = 0 \<and> pd_hashing (rd_dl r) = {} \<and> \<not> has_frame
      then case sh_limiter (rd_sh r) of
             None \<Rightarrow> (False, r)
           | Some wl \<Rightarrow>
               let (wait, wl) = download_delay_for BLOCK_SIZE now wl
               in (wait \<noteq> 0, r\<lparr>rd_sh := (rd_sh r)\<lparr>sh_limiter := Some wl\<rparr>\<rparr>)
      else (False, r))"

definition reader_inter_socket ::
  "session_env \<Rightarrow> peer_cfg \<Rightarrow> pipeline_tuning \<Rightarrow> bool \<Rightarrow> nat \<Rightarrow> nat \<Rightarrow> hash_outcome list \<Rightarrow> reader \<Rightarrow> inter_progress \<times> reader" where
  "reader_inter_socket en cf tuning downloading now pending hs r =
     (let has_frame = has_complete_frame (rd_cursor r); (close, r) = idle_should_close cf now pending r
      in if close then (Inter_close, r)
         else
           let r = (if downloading then reinterest now (enter_endgame en now (adapt en now tuning r)) else r);
               r = drain_hash hs r;
               need_fill = (hs \<noteq> []);
               (need_fill, r) = (if downloading then check_stall now need_fill r else (need_fill, r));
               r = refresh en now downloading need_fill r;
               need_fill = (if downloading then False else need_fill);
               (slept, r) = wait_tokens now downloading has_frame r
           in if slept then (Inter_reloop, r) else (Inter_go need_fill, r))"

section \<open>The reader loop\<close>

datatype hash_wait = Hash_got hash_outcome "hash_outcome list" | Hash_closed | Hash_timeout
datatype socket_in = Sock_failed | Sock_timeout | Sock_eof | Sock_data bytes

record loop_input =
  li_stop :: bool
  li_now :: nat
  li_exit_hashes :: "hash_outcome list"
  li_pending :: nat
  li_hashes :: "hash_outcome list"
  li_wait :: hash_wait
  li_socket :: socket_in
  li_read_at :: nat
  li_read_hashes :: "hash_outcome list"

datatype loop_end = Ended | Failed session_error

definition finish :: "reader \<Rightarrow> loop_end option \<times> reader" where
  "finish r = (Some Ended, send_cmd W_reader_done r)"

text \<open>A break out of the loop announces the end twice.\<close>

definition break_read :: "reader \<Rightarrow> loop_end option \<times> reader" where
  "break_read r = finish (send_cmd W_reader_done r)"

text \<open>The torrent wants pieces again on a connection that was not interested.\<close>

definition become_interested :: "session_env \<Rightarrow> peer_cfg \<Rightarrow> pipeline_tuning \<Rightarrow> nat \<Rightarrow> nat \<Rightarrow> reader \<Rightarrow> reader" where
  "become_interested en cf tuning pipe_initial now r =
     (let r = (if pd_peer_avail (rd_dl r) = None
               then avail_bitfield (r\<lparr>rd_dl := (rd_dl r)\<lparr>pd_peer_avail := Some (peer_avail_new (rd_torrent r))\<rparr>\<rparr>) else r);
          r = r\<lparr>rd_dl := (rd_dl r)\<lparr>pd_pipeline := pipe_initial\<rparr>, rd_pipe := pipeline_state_new now pipe_initial tuning\<rparr>;
          r = push_ctrl (append_interested []) r;
          r = r\<lparr>rd_last_interested := now, rd_last_piece := now, rd_am_interested := True, rd_sent_not_interested := False,
                rd_dl := (rd_dl r)\<lparr>pd_endgame := False\<rparr>\<rparr>
      in issue en now r)"

definition possession :: "bool \<Rightarrow> hot_torrent \<Rightarrow> bytes" where
  "possession fast t =
     (if fast then encode_possession_fast (ht_have_count_atomic t) (ht_piece_count t) (bitfield_snapshot t)
      else encode_message (Bitfield (bitfield_snapshot t)))"

definition lose_interest :: "peer_cfg \<Rightarrow> reader \<Rightarrow> reader" where
  "lose_interest cf r =
     (let r = cancel_all r;
          (st, p) = staging_clear (pd_staging (rd_dl r)) (sh_pool (rd_sh r));
          r = r\<lparr>rd_dl := (rd_dl r)\<lparr>pd_staging := st\<rparr>, rd_sh := (rd_sh r)\<lparr>sh_pool := p\<rparr>\<rparr>;
          r = push_ctrl (append_not_interested []) r;
          r = r\<lparr>rd_am_interested := False, rd_sent_not_interested := True\<rparr>
      in if cf_allow_upload cf then push_ctrl (possession (fs_enabled (rd_fast r)) (rd_torrent r)) r else r)"

text \<open>The end of an iteration that waits for the socket.\<close>

definition read_socket ::
  "session_env \<Rightarrow> peer_cfg \<Rightarrow> bool \<Rightarrow> bool \<Rightarrow> loop_input \<Rightarrow> reader \<Rightarrow> loop_end option \<times> reader" where
  "read_socket en cf downloading need_fill li r =
     (let r = r\<lparr>rd_skip_speculative := False\<rparr>; now = li_read_at li
      in case li_socket li of
           Sock_failed \<Rightarrow> (Some (Failed Read_failed), r)
         | Sock_timeout \<Rightarrow>
             (let (close, r) = idle_should_close cf now (li_pending li) r
              in if close then break_read (r\<lparr>rd_idle_closed := True\<rparr>)
                 else
                   let r = (if outstanding (rd_dl r) > 0 then requeue (cancel_all r) else r);
                       r = r\<lparr>rd_last_piece := now, rd_skip_speculative := True\<rparr>
                   in (None, refresh en now downloading True r))
         | Sock_eof \<Rightarrow> break_read r
         | Sock_data chunk \<Rightarrow>
             (let (cur, dcr) = cursor_append (rd_cursor r) chunk (rd_decrypt r);
                  r = r\<lparr>rd_cursor := cur, rd_decrypt := dcr\<rparr>
              in case parse_available_messages en cf downloading now r of
                   (Some e, nf, r) \<Rightarrow> (Some (Failed e), r)
                 | (None, nf, r) \<Rightarrow>
                     let r = r\<lparr>rd_cursor := compact_if_needed (rd_cursor r)\<rparr>;
                         r = drain_hash (li_read_hashes li) r
                     in (None, refresh en now downloading (need_fill \<or> nf \<or> li_read_hashes li \<noteq> []) r)))"

definition after_inter ::
  "session_env \<Rightarrow> peer_cfg \<Rightarrow> bool \<Rightarrow> bool \<Rightarrow> loop_input \<Rightarrow> reader \<Rightarrow> loop_end option \<times> reader" where
  "after_inter en cf downloading need_fill li r =
     (let now = li_now li
      in if has_complete_frame (rd_cursor r) then
           (case parse_available_messages en cf downloading now r of
              (Some e, nf, r) \<Rightarrow> (Some (Failed e), r)
            | (None, nf, r) \<Rightarrow>
                let r = r\<lparr>rd_cursor := compact_if_needed (rd_cursor r)\<rparr>
                in (None, refresh en now downloading (need_fill \<or> nf) r))
         else if outstanding (rd_dl r) = 0 \<and> pd_hashing (rd_dl r) \<noteq> {} then
           (case li_wait li of
              Hash_got h hs \<Rightarrow> (None, refresh en now downloading True (drain_hash (h # hs) r))
            | Hash_closed \<Rightarrow> break_read r
            | Hash_timeout \<Rightarrow> (None, refresh en now downloading need_fill r))
         else read_socket en cf downloading need_fill li r)"

definition reader_iteration ::
  "session_env \<Rightarrow> peer_cfg \<Rightarrow> pipeline_tuning \<Rightarrow> nat \<Rightarrow> loop_input \<Rightarrow> reader \<Rightarrow> loop_end option \<times> reader" where
  "reader_iteration en cf tuning pipe_initial li r =
     (if li_stop li then finish r
      else
        let now = li_now li;
            downloading = (cf_allow_download cf \<and> cf_hash cf \<and> \<not> is_download_complete (rd_torrent r));
            r = (if downloading \<and> \<not> rd_am_interested r then become_interested en cf tuning pipe_initial now r else r);
            leaving = (rd_am_interested r \<and> \<not> downloading \<and> \<not> rd_sent_not_interested r);
            r = (if leaving then lose_interest cf r else r)
        in if leaving \<and> \<not> cf_allow_upload cf then break_read (drain_hash (li_exit_hashes li) r)
           else if \<not> downloading \<and> \<not> cf_allow_upload cf then break_read (drain_hash (li_exit_hashes li) r)
           else
             case reader_inter_socket en cf tuning downloading now (li_pending li) (li_hashes li) r of
               (Inter_close, r) \<Rightarrow> break_read (r\<lparr>rd_idle_closed := True\<rparr>)
             | (Inter_reloop, r) \<Rightarrow> (None, r)
             | (Inter_go need_fill, r) \<Rightarrow> after_inter en cf downloading need_fill li r)"

section \<open>Starting and ending\<close>

definition want_download :: "peer_cfg \<Rightarrow> hot_torrent \<Rightarrow> bool" where
  "want_download cf t \<longleftrightarrow> cf_allow_download cf \<and> cf_hash cf \<and> \<not> is_download_complete t"

text \<open>What \<open>EstablishedPeer::run\<close> writes before the loops start; \<open>allowed\<close> is the allowed-fast set
  sent, when the peer's address is known.\<close>

definition hello_bytes :: "peer_cfg \<Rightarrow> hot_torrent \<Rightarrow> bool \<Rightarrow> bool \<Rightarrow> 32 word list option \<Rightarrow> bytes" where
  "hello_bytes cf t fast ext allowed =
     possession fast t
     @ (if want_download cf t then encode_message Interested else [])
     @ (if cf_allow_upload cf then encode_message Unchoke else [])
     @ (if fast then (case allowed of None \<Rightarrow> [] | Some l \<Rightarrow> encode_allowed_fast_messages l) else [])
     @ (if ext then encode_extended_handshake (cf_ltep_client cf) (cf_listen_port cf) (ltep_e (cf_encryption cf)) else [])"

definition hello_haves :: "nat list \<Rightarrow> bytes" where
  "hello_haves is = foldl (\<lambda>out i. out @ encode_message (Have (of_nat i))) [] is"

definition peer_supports :: "bytes \<Rightarrow> bool \<times> bool" where
  "peer_supports hs =
     (if length hs \<ge> HANDSHAKE_LEN
      then (handshake_supports_extensions (take HANDSHAKE_LEN hs), handshake_supports_fast (take HANDSHAKE_LEN hs))
      else (False, False))"

definition initial_label :: "peer_cfg \<Rightarrow> bytes \<Rightarrow> nat list \<Rightarrow> nat list" where
  "initial_label cf hs lbl =
     (if cf_has_label cf \<and> length hs \<ge> HANDSHAKE_LEN
      then case parse_handshake (take HANDSHAKE_LEN hs) of Inr (_, pid) \<Rightarrow> identify_peer_id pid | Inl _ \<Rightarrow> lbl
      else lbl)"

definition session_tuning :: "peer_cfg \<Rightarrow> pipeline_tuning" where
  "session_tuning cf = with_max (max (cf_pipeline_max cf) MIN_PIPELINE)"

definition session_pipeline :: "peer_cfg \<Rightarrow> nat" where
  "session_pipeline cf = clamp_initial_pipeline (cf_pipeline cf) (pt_max (session_tuning cf))"

text \<open>The pool a connection draws on is the torrent's when it starts; \<open>sh_pool\<close> is its live state.\<close>

definition open_staging :: "peer_cfg \<Rightarrow> shared \<Rightarrow> staging \<times> shared" where
  "open_staging cf sh =
     (let t0 = sh_torrent sh
      in if want_download cf t0 then
           let t = ensure_staging_pool (set_staging_mem_limit (cf_staging_mem_limit cf) t0)
           in (case ht_staging_pool t of
                 None \<Rightarrow> (staging_empty (piece_length (ht_layout t)), sh\<lparr>sh_torrent := t\<rparr>)
               | Some p \<Rightarrow>
                   let p = (if ht_staging_pool t0 = None then p else sh_pool sh)
                   in (from_pool p, sh\<lparr>sh_torrent := t, sh_pool := p\<rparr>))
         else (staging_empty (piece_length (ht_layout t0)), sh))"

definition reader_new ::
  "peer_cfg \<Rightarrow> nat \<Rightarrow> bool \<Rightarrow> nat set \<Rightarrow> bytes \<Rightarrow> rc4 option \<Rightarrow> nat \<Rightarrow> nat list \<Rightarrow> shared \<Rightarrow> reader" where
  "reader_new cf now fast allowed initial_plain dcr wire_down lbl sh0 =
     (let want = want_download cf (sh_torrent sh0);
          (st, sh) = open_staging cf sh0;
          t = sh_torrent sh;
          n = session_pipeline cf
      in \<lparr>rd_cursor = from_vec initial_plain, rd_decrypt = dcr,
          rd_dl = peer_download_new (empty_bitfield (ht_piece_count t)) st (if want then n else 0)
                    (if want then Some (peer_avail_new t) else None),
          rd_sh = sh, rd_fast = (fast_session_new fast)\<lparr>fs_allowed_to_peer := allowed\<rparr>,
          rd_peer_interested = False, rd_last_piece = now, rd_last_useful = now, rd_last_interested = now,
          rd_am_interested = want, rd_sent_not_interested = False,
          rd_pipe = pipeline_state_new now n (session_tuning cf), rd_skip_speculative = False,
          rd_wire_down = wire_down, rd_label = lbl, rd_idle_closed = False, rd_cmds = [], rd_jobs = [],
          rd_done_pieces = [], rd_requested = [], rd_issues = 0\<rparr>)"

definition reader_start :: "session_env \<Rightarrow> peer_cfg \<Rightarrow> nat \<Rightarrow> reader \<Rightarrow> session_error option \<times> reader" where
  "reader_start en cf now r =
     (let want = rd_am_interested r;
          r = (if want \<and> can_request (rd_dl r) then issue en now r else r)
      in case parse_available_messages en cf (want \<and> \<not> is_download_complete (rd_torrent r)) now r of
           (e, nf, r) \<Rightarrow> (e, r))"

text \<open>The drops at the end of a session: claims, availability, buffers.\<close>

definition reader_drop :: "reader \<Rightarrow> shared" where
  "reader_drop r =
     (let t = claims_drop (pd_claims (rd_dl r)) (rd_torrent r);
          t = (case pd_peer_avail (rd_dl r) of None \<Rightarrow> t | Some own \<Rightarrow> peer_avail_drop own t);
          (st, p) = staging_clear (pd_staging (rd_dl r)) (sh_pool (rd_sh r))
      in (rd_sh r)\<lparr>sh_torrent := t, sh_pool := p\<rparr>)"

end
