(* ===== verification/Peer_Download_Correct.thy ===== *)
theory Peer_Download_Correct
  imports Claims
begin

text \<open>
  Requests a connection sends: they respect the choke state and the allowed-fast set, they go to
  pieces the peer has and we want, they are well-formed frames for new blocks, they never exceed what the rate limiter was charged,
  and the torrent stays consistent.
\<close>

section \<open>The scheduler's closures\<close>

lemma fill_piece_may:
  "fill_piece n pl idx (st, out, q) = (st', out', q') \<Longrightarrow> may idx \<Longrightarrow> \<forall>(i, b, l) \<in> set out. may i \<Longrightarrow>
   \<forall>(i, b, l) \<in> set out'. may i"
proof (induction n arbitrary: st out q)
  case (Suc n)
  show ?case
  proof (cases "total_outstanding st < pl \<and> find_assembling (st_slots st) idx \<noteq> None")
    case True
    then obtain a buf where f: "find_assembling (st_slots st) idx = Some (a, buf)" by auto
    show ?thesis
    proof (cases "next_request a")
      case (Some r)
      obtain b l a' where r: "r = ((b, l), a')" by (metis prod.collapse)
      have "fill_piece n pl idx (st\<lparr>st_slots := set_assembling (st_slots st) idx (a', buf)\<rparr>,
          out @ [(idx, b, l)], True) = (st', out', q')"
        using Suc.prems(1) True f Some r by simp
      from Suc.IH [OF this] Suc.prems(2,3) show ?thesis by auto
    qed (use Suc.prems True f in auto)
  next
    case False
    then show ?thesis using Suc.prems
      by (cases "total_outstanding st < pl"; cases "find_assembling (st_slots st) idx") auto
  qed
qed simp

lemma fill_all_may:
  "fill_all pl may idxs (st, out, q) = (st', out', q') \<Longrightarrow> \<forall>(i, b, l) \<in> set out. may i \<Longrightarrow>
   \<forall>(i, b, l) \<in> set out'. may i"
proof (induction idxs arbitrary: st out q)
  case (Cons idx idxs)
  show ?case
  proof (cases "may idx")
    case True
    obtain s1 o1 q1 where f: "fill_piece pl pl idx (st, out, q) = (s1, o1, q1)" by (rule prod_cases3)
    have "\<forall>(i, b, l) \<in> set o1. may i" by (rule fill_piece_may [of pl pl idx st out q s1 o1 q1 may, OF f True Cons.prems(2)])
    with Cons.IH [of s1 o1 q1] Cons.prems(1) True f show ?thesis by (auto simp: Let_def split: if_splits)
  next
    case False
    then show ?thesis using Cons by simp
  qed
qed simp

text \<open>The pieces a table assembles, with their lengths.\<close>

fun slot_piece :: "slot \<Rightarrow> (nat \<times> nat) set" where
  "slot_piece (Assembling a buf) = {(ap_index a, ap_length a)}"
| "slot_piece (Hashing i) = {}"

definition pieces :: "staging \<Rightarrow> (nat \<times> nat) set" where
  "pieces st = \<Union> (slot_piece ` set (st_slots st))"

lemma pieces_indices: "set (indices st) = fst ` pieces st"
proof -
  have "set (slot_indices s) = fst ` slot_piece s" for s by (cases s) simp_all
  then show ?thesis by (auto simp: indices_def pieces_def)
qed

lemma pieces_next_request:
  assumes "find_assembling (st_slots st) i = Some (a, buf)" "next_request a = Some (bl, a')"
  shows "pieces (st\<lparr>st_slots := set_assembling (st_slots st) i (a', buf')\<rparr>) = pieces st"
proof -
  have k: "ap_index a' = ap_index a" "ap_length a' = ap_length a" using assms(2) by (auto elim: next_requestE)
  have "find_assembling ss i = Some (a, buf) \<Longrightarrow>
      \<Union> (slot_piece ` set (set_assembling ss i (a', buf'))) = \<Union> (slot_piece ` set ss)" for ss
    using k by (induction ss i "(a', buf')" rule: set_assembling.induct) (auto split: if_splits)
  then show ?thesis using assms(1) by (simp add: pieces_def)
qed

lemma fill_piece_pieces: "fill_piece n pl idx (st, out, q) = (st', out', q') \<Longrightarrow> pieces st' = pieces st"
proof (induction n arbitrary: st out q)
  case (Suc n)
  show ?case
  proof (cases "\<exists>a buf b l a'. total_outstanding st < pl \<and> find_assembling (st_slots st) idx = Some (a, buf)
      \<and> next_request a = Some ((b, l), a')")
    case True
    then obtain a buf b l a' where "total_outstanding st < pl" "find_assembling (st_slots st) idx = Some (a, buf)"
      "next_request a = Some ((b, l), a')" by blast
    with Suc.prems Suc.IH pieces_next_request [OF this(2,3), of buf] show ?thesis by simp
  next
    case False
    with Suc.prems show ?thesis by (auto split: if_splits option.splits)
  qed
qed simp

lemma fill_all_pieces: "fill_all pl may idxs (st, out, q) = (st', out', q') \<Longrightarrow> pieces st' = pieces st"
proof (induction idxs arbitrary: st out q)
  case (Cons idx idxs)
  obtain s1 o1 q1 where f: "fill_piece pl pl idx (st, out, q) = (s1, o1, q1)" by (rule prod_cases3)
  from Cons.prems Cons.IH [of s1 o1 q1] Cons.IH [of st out q] fill_piece_pieces [OF f] f show ?case
    by (auto simp: Let_def split: if_splits)
qed simp

lemma try_start_pieces:
  assumes "try_start now i plen st p = (ok, st', p')"
  shows "pieces st' \<subseteq> insert (i, plen) (pieces st)" "\<not> ok \<Longrightarrow> st' = st"
  using assms by (auto simp: try_start_def pieces_def piece_open_def Let_def split: if_splits prod.splits option.splits)

text \<open>\<open>K\<close> bounds the pieces the table may hold.\<close>

lemma refill_loop_closures:
  assumes "\<And>st x i plen x'. P x \<Longrightarrow> start st x = (Some (i, plen), x') \<Longrightarrow> may i \<and> (i, plen) \<in> K \<and> P x'"
    "\<And>st x x'. P x \<Longrightarrow> start st x = (None, x') \<Longrightarrow> P x'" "\<And>i x. P x \<Longrightarrow> P (abort i x)"
  shows "refill_loop n now pl mp start may abort (st, p, x, out) = (st', p', x', out') \<Longrightarrow>
    P x \<Longrightarrow> \<forall>(i, b, l) \<in> set out. may i \<Longrightarrow> pieces st \<subseteq> K \<Longrightarrow>
    P x' \<and> (\<forall>(i, b, l) \<in> set out'. may i) \<and> pieces st' \<subseteq> K"
proof (induction n arbitrary: st p x out)
  case (Suc n)
  show ?case
  proof (cases "total_outstanding st \<ge> pl")
    case True
    with Suc.prems show ?thesis by simp
  next
    case False
    obtain s1 o1 q1 where f: "fill_all pl may (indices st) (st, out, False) = (s1, o1, q1)" by (rule prod_cases3)
    have o1: "\<forall>(i, b, l) \<in> set o1. may i" by (rule fill_all_may [OF f Suc.prems(3)])
    have k1: "pieces s1 \<subseteq> K" using fill_all_pieces [OF f] Suc.prems(4) by simp
    show ?thesis
    proof (cases "total_outstanding s1 \<ge> pl \<or> \<not> can_start_more s1 p \<or> st_len s1 \<ge> mp")
      case True
      then have "(st', p', x', out') = (s1, p, x, o1)"
        using Suc.prems(1) False f by (elim disjE) (simp_all add: Let_def split: if_splits)
      then show ?thesis using o1 k1 Suc.prems(2) by auto
    next
      case go: False
      obtain r x1 where sp: "start s1 x = (r, x1)" by (rule prod.exhaust)
      show ?thesis
      proof (cases r)
        case None
        then have "(st', p', x', out') = (s1, p, x1, o1)"
          using Suc.prems(1) False f go sp by (simp add: Let_def)
        then show ?thesis using o1 k1 assms(2) [OF Suc.prems(2), of s1 x1] sp None by auto
      next
        case (Some ip)
        obtain i plen where ip: "ip = (i, plen)" by (cases ip)
        have m: "may i" "P x1" "(i, plen) \<in> K" using assms(1) [OF Suc.prems(2), of s1 i plen x1] sp Some ip by simp_all
        show ?thesis
        proof (cases "contains s1 i")
          case True
          then have "(st', p', x', out') = (s1, p, x1, o1)"
            using Suc.prems(1) False f go sp Some ip by (simp add: Let_def)
          then show ?thesis using o1 k1 m by auto
        next
          case nc: False
          obtain ok s2 p2 where ts: "try_start now i plen s1 p = (ok, s2, p2)" by (rule prod_cases3)
          have k2: "pieces s2 \<subseteq> K" using try_start_pieces(1) [OF ts] k1 m(3) by blast
          show ?thesis
          proof (cases ok)
            case False
            have "(st', p', x', out') = (s2, p2, abort i x1, o1)"
              using Suc.prems(1) \<open>\<not> pl \<le> total_outstanding st\<close> f go sp Some ip nc ts False by (simp add: Let_def)
            then show ?thesis using o1 k2 assms(3) [OF m(2)] by auto
          next
            case True
            show ?thesis
            proof (cases q1)
              case True
              have "refill_loop n now pl mp start may abort (s2, p2, x1, o1) = (st', p', x', out')"
                using Suc.prems(1) \<open>\<not> pl \<le> total_outstanding st\<close> f go sp Some ip nc ts \<open>ok\<close> True
                by (simp add: Let_def)
              from Suc.IH [OF this m(2) o1 k2] show ?thesis .
            next
              case nq: False
              show ?thesis
              proof (cases "\<exists>a buf b l a'. find_assembling (st_slots s2) i = Some (a, buf) \<and> next_request a = Some ((b, l), a')")
                case True
                then obtain a buf b l a' where n: "find_assembling (st_slots s2) i = Some (a, buf)"
                  "next_request a = Some ((b, l), a')" by blast
                then have "refill_loop n now pl mp start may abort
                    (s2\<lparr>st_slots := set_assembling (st_slots s2) i (a', buf)\<rparr>, p2, x1, o1 @ [(i, b, l)])
                    = (st', p', x', out')"
                  using Suc.prems(1) \<open>\<not> pl \<le> total_outstanding st\<close> f go sp Some ip nc ts \<open>ok\<close> nq
                  by (simp add: Let_def)
                from Suc.IH [OF this m(2)] o1 m(1) k2 pieces_next_request [OF n, of buf] show ?thesis by auto
              next
                case False
                have "(st', p', x', out') = (s2, p2, x1, o1)"
                proof (cases "find_assembling (st_slots s2) i")
                  case None
                  then show ?thesis
                    using Suc.prems(1) \<open>\<not> pl \<le> total_outstanding st\<close> f go sp Some ip nc ts \<open>ok\<close> nq by (simp add: Let_def)
                next
                  case sab: (Some ab)
                  obtain a buf where ab: "ab = (a, buf)" by (cases ab)
                  with False sab have "next_request a = None" by (cases "next_request a") auto
                  then show ?thesis
                    using Suc.prems(1) \<open>\<not> pl \<le> total_outstanding st\<close> f go sp Some ip nc ts \<open>ok\<close> nq sab ab
                    by (simp add: Let_def)
                qed
                then show ?thesis using o1 k2 m(2) by auto
              qed
            qed
          qed
        qed
      qed
    qed
  qed
qed simp

section \<open>Picking a piece\<close>

text \<open>Properties of the torrent that neither a claim nor its release changes.\<close>

definition claims_closed :: "(hot_torrent \<Rightarrow> bool) \<Rightarrow> bool" where
  "claims_closed R \<longleftrightarrow> (\<forall>t i e. R t \<longrightarrow> R (snd (try_claim_piece i e t)) \<and> R (release_piece_claim i t))"

lemma hot_ok_closed: "claims_closed hot_ok"
  by (simp add: claims_closed_def claim_ok release_claim_ok)

lemma try_claim_ctx_ok:
  assumes "claims_closed R" "R (pc_torrent c)"
  shows "R (pc_torrent (snd (try_claim_ctx e i c)))"
proof -
  have "R (snd (try_claim_piece i e (pc_torrent c)))" using assms by (simp add: claims_closed_def)
  then show ?thesis by (auto simp: try_claim_ctx_def claims_try_def split: prod.splits bool.splits)
qed

text \<open>What a claim leaves alone: which pieces are wanted and had, and the layout.\<close>

definition same_pieces :: "hot_torrent \<Rightarrow> hot_torrent \<Rightarrow> bool" where
  "same_pieces t t' \<longleftrightarrow> wants_piece t' = wants_piece t \<and> has_piece t' = has_piece t \<and> ht_layout t' = ht_layout t"

lemma same_pieces_closed: "claims_closed (same_pieces t)"
proof -
  have "wants_piece (t\<lparr>ht_in_flight := F\<rparr>) = wants_piece t" "has_piece (t\<lparr>ht_in_flight := F\<rparr>) = has_piece t" for t F
    by (simp_all add: wants_piece_def has_piece_def fun_eq_iff)
  then show ?thesis
    by (auto simp: claims_closed_def same_pieces_def try_claim_piece_def release_piece_claim_def Let_def)
qed

lemma claims_closed_conj: "claims_closed R \<Longrightarrow> claims_closed S \<Longrightarrow> claims_closed (\<lambda>t. R t \<and> S t)"
  by (simp add: claims_closed_def)

text \<open>A piece this connection may start: the peer has it, and we want it and lack it.\<close>

definition startable :: "hot_torrent \<Rightarrow> bytes \<Rightarrow> (nat \<Rightarrow> bool) \<Rightarrow> nat \<Rightarrow> bool" where
  "startable t bf h i \<longleftrightarrow> bitfield_get bf i \<and> wants_piece t i \<and> \<not> has_piece t i \<and> \<not> h i"

lemma suggest_eligible_ok:
  "claims_closed R \<Longrightarrow> R (pc_torrent c) \<Longrightarrow> R (pc_torrent (snd (suggest_eligible bf s h m e i c)))"
  "fst (suggest_eligible bf s h m e i c) \<Longrightarrow> m i \<and> startable (pc_torrent c) bf h i"
  by (auto simp: suggest_eligible_def try_claim_ctx_ok startable_def split: if_splits)

lemma take_suggested_ok:
  assumes "\<And>i x. P x \<Longrightarrow> P (snd (elig i x))" "\<And>i x. P x \<Longrightarrow> fst (elig i x) \<Longrightarrow> m i"
  shows "take_suggested elig sg x = (r, sg', x') \<Longrightarrow> P x \<Longrightarrow> P x' \<and> (\<forall>i. r = Some i \<longrightarrow> m i)"
proof (induction sg arbitrary: x)
  case (Cons i sg)
  obtain b y where e: "elig i x = (b, y)" by (rule prod.exhaust)
  with Cons assms(1) [of x i] assms(2) [of x i] show ?case by (cases b) auto
qed simp

lemma try_from_preserves:
  assumes "\<And>i x. P x \<Longrightarrow> P (snd (tc i x))"
  shows "P x \<Longrightarrow> P (snd (try_from lay tc cand x))"
proof (induction cand arbitrary: x)
  case (Cons ir cand)
  obtain i r where ir: "ir = (i, r)" by (cases ir)
  obtain b y where e: "tc i x = (b, y)" by (rule prod.exhaust)
  have "P y" using assms [OF Cons.prems, of i] e by simp
  with Cons.IH ir e show ?case by (cases b) (auto split: sum.split)
qed simp

lemma pick_preserves:
  assumes "\<And>i x. P x \<Longrightarrow> P (snd (tc i x))" "P x"
  shows "P (snd (pick_rarest_piece t bf s h tc m e draw x))"
proof (cases "ht_piece_count t = 0")
  case True
  then show ?thesis using assms(2) by (simp add: pick_none)
next
  case False
  obtain cand cand2 rf where p: "pick_rarest_piece t bf s h tc m e draw x =
        (case try_from (ht_layout t) tc (order_candidates (pick_snapshot t) e rf cand) x of
           (Some (Some hit), x) \<Rightarrow> (Some hit, x)
         | (_, x) \<Rightarrow>
             (case try_from (ht_layout t) tc cand2 x of
                (Some (Some hit), x) \<Rightarrow> (Some hit, x) | (_, x) \<Rightarrow> (None, x)))"
    using picker_shape [OF False, of bf s h m e draw tc x] by blast
  obtain r1 x1 where t1: "try_from (ht_layout t) tc (order_candidates (pick_snapshot t) e rf cand) x = (r1, x1)"
    by (rule prod.exhaust)
  obtain r2 x2 where t2: "try_from (ht_layout t) tc cand2 x1 = (r2, x2)" by (rule prod.exhaust)
  have "P x1" using try_from_preserves [of P tc, OF assms, of "ht_layout t"] t1 by (metis snd_conv)
  moreover have "P x2" using try_from_preserves [of P tc, OF assms(1) \<open>P x1\<close>, of "ht_layout t" cand2] t2 by simp
  ultimately show ?thesis unfolding p t1 by (auto simp: t2 split: option.split)
qed

lemma start_piece_ok:
  assumes R: "claims_closed R" and c: "R (pc_torrent c)" "same_pieces t (pc_torrent c)"
    and st: "start_piece draws bf s h m e c = (r, c')"
  shows "R (pc_torrent c') \<and> same_pieces t (pc_torrent c')"
    and "r = Some (i, plen) \<Longrightarrow> m i \<and> startable t bf h i \<and> piece_size (ht_layout t) i = Inr plen"
proof -
  let ?el = "suggest_eligible bf s h m e" and ?P = "\<lambda>c. R (pc_torrent c) \<and> same_pieces t (pc_torrent c)"
  note cl = claims_closed_conj [OF R same_pieces_closed [of t]]
  obtain ri sg c1 where ts: "take_suggested ?el (pc_suggested c) c = (ri, sg, c1)" by (rule prod_cases3)
  have el: "?P c \<Longrightarrow> ?P (snd (?el i c))" "?P c \<Longrightarrow> fst (?el i c) \<Longrightarrow> m i \<and> startable t bf h i" for i c
    using suggest_eligible_ok(1) [OF cl] suggest_eligible_ok(2) [of bf s h m e i c]
    by (simp_all add: same_pieces_def startable_def)
  have k: "?P c1 \<and> (\<forall>i. ri = Some i \<longrightarrow> m i \<and> startable t bf h i)"
    using take_suggested_ok [of ?P ?el "\<lambda>i. m i \<and> startable t bf h i", OF el ts] c by simp
  let ?c2 = "c1\<lparr>pc_suggested := sg, pc_picks := pc_picks c1 + 1\<rparr>"
  have pk: "?P (snd (pick_rarest_piece (pc_torrent ?c2) bf s h (try_claim_ctx e) m e (draws (pc_picks ?c2)) ?c2))"
    using k by (intro pick_preserves [where P = ?P] try_claim_ctx_ok [OF cl]) simp_all
  show "?P c'"
    using st k pk unfolding start_piece_def ts by (cases ri) (auto simp: Let_def split: sum.splits)
  show "m i \<and> startable t bf h i \<and> piece_size (ht_layout t) i = Inr plen" if r: "r = Some (i, plen)"
  proof (cases ri)
    case None
    then have "pick_rarest_piece (pc_torrent ?c2) bf s h (try_claim_ctx e) m e (draws (pc_picks ?c2)) ?c2 = (Some (i, plen), c')"
      using st r unfolding start_piece_def ts by (simp add: Let_def)
    from picked_piece_is_eligible [OF this] k show ?thesis by (simp add: startable_def same_pieces_def)
  next
    case (Some j)
    then show ?thesis
      using st r k unfolding start_piece_def ts by (auto simp: same_pieces_def split: sum.splits)
  qed
qed

section \<open>Issuing requests\<close>

lemma take_requests_facts:
  assumes "staging_ok st" "tracks k st p"
    "take_requests now pipeline endgame start may abort st p x = (out, st', p', x')"
  shows "staging_ok st' \<and> tracks k st' p'
    \<and> mset (outstanding_list st') = mset (outstanding_list st) + mset out \<and> length out \<le> max pipeline 1"
proof -
  have i0: "issued (mset (outstanding_list st)) st []" using assms(1) by (simp add: issued_def)
  from assms(3) show ?thesis
  proof (rule take_requests_unfold)
    assume "out = []" "st' = st" "p' = p"
    then show ?thesis using assms(1,2) by simp
  next
    fix n
    assume "refill_loop n now (max pipeline 1) (max_assembling_pieces (max pipeline 1) (st_piece_length st) (st_capacity st p))
       start may abort (st, p, x, []) = (st', p', x', out)"
    from refill_loop_facts [OF this i0 assms(2)] show ?thesis by (auto simp: issued_def)
  qed
qed

lemma take_requests_new:
  assumes "staging_ok st" "tracks k st p"
    "take_requests now pipeline endgame start may abort st p x = (out, st', p', x')" "(i, b, l) \<in> set out"
  shows "(i, b, l) \<notin> set (outstanding_list st) \<and> b mod BLOCK_SIZE = 0 \<and> 0 < l \<and> l \<le> BLOCK_SIZE"
proof -
  note f = take_requests_facts [OF assms(1-3)]
  then have m: "mset (outstanding_list st') = mset (outstanding_list st) + mset out" and ok: "staging_ok st'" by simp_all
  have "distinct (outstanding_list st @ out)"
    using distinct_outstanding [OF ok] m by (metis mset_append mset_eq_imp_distinct_iff)
  then have "(i, b, l) \<notin> set (outstanding_list st)" using assms(4) by auto
  moreover have "(i, b, l) \<in> set (outstanding_list st')"
    using assms(4) m by (metis set_mset_mset UnI2 set_mset_union)
  ultimately show ?thesis using outstanding_valid [OF _ ok] block_len_bounds(1) by fastforce
qed

lemma take_requests_closures:
  assumes "take_requests now pipeline endgame start may abort st p x = (out, st', p', x')" "P x"
    "\<And>st x i plen x'. P x \<Longrightarrow> start st x = (Some (i, plen), x') \<Longrightarrow> may i \<and> Q i plen \<and> P x'"
    "\<And>st x x'. P x \<Longrightarrow> start st x = (None, x') \<Longrightarrow> P x'" "\<And>i x. P x \<Longrightarrow> P (abort i x)"
  shows "P x' \<and> (\<forall>(i, b, l) \<in> set out. may i) \<and> pieces st' \<subseteq> pieces st \<union> {(i, n). Q i n}"
proof -
  show ?thesis
  proof (cases "\<not> endgame \<and> total_outstanding st > max (max pipeline 1 div 2) 1")
    case True
    then have "out = [] \<and> x' = x \<and> st' = st" using assms(1) by (simp add: take_requests_def Let_def)
    then show ?thesis using assms(2) by simp
  next
    case False
    obtain s1 p1 x1 o1 where r: "refill_loop (max pipeline 1 * 4 + length (st_slots st) + 8) now (max pipeline 1)
        (max_assembling_pieces (max pipeline 1) (st_piece_length st) (st_capacity st p)) start may abort (st, p, x, [])
        = (s1, p1, x1, o1)" by (rule prod_cases4)
    have "out = o1" "x' = x1" "st' = s1"
      using assms(1) unfolding take_requests_def Let_def if_not_P [OF False] r prod.case by simp_all
    with refill_loop_closures [of P start may "pieces st \<union> {(i, n). Q i n}" abort, OF _ assms(4,5) r assms(2)] assms(3)
    show ?thesis by simp
  qed
qed

lemma request_frames_concat:
  "request_frames reqs = concat (map (\<lambda>(i, b, l). encode_message (Request (of_nat i) (of_nat b) (of_nat l))) reqs)"
proof -
  have "foldl (\<lambda>out (i, b, l). append_request out (of_nat i) (of_nat b) (of_nat l)) acc reqs
      = acc @ concat (map (\<lambda>(i, b, l). encode_message (Request (of_nat i) (of_nat b) (of_nat l))) reqs)" for acc
    by (induction reqs arbitrary: acc) (auto simp: append_is_encode simp del: encode_message.simps)
  then show ?thesis by (simp add: request_frames_def)
qed

lemma issue_requests_cases:
  assumes "issue_requests now draws (dl, sh) = (out, reqs, dl', sh')"
  obtains wlo where "reserve_blocks now (pd_pipeline dl) (sh_limiter sh) = (None, wlo)"
      "out = None" "reqs = []" "dl' = dl" "sh' = sh\<lparr>sh_limiter := wlo\<rparr>"
  | mb wlo st p c where "reserve_blocks now (pd_pipeline dl) (sh_limiter sh) = (Some mb, wlo)"
      "take_requests now mb (pd_endgame dl) (start_for draws dl) (may_request dl) abort_start
         (pd_staging dl) (sh_pool sh) (pick_ctx_of dl (sh_torrent sh)) = (reqs, st, p, c)"
      "dl' = dl\<lparr>pd_staging := st, pd_suggested := pc_suggested c, pd_claims := pc_claims c\<rparr>"
      "sh' = sh\<lparr>sh_torrent := pc_torrent c, sh_pool := p, sh_limiter := settle_reservation mb reqs wlo\<rparr>"
      "out = (if reqs = [] then None else Some (request_frames reqs))"
proof -
  obtain r wlo where r: "reserve_blocks now (pd_pipeline dl) (sh_limiter sh) = (r, wlo)" by (rule prod.exhaust)
  show thesis
  proof (cases r)
    case None
    from assms have "out = None" "reqs = []" "dl' = dl" "sh' = sh\<lparr>sh_limiter := wlo\<rparr>"
      unfolding issue_requests_def prod.case r None option.case by simp_all
    with that(1) r None show thesis by blast
  next
    case (Some mb)
    obtain q st p c where t: "take_requests now mb (pd_endgame dl) (start_for draws dl) (may_request dl) abort_start
         (pd_staging dl) (sh_pool sh) (pick_ctx_of dl (sh_torrent sh)) = (q, st, p, c)" by (rule prod_cases4)
    from assms have e: "reqs = q" "dl' = dl\<lparr>pd_staging := st, pd_suggested := pc_suggested c, pd_claims := pc_claims c\<rparr>"
      "sh' = sh\<lparr>sh_torrent := pc_torrent c, sh_pool := p, sh_limiter := settle_reservation mb q wlo\<rparr>"
      "out = (if q = [] then None else Some (request_frames q))"
      unfolding issue_requests_def prod.case r Some option.case Let_def t by (auto split: if_splits)
    show thesis by (rule that(2) [OF r [unfolded Some] t [folded e(1)] e(2) e(3) [folded e(1)] e(4) [folded e(1)]])
  qed
qed

lemma start_for_ok:
  assumes "claims_closed R" "R (pc_torrent c) \<and> same_pieces t (pc_torrent c)" "start_for draws dl st c = (r, c')"
  shows "R (pc_torrent c') \<and> same_pieces t (pc_torrent c')"
    "r = Some (i, plen) \<Longrightarrow> may_request dl i \<and> startable t (pd_peer_bf dl) (\<lambda>i. i \<in> pd_hashing dl) i
      \<and> piece_size (ht_layout t) i = Inr plen"
  using start_piece_ok [OF assms(1) _ _ assms(3) [unfolded start_for_def], of t] assms(2) by blast+

lemma abort_start_ok: "claims_closed R \<Longrightarrow> R (pc_torrent c) \<Longrightarrow> R (pc_torrent (abort_start i c))"
  by (simp add: abort_start_def claims_release_def claims_closed_def)

lemma issue_requests_pieces:
  assumes "claims_closed R" "issue_requests now draws (dl, sh) = (out, reqs, dl', sh')" "R (sh_torrent sh)"
  shows "R (sh_torrent sh') \<and> same_pieces (sh_torrent sh) (sh_torrent sh') \<and> (\<forall>(i, b, l) \<in> set reqs. may_request dl i)
    \<and> pieces (pd_staging dl') \<subseteq> pieces (pd_staging dl) \<union> {(i, n). startable (sh_torrent sh) (pd_peer_bf dl)
        (\<lambda>i. i \<in> pd_hashing dl) i \<and> piece_size (ht_layout (sh_torrent sh)) i = Inr n}"
  using assms(2)
proof (cases rule: issue_requests_cases)
  case (1 wlo)
  then show ?thesis using assms(3) by (simp add: same_pieces_def)
next
  case (2 mb wlo st p c)
  let ?t = "sh_torrent sh"
  let ?P = "\<lambda>c. R (pc_torrent c) \<and> same_pieces ?t (pc_torrent c)"
  let ?Q = "\<lambda>i n. startable ?t (pd_peer_bf dl) (\<lambda>i. i \<in> pd_hashing dl) i \<and> piece_size (ht_layout ?t) i = Inr n"
  have "?P c \<and> (\<forall>(i, b, l) \<in> set reqs. may_request dl i) \<and> pieces st \<subseteq> pieces (pd_staging dl) \<union> {(i, n). ?Q i n}"
  proof (rule take_requests_closures [OF 2(2), of ?P ?Q])
    show "?P (pick_ctx_of dl ?t)" using assms(3) by (simp add: pick_ctx_of_def same_pieces_def)
    show "?P c \<Longrightarrow> ?P (abort_start i c)" for i c
      using abort_start_ok [OF claims_closed_conj [OF assms(1) same_pieces_closed [of ?t]]] .
  qed (use start_for_ok [OF assms(1)] in blast)+
  then show ?thesis unfolding 2(3,4) by simp
qed

lemma issue_requests_torrent:
  assumes "claims_closed R" "issue_requests now draws (dl, sh) = (out, reqs, dl', sh')" "R (sh_torrent sh)"
  shows "R (sh_torrent sh') \<and> (\<forall>(i, b, l) \<in> set reqs. may_request dl i)"
  using issue_requests_pieces [OF assms] by simp

lemma issue_requests_facts:
  assumes "issue_requests now draws (dl, sh) = (out, reqs, dl', sh')"
    "staging_ok (pd_staging dl)" "tracks k (pd_staging dl) (sh_pool sh)" "hot_ok (sh_torrent sh)"
  shows "\<forall>(i, b, l) \<in> set reqs. may_request dl i \<and> (i, b, l) \<notin> set (outstanding_list (pd_staging dl))
        \<and> b mod BLOCK_SIZE = 0 \<and> 0 < l \<and> l \<le> BLOCK_SIZE"
    "mset (outstanding_list (pd_staging dl')) = mset (outstanding_list (pd_staging dl)) + mset reqs"
    "out = (if reqs = [] then None else Some (request_frames reqs))"
    "staging_ok (pd_staging dl') \<and> tracks k (pd_staging dl') (sh_pool sh') \<and> hot_ok (sh_torrent sh')"
proof -
  have "(\<forall>(i, b, l) \<in> set reqs. may_request dl i \<and> (i, b, l) \<notin> set (outstanding_list (pd_staging dl))
        \<and> b mod BLOCK_SIZE = 0 \<and> 0 < l \<and> l \<le> BLOCK_SIZE)
    \<and> mset (outstanding_list (pd_staging dl')) = mset (outstanding_list (pd_staging dl)) + mset reqs
    \<and> out = (if reqs = [] then None else Some (request_frames reqs))
    \<and> staging_ok (pd_staging dl') \<and> tracks k (pd_staging dl') (sh_pool sh') \<and> hot_ok (sh_torrent sh')"
    using assms(1)
  proof (cases rule: issue_requests_cases)
    case (1 wlo)
    then show ?thesis using assms(2-4) by simp
  next
    case (2 mb wlo st p c)
    have h: "hot_ok (sh_torrent sh') \<and> (\<forall>(i, b, l) \<in> set reqs. may_request dl i)"
      by (rule issue_requests_torrent [OF hot_ok_closed assms(1,4)])
    note f = take_requests_facts [OF assms(2,3) 2(2)] and n = take_requests_new [OF assms(2,3) 2(2)]
    have "staging_ok (pd_staging dl') \<and> tracks k (pd_staging dl') (sh_pool sh') \<and> hot_ok (sh_torrent sh')
      \<and> mset (outstanding_list (pd_staging dl')) = mset (outstanding_list (pd_staging dl)) + mset reqs"
      using f h unfolding 2(3,4) by simp
    with n h 2(5) show ?thesis by fastforce
  qed
  then show "\<forall>(i, b, l) \<in> set reqs. may_request dl i \<and> (i, b, l) \<notin> set (outstanding_list (pd_staging dl))
        \<and> b mod BLOCK_SIZE = 0 \<and> 0 < l \<and> l \<le> BLOCK_SIZE"
    "mset (outstanding_list (pd_staging dl')) = mset (outstanding_list (pd_staging dl)) + mset reqs"
    "out = (if reqs = [] then None else Some (request_frames reqs))"
    "staging_ok (pd_staging dl') \<and> tracks k (pd_staging dl') (sh_pool sh') \<and> hot_ok (sh_torrent sh')"
    by blast+
qed

lemma requested_piece:
  assumes "issue_requests now draws (dl, sh) = (out, reqs, dl', sh')"
    "staging_ok (pd_staging dl)" "tracks k (pd_staging dl) (sh_pool sh)" "hot_ok (sh_torrent sh)"
  shows "\<forall>(i, b, l) \<in> set reqs. i \<in> set (indices (pd_staging dl))
    \<or> startable (sh_torrent sh) (pd_peer_bf dl) (\<lambda>i. i \<in> pd_hashing dl) i
      \<and> (\<exists>n. piece_size (ht_layout (sh_torrent sh)) i = Inr n \<and> b + l \<le> n)"
proof (clarify)
  fix i b l
  assume r: "(i, b, l) \<in> set reqs" and n: "\<not> (startable (sh_torrent sh) (pd_peer_bf dl) (\<lambda>i. i \<in> pd_hashing dl) i
      \<and> (\<exists>n. piece_size (ht_layout (sh_torrent sh)) i = Inr n \<and> b + l \<le> n))"
  note f = issue_requests_facts [OF assms]
  have "(i, b, l) \<in> set (outstanding_list (pd_staging dl'))"
    using r f(2) by (metis set_mset_mset UnI2 set_mset_union)
  from outstanding_valid [OF this] f(4) obtain a buf where
    a: "Assembling a buf \<in> set (st_slots (pd_staging dl'))" "ap_index a = i" "b + l \<le> ap_length a" by blast
  then have "(i, ap_length a) \<in> pieces (pd_staging dl')" unfolding pieces_def by force
  with issue_requests_pieces [OF hot_ok_closed assms(1,4)] n a(3) have "(i, ap_length a) \<in> pieces (pd_staging dl)" by blast
  then show "i \<in> set (indices (pd_staging dl))" unfolding pieces_indices by force
qed

section \<open>The rate limit\<close>

definition down_capped :: "wire_limiter \<Rightarrow> bool" where
  "down_capped wl \<longleftrightarrow> \<not> download_unlimited wl \<and> bucket_ok (wl_down wl)
     \<and> tb_tokens (wl_down wl) \<le> tb_capacity (wl_down wl)"

lemma refund_exact:
  assumes "tb_tokens b + of_nat n \<le> tb_capacity b"
  shows "tb_tokens (refund n b) = tb_tokens b + of_nat n"
  using assms by (simp add: refund_def)

lemma requested_le:
  assumes "\<forall>(i, b, l) \<in> set reqs. l \<le> BLOCK_SIZE"
  shows "requested_bytes reqs \<le> length reqs * BLOCK_SIZE"
  using assms by (induction reqs) (auto simp: requested_bytes_def)

lemma settle_tokens:
  assumes "\<not> download_unlimited wl" "requested_bytes reqs \<le> mb * BLOCK_SIZE" "0 < mb"
    "tb_tokens (wl_down wl) + of_nat (mb * BLOCK_SIZE) \<le> tb_capacity (wl_down wl)"
  obtains wl' where "settle_reservation mb reqs (Some wl) = Some wl'" "\<not> download_unlimited wl'"
    "tb_tokens (wl_down wl') = tb_tokens (wl_down wl) + of_nat (mb * BLOCK_SIZE - requested_bytes reqs)"
proof -
  let ?n = "mb * BLOCK_SIZE - requested_bytes reqs"
  let ?wl = "if ?n = 0 then wl else refund_download ?n wl"
  have eq: "settle_reservation mb reqs (Some wl) = Some ?wl"
    using assms(1-3) by (cases "reqs = []") (auto simp: settle_reservation_def Let_def requested_bytes_def)
  have "tb_tokens (wl_down ?wl) = tb_tokens (wl_down wl) + of_nat ?n"
  proof (cases "?n = 0")
    case False
    have "(of_nat ?n :: rat) \<le> of_nat (mb * BLOCK_SIZE)" by (simp only: of_nat_le_iff diff_le_self)
    then have "tb_tokens (wl_down wl) + of_nat ?n \<le> tb_capacity (wl_down wl)" using assms(4) by linarith
    from refund_exact [OF this] False assms(1) show ?thesis by (simp add: refund_download_def)
  qed simp
  moreover have "\<not> download_unlimited ?wl"
    using assms(1) by (simp add: refund_download_def download_unlimited_def)
  ultimately show thesis using that eq by blast
qed

lemma issue_requests_charge:
  assumes "issue_requests now draws (dl, sh) = (out, reqs, dl', sh')"
    "staging_ok (pd_staging dl)" "tracks k (pd_staging dl) (sh_pool sh)" "hot_ok (sh_torrent sh)"
    "sh_limiter sh = Some wl" "down_capped wl" "0 < pd_pipeline dl"
    "pre = fst (try_consume_download (pd_pipeline dl * BLOCK_SIZE) now wl)"
  obtains wl' where "sh_limiter sh' = Some wl'"
    "tb_tokens (wl_down wl') = tb_tokens (refill now (wl_down wl))
       - of_nat (if pre < BLOCK_SIZE then 0 else requested_bytes reqs + pre mod BLOCK_SIZE)"
    "requested_bytes reqs \<le> pre"
proof -
  let ?want = "pd_pipeline dl * BLOCK_SIZE" and ?b = "refill now (wl_down wl)"
  have w: "?want \<noteq> 0" "\<not> download_unlimited wl" "bucket_ok (wl_down wl)"
    using assms(6,7) by (simp_all add: down_capped_def)
  define b1 where "b1 = ?b\<lparr>tb_tokens := tb_tokens ?b - of_nat pre\<rparr>"
  define wl1 where "wl1 = wl\<lparr>wl_down := b1\<rparr>"
  have tc: "try_consume_download ?want now wl = (pre, wl1)"
    using w(1,2) unfolding assms(8) try_consume_download_def try_consume_def wl1_def b1_def Let_def by simp
  have u1: "\<not> download_unlimited wl1" using w(2) by (simp add: wl1_def download_unlimited_def)
  have cap: "tb_tokens ?b \<le> tb_capacity ?b"
    using refill_capped [OF w(3), of now] refill_ok(3) [OF w(3), of now] assms(6) by (simp add: down_capped_def)
  have t1: "tb_tokens (wl_down wl1) = tb_tokens ?b - of_nat pre" "tb_capacity (wl_down wl1) = tb_capacity ?b"
    by (simp_all add: wl1_def b1_def)
  show thesis
    using assms(1)
  proof (cases rule: issue_requests_cases)
    case (1 wlo)
    have small: "pre < BLOCK_SIZE"
      using 1(1) w(2) tc by (auto simp: reserve_blocks_def assms(5) split: if_splits)
    then have wlo: "wlo = Some (if pre > 0 then refund_download pre wl1 else wl1)"
      using 1(1) w(2) tc by (simp add: reserve_blocks_def assms(5))
    have "tb_tokens (wl_down (if pre > 0 then refund_download pre wl1 else wl1)) = tb_tokens ?b"
      using refund_exact [of b1 pre] cap u1 t1 by (auto simp: refund_download_def wl1_def b1_def)
    then show thesis using that [of "if pre > 0 then refund_download pre wl1 else wl1"] small 1(3,5) wlo
      by (simp add: requested_bytes_def)
  next
    case (2 mb wlo st p c)
    have big: "\<not> pre < BLOCK_SIZE" "mb = pre div BLOCK_SIZE" "wlo = Some wl1"
      using 2(1) w(2) tc by (auto simp: reserve_blocks_def assms(5) split: if_splits)
    then have mb: "0 < mb" "mb * BLOCK_SIZE + pre mod BLOCK_SIZE = pre"
      by (simp_all add: div_greater_zero_iff)
    have "length reqs \<le> mb" using take_requests_facts [OF assms(2,3) 2(2)] mb(1) by simp
    moreover have "requested_bytes reqs \<le> length reqs * BLOCK_SIZE"
      using issue_requests_facts(1) [OF assms(1-4)] by (intro requested_le) auto
    ultimately have le: "requested_bytes reqs \<le> mb * BLOCK_SIZE"
      by (meson le_trans mult_le_mono1)
    have "(of_nat (mb * BLOCK_SIZE) :: rat) \<le> of_nat pre"
      using mb(2) by (simp only: of_nat_le_iff)
    then have fits: "tb_tokens (wl_down wl1) + of_nat (mb * BLOCK_SIZE) \<le> tb_capacity (wl_down wl1)"
      using t1 cap by linarith
    obtain wl' where s: "settle_reservation mb reqs (Some wl1) = Some wl'"
      "tb_tokens (wl_down wl') = tb_tokens (wl_down wl1) + of_nat (mb * BLOCK_SIZE - requested_bytes reqs)"
      using settle_tokens [OF u1 le mb(1) fits] by blast
    have "mb * BLOCK_SIZE - requested_bytes reqs + (requested_bytes reqs + pre mod BLOCK_SIZE) = pre"
      using mb(2) le by linarith
    then have "(of_nat (mb * BLOCK_SIZE - requested_bytes reqs) :: rat)
        + of_nat (requested_bytes reqs + pre mod BLOCK_SIZE) = of_nat pre"
      by (metis of_nat_add)
    then have "tb_tokens (wl_down wl') = tb_tokens ?b - of_nat (requested_bytes reqs + pre mod BLOCK_SIZE)"
      using s(2) t1(1) by linarith
    moreover have "sh_limiter sh' = Some wl'" using s(1) big(3) unfolding 2(4) by simp
    moreover have "requested_bytes reqs \<le> pre" using le mb(2) by linarith
    ultimately show thesis using that [of wl'] big(1) by simp
  qed
qed

section \<open>Properties\<close>

text \<open>C14. Requests respect the protocol and keep the shared state sound. On a well-formed connection of a
  consistent torrent, for any clock and any random draws: a requested block lies in a piece the connection was already
  assembling or in one started now, which the peer has, we want and lack, is not being hashed, and contains
  the whole block; the same holds of every piece the connection assembles afterwards, so a connection
  that assembles only pieces of the peer's bitfield requests only such pieces and stays that way.
  While choked, requests go only to pieces in the peer's allowed-fast set; each is a new block (not outstanding,
  block-aligned, at most 16 KiB); what becomes outstanding is exactly what was requested; the bytes
  sent are those requests encoded in order; and the staging table, the buffer pool's account and the torrent's
  counters stay consistent.\<close>

theorem requests_respect_protocol:
  assumes "issue_requests now draws (dl, sh) = (out, reqs, dl', sh')"
    "staging_ok (pd_staging dl)" "tracks k (pd_staging dl) (sh_pool sh)" "hot_ok (sh_torrent sh)"
  shows "(\<forall>(i, b, l) \<in> set reqs. (\<not> pd_peer_choking dl \<or> i \<in> pd_allowed_fast dl)
        \<and> (i, b, l) \<notin> set (outstanding_list (pd_staging dl)) \<and> b mod BLOCK_SIZE = 0 \<and> 0 < l \<and> l \<le> BLOCK_SIZE
        \<and> (i \<in> set (indices (pd_staging dl))
           \<or> bitfield_get (pd_peer_bf dl) i \<and> wants_piece (sh_torrent sh) i \<and> \<not> has_piece (sh_torrent sh) i
             \<and> i \<notin> pd_hashing dl \<and> (\<exists>n. piece_size (ht_layout (sh_torrent sh)) i = Inr n \<and> b + l \<le> n)))
    \<and> (\<forall>i \<in> set (indices (pd_staging dl')). i \<in> set (indices (pd_staging dl))
        \<or> bitfield_get (pd_peer_bf dl) i \<and> wants_piece (sh_torrent sh) i \<and> \<not> has_piece (sh_torrent sh) i)
    \<and> ((\<forall>i \<in> set (indices (pd_staging dl)). bitfield_get (pd_peer_bf dl) i) \<longrightarrow>
        (\<forall>(i, b, l) \<in> set reqs. bitfield_get (pd_peer_bf dl) i)
        \<and> (\<forall>i \<in> set (indices (pd_staging dl')). bitfield_get (pd_peer_bf dl') i))
    \<and> mset (outstanding_list (pd_staging dl')) = mset (outstanding_list (pd_staging dl)) + mset reqs
    \<and> out = (if reqs = [] then None else Some (concat (map
        (\<lambda>(i, b, l). encode_message (Request (of_nat i) (of_nat b) (of_nat l))) reqs)))
    \<and> staging_ok (pd_staging dl') \<and> tracks k (pd_staging dl') (sh_pool sh') \<and> hot_ok (sh_torrent sh')"
proof -
  note f = issue_requests_facts [OF assms]
  have bf: "pd_peer_bf dl' = pd_peer_bf dl" using assms(1) by (cases rule: issue_requests_cases) simp_all
  have old: "(\<not> pd_peer_choking dl \<or> i \<in> pd_allowed_fast dl) \<and> (i, b, l) \<notin> set (outstanding_list (pd_staging dl))
      \<and> b mod BLOCK_SIZE = 0 \<and> 0 < l \<and> l \<le> BLOCK_SIZE" if "(i, b, l) \<in> set reqs" for i b l
    using bspec [OF f(1) that] by (simp add: may_request_def)
  have req: "i \<in> set (indices (pd_staging dl))
      \<or> bitfield_get (pd_peer_bf dl) i \<and> wants_piece (sh_torrent sh) i \<and> \<not> has_piece (sh_torrent sh) i
        \<and> i \<notin> pd_hashing dl \<and> (\<exists>n. piece_size (ht_layout (sh_torrent sh)) i = Inr n \<and> b + l \<le> n)"
    if "(i, b, l) \<in> set reqs" for i b l
    using bspec [OF requested_piece [OF assms] that] by (auto simp: startable_def)
  have new: "i \<in> set (indices (pd_staging dl))
      \<or> bitfield_get (pd_peer_bf dl) i \<and> wants_piece (sh_torrent sh) i \<and> \<not> has_piece (sh_torrent sh) i"
    if "i \<in> set (indices (pd_staging dl'))" for i
    using that issue_requests_pieces [OF hot_ok_closed assms(1,4)] unfolding pieces_indices startable_def by force
  have reqs: "\<forall>(i, b, l) \<in> set reqs. (\<not> pd_peer_choking dl \<or> i \<in> pd_allowed_fast dl)
        \<and> (i, b, l) \<notin> set (outstanding_list (pd_staging dl)) \<and> b mod BLOCK_SIZE = 0 \<and> 0 < l \<and> l \<le> BLOCK_SIZE
        \<and> (i \<in> set (indices (pd_staging dl))
           \<or> bitfield_get (pd_peer_bf dl) i \<and> wants_piece (sh_torrent sh) i \<and> \<not> has_piece (sh_torrent sh) i
             \<and> i \<notin> pd_hashing dl \<and> (\<exists>n. piece_size (ht_layout (sh_torrent sh)) i = Inr n \<and> b + l \<le> n))"
    using old req by (clarify, blast)
  have has: "(\<forall>i \<in> set (indices (pd_staging dl)). bitfield_get (pd_peer_bf dl) i) \<longrightarrow>
        (\<forall>(i, b, l) \<in> set reqs. bitfield_get (pd_peer_bf dl) i)
        \<and> (\<forall>i \<in> set (indices (pd_staging dl')). bitfield_get (pd_peer_bf dl) i)"
  proof (intro impI conjI)
    assume a: "\<forall>i \<in> set (indices (pd_staging dl)). bitfield_get (pd_peer_bf dl) i"
    show "\<forall>(i, b, l) \<in> set reqs. bitfield_get (pd_peer_bf dl) i" using a req by fast
    show "\<forall>i \<in> set (indices (pd_staging dl')). bitfield_get (pd_peer_bf dl) i" using a new by fast
  qed
  show ?thesis
    unfolding bf request_frames_concat [symmetric] 
    by (intro conjI ballI reqs new has f(2,3) f(4) [THEN conjunct1] f(4) [THEN conjunct2, THEN conjunct1]
        f(4) [THEN conjunct2, THEN conjunct2])
qed

definition test_peer :: "peer_download \<times> shared" where
  "test_peer =
     (peer_download_new (all_set_bitfield 2) (from_pool (pool_new 32768 0)) 4 None,
      \<lparr>sh_torrent = test_torrent, sh_pool = pool_new 32768 0, sh_limiter = Some (limiter_new 0 0 20000)\<rparr>)"

lemma test_peer_ok:
  "staging_ok (pd_staging (fst test_peer))" "tracks 0 (pd_staging (fst test_peer)) (sh_pool (snd test_peer))"
  "hot_ok (sh_torrent (snd test_peer))"
  using fresh_table test_torrent_ok(1) by (simp_all add: test_peer_def peer_download_new_def)

text \<open>The witness: an unchoked peer that has both pieces and suggested piece 0.\<close>

definition test_asking :: "peer_download \<times> shared" where
  "test_asking =
     ((peer_download_new (all_set_bitfield 2) (from_pool (pool_new 32768 0)) 1 None)
        \<lparr>pd_peer_choking := False, pd_suggested := [0]\<rparr>,
      \<lparr>sh_torrent = test_torrent, sh_pool = pool_new 32768 0, sh_limiter = None\<rparr>)"

lemma test_asking_ok:
  "staging_ok (pd_staging (fst test_asking))" "tracks 0 (pd_staging (fst test_asking)) (sh_pool (snd test_asking))"
  "hot_ok (sh_torrent (snd test_asking))"
  using fresh_table test_torrent_ok(1) by (simp_all add: test_asking_def peer_download_new_def)

lemma test_start:
  "st_slots st = [] \<Longrightarrow> \<exists>c. start_for draws (fst test_asking) st (pick_ctx_of (fst test_asking) test_torrent) = (Some (0, 4), c)"
proof -
  assume "st_slots st = []"
  moreover have "wants_piece test_torrent 0" "\<not> has_piece test_torrent 0" "0 \<notin> ht_in_flight test_torrent"
    using test_torrent_ok(5) by (auto simp: eligible_def pick_snapshot_def wants_piece_def has_piece_def split: if_splits)
  moreover have "piece_size test_layout 0 = Inr 4" by (simp add: piece_size_def test_layout_def Let_def)
  ultimately show ?thesis
    using test_torrent_ok(2,3)
    by (simp add: start_for_def start_piece_def test_asking_def peer_download_new_def pick_ctx_of_def suggest_eligible_def
        contains_def may_request_def try_claim_ctx_def claims_try_def try_claim_piece_def bitfield_get_all_set)
qed

lemma test_asking_issues:
  "\<exists>out dl' sh'. issue_requests 0 draws (fst test_asking, snd test_asking) = (out, [(0, 0, 4)], dl', sh')"
proof -
  let ?dl = "fst test_asking" and ?st = "from_pool (pool_new 32768 0)" and ?p = "pool_new 32768 0"
  have st: "st_slots ?st = []" "st_piece_length ?st = 32768" "st_shared ?st"
    by (simp_all add: from_pool_def fresh_pool)
  obtain c where c: "start_for draws ?dl ?st (pick_ctx_of ?dl test_torrent) = (Some (0, 4), c)"
    using test_start [OF st(1)] by blast
  have a: "piece_open 0 4 (st_max_blocks ?st) = \<lparr>ap_index = 0, ap_length = 4, ap_have = [False], ap_requested = [False], ap_endgame = False\<rparr>"
    by (simp add: piece_open_def num_blocks_def div_ceil_def from_pool_def fresh_pool numeral_2_eq_2)
  have m: "max_assembling_pieces 1 32768 4096 = 1" by (simp add: max_assembling_pieces_def num_blocks_def div_ceil_def Let_def)
  obtain n :: nat where twelve: "12 = Suc (Suc n)" by (rule that [of 10]) simp
  have "\<exists>st' p' x'. refill_loop 12 0 1 (max_assembling_pieces 1 (st_piece_length ?st) (st_capacity ?st ?p))
      (start_for draws ?dl) (may_request ?dl) abort_start (?st, ?p, pick_ctx_of ?dl test_torrent, []) = (st', p', x', [(0, 0, 4)])"
    unfolding twelve
    using st c a m by (simp add: total_outstanding_def indices_def can_start_more_def available_def fresh_pool st_len_def
        contains_def try_start_def try_acquire_def next_request_def block_len_def outstanding_requests_def st_capacity_def Let_def)
  then have "\<exists>st' p' x'. take_requests 0 1 False (start_for draws ?dl) (may_request ?dl) abort_start ?st ?p
      (pick_ctx_of ?dl test_torrent) = ([(0, 0, 4)], st', p', x')"
    using st by (auto simp: take_requests_def total_outstanding_def)
  then show ?thesis
    by (auto simp: issue_requests_def reserve_blocks_def test_asking_def peer_download_new_def Let_def)
qed

theorem requests_respect_protocol_witness:
  "\<exists>out dl' sh'. issue_requests 0 (\<lambda>_ k. k) test_asking = (out, [(0, 0, 4)], dl', sh')
     \<and> bitfield_get (pd_peer_bf (fst test_asking)) 0 \<and> wants_piece test_torrent 0
     \<and> out = Some (encode_message (Request 0 0 4)) \<and> outstanding_list (pd_staging dl') = [(0, 0, 4)]"
proof -
  obtain out dl' sh' where i: "issue_requests 0 (\<lambda>_ k. k) (fst test_asking, snd test_asking) = (out, [(0, 0, 4)], dl', sh')"
    using test_asking_issues by blast
  have e: "indices (pd_staging (fst test_asking)) = []" "outstanding_list (pd_staging (fst test_asking)) = []"
    by (simp_all add: test_asking_def peer_download_new_def from_pool_def indices_def outstanding_list_def)
  have "sh_torrent (snd test_asking) = test_torrent" by (simp add: test_asking_def)
  with requests_respect_protocol [OF i test_asking_ok] e i show ?thesis
    by (simp del: encode_message.simps)
qed

text \<open>The download cap is never overdrawn, and what is lost. When a limited connection issues requests,
  it takes from the bucket at least the bytes it requests, and never requests more than it was
  granted. The exact charge is the requested bytes plus the part of the grant beyond a whole
  number of blocks: that remainder (up to 16383 bytes) is never refunded, although the
  code means to give back all that it does not use.\<close>

theorem download_cap_charged:
  assumes "issue_requests now draws (dl, sh) = (out, reqs, dl', sh')"
    "staging_ok (pd_staging dl)" "tracks k (pd_staging dl) (sh_pool sh)" "hot_ok (sh_torrent sh)"
    "sh_limiter sh = Some wl" "down_capped wl" "0 < pd_pipeline dl"
    "pre = fst (try_consume_download (pd_pipeline dl * BLOCK_SIZE) now wl)"
  shows "\<exists>wl'. sh_limiter sh' = Some wl' \<and> requested_bytes reqs \<le> pre
    \<and> tb_tokens (refill now (wl_down wl)) - tb_tokens (wl_down wl')
        = of_nat (if pre < BLOCK_SIZE then 0 else requested_bytes reqs + pre mod BLOCK_SIZE)"
  using issue_requests_charge [OF assms] by (metis add_diff_cancel_left' diff_add_cancel)

theorem download_cap_charged_witness:
  "\<exists>out dl' sh' wl'. issue_requests 0 (\<lambda>_ k. k) test_peer = (out, [], dl', sh') \<and> sh_limiter sh' = Some wl'
     \<and> tb_tokens (wl_down wl') = 30000 - 13616"
proof -
  let ?wl = "limiter_new 0 0 20000"
  obtain out reqs dl' sh' where i: "issue_requests 0 (\<lambda>_ k. k) (fst test_peer, snd test_peer) = (out, reqs, dl', sh')"
    by (rule prod_cases4)
  have choked: "\<not> may_request (fst test_peer) j" for j
    by (simp add: test_peer_def peer_download_new_def may_request_def)
  then have r: "reqs = []" using issue_requests_facts(1) [OF i test_peer_ok] by (cases reqs) auto
  have l: "sh_limiter (snd test_peer) = Some ?wl" "pd_pipeline (fst test_peer) = 4"
    by (simp_all add: test_peer_def peer_download_new_def)
  have c: "down_capped ?wl"
    by (simp add: down_capped_def limiter_new_def set_caps_def reconfigure_def download_unlimited_def bucket_ok_def
        Let_def BURST_SECS_def)
  have t: "tb_tokens (refill 0 (wl_down ?wl)) = 30000"
    by (simp add: limiter_new_def set_caps_def reconfigure_def refill_def Let_def BURST_SECS_def secs_f64_def)
  have pre: "30000 = fst (try_consume_download (pd_pipeline (fst test_peer) * BLOCK_SIZE) 0 ?wl)"
    using t unfolding l(2)
    by (simp add: try_consume_download_def try_consume_def download_unlimited_def Let_def limiter_new_def set_caps_def
        case_prod_beta)
  have "0 < pd_pipeline (fst test_peer)" using l(2) by simp
  from download_cap_charged [OF i test_peer_ok l(1) c this pre] t i r
  show ?thesis by (auto simp: requested_bytes_def)
qed

end
