(* ===== verification/Peer_Stream.thy ===== *)
theory Peer_Stream
  imports Peer_Session Peer_Download_Correct
begin

text \<open>
  The connection's byte level refines its message level: whatever way the encrypted stream is cut
  into reads, the reader ends in the state that handling the peer's messages one by one gives.
\<close>

section \<open>The message level\<close>

fun dispatch ::
  "session_env \<Rightarrow> peer_cfg \<Rightarrow> bool \<Rightarrow> nat \<Rightarrow> parsed_message list \<Rightarrow> reader \<Rightarrow> session_error option \<times> reader" where
  "dispatch en cf downloading now [] r = (None, r)"
| "dispatch en cf downloading now (m # ms) r =
     (case handle_frame en cf downloading now m r of
        (Some e, nf, r) \<Rightarrow> (Some e, r)
      | (None, nf, r) \<Rightarrow> dispatch en cf downloading now ms r)"

text \<open>The byte level: every chunk is decrypted and buffered, its complete frames are handled, the
  buffer is compacted.\<close>

fun feed ::
  "session_env \<Rightarrow> peer_cfg \<Rightarrow> bool \<Rightarrow> nat \<Rightarrow> bytes list \<Rightarrow> reader \<Rightarrow> session_error option \<times> reader" where
  "feed en cf downloading now [] r = (None, r)"
| "feed en cf downloading now (chunk # chunks) r =
     (let (cur, d) = cursor_append (rd_cursor r) chunk (rd_decrypt r)
      in case parse_available_messages en cf downloading now (r\<lparr>rd_cursor := cur, rd_decrypt := d\<rparr>) of
           (Some e, nf, r) \<Rightarrow> (Some e, r)
         | (None, nf, r) \<Rightarrow> feed en cf downloading now chunks (r\<lparr>rd_cursor := compact_if_needed (rd_cursor r)\<rparr>))"

text \<open>A reader without its buffer.\<close>

definition at_wire :: "read_cursor \<Rightarrow> rc4 option \<Rightarrow> reader \<Rightarrow> reader" where
  "at_wire cur d r = r\<lparr>rd_cursor := cur, rd_decrypt := d\<rparr>"

section \<open>Handlers and the buffer\<close>

lemma at_wire_fields [simp]:
  "rd_dl (at_wire cur d r) = rd_dl r" "rd_sh (at_wire cur d r) = rd_sh r" "rd_fast (at_wire cur d r) = rd_fast r"
  "rd_peer_interested (at_wire cur d r) = rd_peer_interested r" "rd_label (at_wire cur d r) = rd_label r"
  "rd_cmds (at_wire cur d r) = rd_cmds r" "rd_jobs (at_wire cur d r) = rd_jobs r"
  "rd_wire_down (at_wire cur d r) = rd_wire_down r" "rd_cursor (at_wire cur d r) = cur" "rd_decrypt (at_wire cur d r) = d"
  "at_wire cur d (at_wire cur' d' r) = at_wire cur d r"
  by (simp_all add: at_wire_def)

lemma at_wire_upd [simp]:
  "(at_wire cur d r)\<lparr>rd_dl := x\<rparr> = at_wire cur d (r\<lparr>rd_dl := x\<rparr>)"
  "(at_wire cur d r)\<lparr>rd_sh := y\<rparr> = at_wire cur d (r\<lparr>rd_sh := y\<rparr>)"
  "(at_wire cur d r)\<lparr>rd_fast := f\<rparr> = at_wire cur d (r\<lparr>rd_fast := f\<rparr>)"
  "(at_wire cur d r)\<lparr>rd_peer_interested := b\<rparr> = at_wire cur d (r\<lparr>rd_peer_interested := b\<rparr>)"
  "(at_wire cur d r)\<lparr>rd_last_piece := n\<rparr> = at_wire cur d (r\<lparr>rd_last_piece := n\<rparr>)"
  "(at_wire cur d r)\<lparr>rd_last_useful := n\<rparr> = at_wire cur d (r\<lparr>rd_last_useful := n\<rparr>)"
  "(at_wire cur d r)\<lparr>rd_wire_down := n\<rparr> = at_wire cur d (r\<lparr>rd_wire_down := n\<rparr>)"
  "(at_wire cur d r)\<lparr>rd_label := l\<rparr> = at_wire cur d (r\<lparr>rd_label := l\<rparr>)"
  "(at_wire cur d r)\<lparr>rd_cmds := c\<rparr> = at_wire cur d (r\<lparr>rd_cmds := c\<rparr>)"
  "(at_wire cur d r)\<lparr>rd_jobs := j\<rparr> = at_wire cur d (r\<lparr>rd_jobs := j\<rparr>)"
  "(at_wire cur d r)\<lparr>rd_cursor := cur'\<rparr> = at_wire cur' d r"
  by (simp_all add: at_wire_def)

lemma push_ctrl_wire [simp]: "push_ctrl b (at_wire cur d r) = at_wire cur d (push_ctrl b r)"
  by (simp add: push_ctrl_def send_cmd_def)

lemma send_cmd_wire [simp]: "send_cmd m (at_wire cur d r) = at_wire cur d (send_cmd m r)"
  by (simp add: send_cmd_def)

lemma avail_bitfield_wire [simp]: "avail_bitfield (at_wire cur d r) = at_wire cur d (avail_bitfield r)"
  by (simp add: avail_bitfield_def split: option.split prod.split)

lemma avail_have_wire [simp]: "avail_have i (at_wire cur d r) = at_wire cur d (avail_have i r)"
  by (simp add: avail_have_def split: option.split prod.split)

lemma on_request_wire [simp]: "on_request i b l (at_wire cur d r) = at_wire cur d (on_request i b l r)"
  by (simp add: on_request_def)

lemma handle_msg_wire:
  "handle_msg cf downloading now m (at_wire cur d r) =
     (fst (handle_msg cf downloading now m r), at_wire cur d (snd (handle_msg cf downloading now m r)))"
  by (cases m) (simp_all add: Let_def set_dl_def split: option.split)

lemma on_piece_wire:
  "on_piece_frame en cf downloading now i b block (at_wire cur d r) =
     (case on_piece_frame en cf downloading now i b block r of (e, nf, r) \<Rightarrow> (e, nf, at_wire cur d r))"
  by (simp add: on_piece_frame_def Let_def split: sum.split prod.split option.split)

lemma handle_frame_wire:
  "handle_frame en cf downloading now m (at_wire cur d r) =
     (case handle_frame en cf downloading now m r of (e, nf, r) \<Rightarrow> (e, nf, at_wire cur d r))"
  by (cases m) (simp_all add: handle_msg_wire on_piece_wire case_prod_beta)

lemma dispatch_wire:
  "dispatch en cf downloading now ms (at_wire cur d r) =
     (case dispatch en cf downloading now ms r of (e, r) \<Rightarrow> (e, at_wire cur d r))"
  by (induction ms arbitrary: r) (simp_all add: handle_frame_wire split: prod.split option.split)

lemma dispatch_append:
  "dispatch en cf downloading now (ms @ ms') r =
     (case dispatch en cf downloading now ms r of
        (Some e, r) \<Rightarrow> (Some e, r) | (None, r) \<Rightarrow> dispatch en cf downloading now ms' r)"
  by (induction ms arbitrary: r) (simp_all split: prod.split option.split)

section \<open>Frames are the messages\<close>

lemma parse_frames_drain:
  assumes "drain_frames u = (ms, None, rest)"
  shows "\<exists>nf rest'. parse_frames en cf downloading now u r =
      (fst (dispatch en cf downloading now ms r), nf, rest', snd (dispatch en cf downloading now ms r))
    \<and> (fst (dispatch en cf downloading now ms r) = None \<longrightarrow> rest' = rest)"
  using assms
proof (induction u arbitrary: r ms rule: drain_frames.induct)
  case (1 u)
  consider (wait) "parse_message u = Inr None" | (err) e where "parse_message u = Inl e"
    | (ok) m n where "parse_message u = Inr (Some (m, n))" by (cases "parse_message u") fastforce+
  then show ?case
  proof cases
    case wait
    then have "ms = []" "rest = u" using "1.prems" by (simp_all add: fr.drain_stuck)
    then show ?thesis using wait by (auto simp: parse_frames.simps [of _ _ _ _ u])
  next
    case err
    then show ?thesis using "1.prems" by (simp add: drain_frames.simps [of u])
  next
    case ok
    obtain ms1 e1 rest1 where d: "drain_frames (drop n u) = (ms1, e1, rest1)" by (rule prod_cases3)
    with ok "1.prems" have ms: "ms = m # ms1" "e1 = None" "rest1 = rest"
      by (simp_all add: drain_frames.simps [of u])
    obtain e nf r1 where h: "handle_frame en cf downloading now m r = (e, nf, r1)" by (rule prod_cases3)
    show ?thesis
    proof (cases e)
      case (Some x)
      then show ?thesis using ok h ms by (simp add: parse_frames.simps [of _ _ _ _ u])
    next
      case None
      from "1.IH" [OF ok refl refl d [unfolded ms(2,3)], of r1] obtain nf' rest' where
        "parse_frames en cf downloading now (drop n u) r1 =
           (fst (dispatch en cf downloading now ms1 r1), nf', rest', snd (dispatch en cf downloading now ms1 r1))
         \<and> (fst (dispatch en cf downloading now ms1 r1) = None \<longrightarrow> rest' = rest)" by (elim exE)
      then show ?thesis using ok h ms None by (simp add: parse_frames.simps [of _ _ _ _ u])
    qed
  qed
qed

lemma feed_dispatch:
  assumes "\<forall>m \<in> set ms. msg_ok m"
    and "unparsed (rd_cursor r) @ decrypted (rd_decrypt r) (concat chunks) = concat (map encode_message ms)"
    and "fits (rd_cursor r) (length (concat chunks))"
    and "drain_frames (unparsed (rd_cursor r)) = ([], None, unparsed (rd_cursor r))"
  shows "\<exists>cur d. feed en cf downloading now chunks r =
    (case dispatch en cf downloading now (map parsed_of ms) r of (e, r) \<Rightarrow> (e, at_wire cur d r))"
  using assms
proof (induction chunks arbitrary: r ms)
  case Nil
  then have "drain_frames (unparsed (rd_cursor r)) = drain_frames (concat (map encode_message ms) @ [])"
    by (simp add: decrypted_def split: option.splits)
  then have "ms = []"
    using Nil.prems(4) fr.drain_concat [OF Nil.prems(1), of "[]"] fr.drain_stuck [OF fr.parse_nil] by (simp add: Let_def)
  then show ?case by (intro exI [of _ "rd_cursor r"] exI [of _ "rd_decrypt r"]) (simp add: at_wire_def)
next
  case (Cons chunk chunks)
  define d' where "d' = decrypt_after (rd_decrypt r) chunk"
  define r1 where "r1 = fst (cursor_append (rd_cursor r) chunk (rd_decrypt r))"
  let ?b1 = "unparsed (rd_cursor r) @ decrypted (rd_decrypt r) chunk" and ?tail = "decrypted d' (concat chunks)"
  have split: "?b1 @ ?tail = concat (map encode_message ms)"
    using Cons.prems by (simp add: decrypted_append d'_def)
  from fr.drain_stream_prefix [OF Cons.prems(1) split] obtain ms1 ms2 rest where
    ms: "ms = ms1 @ ms2" and dr: "drain_frames ?b1 = (map parsed_of ms1, None, rest)"
    and rest: "rest @ ?tail = concat (map encode_message ms2)" by blast
  have fit: "fits (rd_cursor r) (length chunk + length (concat chunks))" using Cons.prems(3) by simp
  note ca = cursor_append_facts [OF fit, of "rd_decrypt r", folded r1_def d'_def]
  have cur: "cursor_append (rd_cursor r) chunk (rd_decrypt r) = (r1, d')" using ca(2) by (simp add: r1_def d'_def prod_eq_iff)
  let ?r = "at_wire r1 d' r" and ?D = "dispatch en cf downloading now (map parsed_of ms1) r"
  obtain nf rest' where pf: "parse_frames en cf downloading now ?b1 ?r = (fst ?D, nf, rest', at_wire r1 d' (snd ?D))"
    and rest': "fst ?D = None \<longrightarrow> rest' = rest"
    using parse_frames_drain [OF dr, of en cf downloading now ?r] by (auto simp: dispatch_wire case_prod_beta)
  let ?cur = "advance r1 (length ?b1 - length rest')"
  have pa: "parse_available_messages en cf downloading now (r\<lparr>rd_cursor := r1, rd_decrypt := d'\<rparr>) =
      (fst ?D, nf, at_wire ?cur d' (snd ?D))"
    using pf ca(1) by (simp add: parse_available_messages_def at_wire_def Let_def)
  show ?case
  proof (cases "fst ?D")
    case (Some e)
    then show ?thesis
      using pa cur by (intro exI [of _ ?cur] exI [of _ d']) (simp add: ms dispatch_append case_prod_beta)
  next
    case None
    let ?r2 = "at_wire (compact_if_needed ?cur) d' (snd ?D)"
    obtain u where u: "?b1 = u @ rest" using fr.drain_suffix [OF dr] by blast
    have pos: "cur_pos r1 \<le> length (cur_buf r1)" and len: "length (cur_buf r1) + length (concat chunks) \<le> u64_max"
      using ca(3) by (simp_all add: fits_def)
    have b1: "unparsed r1 = ?b1" by (rule ca(1))
    have "length (unparsed r1) = length (cur_buf r1) - cur_pos r1" by (simp add: unparsed_def)
    with b1 u pos len have "cur_pos r1 + (length ?b1 - length rest) \<le> u64_max" by simp
    note adv = unparsed_advance [OF pos this]
    have cu: "unparsed (compact_if_needed ?cur) = rest"
      using adv(1) u b1 None rest' by simp
    have "fits ?cur (length (concat chunks))"
      using adv(2) len None rest' by (simp add: fits_def advance_def)
    then have "fits (compact_if_needed ?cur) (length (concat chunks))"
      by (auto simp: fits_def compact_if_needed_def)
    then obtain c2 d2 where "feed en cf downloading now chunks ?r2 =
        (case dispatch en cf downloading now (map parsed_of ms2) ?r2 of (e, r) \<Rightarrow> (e, at_wire c2 d2 r))"
      using Cons.IH [of ms2 ?r2] Cons.prems(1) rest cu fr.drain_idem [OF dr] by (auto simp: ms)
    then have "feed en cf downloading now (chunk # chunks) r =
        (case dispatch en cf downloading now (map parsed_of ms2) (snd ?D) of (e, r) \<Rightarrow> (e, at_wire c2 d2 r))"
      using pa cur None by (simp add: dispatch_wire case_prod_beta)
    then show ?thesis using None by (auto simp: ms dispatch_append case_prod_beta split: option.splits)
  qed
qed

text \<open>C19. The encrypted byte stream refines the message level. Let the peer's messages be encoded,
  encrypted or not, and cut into reads in any way: a connection that buffers, decrypts, frames and
  handles them ends with the same error, or in the same state, as handling the messages one after the
  other; only the read buffer and the cipher state are the byte level's own.\<close>

theorem session_follows_messages:
  assumes "\<forall>m \<in> set ms. msg_ok m" "rd_cursor r = from_vec []"
    and "concat chunks = (case rd_decrypt r of None \<Rightarrow> concat (map encode_message ms)
           | Some c \<Rightarrow> fst (crypt_inplace c (concat (map encode_message ms))))"
    and "length (concat chunks) \<le> u64_max"
  shows "\<exists>cur d. feed en cf downloading now chunks r =
    (case dispatch en cf downloading now (map parsed_of ms) r of (e, r') \<Rightarrow> (e, at_wire cur d r'))"
proof (rule feed_dispatch [OF assms(1)])
  have u: "unparsed (from_vec []) = []" by (simp add: unparsed_def from_vec_def)
  show "unparsed (rd_cursor r) @ decrypted (rd_decrypt r) (concat chunks) = concat (map encode_message ms)"
    using assms(2,3) u by (cases "rd_decrypt r") (simp_all add: decrypted_def rc.crypt_crypt)
  show "fits (rd_cursor r) (length (concat chunks))" using assms(2,4) by (simp add: fits_def from_vec_def)
  show "drain_frames (unparsed (rd_cursor r)) = ([], None, unparsed (rd_cursor r))"
    by (simp add: assms(2) u fr.drain_stuck fr.parse_nil)
qed

definition wit_cfg :: peer_cfg where
  "wit_cfg = \<lparr>cf_allow_upload = True, cf_allow_download = False, cf_hash = False, cf_pipeline = 16,
     cf_pipeline_max = 8192, cf_staging_mem_limit = 0, cf_redundant_seed_idle = 0, cf_useless_peer_idle = 0,
     cf_ltep_client = [], cf_listen_port = 6881, cf_encryption = Off, cf_has_label = False\<rparr>"

definition wit_session_env :: session_env where
  "wit_session_env = \<lparr>se_accepts = \<lambda>job. True, se_draws = \<lambda>n k b. 0\<rparr>"

definition wit_reader :: reader where
  "wit_reader = reader_new wit_cfg 0 True {} [] None 0 [] (snd test_peer)"

lemma wit_reader_fields: "rd_cursor wit_reader = from_vec []" "rd_decrypt wit_reader = None"
  by (simp_all add: wit_reader_def reader_new_def Let_def case_prod_beta)

theorem session_follows_messages_witness:
  "\<exists>r'. feed wit_session_env wit_cfg False 0 [[0, 0], [0, 1, 1, 0, 0, 0], [1, 2]] wit_reader = (None, r')
     \<and> rd_peer_interested r' \<and> \<not> pd_peer_choking (rd_dl r')"
proof -
  have enc: "concat (map encode_message [Unchoke, Interested]) = [0, 0, 0, 1, 1, 0, 0, 0, 1, 2]" by code_simp
  have "\<exists>cur d. feed wit_session_env wit_cfg False 0 [[0, 0], [0, 1, 1, 0, 0, 0], [1, 2]] wit_reader =
      (case dispatch wit_session_env wit_cfg False 0 (map parsed_of [Unchoke, Interested]) wit_reader of
         (e, r') \<Rightarrow> (e, at_wire cur d r'))"
    by (rule session_follows_messages) (use enc in \<open>simp_all add: wit_reader_fields\<close>)
  then show ?thesis by auto
qed

end
