(* ===== verification/Peer_Session_Correct.thy ===== *)
theory Peer_Session_Correct
  imports Peer_Session Peer_Download_Correct Swarm_Buffers Claims
begin

text \<open>
  What a connection's reader guarantees over its whole life, whatever the peer sends and whatever
  the other connections of the torrent do meanwhile: it serves only data the torrent has, keeps the
  shared counters, claims and buffers consistent, and gives everything back when it ends.
\<close>

section \<open>How a session changes the torrent\<close>

text \<open>Every change is a sequence of the torrent's own operations.\<close>

definition moves :: "hot_torrent \<Rightarrow> hot_torrent \<Rightarrow> bool" where
  "moves t t' \<longleftrightarrow> (\<exists>es. list_all (event_ok (ht_layout t)) es \<and> t' = hot_run es t)"

lemma moves_refl [simp]: "moves t t"
  unfolding moves_def by (intro exI [of _ "[]"]) (simp add: hot_run_def)

lemma event_ok_layout: "same_layout a b \<Longrightarrow> event_ok b e = event_ok a e"
  by (cases e) (simp_all add: same_layout_simps(2))

lemma moves_step:
  assumes "moves t t'" "event_ok (ht_layout t) e"
  shows "moves t (hot_apply e t')"
proof -
  obtain es where es: "list_all (event_ok (ht_layout t)) es" "t' = hot_run es t" using assms(1) by (auto simp: moves_def)
  then have "list_all (event_ok (ht_layout t)) (es @ [e])" "hot_apply e t' = hot_run (es @ [e]) t"
    using assms(2) by (simp_all add: hot_run_def)
  then show ?thesis unfolding moves_def by blast
qed

lemma moves_free: "moves t t' \<Longrightarrow> (\<And>lay. event_ok lay e) \<Longrightarrow> moves t (hot_apply e t')"
  by (rule moves_step)

lemma moves_facts:
  assumes "moves t t'" "hot_ok t"
  shows "hot_ok t'" "same_layout (ht_layout t) (ht_layout t')" "have_set t \<subseteq> have_set t'"
    "ht_piece_count t' = ht_piece_count t"
proof -
  obtain es where es: "list_all (event_ok (ht_layout t)) es" "t' = hot_run es t" using assms(1) by (auto simp: moves_def)
  from hot_run_ok [OF assms(2) es(1)] show "hot_ok t'" "same_layout (ht_layout t) (ht_layout t')" "have_set t \<subseteq> have_set t'"
    by (auto simp: es(2))
  then show "ht_piece_count t' = ht_piece_count t"
    using assms(2) same_layout_simps(2) by (metis hot_ok_def shape_ok_def)
qed

lemma moves_claims: "claims_closed (moves t)"
  unfolding claims_closed_def using moves_free [of t _ "Ev_claim _ _"] moves_free [of t _ "Ev_release _"] by simp

lemma moves_avail:
  assumes "moves t0 t"
  shows "moves t0 (snd (peer_on_bitfield bf own t))" "moves t0 (snd (peer_on_have i own t))"
    "moves t0 (peer_avail_drop own t)"
proof -
  have sub: "moves t0 (avail_sub_bitfield b t')" and add: "moves t0 (avail_add_bitfield b t')"
    and inc: "moves t0 (avail_inc j t')" if "moves t0 t'" for b j t'
    using moves_free [OF that, of "Ev_avail_sub b"] moves_free [OF that, of "Ev_avail_add b"]
      moves_free [OF that, of "Ev_avail_inc j"] by simp_all
  show "moves t0 (snd (peer_on_bitfield bf own t))" "moves t0 (snd (peer_on_have i own t))"
    "moves t0 (peer_avail_drop own t)"
    using assms by (simp_all add: peer_on_bitfield_def peer_on_have_def peer_avail_drop_def Let_def sub add inc)
qed

lemma moves_release: "moves t t' \<Longrightarrow> moves t (release_piece_claim i t')"
  using moves_claims [of t] by (simp add: claims_closed_def)

lemma moves_mark: "moves t t' \<Longrightarrow> i < piece_count (ht_layout t) \<Longrightarrow> moves t (snd (mark_have i t'))"
  using moves_step [of t t' "Ev_have i"] by simp

section \<open>Buffers\<close>

text \<open>A connection that started with nothing to download holds no buffers and no pool.\<close>

definition buffers_ok :: "nat \<Rightarrow> staging \<Rightarrow> piece_pool \<Rightarrow> bool" where
  "buffers_ok k st p \<longleftrightarrow> (if st_shared st then peer_ok k st p else st_slots st = [])"

lemma unshared_requests:
  assumes "\<not> st_shared st" "st_slots st = []"
  shows "take_requests now pipeline endgame start may abort st p x = ([], st, p, x)"
proof -
  have i: "indices st = []" "total_outstanding st = 0" "\<not> can_start_more st p"
    using assms by (simp_all add: indices_def total_outstanding_def can_start_more_def)
  have "refill_loop n now pl mp start may abort (st, p, x, []) = (st, p, x, [])" for n pl mp
    by (cases n) (simp_all add: i)
  then show ?thesis by (simp add: take_requests_def Let_def)
qed

lemma take_requests_shared:
  assumes "peer_ok k st p" "take_requests now pipeline endgame start may abort st p x = (out, st', p', x')"
  shows "peer_ok k st' p'"
  using take_requests_peer [OF assms] by blast

lemma buffers_issue:
  assumes "issue_requests now draws (dl, sh) = (out, reqs, dl', sh')" "buffers_ok k (pd_staging dl) (sh_pool sh)"
  shows "buffers_ok k (pd_staging dl') (sh_pool sh') \<and> st_shared (pd_staging dl') = st_shared (pd_staging dl)
    \<and> (\<not> st_shared (pd_staging dl) \<longrightarrow> reqs = [])"
  using assms(1)
proof (cases rule: issue_requests_cases)
  case (1 wlo)
  then show ?thesis using assms(2) by simp
next
  case (2 mb wlo st p c)
  show ?thesis
  proof (cases "st_shared (pd_staging dl)")
    case True
    then have "peer_ok k st p" using take_requests_shared [OF _ 2(2)] assms(2) by (simp add: buffers_ok_def)
    then show ?thesis using True unfolding 2(3,4) by (simp add: buffers_ok_def peer_ok_def)
  next
    case False
    then have "take_requests now mb (pd_endgame dl) (start_for draws dl) (may_request dl) abort_start
         (pd_staging dl) (sh_pool sh) (pick_ctx_of dl (sh_torrent sh))
       = ([], pd_staging dl, sh_pool sh, pick_ctx_of dl (sh_torrent sh))"
      using assms(2) by (intro unshared_requests) (simp_all add: buffers_ok_def)
    with 2(2) have "reqs = []" "st = pd_staging dl" by simp_all
    then show ?thesis using False assms(2) unfolding 2(3,4) by (simp add: buffers_ok_def)
  qed
qed

lemma buffers_simple:
  assumes "buffers_ok k st p"
  shows "buffers_ok k (requeue_timed_out st) p" "buffers_ok k (enable_endgame st) p"
    "buffers_ok k (snd (st_clear_request i b l st)) p"
    "ingest_if_staged i b block st = Inr (r, st') \<Longrightarrow> buffers_ok k st' p"
    "st_shared (requeue_timed_out st) = st_shared st" "st_shared (enable_endgame st) = st_shared st"
    "st_shared (snd (st_clear_request i b l st)) = st_shared st"
    "ingest_if_staged i b block st = Inr (r, st') \<Longrightarrow> st_shared st' = st_shared st"
proof -
  show sh: "st_shared (requeue_timed_out st) = st_shared st" "st_shared (enable_endgame st) = st_shared st"
    "st_shared (snd (st_clear_request i b l st)) = st_shared st"
    "ingest_if_staged i b block st = Inr (r, st') \<Longrightarrow> st_shared st' = st_shared st"
    by (auto simp: requeue_timed_out_def enable_endgame_def st_clear_request_def ingest_if_staged_def
        split: option.splits prod.splits sum.splits)
  show "buffers_ok k (requeue_timed_out st) p" "buffers_ok k (enable_endgame st) p"
    "buffers_ok k (snd (st_clear_request i b l st)) p"
    using assms requeue_ok [of k st p] endgame_ok [of k st p] clear_request_ok [of k st p i b l] sh(1-3)
    by (auto simp: buffers_ok_def requeue_timed_out_def enable_endgame_def st_clear_request_def split: if_splits)
  show "buffers_ok k st' p" if "ingest_if_staged i b block st = Inr (r, st')"
    using assms ingest_facts [OF _ that, of k p] sh(4) [OF that] that
    by (auto simp: buffers_ok_def ingest_if_staged_def split: if_splits)
qed

lemma take_shared: "take_for_hash i st p = (r, st', p') \<Longrightarrow> st_shared st' = st_shared st"
  by (auto simp: take_for_hash_def split: option.splits prod.splits slot.splits)

lemma buffers_take:
  assumes "buffers_ok k st p" "take_for_hash i st p = (r, st', p')"
  shows "buffers_ok k st' p'"
  using assms take_for_hash_facts [OF _ assms(2), of k] take_shared [OF assms(2)]
  by (auto simp: buffers_ok_def take_for_hash_def position_def split: if_splits)

lemma buffers_reclaim:
  assumes "buffers_ok k st p" "reclaim i data st p = (st', p')"
  shows "buffers_ok k st' p' \<and> st_shared st' = st_shared st"
  using assms reclaim_facts [OF _ assms(2), of k] by (auto simp: buffers_ok_def reclaim_def split: if_splits)

lemma buffers_clear:
  assumes "buffers_ok k st p" "staging_clear st p = (st', p')"
  shows "buffers_ok k st' p' \<and> st_shared st' = st_shared st \<and> (st_shared st \<longrightarrow> pp_outstanding p' = k \<and> pool_ok p')"
proof -
  have "st_shared st' = st_shared st" using assms(2) by (auto simp: staging_clear_def split: prod.splits)
  moreover have "st_slots st = [] \<Longrightarrow> st_slots st' = []" using assms(2) by (auto simp: staging_clear_def)
  ultimately show ?thesis
    using assms(1) clear_facts [OF _ assms(2), of k] by (auto simp: buffers_ok_def peer_ok_def tracks_def split: if_splits)
qed

section \<open>The invariant\<close>

text \<open>An upload the torrent can serve.\<close>

definition servable :: "storage_layout \<Rightarrow> nat set \<Rightarrow> upload_block \<Rightarrow> bool" where
  "servable lay H u \<longleftrightarrow> ub_index u \<in> H \<and> 0 < ub_length u \<and> ub_length u \<le> MAX_REQUEST_LENGTH
     \<and> ub_begin u + ub_length u \<le> piece_size_or0 lay (ub_index u)"

text \<open>\<open>t0\<close> is the torrent when the connection started, \<open>k\<close> the buffers others hold, \<open>shared\<close> whether the
  connection has a buffer pool.\<close>

definition reader_ok :: "hot_torrent \<Rightarrow> bool \<Rightarrow> nat \<Rightarrow> reader \<Rightarrow> bool" where
  "reader_ok t0 shared k r \<longleftrightarrow>
     hot_ok t0 \<and> moves t0 (rd_torrent r)
     \<and> buffers_ok k (pd_staging (rd_dl r)) (sh_pool (rd_sh r)) \<and> st_shared (pd_staging (rd_dl r)) = shared
     \<and> (\<forall>u. W_upload u \<in> set (rd_cmds r) \<longrightarrow> servable (ht_layout t0) (have_set (rd_torrent r)) u)
     \<and> fst ` set (rd_done_pieces r) \<subseteq> have_set (rd_torrent r)
     \<and> (\<not> shared \<longrightarrow> rd_requested r = [])"

lemma servable_mono: "servable lay H u \<Longrightarrow> H \<subseteq> H' \<Longrightarrow> servable lay H' u"
  by (auto simp: servable_def)

lemma reader_ok_torrent:
  assumes "reader_ok t0 shared k r"
  shows "hot_ok (rd_torrent r)" "same_layout (ht_layout t0) (ht_layout (rd_torrent r))"
    "ht_piece_count (rd_torrent r) = piece_count (ht_layout t0)"
proof -
  have h: "hot_ok t0" "moves t0 (rd_torrent r)" using assms by (simp_all add: reader_ok_def)
  from moves_facts [OF h(2,1)] show "hot_ok (rd_torrent r)" "same_layout (ht_layout t0) (ht_layout (rd_torrent r))"
    by simp_all
  from moves_facts(4) [OF h(2,1)] h(1) show "ht_piece_count (rd_torrent r) = piece_count (ht_layout t0)"
    by (simp add: hot_ok_def shape_ok_def)
qed

text \<open>The general step: the torrent moves on, the buffers stay accounted for.\<close>

lemma reader_ok_step:
  assumes "reader_ok t0 shared k r" "moves (rd_torrent r) (rd_torrent r')"
    "buffers_ok k (pd_staging (rd_dl r')) (sh_pool (rd_sh r'))" "st_shared (pd_staging (rd_dl r')) = shared"
    "\<And>u. W_upload u \<in> set (rd_cmds r') \<Longrightarrow> W_upload u \<in> set (rd_cmds r) \<or> servable (ht_layout t0) (have_set (rd_torrent r')) u"
    "fst ` set (rd_done_pieces r') \<subseteq> fst ` set (rd_done_pieces r) \<union> have_set (rd_torrent r')"
    "\<not> shared \<Longrightarrow> rd_requested r' = rd_requested r"
  shows "reader_ok t0 shared k r'"
proof -
  have h: "hot_ok (rd_torrent r)" using reader_ok_torrent [OF assms(1)] by simp
  note f = moves_facts [OF assms(2) h]
  obtain es es' where e: "list_all (event_ok (ht_layout t0)) es" "rd_torrent r = hot_run es t0"
    "list_all (event_ok (ht_layout (rd_torrent r))) es'" "rd_torrent r' = hot_run es' (rd_torrent r)"
    using assms(1,2) unfolding reader_ok_def moves_def by blast
  then have "list_all (event_ok (ht_layout t0)) (es @ es')" "rd_torrent r' = hot_run (es @ es') t0"
    using event_ok_layout [OF reader_ok_torrent(2) [OF assms(1)]] by (auto simp: hot_run_def list_all_iff)
  then have "moves t0 (rd_torrent r')" unfolding moves_def by blast
  moreover have "servable (ht_layout t0) (have_set (rd_torrent r')) u" if "W_upload u \<in> set (rd_cmds r')" for u
    using assms(5) [OF that] assms(1) f(3) servable_mono by (auto simp: reader_ok_def)
  moreover have "fst ` set (rd_done_pieces r) \<subseteq> have_set (rd_torrent r)" using assms(1) by (simp add: reader_ok_def)
  then have "fst ` set (rd_done_pieces r') \<subseteq> have_set (rd_torrent r')" using assms(6) f(3) by blast
  ultimately show ?thesis using assms(1,3,4,7) by (simp add: reader_ok_def)
qed

lemma ok_moves:
  assumes "reader_ok t0 shared k r"
  shows "moves (rd_torrent r) (rd_torrent r)" "buffers_ok k (pd_staging (rd_dl r)) (sh_pool (rd_sh r))"
    "st_shared (pd_staging (rd_dl r)) = shared"
  using assms by (simp_all add: reader_ok_def)

text \<open>Steps that leave torrent, buffers and histories alone.\<close>

lemma reader_ok_same:
  assumes "reader_ok t0 shared k r" "rd_sh r' = rd_sh r" "pd_staging (rd_dl r') = pd_staging (rd_dl r)"
    "rd_cmds r' = rd_cmds r" "rd_done_pieces r' = rd_done_pieces r" "rd_requested r' = rd_requested r"
  shows "reader_ok t0 shared k r'"
  using assms by (simp add: reader_ok_def)

lemma ok_push_ctrl: "reader_ok t0 shared k r \<Longrightarrow> reader_ok t0 shared k (push_ctrl b r)"
  by (auto simp: reader_ok_def push_ctrl_def send_cmd_def)

lemma ok_cmd: "reader_ok t0 shared k r \<Longrightarrow> \<forall>u. m \<noteq> W_upload u \<Longrightarrow> reader_ok t0 shared k (send_cmd m r)"
  by (auto simp: reader_ok_def send_cmd_def)

lemma ok_issue:
  assumes "reader_ok t0 shared k r"
  shows "reader_ok t0 shared k (issue en now r)"
proof -
  obtain out reqs dl sh where i: "issue_requests now (se_draws en (rd_issues r)) (rd_dl r, rd_sh r) = (out, reqs, dl, sh)"
    by (rule prod_cases4)
  let ?r = "r\<lparr>rd_dl := dl, rd_sh := sh, rd_issues := rd_issues r + 1, rd_requested := rd_requested r @ reqs\<rparr>"
  have m: "moves (rd_torrent r) (sh_torrent sh)"
    using issue_requests_torrent [OF moves_claims i] by simp
  have b: "buffers_ok k (pd_staging dl) (sh_pool sh) \<and> st_shared (pd_staging dl) = st_shared (pd_staging (rd_dl r))
      \<and> (\<not> st_shared (pd_staging (rd_dl r)) \<longrightarrow> reqs = [])"
    by (rule buffers_issue [OF i ok_moves(2) [OF assms]])
  have "reader_ok t0 shared k ?r"
    by (rule reader_ok_step [OF assms]) (use m b ok_moves(3) [OF assms] in simp_all)
  then show ?thesis
    using ok_push_ctrl by (auto simp: issue_def i Let_def split: option.split)
qed

lemma ok_refresh: "reader_ok t0 shared k r \<Longrightarrow> reader_ok t0 shared k (refresh en now dn nf r)"
  by (simp add: refresh_def ok_issue)

lemma ok_avail:
  assumes "reader_ok t0 shared k r"
  shows "reader_ok t0 shared k (avail_bitfield r)" "reader_ok t0 shared k (avail_have i r)"
proof -
  show "reader_ok t0 shared k (avail_bitfield r)"
  proof (cases "pd_peer_avail (rd_dl r)")
    case (Some own)
    show ?thesis
      by (rule reader_ok_step [OF assms])
        (use Some ok_moves [OF assms] moves_avail(1) [OF moves_refl, of "rd_torrent r" "pd_peer_bf (rd_dl r)" own]
          in \<open>auto simp: avail_bitfield_def split: prod.splits\<close>)
  qed (use assms in \<open>simp add: avail_bitfield_def\<close>)
  show "reader_ok t0 shared k (avail_have i r)"
  proof (cases "pd_peer_avail (rd_dl r)")
    case (Some own)
    show ?thesis
      by (rule reader_ok_step [OF assms])
        (use Some ok_moves [OF assms] moves_avail(2) [OF moves_refl, of "rd_torrent r" i own]
          in \<open>auto simp: avail_have_def split: prod.splits\<close>)
  qed (use assms in \<open>simp add: avail_have_def\<close>)
qed

lemma accepted_servable:
  assumes "reader_ok t0 shared k r" "request_status (rd_torrent r) interested i b l = Accept" "b < 2 ^ 32" "l < 2 ^ 32"
  shows "servable (ht_layout t0) (have_set (rd_torrent r)) \<lparr>ub_index = i, ub_begin = b, ub_length = l\<rparr>"
proof -
  have "sat_add64 b l = b + l" using assms(3,4) by (simp add: sat_add64_def)
  moreover have "piece_size_or0 (ht_layout (rd_torrent r)) i = piece_size_or0 (ht_layout t0) i"
    by (rule same_layout_simps(3) [OF reader_ok_torrent(2) [OF assms(1)]])
  moreover have "has_piece (rd_torrent r) i \<longleftrightarrow> i \<in> have_set (rd_torrent r)"
    using has_piece_have_set reader_ok_torrent(1) [OF assms(1)] by (simp add: hot_ok_def)
  ultimately show ?thesis
    using assms(2) by (auto simp: request_status_def classify_upload_request_def servable_def split: if_splits)
qed

lemma ok_on_request:
  assumes "reader_ok t0 shared k r" "b < 2 ^ 32" "l < 2 ^ 32"
  shows "reader_ok t0 shared k (on_request i b l r)"
proof (cases "request_status (rd_torrent r) (rd_peer_interested r) i b l = Accept")
  case True
  show ?thesis
    by (rule reader_ok_step [OF assms(1)])
      (use True ok_moves [OF assms(1)] accepted_servable [OF assms(1) True assms(2,3)] in
        \<open>auto simp: on_request_def send_cmd_def\<close>)
qed (use assms ok_push_ctrl in \<open>simp add: on_request_def\<close>)

lemma unat32: "unat (w :: 32 word) < 2 ^ 32"
  using unsigned_less [of w, where ?'a = nat] by simp

lemma ok_staging:
  assumes "reader_ok t0 shared k r" "buffers_ok k st (sh_pool (rd_sh r))" "st_shared st = shared"
  shows "reader_ok t0 shared k (r\<lparr>rd_dl := (rd_dl r)\<lparr>pd_staging := st\<rparr>\<rparr>)"
  using assms by (simp add: reader_ok_def)

lemma ok_msg:
  assumes "reader_ok t0 shared k r"
  shows "reader_ok t0 shared k (snd (handle_msg cf dn now m r))"
proof (cases m)
  case (Have w)
  have "reader_ok t0 shared k ((avail_have (unat w) r)\<lparr>rd_dl :=
      (rd_dl (avail_have (unat w) r))\<lparr>pd_peer_bf := bitfield_set (pd_peer_bf (rd_dl (avail_have (unat w) r))) (unat w)\<rparr>\<rparr>)"
    by (rule reader_ok_same [OF ok_avail(2) [OF assms]]) simp_all
  then show ?thesis using Have assms by (simp add: Let_def)
next
  case HaveAll
  show ?thesis unfolding HaveAll by (simp, rule ok_avail(1), rule reader_ok_same [OF assms]) simp_all
next
  case HaveNone
  show ?thesis unfolding HaveNone by (simp, rule ok_avail(1), rule reader_ok_same [OF assms]) simp_all
next
  case (Bitfield bf)
  show ?thesis unfolding Bitfield by (simp add: Let_def, rule ok_avail(1), rule reader_ok_same [OF assms]) simp_all
next
  case (Request i b l)
  then show ?thesis using ok_on_request [OF assms unat32 unat32] assms by simp
next
  case (RejectRequest i b l)
  then show ?thesis
    using assms ok_moves [OF assms] buffers_simple(3,7) by (auto intro!: ok_staging)
next
  case NotInterested
  then show ?thesis by (auto intro!: ok_cmd reader_ok_same [OF assms])
next
  case (Cancel i b l)
  then show ?thesis using assms by (auto intro!: ok_cmd)
next
  case (Extended e p)
  then show ?thesis using assms by (auto split: option.split intro: reader_ok_same [OF assms])
qed (use assms in \<open>auto simp: Let_def set_dl_def dl_push_suggest_def intro: reader_ok_same [OF assms]\<close>)

section \<open>Blocks and hash results\<close>

lemma handle_piece_buffers:
  assumes "handle_piece acc i b block (dl, sh) = (res, job, dl', sh')" "buffers_ok k (pd_staging dl) (sh_pool sh)"
  shows "buffers_ok k (pd_staging dl') (sh_pool sh') \<and> st_shared (pd_staging dl') = st_shared (pd_staging dl)
    \<and> sh_torrent sh' = sh_torrent sh"
proof (cases "has_piece (sh_torrent sh) i \<or> i \<in> pd_hashing dl")
  case True
  then show ?thesis using assms by (simp add: handle_piece_def)
next
  case go: False
  show ?thesis
  proof (cases "ingest_if_staged i b block (pd_staging dl)")
    case (Inl e)
    then show ?thesis using assms go by (auto simp: handle_piece_def)
  next
    case (Inr x)
    obtain c st where x: "x = (c, st)" by (cases x)
    note bs = buffers_simple(4,8) [OF assms(2), OF Inr [unfolded x]]
    show ?thesis
    proof (cases "c = Some True")
      case False
      then have "sh' = sh \<and> dl' = dl\<lparr>pd_staging := st\<rparr>"
        using assms(1) go Inr x by (auto simp: handle_piece_def split: option.splits bool.splits)
      then show ?thesis using bs by simp
    next
      case True
      obtain r st1 p1 where t: "take_for_hash i st (sh_pool sh) = (r, st1, p1)" by (rule prod_cases3)
      have b1: "buffers_ok k st1 p1" "st_shared st1 = st_shared (pd_staging dl)"
        using buffers_take [OF bs(1) t] take_shared [OF t] bs(2) by simp_all
      show ?thesis
      proof (cases r)
        case None
        then show ?thesis using assms(1) go Inr x True t b1 by (auto simp: handle_piece_def)
      next
        case (Some pd)
        obtain plen data where pd: "pd = (plen, data)" by (cases pd)
        obtain st2 p2 where rc: "reclaim i data st1 p1 = (st2, p2)" by (rule prod.exhaust)
        note b2 = buffers_reclaim [OF b1(1) rc]
        have "(pd_staging dl' = st1 \<and> sh' = sh\<lparr>sh_pool := p1\<rparr>) \<or> (pd_staging dl' = st2 \<and> sh' = sh\<lparr>sh_pool := p2\<rparr>)"
          using assms(1) go Inr x True t Some pd rc
          by (auto simp: handle_piece_def Let_def split: option.splits if_splits)
        then show ?thesis using b1 b2 by auto
      qed
    qed
  qed
qed

lemma ok_piece:
  assumes "reader_ok t0 shared k r"
  shows "reader_ok t0 shared k (snd (snd (on_piece_frame en cf dn now i b block r)))"
proof (cases "block = [] \<or> \<not> dn \<or> has_piece (rd_torrent r) i \<or> \<not> cf_hash cf")
  case False
  obtain res job dl sh where h: "handle_piece (se_accepts en) i b block (rd_dl r, rd_sh r) = (res, job, dl, sh)"
    by (rule prod_cases4)
  note hb = handle_piece_buffers [OF h ok_moves(2) [OF assms]]
  have base: "reader_ok t0 shared k (r\<lparr>rd_dl := dl, rd_sh := sh\<rparr>)"
    by (rule reader_ok_step [OF assms]) (use hb ok_moves(3) [OF assms] in simp_all)
  show ?thesis
    using False base by (cases res) (auto simp: on_piece_frame_def h Let_def intro: reader_ok_same)
qed (use assms in \<open>auto simp: on_piece_frame_def\<close>)

lemma ok_frame: "reader_ok t0 shared k r \<Longrightarrow> reader_ok t0 shared k (snd (snd (handle_frame en cf dn now m r)))"
  by (cases m) (simp_all add: ok_piece ok_msg)

lemma ok_frames:
  "reader_ok t0 shared k r \<Longrightarrow> reader_ok t0 shared k (snd (snd (snd (parse_frames en cf dn now u r))))"
proof (induction en cf dn now u r rule: parse_frames.induct)
  case (1 en cf dn now u r)
  show ?case
  proof (cases "\<exists>m n. parse_message u = Inr (Some (m, n))")
    case True
    then obtain m n where pm: "parse_message u = Inr (Some (m, n))" by blast
    obtain e nf r1 where h: "handle_frame en cf dn now m r = (e, nf, r1)" by (rule prod_cases3)
    have r1: "reader_ok t0 shared k r1" using ok_frame [OF "1.prems", of en cf dn now m] h by simp
    show ?thesis
    proof (cases e)
      case None
      with "1.IH" [OF pm refl refl h [symmetric, unfolded None] refl refl r1] pm h show ?thesis
        by (simp add: parse_frames.simps [of _ _ _ _ u] case_prod_beta)
    qed (use pm h r1 in \<open>simp add: parse_frames.simps [of _ _ _ _ u]\<close>)
  next
    case False
    then have "snd (snd (snd (parse_frames en cf dn now u r))) = r"
      by (subst parse_frames.simps) (auto split: sum.split option.split)
    with "1.prems" show ?thesis by simp
  qed
qed

lemma ok_cursor: "reader_ok t0 shared k r \<Longrightarrow> reader_ok t0 shared k (r\<lparr>rd_cursor := c\<rparr>)"
  by (simp add: reader_ok_def)

lemma ok_parse:
  "reader_ok t0 shared k r \<Longrightarrow> parse_available_messages en cf dn now r = (e, nf, r') \<Longrightarrow> reader_ok t0 shared k r'"
  using ok_frames [of t0 shared k r en cf dn now "unparsed (rd_cursor r)"]
  by (auto simp: parse_available_messages_def Let_def ok_cursor split: prod.splits)

fun outcome_index :: "hash_outcome \<Rightarrow> nat" where
  "outcome_index (Outcome_ok i plen data) = i"
| "outcome_index (Outcome_hash_fail i plen data) = i"
| "outcome_index (Outcome_write_fail i plen data) = i"

lemma ok_hash:
  assumes ok: "reader_ok t0 shared k r" and i: "outcome_index h < piece_count (ht_layout t0)"
  shows "reader_ok t0 shared k (on_hash h r)"
proof -
  have T: "hot_ok (rd_torrent r)" and lay: "piece_count (ht_layout (rd_torrent r)) = piece_count (ht_layout t0)"
    using reader_ok_torrent [OF ok] same_layout_simps(2) by auto
  obtain calls dl sh where a: "apply_hash_outcome h (rd_dl r, rd_sh r) = (calls, dl, sh)" by (rule prod_cases3)
  obtain j data where st: "moves (rd_torrent r) (sh_torrent sh)" "fst ` set calls \<subseteq> have_set (sh_torrent sh)"
    "reclaim j data (pd_staging (rd_dl r)) (sh_pool (rd_sh r)) = (pd_staging dl, sh_pool sh)"
  proof (cases h)
    case (Outcome_ok j plen data)
    have mv: "moves (rd_torrent r) (snd (mark_have j (rd_torrent r)))"
      using moves_mark [OF moves_refl] i lay Outcome_ok by simp
    have "j \<in> have_set (snd (mark_have j (rd_torrent r)))"
      using mark_have_ok [OF T, of j] i Outcome_ok reader_ok_torrent(3) [OF ok] by simp
    then show thesis
      using that [of j data] a mv unfolding Outcome_ok
      by (auto simp: settle_hash_def split: prod.splits if_splits)
  next
    case (Outcome_hash_fail j plen data)
    then show thesis
      using that [of j data] a moves_release [OF moves_refl] by (auto simp: settle_hash_def split: prod.splits)
  next
    case (Outcome_write_fail j plen data)
    then show thesis
      using that [of j data] a moves_release [OF moves_refl] by (auto simp: settle_hash_def split: prod.splits)
  qed
  note b = buffers_reclaim [OF ok_moves(2) [OF ok] st(3)]
  show ?thesis
    by (rule reader_ok_step [OF ok]) (use st b ok_moves(3) [OF ok] in \<open>auto simp: on_hash_def a\<close>)
qed

lemma ok_drain:
  "reader_ok t0 shared k r \<Longrightarrow> \<forall>h \<in> set hs. outcome_index h < piece_count (ht_layout t0) \<Longrightarrow>
   reader_ok t0 shared k (drain_hash hs r)"
  unfolding drain_hash_def by (induction hs arbitrary: r) (simp_all add: ok_hash)

section \<open>The loop\<close>

lemma ok_idle:
  "reader_ok t0 shared k r \<Longrightarrow> idle_should_close cf now pending r = (c, r') \<Longrightarrow> reader_ok t0 shared k r'"
  by (auto simp: idle_should_close_def Let_def intro: reader_ok_same split: prod.splits)

lemma ok_cancel_all: "reader_ok t0 shared k r \<Longrightarrow> reader_ok t0 shared k (cancel_all r)"
  by (auto simp: cancel_all_def ok_push_ctrl split: option.split)

lemma ok_requeue:
  assumes "reader_ok t0 shared k r"
  shows "reader_ok t0 shared k (requeue r)"
  unfolding requeue_def
  by (rule ok_staging [OF assms])
    (simp_all add: buffers_simple(1,5) [OF ok_moves(2) [OF assms]] ok_moves(3) [OF assms])

lemma ok_adapt: "reader_ok t0 shared k r \<Longrightarrow> reader_ok t0 shared k (adapt en now tn r)"
  by (auto simp: adapt_def Let_def intro!: ok_refresh split: prod.splits pipeline_outcome.splits elim: reader_ok_same)

lemma ok_endgame:
  assumes "reader_ok t0 shared k r"
  shows "reader_ok t0 shared k (enter_endgame en now r)"
proof -
  have "reader_ok t0 shared k
      (r\<lparr>rd_dl := (rd_dl r)\<lparr>pd_endgame := True, pd_staging := enable_endgame (pd_staging (rd_dl r))\<rparr>\<rparr>)"
    using assms ok_moves [OF assms] buffers_simple(2,6) [OF ok_moves(2) [OF assms]] by (simp add: reader_ok_def)
  then show ?thesis using assms by (simp add: enter_endgame_def Let_def ok_refresh ok_requeue ok_cancel_all)
qed

lemma ok_reinterest:
  assumes "reader_ok t0 shared k r"
  shows "reader_ok t0 shared k (reinterest now r)"
  using assms reader_ok_same [OF ok_push_ctrl [OF assms, of "append_interested []"]] by (simp add: reinterest_def)

lemma ok_stall:
  assumes "reader_ok t0 shared k r" "check_stall now nf r = (b, r')"
  shows "reader_ok t0 shared k r'"
proof -
  have piece: "reader_ok t0 shared k (s\<lparr>rd_last_piece := now\<rparr>)" if "reader_ok t0 shared k s" for s
    by (rule reader_ok_same [OF that]) simp_all
  show ?thesis
    using assms by (auto simp: check_stall_def Let_def intro!: piece ok_requeue ok_cancel_all split: if_splits)
qed

lemma ok_limiter: "reader_ok t0 shared k r \<Longrightarrow> reader_ok t0 shared k (r\<lparr>rd_sh := (rd_sh r)\<lparr>sh_limiter := l\<rparr>\<rparr>)"
  by (simp add: reader_ok_def)

lemma ok_wait: "reader_ok t0 shared k r \<Longrightarrow> wait_tokens now dn hf r = (b, r') \<Longrightarrow> reader_ok t0 shared k r'"
  by (auto simp: wait_tokens_def Let_def ok_limiter split: if_splits option.splits prod.splits)

definition hashes_ok :: "nat \<Rightarrow> hash_outcome list \<Rightarrow> bool" where
  "hashes_ok pc hs \<longleftrightarrow> (\<forall>h \<in> set hs. outcome_index h < pc)"

lemma ok_inter:
  assumes ok: "reader_ok t0 shared k r" and h: "hashes_ok (piece_count (ht_layout t0)) hs"
    and i: "reader_inter_socket en cf tn dn now pending hs r = (pr, r')"
  shows "reader_ok t0 shared k r'"
proof -
  obtain c r1 where c: "idle_should_close cf now pending r = (c, r1)" by (rule prod.exhaust)
  have r1: "reader_ok t0 shared k r1" by (rule ok_idle [OF ok c])
  show ?thesis
  proof (cases c)
    case True
    then show ?thesis using i c r1 by (simp add: reader_inter_socket_def)
  next
    case False
    define r2 where "r2 = drain_hash hs (if dn then reinterest now (enter_endgame en now (adapt en now tn r1)) else r1)"
    have r2: "reader_ok t0 shared k r2"
      unfolding r2_def using h by (intro ok_drain) (simp_all add: r1 ok_reinterest ok_endgame ok_adapt hashes_ok_def)
    obtain nf r3 where s: "(if dn then check_stall now (hs \<noteq> []) r2 else (hs \<noteq> [], r2)) = (nf, r3)" by (rule prod.exhaust)
    have r3: "reader_ok t0 shared k r3" using s r2 ok_stall [OF r2] by (auto split: if_splits)
    obtain w r4 where w: "wait_tokens now dn (has_complete_frame (rd_cursor r)) (refresh en now dn nf r3) = (w, r4)"
      by (rule prod.exhaust)
    have "reader_ok t0 shared k r4" by (rule ok_wait [OF ok_refresh [OF r3] w])
    moreover have "reader_inter_socket en cf tn dn now pending hs r =
        (if w then (Inter_reloop, r4) else (Inter_go (if dn then False else nf), r4))"
      unfolding reader_inter_socket_def Let_def c prod.case if_not_P [OF False] r2_def [symmetric] s w by (rule refl)
    then have "r' = r4" using i by (simp split: if_splits)
    ultimately show ?thesis by simp
  qed
qed

lemma ok_done: "reader_ok t0 shared k r \<Longrightarrow> finish r = (e, r') \<Longrightarrow> reader_ok t0 shared k r'"
  "reader_ok t0 shared k r \<Longrightarrow> break_read r = (e, r') \<Longrightarrow> reader_ok t0 shared k r'"
  by (auto simp: finish_def break_read_def ok_cmd)

lemma ok_become:
  assumes "reader_ok t0 shared k r"
  shows "reader_ok t0 shared k (become_interested en cf tn n now r)"
proof -
  let ?r1 = "if pd_peer_avail (rd_dl r) = None
               then avail_bitfield (r\<lparr>rd_dl := (rd_dl r)\<lparr>pd_peer_avail := Some (peer_avail_new (rd_torrent r))\<rparr>\<rparr>) else r"
  have "reader_ok t0 shared k ?r1"
    using assms by (auto intro!: ok_avail elim: reader_ok_same)
  then have "reader_ok t0 shared k (?r1\<lparr>rd_dl := (rd_dl ?r1)\<lparr>pd_pipeline := n\<rparr>, rd_pipe := pipeline_state_new now n tn\<rparr>)"
    by (rule reader_ok_same) simp_all
  from ok_push_ctrl [OF this, of "append_interested []"] show ?thesis
    unfolding become_interested_def Let_def by (intro ok_issue) (erule reader_ok_same, simp_all)
qed

lemma ok_lose:
  assumes "reader_ok t0 shared k r"
  shows "reader_ok t0 shared k (lose_interest cf r)"
proof -
  let ?r = "cancel_all r"
  have r: "reader_ok t0 shared k ?r" by (rule ok_cancel_all [OF assms])
  obtain st p where c: "staging_clear (pd_staging (rd_dl ?r)) (sh_pool (rd_sh ?r)) = (st, p)" by (rule prod.exhaust)
  note b = buffers_clear [OF ok_moves(2) [OF r] c]
  have "reader_ok t0 shared k (?r\<lparr>rd_dl := (rd_dl ?r)\<lparr>pd_staging := st\<rparr>, rd_sh := (rd_sh ?r)\<lparr>sh_pool := p\<rparr>\<rparr>)"
    by (rule reader_ok_step [OF r]) (use b ok_moves(3) [OF r] in simp_all)
  from ok_push_ctrl [OF this, of "append_not_interested []"] have
    "reader_ok t0 shared k ((push_ctrl (append_not_interested [])
       (?r\<lparr>rd_dl := (rd_dl ?r)\<lparr>pd_staging := st\<rparr>, rd_sh := (rd_sh ?r)\<lparr>sh_pool := p\<rparr>\<rparr>))
       \<lparr>rd_am_interested := False, rd_sent_not_interested := True\<rparr>)" by (rule reader_ok_same) simp_all
  then show ?thesis unfolding lose_interest_def Let_def c prod.case by (simp add: ok_push_ctrl)
qed

definition inputs_ok :: "nat \<Rightarrow> loop_input \<Rightarrow> bool" where
  "inputs_ok pc li \<longleftrightarrow> hashes_ok pc (li_exit_hashes li) \<and> hashes_ok pc (li_hashes li) \<and> hashes_ok pc (li_read_hashes li)
     \<and> (\<forall>h hs. li_wait li = Hash_got h hs \<longrightarrow> hashes_ok pc (h # hs))"

lemma ok_read:
  assumes ok: "reader_ok t0 shared k r" and li: "inputs_ok (piece_count (ht_layout t0)) li"
    and s: "read_socket en cf dn nf li r = (e, r')"
  shows "reader_ok t0 shared k r'"
proof -
  let ?r = "r\<lparr>rd_skip_speculative := False\<rparr>"
  have r: "reader_ok t0 shared k ?r" by (rule reader_ok_same [OF ok]) simp_all
  show ?thesis
  proof (cases "li_socket li")
    case Sock_failed
    then show ?thesis using s r by (simp add: read_socket_def)
  next
    case Sock_eof
    then show ?thesis using s r ok_done(2) by (simp add: read_socket_def)
  next
    case Sock_timeout
    obtain c r1 where c: "idle_should_close cf (li_read_at li) (li_pending li) ?r = (c, r1)" by (rule prod.exhaust)
    have r1: "reader_ok t0 shared k r1" by (rule ok_idle [OF r c])
    have closed: "reader_ok t0 shared k (r1\<lparr>rd_idle_closed := True\<rparr>)" by (rule reader_ok_same [OF r1]) simp_all
    let ?q = "if outstanding (rd_dl r1) > 0 then requeue (cancel_all r1) else r1"
    have q: "reader_ok t0 shared k ?q" using r1 by (simp add: ok_requeue ok_cancel_all)
    have "reader_ok t0 shared k (?q\<lparr>rd_last_piece := li_read_at li, rd_skip_speculative := True\<rparr>)"
      by (rule reader_ok_same [OF q]) simp_all
    from ok_refresh [OF this] show ?thesis
      using s Sock_timeout c ok_done(2) [OF closed]
      by (cases c) (auto simp: read_socket_def Let_def)
  next
    case (Sock_data chunk)
    obtain cur d where a: "cursor_append (rd_cursor r) chunk (rd_decrypt r) = (cur, d)" by (rule prod.exhaust)
    let ?r2 = "?r\<lparr>rd_cursor := cur, rd_decrypt := d\<rparr>"
    have r2: "reader_ok t0 shared k ?r2" by (rule reader_ok_same [OF r]) simp_all
    obtain e1 nf1 r3 where p: "parse_available_messages en cf dn (li_read_at li) ?r2 = (e1, nf1, r3)" by (rule prod_cases3)
    have r3: "reader_ok t0 shared k r3" by (rule ok_parse [OF r2 p])
    have "reader_ok t0 shared k (drain_hash (li_read_hashes li) (r3\<lparr>rd_cursor := compact_if_needed (rd_cursor r3)\<rparr>))"
      using li by (intro ok_drain ok_cursor [OF r3]) (simp add: inputs_ok_def hashes_ok_def)
    from ok_refresh [OF this] show ?thesis
      using s Sock_data a p r3 by (cases e1) (auto simp: read_socket_def Let_def)
  qed
qed

lemma ok_after:
  assumes ok: "reader_ok t0 shared k r" and li: "inputs_ok (piece_count (ht_layout t0)) li"
    and s: "after_inter en cf dn nf li r = (e, r')"
  shows "reader_ok t0 shared k r'"
proof (cases "has_complete_frame (rd_cursor r)")
  case True
  obtain e1 nf1 r1 where p: "parse_available_messages en cf dn (li_now li) r = (e1, nf1, r1)" by (rule prod_cases3)
  have r1: "reader_ok t0 shared k r1" by (rule ok_parse [OF ok p])
  from ok_refresh [OF ok_cursor [OF r1]] show ?thesis
    using True s p r1 by (cases e1) (auto simp: after_inter_def Let_def)
next
  case nf: False
  show ?thesis
  proof (cases "outstanding (rd_dl r) = 0 \<and> pd_hashing (rd_dl r) \<noteq> {}")
    case True
    show ?thesis
    proof (cases "li_wait li")
      case (Hash_got h hs)
      have "reader_ok t0 shared k (drain_hash (h # hs) r)"
        using li Hash_got by (intro ok_drain ok) (simp add: inputs_ok_def hashes_ok_def)
      from ok_refresh [OF this] show ?thesis using s nf True Hash_got by (auto simp: after_inter_def)
    qed (use s nf True ok ok_refresh ok_done(2) [OF ok] in \<open>auto simp: after_inter_def\<close>)
  next
    case False
    then have "after_inter en cf dn nf li r = read_socket en cf dn nf li r"
      unfolding after_inter_def Let_def if_not_P [OF nf] by (rule if_not_P)
    note eq = this
    show ?thesis using ok_read [OF ok li] s unfolding eq by blast
  qed
qed

lemma ok_iteration:
  assumes ok: "reader_ok t0 shared k r" and li: "inputs_ok (piece_count (ht_layout t0)) li"
    and s: "reader_iteration en cf tn n li r = (e, r')"
  shows "reader_ok t0 shared k r'"
proof (cases "li_stop li")
  case True
  then show ?thesis using s ok_done(1) [OF ok] by (simp add: reader_iteration_def)
next
  case go: False
  define dn where "dn \<longleftrightarrow> cf_allow_download cf \<and> cf_hash cf \<and> \<not> is_download_complete (rd_torrent r)"
  define r1 where "r1 = (if dn \<and> \<not> rd_am_interested r then become_interested en cf tn n (li_now li) r else r)"
  define lv where "lv \<longleftrightarrow> rd_am_interested r1 \<and> \<not> dn \<and> \<not> rd_sent_not_interested r1"
  define r2 where "r2 = (if lv then lose_interest cf r1 else r1)"
  have r2: "reader_ok t0 shared k r2" using ok by (simp add: r2_def r1_def ok_lose ok_become)
  have ex: "reader_ok t0 shared k (drain_hash (li_exit_hashes li) r2)"
    using li by (intro ok_drain r2) (simp add: inputs_ok_def hashes_ok_def)
  have e: "reader_iteration en cf tn n li r =
      (if lv \<and> \<not> cf_allow_upload cf then break_read (drain_hash (li_exit_hashes li) r2)
       else if \<not> dn \<and> \<not> cf_allow_upload cf then break_read (drain_hash (li_exit_hashes li) r2)
       else case reader_inter_socket en cf tn dn (li_now li) (li_pending li) (li_hashes li) r2 of
               (Inter_close, r) \<Rightarrow> break_read (r\<lparr>rd_idle_closed := True\<rparr>)
             | (Inter_reloop, r) \<Rightarrow> (None, r)
             | (Inter_go need_fill, r) \<Rightarrow> after_inter en cf dn need_fill li r)"
    unfolding reader_iteration_def Let_def if_not_P [OF go] r2_def lv_def r1_def dn_def by (rule refl)
  obtain pr r3 where i: "reader_inter_socket en cf tn dn (li_now li) (li_pending li) (li_hashes li) r2 = (pr, r3)"
    by (rule prod.exhaust)
  have r3: "reader_ok t0 shared k r3" by (rule ok_inter [OF r2 _ i]) (use li in \<open>simp add: inputs_ok_def\<close>)
  have closed: "reader_ok t0 shared k (r3\<lparr>rd_idle_closed := True\<rparr>)" by (rule reader_ok_same [OF r3]) simp_all
  show ?thesis
  proof (cases "(lv \<or> \<not> dn) \<and> \<not> cf_allow_upload cf")
    case True
    then have "break_read (drain_hash (li_exit_hashes li) r2) = (e, r')" using e s by auto
    then show ?thesis by (rule ok_done(2) [OF ex])
  next
    case False
    then have "(case reader_inter_socket en cf tn dn (li_now li) (li_pending li) (li_hashes li) r2 of
               (Inter_close, r) \<Rightarrow> break_read (r\<lparr>rd_idle_closed := True\<rparr>)
             | (Inter_reloop, r) \<Rightarrow> (None, r)
             | (Inter_go need_fill, r) \<Rightarrow> after_inter en cf dn need_fill li r) = (e, r')"
      using e s by auto
    then show ?thesis
      using i r3 ok_done(2) [OF closed] ok_after [OF r3 li] by (cases pr) simp_all
  qed
qed

section \<open>Whole sessions\<close>

text \<open>The state is whether the loop still runs, the buffers held by others, and the reader. Between two
  iterations the rest of the program may apply any operation to the torrent, move buffers
  of the shared pool and draw on the limiter.\<close>

inductive session_step :: "session_env \<Rightarrow> peer_cfg \<Rightarrow> nat \<Rightarrow> bool \<times> nat \<times> reader \<Rightarrow> bool \<times> nat \<times> reader \<Rightarrow> bool"
  for en cf pc where
  iterate: "reader_iteration en cf (session_tuning cf) (session_pipeline cf) li r = (e, r') \<Longrightarrow> inputs_ok pc li \<Longrightarrow>
    session_step en cf pc (True, k, r) (e = None, k, r')"
| torrent: "event_ok (ht_layout (rd_torrent r)) ev \<Longrightarrow>
    session_step en cf pc (b, k, r) (b, k, r\<lparr>rd_sh := (rd_sh r)\<lparr>sh_torrent := hot_apply ev (rd_torrent r)\<rparr>\<rparr>)"
| pool: "(st_shared (pd_staging (rd_dl r)) \<Longrightarrow> tracks k' (pd_staging (rd_dl r)) p) \<Longrightarrow>
    session_step en cf pc (b, k, r) (b, k', r\<lparr>rd_sh := (rd_sh r)\<lparr>sh_pool := p\<rparr>\<rparr>)"
| limiter: "session_step en cf pc (b, k, r) (b, k, r\<lparr>rd_sh := (rd_sh r)\<lparr>sh_limiter := l\<rparr>\<rparr>)"

inductive_cases session_stepE: "session_step en cf pc (b, k, r) s'"

lemma session_step_ok:
  assumes "session_step en cf (piece_count (ht_layout t0)) (b, k, r) (b', k', r')" "reader_ok t0 shared k r"
  shows "reader_ok t0 shared k' r'"
  using assms(1)
proof (cases rule: session_step.cases)
  case (iterate li e)
  then show ?thesis using ok_iteration [OF assms(2)] by simp
next
  case (torrent ev)
  have "moves (rd_torrent r) (hot_apply ev (rd_torrent r))" by (rule moves_step [OF moves_refl torrent(4)])
  then show ?thesis
    unfolding torrent by (intro reader_ok_step [OF assms(2)]) (use ok_moves [OF assms(2)] torrent in simp_all)
next
  case (pool p)
  then show ?thesis using assms(2) by (auto simp: reader_ok_def buffers_ok_def peer_ok_def split: if_splits)
next
  case (limiter l)
  then show ?thesis using ok_limiter [OF assms(2)] by simp
qed

lemma session_reach_ok:
  assumes "(session_step en cf (piece_count (ht_layout t0)))\<^sup>*\<^sup>* (b, k, r) s" "reader_ok t0 shared k r"
  shows "reader_ok t0 shared (fst (snd s)) (snd (snd s))"
  using assms(1)
proof (induction rule: rtranclp_induct)
  case base
  then show ?case using assms(2) by simp
next
  case (step s s')
  obtain b1 k1 r1 b2 k2 r2 where s: "s = (b1, k1, r1)" "s' = (b2, k2, r2)" by (metis prod_cases3)
  from session_step_ok [OF step(2) [unfolded s]] step.IH show ?case by (simp add: s)
qed

lemma open_staging_ok:
  assumes "open_staging cf sh = (st, sh')" "hot_ok (sh_torrent sh)" "pool_ok (sh_pool sh)"
  shows "hot_ok (sh_torrent sh') \<and> ht_layout (sh_torrent sh') = ht_layout (sh_torrent sh)
    \<and> buffers_ok (pp_outstanding (sh_pool sh')) st (sh_pool sh') \<and> (\<not> want_download cf (sh_torrent sh) \<longrightarrow> \<not> st_shared st)"
proof (cases "want_download cf (sh_torrent sh)")
  case True
  let ?t1 = "set_staging_mem_limit (cf_staging_mem_limit cf) (sh_torrent sh)"
  let ?t = "ensure_staging_pool ?t1"
  have t1: "hot_ok ?t1" using hot_apply_ok [OF assms(2), of "Ev_mem_limit (cf_staging_mem_limit cf)"] by simp
  have t: "hot_ok ?t" using hot_apply_ok [OF t1, of Ev_ensure_pool] by simp
  have lay: "ht_layout ?t = ht_layout (sh_torrent sh)"
    by (simp add: ensure_staging_pool_def set_staging_mem_limit_def split: option.split)
  have fresh: "pool_ok p" if "ht_staging_pool (sh_torrent sh) = None" "ht_staging_pool ?t = Some p" for p
    using that with_torrent_ok
    by (auto simp: ensure_staging_pool_def set_staging_mem_limit_def split: if_splits)
  show ?thesis
  proof (cases "ht_staging_pool ?t")
    case None
    then have "st = staging_empty (piece_length (ht_layout ?t))" "sh' = sh\<lparr>sh_torrent := ?t\<rparr>"
      using assms(1) True by (simp_all add: open_staging_def Let_def)
    then show ?thesis using t lay True by (simp add: buffers_ok_def staging_empty_def from_pool_def Let_def)
  next
    case (Some p)
    let ?p = "if ht_staging_pool (sh_torrent sh) = None then p else sh_pool sh"
    have "st = from_pool ?p" "sh' = sh\<lparr>sh_torrent := ?t, sh_pool := ?p\<rparr>"
      using assms(1) True Some by (simp_all add: open_staging_def Let_def)
    moreover have "pool_ok ?p" using fresh [OF _ Some] assms(3) by simp
    then have "buffers_ok (pp_outstanding ?p) (from_pool ?p) ?p"
      using from_pool_ok by (simp add: buffers_ok_def from_pool_def)
    ultimately show ?thesis using t lay True by auto
  qed
next
  case False
  then have "st = staging_empty (piece_length (ht_layout (sh_torrent sh)))" "sh' = sh"
    using assms(1) by (auto simp: open_staging_def Let_def)
  then show ?thesis using assms(2) by (simp add: buffers_ok_def staging_empty_def Let_def)
qed

lemma reader_new_ok:
  assumes "hot_ok (sh_torrent sh)" "pool_ok (sh_pool sh)"
    "r = reader_new cf now fast allowed plain dcr wd lbl sh"
  shows "reader_ok (rd_torrent r) (st_shared (fst (open_staging cf sh))) (pp_outstanding (sh_pool (rd_sh r))) r"
    "ht_layout (rd_torrent r) = ht_layout (sh_torrent sh)" "hot_ok (rd_torrent r)"
    "\<not> want_download cf (sh_torrent sh) \<Longrightarrow> \<not> st_shared (pd_staging (rd_dl r))"
proof -
  obtain st sh' where o: "open_staging cf sh = (st, sh')" by (rule prod.exhaust)
  have f: "rd_sh r = sh'" "pd_staging (rd_dl r) = st" "rd_cmds r = []" "rd_done_pieces r = []" "rd_requested r = []"
    using assms(3) o by (simp_all add: reader_new_def peer_download_new_def Let_def)
  from open_staging_ok [OF o assms(1,2)] show "reader_ok (rd_torrent r) (st_shared (fst (open_staging cf sh))) (pp_outstanding (sh_pool (rd_sh r))) r"
    "ht_layout (rd_torrent r) = ht_layout (sh_torrent sh)" "hot_ok (rd_torrent r)"
    "\<not> want_download cf (sh_torrent sh) \<Longrightarrow> \<not> st_shared (pd_staging (rd_dl r))"
    by (auto simp: reader_ok_def f o)
qed

lemma ok_start:
  assumes "reader_ok t0 shared k r" "reader_start en cf now r = (e, r')"
  shows "reader_ok t0 shared k r'"
proof -
  let ?r = "if rd_am_interested r \<and> can_request (rd_dl r) then issue en now r else r"
  obtain e1 nf r1 where p: "parse_available_messages en cf (rd_am_interested r \<and> \<not> is_download_complete (rd_torrent ?r)) now ?r
    = (e1, nf, r1)" by (rule prod_cases3)
  have "reader_ok t0 shared k r1" by (rule ok_parse [OF _ p]) (use assms(1) in \<open>simp add: ok_issue\<close>)
  moreover have "r' = r1" using assms(2) p by (simp add: reader_start_def Let_def)
  ultimately show ?thesis by simp
qed

text \<open>A session from its start: the reader is built, starts, and takes steps.\<close>

inductive session_reaches :: "session_env \<Rightarrow> peer_cfg \<Rightarrow> shared \<Rightarrow> bool \<times> nat \<times> reader \<Rightarrow> bool"
  for en cf sh where
  started: "reader_start en cf now (reader_new cf now fast allowed plain dcr wd lbl sh) = (e, r) \<Longrightarrow>
    session_reaches en cf sh
      (e = None, pp_outstanding (sh_pool (rd_sh (reader_new cf now fast allowed plain dcr wd lbl sh))), r)"
| stepped: "session_reaches en cf sh s \<Longrightarrow> session_step en cf (piece_count (ht_layout (sh_torrent sh))) s s' \<Longrightarrow>
    session_reaches en cf sh s'"

lemma session_reaches_ok:
  assumes "session_reaches en cf sh s" "hot_ok (sh_torrent sh)" "pool_ok (sh_pool sh)"
  shows "\<exists>t0. ht_layout t0 = ht_layout (sh_torrent sh)
    \<and> reader_ok t0 (st_shared (fst (open_staging cf sh))) (fst (snd s)) (snd (snd s))"
  using assms(1)
proof (induction rule: session_reaches.induct)
  case (started now fast allowed plain dcr wd lbl e r)
  let ?r = "reader_new cf now fast allowed plain dcr wd lbl sh"
  from reader_new_ok [OF assms(2,3), of ?r cf now fast allowed plain dcr wd lbl] ok_start [OF _ started]
  show ?case by auto
next
  case (stepped s s')
  then obtain t0 where t0: "ht_layout t0 = ht_layout (sh_torrent sh)"
    "reader_ok t0 (st_shared (fst (open_staging cf sh))) (fst (snd s)) (snd (snd s))" by blast
  obtain b1 k1 r1 b2 k2 r2 where s: "s = (b1, k1, r1)" "s' = (b2, k2, r2)" by (metis prod_cases3)
  from session_step_ok [of en cf t0 b1 k1 r1 b2 k2 r2] t0 stepped(2) have
    "reader_ok t0 (st_shared (fst (open_staging cf sh))) k2 r2" by (simp add: s)
  with t0(1) show ?case by (auto simp: s)
qed

section \<open>The end of a session\<close>

lemma hot_ok_drop:
  assumes "hot_ok t"
  shows "hot_ok (claims_drop held t)" "hot_ok (peer_avail_drop own t)"
    "ht_in_flight (peer_avail_drop own t) = ht_in_flight t" "have_set (claims_drop held t) = have_set t"
proof -
  show "hot_ok (claims_drop held t)" unfolding claims_drop_def by (rule hot_ok_in_flight [OF assms]) auto
  show "have_set (claims_drop held t) = have_set t" by (simp add: claims_drop_def)
  show "hot_ok (peer_avail_drop own t)"
    using hot_apply_ok [OF assms, of "Ev_avail_sub own"] by (simp add: peer_avail_drop_def)
  show "ht_in_flight (peer_avail_drop own t) = ht_in_flight t"
    by (simp add: peer_avail_drop_def avail_sub_bitfield_def Let_def)
qed

lemma dropped:
  assumes "reader_ok t0 shared k r"
  shows "hot_ok (sh_torrent (reader_drop r))"
    "i \<in> pd_claims (rd_dl r) \<Longrightarrow> i \<in> ht_in_flight (sh_torrent (reader_drop r)) \<Longrightarrow> i \<in> have_set (rd_torrent r)"
    "shared \<Longrightarrow> pp_outstanding (sh_pool (reader_drop r)) = k \<and> pool_ok (sh_pool (reader_drop r))"
proof -
  have h: "hot_ok (rd_torrent r)" using reader_ok_torrent [OF assms] by simp
  let ?t = "claims_drop (pd_claims (rd_dl r)) (rd_torrent r)"
  obtain st p where c: "staging_clear (pd_staging (rd_dl r)) (sh_pool (rd_sh r)) = (st, p)" by (rule prod.exhaust)
  have d: "sh_torrent (reader_drop r) = (case pd_peer_avail (rd_dl r) of None \<Rightarrow> ?t | Some own \<Rightarrow> peer_avail_drop own ?t)"
    "sh_pool (reader_drop r) = p" by (simp_all add: reader_drop_def c Let_def)
  note t = hot_ok_drop [OF h] and t' = hot_ok_drop [OF hot_ok_drop(1) [OF h]]
  show "hot_ok (sh_torrent (reader_drop r))" using t t' by (simp add: d split: option.split)
  have "ht_in_flight (sh_torrent (reader_drop r)) = ht_in_flight ?t" using t' by (simp add: d split: option.split)
  then show "i \<in> have_set (rd_torrent r)" if "i \<in> pd_claims (rd_dl r)" "i \<in> ht_in_flight (sh_torrent (reader_drop r))"
    using that has_piece_have_set h by (auto simp: claims_drop_def hot_ok_def)
  show "pp_outstanding (sh_pool (reader_drop r)) = k \<and> pool_ok (sh_pool (reader_drop r))" if shared
    using buffers_clear [OF ok_moves(2) [OF assms] c] ok_moves(3) [OF assms] that by (simp add: d)
qed

lemma become_sends:
  "W_ctrl (append_interested []) \<in> set (rd_cmds (become_interested en cf tn n now r))"
  "rd_am_interested (become_interested en cf tn n now r)"
proof -
  have i: "set (rd_cmds r) \<subseteq> set (rd_cmds (issue en now r))" "rd_am_interested (issue en now r) = rd_am_interested r" for r
    by (auto simp: issue_def push_ctrl_def send_cmd_def Let_def split: prod.split option.split)
  have p: "W_ctrl (append_interested []) \<in> set (rd_cmds (push_ctrl (append_interested []) r))" for r
    by (simp add: push_ctrl_def send_cmd_def append_interested_def append_id_def)
  show "W_ctrl (append_interested []) \<in> set (rd_cmds (become_interested en cf tn n now r))"
    unfolding become_interested_def Let_def by (rule subsetD [OF i(1)]) (simp add: p)
  show "rd_am_interested (become_interested en cf tn n now r)" by (simp add: become_interested_def Let_def i(2))
qed

text \<open>C20. A connection only ever hands the writer upload requests the torrent can serve: a piece it has, a block of
  one to 131072 bytes inside the piece. It reports a piece as finished only when the torrent has it, and leaves
  the torrent's shared counters consistent, whatever messages, hash results and timeouts the
  connection sees and whatever the rest of the program does to the torrent meanwhile.\<close>

theorem session_safe:
  assumes "session_reaches en cf sh (running, k, r)" "hot_ok (sh_torrent sh)" "pool_ok (sh_pool sh)"
  shows "(\<forall>u. W_upload u \<in> set (rd_cmds r) \<longrightarrow>
      ub_index u \<in> have_set (rd_torrent r) \<and> 0 < ub_length u \<and> ub_length u \<le> MAX_REQUEST_LENGTH
      \<and> ub_begin u + ub_length u \<le> piece_size_or0 (ht_layout (sh_torrent sh)) (ub_index u))
    \<and> (\<forall>(i, n) \<in> set (rd_done_pieces r). i \<in> have_set (rd_torrent r))
    \<and> hot_ok (rd_torrent r)"
proof -
  obtain t0 where "ht_layout t0 = ht_layout (sh_torrent sh)"
    and ok: "reader_ok t0 (st_shared (fst (open_staging cf sh))) k r"
    using session_reaches_ok [OF assms] by auto
  moreover have "fst ` set (rd_done_pieces r) \<subseteq> have_set (rd_torrent r)" using ok by (simp add: reader_ok_def)
  ultimately show ?thesis using reader_ok_torrent(1) [OF ok] by (auto simp: reader_ok_def servable_def)
qed

text \<open>C21. When a connection ends, at whatever point, it gives everything back: no unfinished piece it had claimed stays
  in flight, the pool's count is again that of the buffers others hold, and the torrent's
  counters are consistent.\<close>

theorem session_gives_back:
  assumes "session_reaches en cf sh (running, k, r)" "hot_ok (sh_torrent sh)" "pool_ok (sh_pool sh)"
    and "st_shared (fst (open_staging cf sh))"
  shows "pd_claims (rd_dl r) \<inter> ht_in_flight (sh_torrent (reader_drop r)) \<subseteq> have_set (rd_torrent r)
    \<and> pp_outstanding (sh_pool (reader_drop r)) = k \<and> pool_ok (sh_pool (reader_drop r))
    \<and> hot_ok (sh_torrent (reader_drop r))"
proof -
  obtain t0 where "reader_ok t0 True k r" using session_reaches_ok [OF assms(1-3)] assms(4) by auto
  from dropped [OF this] show ?thesis by auto
qed

text \<open>C22. A connection that starts when nothing is wanted never requests a block, even after the torrent wants pieces
  again and the connection has told the peer that it is interested: its staging area stays the
  empty one it started with.\<close>

theorem late_interest_never_requests:
  assumes "session_reaches en cf sh (running, k, r)" "hot_ok (sh_torrent sh)" "pool_ok (sh_pool sh)"
    and "\<not> want_download cf (sh_torrent sh)"
  shows "rd_requested r = []
    \<and> (let r' = become_interested en cf tn n now r
       in W_ctrl (append_interested []) \<in> set (rd_cmds r') \<and> rd_am_interested r' \<and> rd_requested r' = [])"
proof -
  obtain st sh' where o: "open_staging cf sh = (st, sh')" by (rule prod.exhaust)
  then have "\<not> st_shared (fst (open_staging cf sh))" using open_staging_ok [OF o assms(2,3)] assms(4) by simp
  then obtain t0 where ok: "reader_ok t0 False k r" using session_reaches_ok [OF assms(1-3)] by auto
  from ok ok_become [OF ok, of en cf tn n now] become_sends [of en cf tn n now r] show ?thesis
    by (simp add: Let_def) (simp add: reader_ok_def)
qed

section \<open>Concrete sessions\<close>

text \<open>Torrents of two pieces: with the first one on disk, with none, and complete.\<close>

definition wit_cf :: peer_cfg where
  "wit_cf = \<lparr>cf_allow_upload = True, cf_allow_download = True, cf_hash = True, cf_pipeline = 16,
     cf_pipeline_max = 8192, cf_staging_mem_limit = 0, cf_redundant_seed_idle = 0, cf_useless_peer_idle = 0,
     cf_ltep_client = [], cf_listen_port = 6881, cf_encryption = Off, cf_has_label = False\<rparr>"

definition wit_env :: session_env where
  "wit_env = \<lparr>se_accepts = \<lambda>job. True, se_draws = \<lambda>n k b. 0\<rparr>"

definition seed_torrent :: hot_torrent where
  "seed_torrent = snd (mark_have 0 (new_empty 7 [] ''x'' test_layout [] 0))"

definition shared_of :: "hot_torrent \<Rightarrow> shared" where
  "shared_of t = \<lparr>sh_torrent = t, sh_pool = pool_new 4 100, sh_limiter = None\<rparr>"

definition wit_start :: "bytes \<Rightarrow> hot_torrent \<Rightarrow> session_error option \<times> reader" where
  "wit_start plain t = reader_start wit_env wit_cf 0 (reader_new wit_cf 0 True {} plain None 0 [] (shared_of t))"

lemma test_pieces: "piece_count test_layout = 2"
  by (simp add: test_layout_def Let_def)

lemma seed_torrent_ok: "hot_ok seed_torrent" "have_set seed_torrent = {0}" "ht_layout seed_torrent = test_layout"
  "ht_piece_count seed_torrent = 2"
proof -
  let ?t = "new_empty 7 [] ''x'' test_layout [] 0"
  have pc: "ht_piece_count ?t = 2" by (simp add: fresh_test_torrent)
  have t: "hot_ok ?t" by (rule new_ok(1) [OF test_layout_small])
  have h: "have_set ?t = {}" by (simp add: have_set_def fresh_test_torrent)
  from mark_have_ok [OF t, of 0] pc h show s: "hot_ok seed_torrent" "have_set seed_torrent = {0}"
    by (simp_all add: seed_torrent_def)
  have b: "\<not> bitfield_get (ps_bitfield (ht_pieces ?t)) 0" by (simp add: fresh_test_torrent)
  show "ht_layout seed_torrent = test_layout"
    using pc b by (simp add: seed_torrent_def mark_have_new fresh_test_torrent new_empty_def finish_new_def recount_completed_payload_def)
  then show "ht_piece_count seed_torrent = 2" using s(1) test_pieces by (simp add: hot_ok_def shape_ok_def)
qed

lemma shared_of_pool: "pool_ok (sh_pool (shared_of t))"
  by (simp add: shared_of_def pool_new_def with_torrent_ok)

lemma wit_reaches:
  assumes "wit_start plain t = (e, r)"
  shows "\<exists>k. session_reaches wit_env wit_cf (shared_of t) (e = None, k, r)"
  using session_reaches.started [OF assms [unfolded wit_start_def]] by blast

text \<open>An interested peer that asks for two bytes of the first piece.\<close>

definition hello_in :: bytes where
  "hello_in = encode_message Interested @ encode_message (Request 0 1 2)"

lemma hello_in_effect:
  "parse_frames en cf dn now hello_in r =
     (None, False, [],
      if cf_allow_upload cf then on_request 0 1 2 (r\<lparr>rd_peer_interested := True\<rparr>) else r\<lparr>rd_peer_interested := True\<rparr>)"
proof -
  have i: "parse_message hello_in = Inr (Some (Msg Interested, length (encode_message Interested)))"
    using parse_encode [of Interested "encode_message (Request 0 1 2)"] by (simp add: hello_in_def)
  have q: "parse_message (encode_message (Request 0 1 2)) = Inr (Some (Msg (Request 0 1 2), length (encode_message (Request 0 1 2))))"
    using parse_encode [of "Request 0 1 2" "[]"] by simp
  have e: "parse_frames en cf dn now [] r = (None, False, [], r)" for r by (subst parse_frames.simps) (simp add: parse_message_def)
  have "parse_frames en cf dn now (encode_message (Request 0 1 2)) r = (None, False, [], if cf_allow_upload cf then on_request 0 1 2 r else r)" for r
    by (subst parse_frames.simps) (simp add: q e del: encode_message.simps One_nat_def add_2_eq_Suc')
  then show ?thesis by (subst parse_frames.simps) (simp add: i del: encode_message.simps One_nat_def add_2_eq_Suc', simp add: hello_in_def del: encode_message.simps)
qed

lemma opened_torrent:
  "\<exists>m p. rd_torrent (reader_new cf now fast allowed plain dcr wd lbl sh)
     = (sh_torrent sh)\<lparr>ht_staging_mem_limit := m, ht_staging_pool := p\<rparr>"
proof -
  have "\<exists>m p. sh_torrent (snd (open_staging cf sh)) = (sh_torrent sh)\<lparr>ht_staging_mem_limit := m, ht_staging_pool := p\<rparr>"
  proof (cases "sh_torrent sh")
    case (fields a1 a2 a3 a4 a5 a6 a7 a8 a9 a10 a11 a12 a13 a14 a15 a16 a17 a18 a19)
    then show ?thesis
      by (auto simp: open_staging_def Let_def ensure_staging_pool_def set_staging_mem_limit_def is_download_complete_def
          split: option.split)
  qed
  moreover have "rd_torrent (reader_new cf now fast allowed plain dcr wd lbl sh) = sh_torrent (snd (open_staging cf sh))"
    by (simp add: reader_new_def Let_def case_prod_beta)
  ultimately show ?thesis by simp
qed

lemma fresh_reader:
  assumes "r = reader_new cf now fast {} plain dcr wd lbl sh"
  shows "\<not> can_request (rd_dl r)" "unparsed (rd_cursor r) = plain" "rd_cmds r = []" "rd_requested r = []"
  using assms by (simp_all add: reader_new_def Let_def case_prod_beta can_request_def can_request_from_def
      peer_download_new_def unparsed_def from_vec_def)

theorem session_safe_witness:
  "\<exists>k r. session_reaches wit_env wit_cf (shared_of seed_torrent) (True, k, r)
     \<and> W_upload \<lparr>ub_index = 0, ub_begin = 1, ub_length = 2\<rparr> \<in> set (rd_cmds r) \<and> 0 \<in> have_set (rd_torrent r)"
proof -
  define r0 where "r0 = reader_new wit_cf 0 True {} hello_in None 0 [] (shared_of seed_torrent)"
  obtain e r where s: "wit_start hello_in seed_torrent = (e, r)" by (rule prod.exhaust)
  note f = fresh_reader [OF r0_def]
  obtain m p where t: "rd_torrent r0 = seed_torrent\<lparr>ht_staging_mem_limit := m, ht_staging_pool := p\<rparr>"
    using opened_torrent [of wit_cf 0 True "{}" hello_in None 0 "[]" "shared_of seed_torrent"] by (auto simp: r0_def shared_of_def)
  have "has_piece seed_torrent 0" using has_piece_have_set seed_torrent_ok(1,2) by (auto simp: hot_ok_def)
  then have "has_piece (rd_torrent r0) 0" by (simp add: t has_piece_def split: if_splits)
  moreover have "piece_size_or0 test_layout 0 = 4" by (simp add: test_layout_def piece_size_or0_def piece_size_def Let_def)
  ultimately have acc: "request_status (rd_torrent r0) True 0 1 2 = Accept"
    by (simp add: request_status_def classify_upload_request_def sat_add64_def t seed_torrent_ok)
  have up: "cf_allow_upload wit_cf" by (simp add: wit_cf_def)
  have "e = None \<and> W_upload \<lparr>ub_index = 0, ub_begin = 1, ub_length = 2\<rparr> \<in> set (rd_cmds r)"
    using s acc f up by (auto simp: wit_start_def reader_start_def Let_def parse_available_messages_def hello_in_effect
        r0_def [symmetric] on_request_def send_cmd_def simp del: One_nat_def add_2_eq_Suc')
  moreover from wit_reaches [OF s] obtain k where k: "session_reaches wit_env wit_cf (shared_of seed_torrent) (e = None, k, r)" by blast
  ultimately have k: "session_reaches wit_env wit_cf (shared_of seed_torrent) (True, k, r)"
    and up: "W_upload \<lparr>ub_index = 0, ub_begin = 1, ub_length = 2\<rparr> \<in> set (rd_cmds r)" by simp_all
  have "hot_ok (sh_torrent (shared_of seed_torrent))" using seed_torrent_ok(1) by (simp add: shared_of_def)
  from session_safe [OF k this shared_of_pool] up have "0 \<in> have_set (rd_torrent r)" by fastforce
  with k up show ?thesis by blast
qed

lemma quiet_start:
  assumes "wit_start [] t = (e, r)"
  shows "e = None"
proof -
  define r0 where "r0 = reader_new wit_cf 0 True {} [] None 0 [] (shared_of t)"
  note f = fresh_reader [OF r0_def]
  have "parse_frames en cf dn now [] r = (None, False, [], r)" for en cf dn now r
    by (subst parse_frames.simps) (simp add: parse_message_def)
  then show ?thesis
    using assms f by (auto simp: wit_start_def reader_start_def Let_def parse_available_messages_def r0_def [symmetric])
qed

lemma missing_iff: "hot_ok t \<Longrightarrow> is_download_complete t \<longleftrightarrow> wanted_set t \<subseteq> have_set t"
  using have_set_below(2) [of t] finite_subset [of "wanted_set t - have_set t" "{..<ht_piece_count t}"]
  by (auto simp: is_download_complete_def hot_ok_def counters_ok_def)

lemma full_torrent_ok: "hot_ok (new_complete 7 [] ''x'' test_layout [] 0)"
  "is_download_complete (new_complete 7 [] ''x'' test_layout [] 0)"
proof -
  let ?t = "new_complete 7 [] ''x'' test_layout [] 0"
  show h: "hot_ok ?t" by (rule new_ok(2) [OF test_layout_small])
  have "ps_complete (ht_pieces ?t)"
    by (simp add: new_complete_def finish_new_def recount_completed_payload_def)
  then have "have_set ?t = {..<ht_piece_count ?t}" using h by (simp add: hot_ok_def complete_ok_def)
  then show "is_download_complete ?t" using missing_iff [OF h] have_set_below(2) [of ?t] by simp
qed

lemma test_torrent_wants: "\<not> is_download_complete test_torrent"
proof -
  have "0 \<in> wanted_set test_torrent" "0 \<notin> have_set test_torrent"
    using test_torrent_ok(3,5) by (auto simp: eligible_def pick_snapshot_def wanted_set_def have_set_def bf.members_def Let_def split: if_splits)
  then show ?thesis using missing_iff [OF test_torrent_ok(1)] by blast
qed

theorem session_gives_back_witness:
  "\<exists>k r. session_reaches wit_env wit_cf (shared_of test_torrent) (True, k, r)
     \<and> pp_outstanding (sh_pool (reader_drop r)) = k"
proof -
  obtain e r where s: "wit_start [] test_torrent = (e, r)" by (rule prod.exhaust)
  from wit_reaches [OF s] obtain k where k: "session_reaches wit_env wit_cf (shared_of test_torrent) (e = None, k, r)" by blast
  have "st_shared (fst (open_staging wit_cf (shared_of test_torrent)))"
    using test_torrent_wants by (auto simp: open_staging_def Let_def want_download_def wit_cf_def shared_of_def ensure_staging_pool_def from_pool_def
        set_staging_mem_limit_def is_download_complete_def split: option.split)
  from this session_gives_back [OF k] test_torrent_ok shared_of_pool have "pp_outstanding (sh_pool (reader_drop r)) = k"
    by (simp add: shared_of_def)
  with k quiet_start [OF s] show ?thesis by auto
qed

theorem late_interest_never_requests_witness:
  "\<exists>k r. session_reaches wit_env wit_cf (shared_of (new_complete 7 [] ''x'' test_layout [] 0)) (True, k, r)
     \<and> rd_requested (become_interested wit_env wit_cf (session_tuning wit_cf) 16 5 r) = []"
proof -
  let ?t = "new_complete 7 [] ''x'' test_layout [] 0"
  obtain e r where s: "wit_start [] ?t = (e, r)" by (rule prod.exhaust)
  from wit_reaches [OF s] obtain k where k: "session_reaches wit_env wit_cf (shared_of ?t) (e = None, k, r)" by blast
  have "rd_requested (become_interested wit_env wit_cf (session_tuning wit_cf) 16 5 r) = []"
    using late_interest_never_requests [OF k, of "session_tuning wit_cf" 16 5] full_torrent_ok shared_of_pool
    by (simp add: shared_of_def want_download_def Let_def)
  with k quiet_start [OF s] show ?thesis by auto
qed

end
