(* ===== verification/Metainfo.thy ===== *)
theory Metainfo
  imports Bencode Spans
begin

text \<open>
  Torrent metainfo (\<open>metainfo.rs\<close>): the fields of a \<open>.torrent\<close> file, the normalisation of path components,
  the file list. Strings are their UTF-8 bytes; a character is its code point. \<open>as u64\<close>, \<open>as u32\<close> and
  the \<open>u64\<close> sum of the file sizes wrap, as they do in a release build. SHA-1 is the parameter \<open>sha1\<close>.
\<close>

section \<open>Casts and strings\<close>

definition i64_as_u64 :: "int \<Rightarrow> nat" where
  "i64_as_u64 k = nat (k mod 2 ^ 64)"

definition i64_as_u32 :: "int \<Rightarrow> nat" where
  "i64_as_u32 k = nat (k mod 2 ^ 32)"

definition utf8_char :: "nat \<Rightarrow> bytes" where
  "utf8_char cp =
     (if cp < 0x80 then [of_nat cp]
      else if cp < 0x800 then [of_nat (0xC0 + cp div 64), of_nat (0x80 + cp mod 64)]
      else if cp < 0x10000 then
        [of_nat (0xE0 + cp div 4096), of_nat (0x80 + cp div 64 mod 64), of_nat (0x80 + cp mod 64)]
      else [of_nat (0xF0 + cp div 262144), of_nat (0x80 + cp div 4096 mod 64), of_nat (0x80 + cp div 64 mod 64),
            of_nat (0x80 + cp mod 64)])"

definition utf8_encode :: "nat list \<Rightarrow> bytes" where
  "utf8_encode cps = concat (map utf8_char cps)"

text \<open>A component of a path, as the operating system sees it.\<close>

definition os_string :: "bytes \<Rightarrow> string" where
  "os_string bs = map (\<lambda>b. char_of (unat b)) bs"

definition chars_of :: "bytes \<Rightarrow> nat list" where
  "chars_of s = (case utf8_decode s of None \<Rightarrow> [] | Some cps \<Rightarrow> cps)"

section \<open>Path components\<close>

datatype metainfo_error =
    Bencode_failed bencode_error
  | Root_not_dict
  | Missing_info
  | Missing_piece_length
  | Piece_length_zero
  | Missing_pieces
  | Pieces_not_multiple
  | Piece_count_mismatch nat nat
  | File_missing_length nat
  | File_missing_path nat
  | Component_not_str nat
  | Unsafe_component bytes
  | File_component nat metainfo_error
  | Missing_length_or_files

abbreviation MAX_COMPONENT_BYTES :: nat where "MAX_COMPONENT_BYTES \<equiv> 255"

definition is_control :: "nat \<Rightarrow> bool" where
  "is_control c \<longleftrightarrow> c < 0x20 \<or> (0x7F \<le> c \<and> c < 0xA0)"

fun norm_loop :: "nat list \<Rightarrow> nat list \<Rightarrow> bool \<Rightarrow> nat list" where
  "norm_loop [] out prev_us = out"
| "norm_loop (c # cs) out prev_us =
     (if c = 0x2F \<or> c = 0x5C \<or> c = 0 \<or> is_control c then
        (if \<not> prev_us \<and> out \<noteq> [] then norm_loop cs (out @ [0x5F]) True else norm_loop cs out prev_us)
      else norm_loop cs (out @ [c]) False)"

definition trim_end :: "nat set \<Rightarrow> nat list \<Rightarrow> nat list" where
  "trim_end cs s = rev (dropWhile (\<lambda>c. c \<in> cs) (rev s))"

definition trim_matches :: "nat set \<Rightarrow> nat list \<Rightarrow> nat list" where
  "trim_matches cs s = trim_end cs (dropWhile (\<lambda>c. c \<in> cs) s)"

text \<open>The longest prefix of at most \<open>n\<close> bytes: cutting back to a character boundary.\<close>

fun utf8_cut :: "nat \<Rightarrow> nat list \<Rightarrow> nat list" where
  "utf8_cut n [] = []"
| "utf8_cut n (c # cs) = (if utf8_len c \<le> n then c # utf8_cut (n - utf8_len c) cs else [])"

definition normalize_path_component :: "bytes \<Rightarrow> metainfo_error + bytes" where
  "normalize_path_component s =
     (let out = trim_matches {0x2E, 0x20, 0x09} (norm_loop (chars_of s) [] False)
      in if out = [] \<or> out = [0x2E] \<or> out = [0x2E, 0x2E] then Inl (Unsafe_component s)
         else if length (utf8_encode out) > MAX_COMPONENT_BYTES
         then Inr (utf8_encode (trim_end {0x2E, 0x20, 0x5F} (utf8_cut MAX_COMPONENT_BYTES out)))
         else Inr (utf8_encode out))"

section \<open>Files\<close>

record torrent_file =
  tf_path :: fs_path
  tf_size :: nat
  tf_offset :: nat

text \<open>\<open>PathBuf::push\<close> of a component without separators; the empty one names the directory itself.\<close>

definition path_push :: "fs_path \<Rightarrow> bytes \<Rightarrow> fs_path" where
  "path_push p part = (if part = [] then p else p\<lparr>comps := comps p @ [os_string part]\<rparr>)"

definition path_from :: "bytes \<Rightarrow> fs_path" where
  "path_from part = path_push \<lparr>is_abs = False, comps = []\<rparr> part"

fun file_path :: "nat \<Rightarrow> fs_path \<Rightarrow> bvalue list \<Rightarrow> metainfo_error + fs_path" where
  "file_path idx p [] = Inr p"
| "file_path idx p (v # vs) =
     (case as_str v of
        None \<Rightarrow> Inl (Component_not_str idx)
      | Some s \<Rightarrow>
          (case normalize_path_component s of
             Inl e \<Rightarrow> Inl (File_component idx e)
           | Inr part \<Rightarrow> file_path idx (path_push p part) vs))"

fun files_loop :: "bytes \<Rightarrow> nat \<Rightarrow> nat \<Rightarrow> bvalue list \<Rightarrow> torrent_file list \<Rightarrow> metainfo_error + torrent_file list" where
  "files_loop torrent_name idx offset [] out = Inr out"
| "files_loop torrent_name idx offset (f # fs) out =
     (case dict_get_int f (ascii ''length'') of
        None \<Rightarrow> Inl (File_missing_length idx)
      | Some n \<Rightarrow>
          (case dict_get_list f (ascii ''path'') of
             None \<Rightarrow> Inl (File_missing_path idx)
           | Some path_list \<Rightarrow>
               (case file_path idx (path_from torrent_name) path_list of
                  Inl e \<Rightarrow> Inl e
                | Inr path \<Rightarrow>
                    files_loop torrent_name (idx + 1) (sat_add64 offset (i64_as_u64 n)) fs
                      (out @ [\<lparr>tf_path = path, tf_size = i64_as_u64 n, tf_offset = offset\<rparr>]))))"

definition info_name :: "bvalue \<Rightarrow> bytes" where
  "info_name info = (case dict_get_str info (ascii ''name'') of None \<Rightarrow> ascii ''unknown'' | Some s \<Rightarrow> s)"

definition parse_files :: "bvalue \<Rightarrow> metainfo_error + torrent_file list" where
  "parse_files info =
     (let torrent_name = (case normalize_path_component (info_name info) of
                            Inl e \<Rightarrow> ascii ''unnamed'' | Inr s \<Rightarrow> s)
      in case dict_get_list info (ascii ''files'') of
           Some fs \<Rightarrow> files_loop torrent_name 0 0 fs []
         | None \<Rightarrow>
             (case dict_get_int info (ascii ''length'') of
                None \<Rightarrow> Inl Missing_length_or_files
              | Some n \<Rightarrow> Inr [\<lparr>tf_path = path_from torrent_name, tf_size = i64_as_u64 n, tf_offset = 0\<rparr>]))"

section \<open>The metainfo\<close>

record metainfo =
  mi_infohash :: bytes
  mi_name :: bytes
  mi_piece_length :: nat
  mi_piece_count :: nat
  mi_total_size :: nat
  mi_pieces :: bytes
  mi_files :: "torrent_file list"
  mi_multi_file :: bool
  mi_private :: bool
  mi_trackers :: "(nat \<times> bytes) list"
  mi_announce :: "bytes option"

definition tier_urls :: "nat \<Rightarrow> bvalue \<Rightarrow> (nat \<times> bytes) list" where
  "tier_urls tier entry =
     (case as_list entry of
        None \<Rightarrow> []
      | Some urls \<Rightarrow> List.map_filter (\<lambda>u. map_option (Pair (tier mod 2 ^ 32)) (as_str u)) urls)"

definition announce_list :: "bvalue \<Rightarrow> (nat \<times> bytes) list" where
  "announce_list root =
     (case dict_get_list root (ascii ''announce-list'') of
        None \<Rightarrow> []
      | Some l \<Rightarrow> concat (map (\<lambda>(tier, entry). tier_urls tier entry) (enumerate 0 l)))"

definition metainfo_trackers :: "bvalue \<Rightarrow> (nat \<times> bytes) list" where
  "metainfo_trackers root =
     (let trackers = announce_list root
      in if trackers = []
         then (case dict_get_str root (ascii ''announce'') of None \<Rightarrow> [] | Some a \<Rightarrow> [(0, a)])
         else trackers)"

definition sum_sizes :: "torrent_file list \<Rightarrow> nat" where
  "sum_sizes fs = sum_list (map tf_size fs) mod 2 ^ 64"

definition parse_bytes :: "(bytes \<Rightarrow> bytes) \<Rightarrow> bytes \<Rightarrow> metainfo_error + metainfo" where
  "parse_bytes sha1 data =
     (case decode_full data of
        Inl e \<Rightarrow> Inl (Bencode_failed e)
      | Inr root \<Rightarrow>
          if as_dict root = None then Inl Root_not_dict
          else
            (case find_raw_dict_value data (ascii ''info'') of
               Inl e \<Rightarrow> Inl (Bencode_failed e)
             | Inr info_raw \<Rightarrow>
                 (case dict_get root (ascii ''info'') of
                    None \<Rightarrow> Inl Missing_info
                  | Some info \<Rightarrow>
                      (case dict_get_int info (ascii ''piece length'') of
                         None \<Rightarrow> Inl Missing_piece_length
                       | Some pl \<Rightarrow>
                           if i64_as_u32 pl = 0 then Inl Piece_length_zero
                           else
                             (case dict_get_bytes info (ascii ''pieces'') of
                                None \<Rightarrow> Inl Missing_pieces
                              | Some pieces \<Rightarrow>
                                  if length pieces mod 20 \<noteq> 0 then Inl Pieces_not_multiple
                                  else
                                    (case parse_files info of
                                       Inl e \<Rightarrow> Inl e
                                     | Inr fs \<Rightarrow>
                                         (let count = length pieces div 20 mod 2 ^ 32;
                                              total = sum_sizes fs;
                                              expected = div_ceil total (i64_as_u32 pl) mod 2 ^ 32
                                          in if total > 0 \<and> expected \<noteq> count
                                             then Inl (Piece_count_mismatch count expected)
                                             else Inr
                                               \<lparr>mi_infohash = sha1 info_raw, mi_name = info_name info,
                                                mi_piece_length = i64_as_u32 pl, mi_piece_count = count,
                                                mi_total_size = total, mi_pieces = pieces, mi_files = fs,
                                                mi_multi_file = (dict_get_list info (ascii ''files'') \<noteq> None),
                                                mi_private =
                                                  ((case dict_get_int info (ascii ''private'') of
                                                      None \<Rightarrow> 0 | Some k \<Rightarrow> k) \<noteq> 0),
                                                mi_trackers = metainfo_trackers root,
                                                mi_announce = dict_get_str root (ascii ''announce'')\<rparr>)))))))"

end
