(* ===== verification/Rust_Str.thy ===== *)
theory Rust_Str
  imports Metainfo
begin

text \<open>
  String operations of the Rust standard library that the catalog and the tracker clients use, on the
  UTF-8 bytes of a string: \<open>trim\<close>, \<open>to_ascii_lowercase\<close>, \<open>contains\<close>, \<open>starts_with\<close>, hexadecimal
  formatting, and the casts between 64-bit integers.
\<close>

definition u64_as_i64 :: "nat \<Rightarrow> int" where
  "u64_as_i64 n = (let m = int n mod 2 ^ 64 in if m < 2 ^ 63 then m else m - 2 ^ 64)"

lemma u64_i64_u64 [simp]: "n \<le> u64_max \<Longrightarrow> i64_as_u64 (u64_as_i64 n) = n"
proof -
  assume n: "n \<le> u64_max"
  then have m: "int n mod 2 ^ 64 = int n" by (intro mod_pos_pos_trivial) simp_all
  have "(int n - 2 ^ 64) mod 2 ^ 64 = int n" using m by (metis mod_diff_right_eq mod_self diff_zero)
  then show ?thesis using m by (simp add: i64_as_u64_def u64_as_i64_def Let_def)
qed

text \<open>Unicode white space, which \<open>str::trim\<close> strips.\<close>

definition is_whitespace :: "nat \<Rightarrow> bool" where
  "is_whitespace c \<longleftrightarrow>
     (9 \<le> c \<and> c \<le> 13) \<or> c = 0x20 \<or> c = 0x85 \<or> c = 0xA0 \<or> c = 0x1680 \<or> (0x2000 \<le> c \<and> c \<le> 0x200A)
     \<or> c = 0x2028 \<or> c = 0x2029 \<or> c = 0x202F \<or> c = 0x205F \<or> c = 0x3000"

definition str_trim :: "bytes \<Rightarrow> bytes" where
  "str_trim s = utf8_encode (rev (dropWhile is_whitespace (rev (dropWhile is_whitespace (chars_of s)))))"

definition ascii_lower :: "byte \<Rightarrow> byte" where
  "ascii_lower b = (if 65 \<le> unat b \<and> unat b \<le> 90 then b + 32 else b)"

definition to_ascii_lowercase :: "bytes \<Rightarrow> bytes" where
  "to_ascii_lowercase s = map ascii_lower s"

definition starts_with :: "bytes \<Rightarrow> bytes \<Rightarrow> bool" where
  "starts_with s p \<longleftrightarrow> take (length p) s = p"

definition str_contains :: "bytes \<Rightarrow> bytes \<Rightarrow> bool" where
  "str_contains s p \<longleftrightarrow> list_ex (\<lambda>i. starts_with (drop i s) p) [0..<length s + 1]"

definition hex_digit :: "nat \<Rightarrow> byte" where
  "hex_digit n = of_nat (if n < 10 then 48 + n else 87 + n)"

definition hex_digit_upper :: "nat \<Rightarrow> byte" where
  "hex_digit_upper n = of_nat (if n < 10 then 48 + n else 55 + n)"

definition hex_encode :: "bytes \<Rightarrow> bytes" where
  "hex_encode bs = concat (map (\<lambda>b. [hex_digit (unat b div 16), hex_digit (unat b mod 16)]) bs)"

definition is_hexdigit :: "byte \<Rightarrow> bool" where
  "is_hexdigit b \<longleftrightarrow> (48 \<le> unat b \<and> unat b \<le> 57) \<or> (65 \<le> unat b \<and> unat b \<le> 70) \<or> (97 \<le> unat b \<and> unat b \<le> 102)"

end
