(* ===== verification/Catalog.thy ===== *)
theory Catalog
  imports Rust_Str Bitfield
begin

text \<open>
  The SQLite catalog: its tables (\<open>catalog/schema.sql\<close>) and the torrent operations of
  \<open>catalog/torrent.rs\<close>. A table is the list of its rows, one keyed by the torrent alone is a map from torrent
  ids; a \<open>SELECT\<close>, \<open>UPDATE\<close> or \<open>DELETE\<close> is the list operation it denotes, and a
  transaction is the function from the state before to the state after. Integer columns hold \<open>i64\<close>
  values. I/O errors of SQLite are left out. The clock and the random announce key are arguments.
\<close>

section \<open>Tables\<close>

record torrent_row =
  tr_id :: int
  tr_infohash :: bytes
  tr_name :: bytes
  tr_piece_length :: int
  tr_piece_count :: int
  tr_total_size :: int
  tr_state :: string
  tr_want_start :: bool
  tr_complete :: bool
  tr_private :: bool
  tr_deleted :: bool
  tr_deleted_at :: "int option"
  tr_tracker_key :: nat
  tr_created_at :: int
  tr_error_msg :: "string option"

record file_row =
  fr_torrent :: int
  fr_idx :: nat
  fr_path :: fs_path
  fr_size :: int
  fr_offset :: int
  fr_priority :: int

record bitfield_row =
  br_bits :: "bytes option"
  br_have_count :: int

record stats_row =
  sr_uploaded :: int
  sr_downloaded :: int
  sr_corrupted :: int
  sr_active_time :: int
  sr_finished_at :: "int option"

record tracker_row =
  kr_id :: int
  kr_torrent :: int
  kr_url :: bytes
  kr_tier :: nat
  kr_enabled :: bool
  kr_seeders :: "int option"
  kr_leechers :: "int option"
  kr_last_announce_at :: "int option"
  kr_last_interval :: "int option"
  kr_last_peers :: "int option"
  kr_last_status :: "bytes option"

record peer_row =
  pr_torrent :: int
  pr_addr :: bytes
  pr_last_seen :: int

record meta_row =
  mr_data_root :: fs_path
  mr_home_root :: "fs_path option"
  mr_source :: "bytes option"

record catalog =
  ct_torrents :: "torrent_row list"
  ct_files :: "file_row list"
  ct_hashes :: "int \<Rightarrow> bytes option"
  ct_bitfield :: "int \<Rightarrow> bitfield_row option"
  ct_stats :: "int \<Rightarrow> stats_row option"
  ct_trackers :: "tracker_row list"
  ct_peers :: "peer_row list"
  ct_settings :: "string \<Rightarrow> bytes option"
  ct_meta :: "int \<Rightarrow> meta_row option"
  ct_blobs :: "int \<Rightarrow> bytes option"

definition catalog_empty :: catalog where
  "catalog_empty = \<lparr>ct_torrents = [], ct_files = [], ct_hashes = (\<lambda>_. None), ct_bitfield = (\<lambda>_. None),
     ct_stats = (\<lambda>_. None), ct_trackers = [], ct_peers = [], ct_settings = (\<lambda>_. None), ct_meta = (\<lambda>_. None),
     ct_blobs = (\<lambda>_. None)\<rparr>"

datatype catalog_error =
    No_rows
  | Torrent_not_found int
  | Torrent_started int
  | Torrent_deleted int
  | Empty_blob
  | No_file int nat
  | No_files int
  | No_meta_path int
  | Have_length_mismatch
  | Key_zero
  | No_match bytes
  | Ambiguous bytes nat
  | Bad_ref bytes
  | Foreign_key int

text \<open>\<open>UPDATE\<close> of the rows that satisfy \<open>P\<close>; the next \<open>INTEGER PRIMARY KEY\<close> is one more than the
  largest in use.\<close>

definition sql_update :: "('r \<Rightarrow> bool) \<Rightarrow> ('r \<Rightarrow> 'r) \<Rightarrow> 'r list \<Rightarrow> 'r list" where
  "sql_update P f t = map (\<lambda>r. if P r then f r else r) t"

definition next_id :: "('r \<Rightarrow> int) \<Rightarrow> 'r list \<Rightarrow> int" where
  "next_id key t = foldr (\<lambda>r m. max (key r) m) t 0 + 1"

definition torrent_by_id :: "catalog \<Rightarrow> int \<Rightarrow> torrent_row option" where
  "torrent_by_id c tid = find (\<lambda>r. tr_id r = tid) (ct_torrents c)"

definition update_torrent :: "int \<Rightarrow> (torrent_row \<Rightarrow> torrent_row) \<Rightarrow> catalog \<Rightarrow> catalog" where
  "update_torrent tid f c = c\<lparr>ct_torrents := sql_update (\<lambda>r. tr_id r = tid) f (ct_torrents c)\<rparr>"

section \<open>Inserting and restoring\<close>

record torrent_insert =
  ti_metainfo :: metainfo
  ti_state :: string
  ti_want_start :: bool
  ti_complete :: bool
  ti_bitfield :: "bytes option"
  ti_have_count :: nat
  ti_data_root :: fs_path
  ti_home_root :: "fs_path option"
  ti_source :: "bytes option"
  ti_uploaded :: nat
  ti_downloaded :: nat
  ti_finished_at :: "int option"
  ti_created_at :: "int option"
  ti_file_priorities :: "int list"
  ti_blob :: "bytes option"
  ti_tracker_key :: "nat option"

definition from_metainfo :: "metainfo \<Rightarrow> fs_path \<Rightarrow> torrent_insert" where
  "from_metainfo m root = \<lparr>ti_metainfo = m, ti_state = ''stopped'', ti_want_start = False, ti_complete = False,
     ti_bitfield = None, ti_have_count = 0, ti_data_root = root, ti_home_root = None, ti_source = None,
     ti_uploaded = 0, ti_downloaded = 0, ti_finished_at = None, ti_created_at = None, ti_file_priorities = [],
     ti_blob = None, ti_tracker_key = None\<rparr>"

datatype insert_outcome = Inserted int | Exists int | Restored int

definition is_deleted :: "catalog \<Rightarrow> int \<Rightarrow> bool" where
  "is_deleted c tid = (case torrent_by_id c tid of None \<Rightarrow> False | Some r \<Rightarrow> tr_deleted r)"

definition set_metainfo_blob :: "int \<Rightarrow> bytes \<Rightarrow> catalog \<Rightarrow> catalog_error + catalog" where
  "set_metainfo_blob tid blob c =
     (if blob = [] then Inl Empty_blob
      else if torrent_by_id c tid = None then Inl (Foreign_key tid)
      else Inr (c\<lparr>ct_blobs := (ct_blobs c)(tid \<mapsto> blob)\<rparr>))"

definition get_metainfo_blob :: "catalog \<Rightarrow> int \<Rightarrow> bytes option" where
  "get_metainfo_blob c tid = ct_blobs c tid"

definition path_is_empty :: "fs_path \<Rightarrow> bool" where
  "path_is_empty p \<longleftrightarrow> \<not> is_abs p \<and> comps p = []"

definition restored_state :: "torrent_insert \<Rightarrow> string" where
  "restored_state ins =
     (if ti_want_start ins then ''started''
      else if ti_state ins = ''deleted'' \<or> ti_state ins = '''' then ''stopped'' else ti_state ins)"

definition restore_meta :: "torrent_insert \<Rightarrow> meta_row option \<Rightarrow> meta_row" where
  "restore_meta ins old =
     (case old of
        Some m \<Rightarrow> \<lparr>mr_data_root = ti_data_root ins, mr_home_root = ti_home_root ins,
                   mr_source = (case ti_source ins of None \<Rightarrow> mr_source m | Some s \<Rightarrow> Some s)\<rparr>
      | None \<Rightarrow> \<lparr>mr_data_root = ti_data_root ins, mr_home_root = ti_home_root ins, mr_source = ti_source ins\<rparr>)"

definition restore_deleted :: "int \<Rightarrow> torrent_insert \<Rightarrow> catalog \<Rightarrow> catalog" where
  "restore_deleted tid ins c =
     (if \<not> is_deleted c tid then c
      else
        let c = update_torrent tid (\<lambda>r. r\<lparr>tr_deleted := False, tr_deleted_at := None,
                  tr_want_start := ti_want_start ins, tr_state := restored_state ins, tr_error_msg := None\<rparr>) c;
            c = (if path_is_empty (ti_data_root ins) then c
                 else c\<lparr>ct_meta := (ct_meta c)(tid \<mapsto> restore_meta ins (ct_meta c tid))\<rparr>)
        in case ti_blob ins of
             None \<Rightarrow> c
           | Some blob \<Rightarrow> if blob = [] then c else c\<lparr>ct_blobs := (ct_blobs c)(tid \<mapsto> blob)\<rparr>)"

definition insert_row :: "int \<Rightarrow> nat \<Rightarrow> int \<Rightarrow> torrent_insert \<Rightarrow> torrent_row" where
  "insert_row now random_key tid ins =
     (let m = ti_metainfo ins
      in \<lparr>tr_id = tid, tr_infohash = mi_infohash m, tr_name = mi_name m, tr_piece_length = int (mi_piece_length m),
          tr_piece_count = int (mi_piece_count m), tr_total_size = u64_as_i64 (mi_total_size m), tr_state = ti_state ins,
          tr_want_start = ti_want_start ins, tr_complete = ti_complete ins, tr_private = mi_private m,
          tr_deleted = False, tr_deleted_at = None,
          tr_tracker_key = (case ti_tracker_key ins of Some k \<Rightarrow> (if k \<noteq> 0 then k else random_key) | None \<Rightarrow> random_key),
          tr_created_at = (case ti_created_at ins of Some t \<Rightarrow> (if t > 0 then t else now) | None \<Rightarrow> now),
          tr_error_msg = None\<rparr>)"

definition insert_files :: "int \<Rightarrow> torrent_insert \<Rightarrow> file_row list" where
  "insert_files tid ins =
     map (\<lambda>(idx, f). \<lparr>fr_torrent = tid, fr_idx = idx, fr_path = tf_path f, fr_size = u64_as_i64 (tf_size f),
            fr_offset = u64_as_i64 (tf_offset f),
            fr_priority = (if idx < length (ti_file_priorities ins) then ti_file_priorities ins ! idx else 1)\<rparr>)
       (enumerate 0 (mi_files (ti_metainfo ins)))"

fun insert_trackers :: "int \<Rightarrow> (nat \<times> bytes) list \<Rightarrow> tracker_row list \<Rightarrow> tracker_row list" where
  "insert_trackers tid [] t = t"
| "insert_trackers tid ((tier, url) # us) t =
     insert_trackers tid us
       (t @ [\<lparr>kr_id = next_id kr_id t, kr_torrent = tid, kr_url = url, kr_tier = tier, kr_enabled = True,
              kr_seeders = None, kr_leechers = None, kr_last_announce_at = None, kr_last_interval = None,
              kr_last_peers = None, kr_last_status = None\<rparr>])"

text \<open>A new row has no rows in the other tables: they refer to existing torrents and go with them.\<close>

definition insert_torrent :: "int \<Rightarrow> nat \<Rightarrow> torrent_insert \<Rightarrow> catalog \<Rightarrow> insert_outcome \<times> catalog" where
  "insert_torrent now random_key ins c =
     (case find (\<lambda>r. tr_infohash r = mi_infohash (ti_metainfo ins)) (ct_torrents c) of
        Some r \<Rightarrow>
          if is_deleted c (tr_id r) then (Restored (tr_id r), restore_deleted (tr_id r) ins c)
          else (Exists (tr_id r), c)
      | None \<Rightarrow>
          (let tid = next_id tr_id (ct_torrents c)
           in (Inserted tid,
               c\<lparr>ct_torrents := ct_torrents c @ [insert_row now random_key tid ins],
                 ct_files := ct_files c @ insert_files tid ins,
                 ct_hashes := (ct_hashes c)(tid \<mapsto> mi_pieces (ti_metainfo ins)),
                 ct_bitfield := (ct_bitfield c)(tid \<mapsto>
                   \<lparr>br_bits = (if ti_complete ins \<and> ti_bitfield ins = None then None else ti_bitfield ins),
                    br_have_count = int (ti_have_count ins)\<rparr>),
                 ct_stats := (ct_stats c)(tid \<mapsto>
                   \<lparr>sr_uploaded = u64_as_i64 (ti_uploaded ins), sr_downloaded = u64_as_i64 (ti_downloaded ins),
                    sr_corrupted = 0, sr_active_time = 0, sr_finished_at = ti_finished_at ins\<rparr>),
                 ct_trackers := insert_trackers tid (mi_trackers (ti_metainfo ins)) (ct_trackers c),
                 ct_meta := (ct_meta c)(tid \<mapsto>
                   \<lparr>mr_data_root = ti_data_root ins, mr_home_root = ti_home_root ins, mr_source = ti_source ins\<rparr>),
                 ct_blobs := (case ti_blob ins of
                    None \<Rightarrow> ct_blobs c
                  | Some blob \<Rightarrow> if blob = [] then ct_blobs c else (ct_blobs c)(tid \<mapsto> blob))\<rparr>)))"

text \<open>A second import only raises the lifetime counters.\<close>

definition empty_stats :: stats_row where
  "empty_stats = \<lparr>sr_uploaded = 0, sr_downloaded = 0, sr_corrupted = 0, sr_active_time = 0, sr_finished_at = None\<rparr>"

definition stats_or_new :: "catalog \<Rightarrow> int \<Rightarrow> stats_row" where
  "stats_or_new c tid = (case ct_stats c tid of Some s \<Rightarrow> s | None \<Rightarrow> empty_stats)"

definition update_import_meta ::
  "int \<Rightarrow> int option \<Rightarrow> int option \<Rightarrow> nat option \<Rightarrow> nat option \<Rightarrow> catalog \<Rightarrow> catalog_error + catalog" where
  "update_import_meta tid created_at finished_at uploaded downloaded c =
     (let c = (case created_at of
                 Some t \<Rightarrow> if t > 0 then update_torrent tid (\<lambda>r. r\<lparr>tr_created_at := t\<rparr>) c else c
               | None \<Rightarrow> c)
      in if finished_at = None \<and> uploaded = None \<and> downloaded = None then Inr c
         else if torrent_by_id c tid = None then Inl (Foreign_key tid)
         else
           let s = stats_or_new c tid;
               s = (case finished_at of Some t \<Rightarrow> if t > 0 then s\<lparr>sr_finished_at := Some t\<rparr> else s | None \<Rightarrow> s);
               s = (case uploaded of Some u \<Rightarrow> s\<lparr>sr_uploaded := max (sr_uploaded s) (u64_as_i64 u)\<rparr> | None \<Rightarrow> s);
               s = (case downloaded of Some d \<Rightarrow> s\<lparr>sr_downloaded := max (sr_downloaded s) (u64_as_i64 d)\<rparr> | None \<Rightarrow> s)
           in Inr (c\<lparr>ct_stats := (ct_stats c)(tid \<mapsto> s)\<rparr>))"

section \<open>Listing\<close>

definition list_want_start_ids :: "catalog \<Rightarrow> int list" where
  "list_want_start_ids c = sort (map tr_id (filter (\<lambda>r. tr_want_start r \<and> \<not> tr_deleted r) (ct_torrents c)))"

text \<open>Newest first, then by descending id; \<open>i64::MIN\<close> stands for an unknown torrent.\<close>

definition created_or_min :: "catalog \<Rightarrow> int \<Rightarrow> int" where
  "created_or_min c tid = (case torrent_by_id c tid of Some r \<Rightarrow> tr_created_at r | None \<Rightarrow> - (2 ^ 63))"

definition order_ids_created_at_desc :: "catalog \<Rightarrow> int list \<Rightarrow> int list" where
  "order_ids_created_at_desc c ids = sort_key (\<lambda>i. - created_or_min c i) (sort_key (\<lambda>i. - i) ids)"

record list_row =
  lr_id :: int
  lr_infohash_hex :: bytes
  lr_name :: bytes
  lr_total_size :: nat
  lr_piece_count :: nat
  lr_state :: string
  lr_complete :: bool
  lr_want_start :: bool
  lr_uploaded :: nat
  lr_downloaded :: nat
  lr_data_root :: "fs_path option"
  lr_have_count :: nat
  lr_created_at :: int
  lr_error_msg :: "string option"

definition list_row_from :: "catalog \<Rightarrow> torrent_row \<Rightarrow> list_row" where
  "list_row_from c r =
     \<lparr>lr_id = tr_id r, lr_infohash_hex = hex_encode (tr_infohash r), lr_name = tr_name r,
      lr_total_size = i64_as_u64 (tr_total_size r), lr_piece_count = i64_as_u32 (tr_piece_count r), lr_state = tr_state r,
      lr_complete = tr_complete r, lr_want_start = tr_want_start r,
      lr_uploaded = (case ct_stats c (tr_id r) of None \<Rightarrow> 0 | Some s \<Rightarrow> i64_as_u64 (sr_uploaded s)),
      lr_downloaded = (case ct_stats c (tr_id r) of None \<Rightarrow> 0 | Some s \<Rightarrow> i64_as_u64 (sr_downloaded s)),
      lr_data_root = map_option mr_data_root (ct_meta c (tr_id r)),
      lr_have_count =
        (case ct_bitfield c (tr_id r) of
           Some b \<Rightarrow> i64_as_u32 (br_have_count b)
         | None \<Rightarrow> if tr_complete r then i64_as_u32 (tr_piece_count r) else 0),
      lr_created_at = tr_created_at r, lr_error_msg = tr_error_msg r\<rparr>"

definition list_matches :: "bytes \<Rightarrow> list_row \<Rightarrow> bool" where
  "list_matches f row \<longleftrightarrow> str_contains (to_ascii_lowercase (lr_name row)) f \<or> str_contains (lr_infohash_hex row) f
     \<or> dec_int (lr_id row) = f"

definition list_torrents_filtered :: "bytes option \<Rightarrow> catalog \<Rightarrow> list_row list" where
  "list_torrents_filtered flt c =
     (let rows = map (list_row_from c) (sort_key tr_id (filter (\<lambda>r. \<not> tr_deleted r) (ct_torrents c)))
      in case map_option to_ascii_lowercase flt of
           None \<Rightarrow> rows
         | Some f \<Rightarrow> if f = [] then rows else filter (list_matches f) rows)"

definition list_torrent_by_id :: "int \<Rightarrow> catalog \<Rightarrow> list_row option" where
  "list_torrent_by_id tid c =
     map_option (list_row_from c) (find (\<lambda>r. tr_id r = tid \<and> \<not> tr_deleted r) (ct_torrents c))"

record file_info =
  fi_idx :: nat
  fi_path :: fs_path
  fi_size :: nat
  fi_offset :: nat
  fi_priority :: int

definition file_info_from :: "file_row \<Rightarrow> file_info" where
  "file_info_from r = \<lparr>fi_idx = fr_idx r, fi_path = fr_path r, fi_size = i64_as_u64 (fr_size r),
     fi_offset = i64_as_u64 (fr_offset r), fi_priority = fr_priority r\<rparr>"

definition file_rows :: "catalog \<Rightarrow> int \<Rightarrow> file_row list" where
  "file_rows c tid = sort_key fr_idx (filter (\<lambda>r. fr_torrent r = tid) (ct_files c))"

record tracker_info =
  ki_id :: int
  ki_url :: bytes
  ki_tier :: nat
  ki_enabled :: bool
  ki_seeders :: "nat option"
  ki_leechers :: "nat option"
  ki_last_announce_at :: "int option"
  ki_last_interval :: "nat option"
  ki_last_peers :: "nat option"
  ki_last_status :: "bytes option"

definition tracker_info_from :: "tracker_row \<Rightarrow> tracker_info" where
  "tracker_info_from r =
     (let n = map_option (\<lambda>k. i64_as_u32 (max k 0))
      in \<lparr>ki_id = kr_id r, ki_url = kr_url r, ki_tier = kr_tier r, ki_enabled = kr_enabled r,
          ki_seeders = n (kr_seeders r), ki_leechers = n (kr_leechers r),
          ki_last_announce_at = kr_last_announce_at r, ki_last_interval = n (kr_last_interval r),
          ki_last_peers = n (kr_last_peers r), ki_last_status = kr_last_status r\<rparr>)"

record torrent_detail =
  td_list :: list_row
  td_piece_length :: nat
  td_private :: bool
  td_error_msg :: "string option"
  td_source :: "bytes option"
  td_corrupted :: nat
  td_finished_at :: "int option"
  td_files :: "file_info list"
  td_trackers :: "tracker_info list"

definition get_torrent_detail :: "int \<Rightarrow> catalog \<Rightarrow> catalog_error + torrent_detail" where
  "get_torrent_detail tid c =
     (case list_torrent_by_id tid c of
        None \<Rightarrow> Inl (Torrent_not_found tid)
      | Some row \<Rightarrow>
          (case torrent_by_id c tid of
             None \<Rightarrow> Inl No_rows
           | Some r \<Rightarrow> Inr
               \<lparr>td_list = row, td_piece_length = i64_as_u32 (tr_piece_length r), td_private = tr_private r,
                td_error_msg = tr_error_msg r, td_source = Option.bind (ct_meta c tid) mr_source,
                td_corrupted = (case ct_stats c tid of None \<Rightarrow> 0 | Some s \<Rightarrow> i64_as_u64 (sr_corrupted s)),
                td_finished_at = Option.bind (ct_stats c tid) sr_finished_at,
                td_files = map file_info_from (file_rows c tid),
                td_trackers = map tracker_info_from
                  (sort_key kr_tier (sort_key kr_id (filter (\<lambda>k. kr_torrent k = tid) (ct_trackers c))))\<rparr>))"

text \<open>The swarm counts of the most recently announced tracker; the later row wins a tie.\<close>

definition swarm_sl :: "torrent_detail \<Rightarrow> nat option \<times> nat option" where
  "swarm_sl d =
     (case foldl (\<lambda>best t.
               if ki_seeders t = None \<and> ki_leechers t = None then best
               else case best of
                      None \<Rightarrow> Some t
                    | Some b \<Rightarrow>
                        if case_option 0 id (ki_last_announce_at t) \<ge> case_option 0 id (ki_last_announce_at b)
                        then Some t else best) None (td_trackers d) of
        None \<Rightarrow> (None, None)
      | Some t \<Rightarrow> (ki_seeders t, ki_leechers t))"

section \<open>Starting, deleting, purging\<close>

definition set_want_start :: "int \<Rightarrow> bool \<Rightarrow> catalog \<Rightarrow> catalog_error + catalog" where
  "set_want_start tid want c =
     (if want \<and> is_deleted c tid then Inl (Torrent_deleted tid)
      else Inr (c\<lparr>ct_torrents := sql_update (\<lambda>r. tr_id r = tid \<and> \<not> tr_deleted r)
             (\<lambda>r. r\<lparr>tr_want_start := want, tr_state := (if want then ''started'' else ''stopped'')\<rparr>)
             (ct_torrents c)\<rparr>))"

definition needs_started :: "torrent_row \<Rightarrow> bool" where
  "needs_started r \<longleftrightarrow> tr_want_start r \<and> \<not> tr_deleted r \<and> tr_state r \<noteq> ''started'' \<and> tr_state r \<noteq> ''checking''"

definition needs_stopped :: "torrent_row \<Rightarrow> bool" where
  "needs_stopped r \<longleftrightarrow> \<not> tr_want_start r \<and> \<not> tr_deleted r \<and> tr_state r = ''started''"

definition sync_state_with_want_start :: "catalog \<Rightarrow> nat \<times> catalog" where
  "sync_state_with_want_start c =
     (let n = length (filter needs_started (ct_torrents c));
          t = sql_update needs_started (\<lambda>r. r\<lparr>tr_state := ''started''\<rparr>) (ct_torrents c);
          n2 = length (filter needs_stopped t);
          t = sql_update needs_stopped (\<lambda>r. r\<lparr>tr_state := ''stopped''\<rparr>) t
      in (n + n2, c\<lparr>ct_torrents := t\<rparr>))"

definition mark_deleted :: "int \<Rightarrow> int \<Rightarrow> catalog \<Rightarrow> catalog_error + catalog" where
  "mark_deleted now tid c =
     (case torrent_by_id c tid of
        None \<Rightarrow> Inl (Torrent_not_found tid)
      | Some r \<Rightarrow>
          if tr_deleted r then Inr c
          else if tr_want_start r then Inl (Torrent_started tid)
          else Inr (update_torrent tid (\<lambda>r. r\<lparr>tr_deleted := True, tr_deleted_at := Some now,
                      tr_want_start := False, tr_state := ''deleted''\<rparr>) c))"

text \<open>\<open>DELETE FROM torrent\<close> takes the rows that refer to the torrent with it.\<close>

definition drop_torrent :: "int \<Rightarrow> catalog \<Rightarrow> catalog" where
  "drop_torrent tid c =
     c\<lparr>ct_torrents := filter (\<lambda>r. tr_id r \<noteq> tid) (ct_torrents c),
       ct_files := filter (\<lambda>r. fr_torrent r \<noteq> tid) (ct_files c),
       ct_hashes := (ct_hashes c)(tid := None), ct_bitfield := (ct_bitfield c)(tid := None),
       ct_stats := (ct_stats c)(tid := None), ct_trackers := filter (\<lambda>r. kr_torrent r \<noteq> tid) (ct_trackers c),
       ct_peers := filter (\<lambda>r. pr_torrent r \<noteq> tid) (ct_peers c), ct_meta := (ct_meta c)(tid := None),
       ct_blobs := (ct_blobs c)(tid := None)\<rparr>"

definition remove_torrent :: "int \<Rightarrow> catalog \<Rightarrow> catalog_error + catalog" where
  "remove_torrent tid c =
     (case torrent_by_id c tid of
        None \<Rightarrow> Inl (Torrent_not_found tid)
      | Some r \<Rightarrow> if tr_want_start r then Inl (Torrent_started tid) else Inr (drop_torrent tid c))"

definition purge_due :: "int \<Rightarrow> torrent_row \<Rightarrow> bool" where
  "purge_due cutoff r \<longleftrightarrow> tr_deleted r \<and> (case tr_deleted_at r of None \<Rightarrow> False | Some t \<Rightarrow> t \<le> cutoff)"

fun remove_all_torrents :: "int list \<Rightarrow> catalog \<Rightarrow> catalog_error + catalog" where
  "remove_all_torrents [] c = Inr c"
| "remove_all_torrents (i # is) c =
     (case remove_torrent i c of Inl e \<Rightarrow> Inl e | Inr c \<Rightarrow> remove_all_torrents is c)"

text \<open>\<open>saturating_mul\<close> and \<open>saturating_sub\<close> on \<open>i64\<close>.\<close>

definition sat_i64 :: "int \<Rightarrow> int" where
  "sat_i64 k = max (- (2 ^ 63)) (min (2 ^ 63 - 1) k)"

definition purge_cutoff :: "int \<Rightarrow> nat \<Rightarrow> int" where
  "purge_cutoff now days = sat_i64 (now - sat_i64 (u64_as_i64 days * 86400))"

definition purge_soft_deleted :: "int \<Rightarrow> nat \<Rightarrow> catalog \<Rightarrow> catalog_error + (nat \<times> catalog)" where
  "purge_soft_deleted now days c =
     (if days = 0 then Inr (0, c)
      else
        let ids = map tr_id (sort_key tr_id (filter (purge_due (purge_cutoff now days)) (ct_torrents c)))
        in case remove_all_torrents ids c of Inl e \<Rightarrow> Inl e | Inr c \<Rightarrow> Inr (length ids, c))"

definition get_by_infohash :: "bytes \<Rightarrow> catalog \<Rightarrow> int option" where
  "get_by_infohash ih c = map_option tr_id (find (\<lambda>r. tr_infohash r = ih) (ct_torrents c))"

definition ref_by_prefix :: "bytes \<Rightarrow> catalog \<Rightarrow> catalog_error + int" where
  "ref_by_prefix spec c =
     (let hex = to_ascii_lowercase (str_trim spec)
      in if length hex \<ge> 4 \<and> list_all is_hexdigit hex then
           (case filter (\<lambda>r. starts_with (hex_encode (tr_infohash r)) hex) (ct_torrents c) of
              [] \<Rightarrow> Inl (No_match spec)
            | [r] \<Rightarrow> Inr (tr_id r)
            | rs \<Rightarrow> Inl (Ambiguous spec (length rs)))
         else Inl (Bad_ref spec))"

definition resolve_torrent_ref :: "bytes \<Rightarrow> catalog \<Rightarrow> catalog_error + int" where
  "resolve_torrent_ref spec c =
     (case parse_i64 spec of
        Some tid \<Rightarrow> if torrent_by_id c tid \<noteq> None then Inr tid else ref_by_prefix spec c
      | None \<Rightarrow> ref_by_prefix spec c)"

definition set_torrent_state :: "int \<Rightarrow> string \<Rightarrow> catalog \<Rightarrow> catalog" where
  "set_torrent_state tid st c = update_torrent tid (\<lambda>r. r\<lparr>tr_state := st\<rparr>) c"

definition update_file :: "int \<Rightarrow> nat \<Rightarrow> int \<Rightarrow> file_row list \<Rightarrow> file_row list" where
  "update_file tid idx prio t =
     sql_update (\<lambda>r. fr_torrent r = tid \<and> fr_idx r = idx) (\<lambda>r. r\<lparr>fr_priority := prio\<rparr>) t"

definition set_file_priority_row :: "int \<Rightarrow> nat \<Rightarrow> int \<Rightarrow> catalog \<Rightarrow> catalog_error + catalog" where
  "set_file_priority_row tid idx prio c =
     (if list_ex (\<lambda>r. fr_torrent r = tid \<and> fr_idx r = idx) (ct_files c)
      then Inr (c\<lparr>ct_files := update_file tid idx prio (ct_files c)\<rparr>)
      else Inl (No_file tid idx))"

definition set_file_priorities :: "int \<Rightarrow> int list \<Rightarrow> catalog \<Rightarrow> catalog" where
  "set_file_priorities tid prios c =
     c\<lparr>ct_files := fold (\<lambda>(idx, prio). update_file tid idx prio) (enumerate 0 prios) (ct_files c)\<rparr>"

end
