(* ===== verification/Catalog_Store.thy ===== *)
theory Catalog_Store
  imports Catalog
begin

text \<open>
  The rest of the catalog: possession (\<open>catalog/pieces.rs\<close>), storage and its audit
  (\<open>catalog/storage.rs\<close>, \<open>disk/audit.rs\<close>), the peer cache (\<open>catalog/peers.rs\<close>, \<open>queries.rs\<close>), tracker
  statistics (\<open>catalog/trackers.rs\<close>), lifetime counters (\<open>stats.rs\<close>) and session limits (\<open>settings.rs\<close>).
  The file system is a function from paths to what \<open>stat\<close> reports.
\<close>

section \<open>Possession\<close>

definition load_piece_hashes :: "int \<Rightarrow> catalog \<Rightarrow> catalog_error + bytes" where
  "load_piece_hashes tid c = (case ct_hashes c tid of None \<Rightarrow> Inl No_rows | Some h \<Rightarrow> Inr h)"

definition finish_stats :: "int \<Rightarrow> int \<Rightarrow> catalog \<Rightarrow> catalog" where
  "finish_stats now tid c =
     c\<lparr>ct_stats := (ct_stats c)(tid := map_option (\<lambda>s. s\<lparr>sr_finished_at :=
        (case sr_finished_at s of Some t \<Rightarrow> Some t | None \<Rightarrow> Some now)\<rparr>) (ct_stats c tid))\<rparr>"

definition put_bits :: "int \<Rightarrow> bytes option \<Rightarrow> nat \<Rightarrow> catalog \<Rightarrow> catalog" where
  "put_bits tid bits n c = c\<lparr>ct_bitfield := (ct_bitfield c)(tid \<mapsto> \<lparr>br_bits = bits, br_have_count = int n\<rparr>)\<rparr>"

definition bits_of_have :: "bool list \<Rightarrow> bytes" where
  "bits_of_have have =
     fold (\<lambda>(i, h) bf. if h then bitfield_set bf i else bf) (enumerate 0 have) (empty_bitfield (length have))"

definition set_bitfield_from_recheck ::
  "int \<Rightarrow> int \<Rightarrow> nat \<Rightarrow> bool list \<Rightarrow> catalog \<Rightarrow> catalog_error + catalog" where
  "set_bitfield_from_recheck now tid pc have c =
     (if length have \<noteq> pc then Inl Have_length_mismatch
      else if torrent_by_id c tid = None then Inl (Foreign_key tid)
      else
        let n = length (filter (\<lambda>h. h) have);
            complete = (pc > 0 \<and> n = pc);
            c = put_bits tid (if complete then None else Some (bits_of_have have)) n c;
            c = update_torrent tid (\<lambda>r. r\<lparr>tr_complete := complete, tr_state := ''stopped'', tr_error_msg := None\<rparr>) c
        in Inr (if complete then put_bits tid None n (finish_stats now tid c) else c))"

definition load_bitfield_state :: "int \<Rightarrow> catalog \<Rightarrow> catalog_error + (bool \<times> bytes \<times> nat \<times> nat)" where
  "load_bitfield_state tid c =
     (case torrent_by_id c tid of
        None \<Rightarrow> Inl No_rows
      | Some r \<Rightarrow>
          (let pc = i64_as_u32 (tr_piece_count r)
           in if tr_complete r then Inr (True, all_set_bitfield pc, pc, pc)
              else
                (case ct_bitfield c tid of
                   None \<Rightarrow> Inr (False, empty_bitfield pc, 0, pc)
                 | Some b \<Rightarrow>
                     Inr (False, (case br_bits b of None \<Rightarrow> empty_bitfield pc | Some bf \<Rightarrow> bf),
                          i64_as_u32 (br_have_count b), pc))))"

definition load_bitfield_bytes :: "int \<Rightarrow> catalog \<Rightarrow> catalog_error + (bool \<times> bytes \<times> nat)" where
  "load_bitfield_bytes tid c =
     (case load_bitfield_state tid c of Inl e \<Rightarrow> Inl e | Inr (complete, bits, have, pc) \<Rightarrow> Inr (complete, bits, have))"

text \<open>The new pieces of one torrent: bits, count, bytes and whether anything changed.\<close>

fun mark_items :: "nat \<Rightarrow> (nat \<times> nat) list \<Rightarrow> bytes \<times> nat \<times> int \<times> bool \<Rightarrow> bytes \<times> nat \<times> int \<times> bool" where
  "mark_items pc [] s = s"
| "mark_items pc ((index, plen) # items) (bits, have, delta, changed) =
     (if index \<ge> pc \<or> bitfield_get bits index then mark_items pc items (bits, have, delta, changed)
      else mark_items pc items (bitfield_set bits index, have + 1, delta + int plen, True))"

definition add_downloaded :: "int \<Rightarrow> int \<Rightarrow> catalog \<Rightarrow> catalog" where
  "add_downloaded tid delta c =
     c\<lparr>ct_stats := (ct_stats c)(tid := map_option (\<lambda>s. s\<lparr>sr_downloaded := sr_downloaded s + delta\<rparr>) (ct_stats c tid))\<rparr>"

definition mark_torrent_pieces ::
  "int \<Rightarrow> int \<Rightarrow> (nat \<times> nat) list \<Rightarrow> catalog \<Rightarrow> catalog_error + (bool \<times> catalog)" where
  "mark_torrent_pieces now tid items c =
     (case load_bitfield_state tid c of
        Inl e \<Rightarrow> Inl e
      | Inr (complete, bits, prev_have, pc) \<Rightarrow>
          if complete \<or> pc = 0 then Inr (False, c)
          else
            (case mark_items pc items (bits, prev_have, 0, False) of
               (bits, have, delta, changed) \<Rightarrow>
                 if \<not> changed then Inr (False, c)
                 else
                   let now_complete = (have \<ge> pc);
                       c = put_bits tid (if now_complete then None else Some bits) have c;
                       c = (if delta > 0 then add_downloaded tid delta c else c)
                   in if now_complete then
                        Inr (True, put_bits tid None pc (finish_stats now tid
                          (update_torrent tid (\<lambda>r. r\<lparr>tr_complete := True, tr_state := ''started''\<rparr>) c)))
                      else if prev_have = 0 then
                        Inr (False, update_torrent tid (\<lambda>r. r\<lparr>tr_state := ''started'', tr_complete := False\<rparr>) c)
                      else Inr (False, c)))"

definition batch_order :: "(int \<times> nat \<times> nat) list \<Rightarrow> int list" where
  "batch_order pieces = rev (remdups (rev (map fst pieces)))"

definition batch_items :: "int \<Rightarrow> (int \<times> nat \<times> nat) list \<Rightarrow> (nat \<times> nat) list" where
  "batch_items tid pieces = map snd (filter (\<lambda>p. fst p = tid) pieces)"

fun mark_batch :: "int \<Rightarrow> (int \<times> nat \<times> nat) list \<Rightarrow> int list \<Rightarrow> catalog \<Rightarrow> catalog_error + (int list \<times> catalog)" where
  "mark_batch now pieces [] c = Inr ([], c)"
| "mark_batch now pieces (tid # tids) c =
     (case mark_torrent_pieces now tid (batch_items tid pieces) c of
        Inl e \<Rightarrow> Inl e
      | Inr (became, c) \<Rightarrow>
          (case mark_batch now pieces tids c of
             Inl e \<Rightarrow> Inl e
           | Inr (done', c) \<Rightarrow> Inr (if became then tid # done' else done', c)))"

text \<open>One transaction; on an error nothing is changed.\<close>

definition mark_pieces_have_batch ::
  "int \<Rightarrow> (int \<times> nat \<times> nat) list \<Rightarrow> catalog \<Rightarrow> catalog_error + (int list \<times> catalog)" where
  "mark_pieces_have_batch now pieces c =
     (if pieces = [] then Inr ([], c) else mark_batch now pieces (batch_order pieces) c)"

section \<open>Storage\<close>

definition load_storage_layout :: "int \<Rightarrow> catalog \<Rightarrow> catalog_error + storage_layout" where
  "load_storage_layout tid c =
     (case (torrent_by_id c tid, ct_meta c tid) of
        (Some r, Some m) \<Rightarrow>
          (let fs = map (\<lambda>f. \<lparr>fl_path = fr_path f, fl_size = i64_as_u64 (fr_size f), fl_offset = i64_as_u64 (fr_offset f),
                             fl_priority = fr_priority f\<rparr>) (file_rows c tid)
           in if fs = [] then Inl (No_files tid)
              else Inr \<lparr>data_root = mr_data_root m, piece_length = i64_as_u32 (tr_piece_length r),
                        piece_count = i64_as_u32 (tr_piece_count r), total_size = i64_as_u64 (tr_total_size r), files = fs\<rparr>)
      | _ \<Rightarrow> Inl No_rows)"

datatype fs_stat = Stat_file nat | Stat_other | Stat_missing | Stat_error
datatype problem_kind = Missing | Not_file | Wrong_size | Io_problem

record storage_problem =
  sp_rel :: fs_path
  sp_absolute :: fs_path
  sp_expected :: nat
  sp_actual :: "nat option"
  sp_kind :: problem_kind

definition stat_problem :: "fs_stat \<Rightarrow> nat \<Rightarrow> (nat option \<times> problem_kind) option" where
  "stat_problem st expected =
     (case st of
        Stat_file len \<Rightarrow> if len \<noteq> expected then Some (Some len, Wrong_size) else None
      | Stat_other \<Rightarrow> Some (None, Not_file)
      | Stat_missing \<Rightarrow> Some (None, Missing)
      | Stat_error \<Rightarrow> Some (None, Io_problem))"

fun check_files :: "(fs_path \<Rightarrow> fs_stat) \<Rightarrow> storage_layout \<Rightarrow> file_layout list \<Rightarrow> storage_problem option" where
  "check_files fs lay [] = None"
| "check_files fs lay (f # rest) =
     (case stat_problem (fs (absolute lay (fl_path f))) (fl_size f) of
        Some (actual, kind) \<Rightarrow> Some \<lparr>sp_rel = fl_path f, sp_absolute = absolute lay (fl_path f),
                                     sp_expected = fl_size f, sp_actual = actual, sp_kind = kind\<rparr>
      | None \<Rightarrow> check_files fs lay rest)"

definition check_complete_layout :: "(fs_path \<Rightarrow> fs_stat) \<Rightarrow> storage_layout \<Rightarrow> storage_problem option" where
  "check_complete_layout fs lay = check_files fs lay (files lay)"

fun join_strings :: "string \<Rightarrow> string list \<Rightarrow> string" where
  "join_strings sep [] = []"
| "join_strings sep [x] = x"
| "join_strings sep (x # y # xs) = x @ sep @ join_strings sep (y # xs)"

definition path_display :: "fs_path \<Rightarrow> string" where
  "path_display p = (if is_abs p then ''/'' else '''') @ join_strings ''/'' (comps p)"

definition problem_msg :: "storage_problem \<Rightarrow> string" where
  "problem_msg p =
     (case sp_kind p of
        Missing \<Rightarrow> ''storage missing: '' @ path_display (sp_rel p)
      | Not_file \<Rightarrow> ''storage not a file: '' @ path_display (sp_rel p)
      | Wrong_size \<Rightarrow> ''storage size mismatch: '' @ path_display (sp_rel p) @ '' expected='' @ os_string (dec (sp_expected p))
          @ '' actual='' @ os_string (dec (case sp_actual p of Some n \<Rightarrow> n | None \<Rightarrow> 0))
      | Io_problem \<Rightarrow> ''storage unreadable: '' @ path_display (sp_rel p))"

definition mark_incomplete_storage_problem :: "int \<Rightarrow> string \<Rightarrow> catalog \<Rightarrow> catalog_error + catalog" where
  "mark_incomplete_storage_problem tid msg c =
     (if torrent_by_id c tid = None then Inl (Foreign_key tid)
      else Inr (update_torrent tid (\<lambda>r. r\<lparr>tr_complete := False, tr_want_start := False, tr_state := ''stopped'',
             tr_error_msg := Some msg\<rparr>) (put_bits tid None 0 c)))"

text \<open>\<open>err\<close> renders an error of the catalog.\<close>

definition audit_problem ::
  "(catalog_error \<Rightarrow> string) \<Rightarrow> (fs_path \<Rightarrow> fs_stat) \<Rightarrow> int \<Rightarrow> catalog \<Rightarrow> string option" where
  "audit_problem err fs tid c =
     (case load_storage_layout tid c of
        Inl e \<Rightarrow> Some (''storage layout error: '' @ err e)
      | Inr lay \<Rightarrow> map_option problem_msg (check_complete_layout fs lay))"

fun audit_loop ::
  "(catalog_error \<Rightarrow> string) \<Rightarrow> (fs_path \<Rightarrow> fs_stat) \<Rightarrow> int list \<Rightarrow> nat \<Rightarrow> catalog \<Rightarrow> catalog_error + (nat \<times> catalog)" where
  "audit_loop err fs [] demoted c = Inr (demoted, c)"
| "audit_loop err fs (tid # tids) demoted c =
     (case audit_problem err fs tid c of
        None \<Rightarrow> audit_loop err fs tids demoted c
      | Some msg \<Rightarrow>
          (case mark_incomplete_storage_problem tid msg c of
             Inl e \<Rightarrow> Inl e
           | Inr c \<Rightarrow> audit_loop err fs tids (demoted + 1) c))"

definition audit_ids :: "catalog \<Rightarrow> int list" where
  "audit_ids c = map tr_id (sort_key tr_id (filter (\<lambda>r. tr_complete r \<and> \<not> tr_deleted r) (ct_torrents c)))"

definition audit_complete_storage ::
  "(catalog_error \<Rightarrow> string) \<Rightarrow> (fs_path \<Rightarrow> fs_stat) \<Rightarrow> catalog \<Rightarrow> catalog_error + (nat \<times> nat \<times> catalog)" where
  "audit_complete_storage err fs c =
     (case audit_loop err fs (audit_ids c) 0 c of
        Inl e \<Rightarrow> Inl e
      | Inr (demoted, c') \<Rightarrow> Inr (length (audit_ids c), demoted, c'))"

definition update_meta :: "int \<Rightarrow> (meta_row \<Rightarrow> meta_row) \<Rightarrow> catalog \<Rightarrow> catalog_error + catalog" where
  "update_meta tid f c =
     (case ct_meta c tid of
        None \<Rightarrow> Inl (No_meta_path tid)
      | Some m \<Rightarrow> Inr (c\<lparr>ct_meta := (ct_meta c)(tid \<mapsto> f m)\<rparr>))"

definition set_data_root :: "int \<Rightarrow> fs_path \<Rightarrow> catalog \<Rightarrow> catalog_error + catalog" where
  "set_data_root tid root c = update_meta tid (\<lambda>m. m\<lparr>mr_data_root := root\<rparr>) c"

definition set_home_root :: "int \<Rightarrow> fs_path option \<Rightarrow> catalog \<Rightarrow> catalog_error + catalog" where
  "set_home_root tid home c = update_meta tid (\<lambda>m. m\<lparr>mr_home_root := home\<rparr>) c"

definition get_data_root :: "int \<Rightarrow> catalog \<Rightarrow> catalog_error + fs_path" where
  "get_data_root tid c = (case ct_meta c tid of None \<Rightarrow> Inl No_rows | Some m \<Rightarrow> Inr (mr_data_root m))"

definition staged_root :: "meta_row \<Rightarrow> fs_path option" where
  "staged_root m = (case mr_home_root m of None \<Rightarrow> None | Some p \<Rightarrow> if path_is_empty p then None else Some p)"

definition get_home_root :: "int \<Rightarrow> catalog \<Rightarrow> catalog_error + fs_path option" where
  "get_home_root tid c = (case ct_meta c tid of None \<Rightarrow> Inl No_rows | Some m \<Rightarrow> Inr (staged_root m))"

text \<open>\<open>TRIM(home_root) != ''\<close> also discards a path of spaces.\<close>

definition path_is_blank :: "fs_path \<Rightarrow> bool" where
  "path_is_blank p \<longleftrightarrow> \<not> is_abs p \<and> length (comps p) \<le> 1 \<and> list_all (list_all (\<lambda>c. c = CHR '' '')) (comps p)"

definition is_staged :: "catalog \<Rightarrow> int \<Rightarrow> bool" where
  "is_staged c tid = (case ct_meta c tid of None \<Rightarrow> False | Some m \<Rightarrow> (case mr_home_root m of None \<Rightarrow> False | Some p \<Rightarrow> \<not> path_is_blank p))"

definition list_staged_leech_cache_ids :: "catalog \<Rightarrow> int list" where
  "list_staged_leech_cache_ids c = sort (map tr_id (filter (\<lambda>r. is_staged c (tr_id r)) (ct_torrents c)))"

definition leech_cache_reserved_bytes :: "catalog \<Rightarrow> nat" where
  "leech_cache_reserved_bytes c =
     i64_as_u64 (max 0 (sum_list (map tr_total_size
       (filter (\<lambda>r. is_staged c (tr_id r) \<and> tr_deleted_at r = None) (ct_torrents c)))))"

definition list_files :: "int \<Rightarrow> catalog \<Rightarrow> file_info list" where
  "list_files tid c = map file_info_from (file_rows c tid)"

text \<open>Bytes of a file covered by the pieces set in \<open>bits\<close>.\<close>

definition piece_overlap :: "nat \<Rightarrow> nat \<Rightarrow> nat \<Rightarrow> nat \<Rightarrow> nat \<Rightarrow> nat" where
  "piece_overlap pl tot file_start file_stop pi =
     (let pstart = pi * pl; pend = min (pstart + pl) tot
      in min pend file_stop - max pstart file_start)"

definition file_have_bytes :: "file_info \<Rightarrow> nat \<Rightarrow> nat \<Rightarrow> nat \<Rightarrow> bytes \<Rightarrow> nat" where
  "file_have_bytes f pl pc tot bits =
     (if fi_size f = 0 \<or> pl = 0 then 0
      else
        let stop = sat_add64 (fi_offset f) (fi_size f);
            first = fi_offset f div pl mod 2 ^ 32;
            last' = min ((stop - 1) div pl mod 2 ^ 32) (pc - 1);
            have = sum_list (map (piece_overlap pl tot (fi_offset f) stop) (filter (bitfield_get bits) [first ..< Suc last']))
        in min have (fi_size f))"

definition list_files_progress :: "int \<Rightarrow> catalog \<Rightarrow> catalog_error + (file_info \<times> nat) list" where
  "list_files_progress tid c =
     (case torrent_by_id c tid of
        None \<Rightarrow> Inl No_rows
      | Some r \<Rightarrow>
          (case load_bitfield_bytes tid c of
             Inl e \<Rightarrow> Inl e
           | Inr (complete, bits, have) \<Rightarrow>
               (let pl = i64_as_u64 (tr_piece_length r); pc = i64_as_u32 (tr_piece_count r); tot = i64_as_u64 (tr_total_size r)
                in Inr (map (\<lambda>f. (f, if complete \<or> fi_size f = 0 then fi_size f
                                     else if pl = 0 \<or> pc = 0 then 0
                                     else file_have_bytes f pl pc tot bits)) (list_files tid c)))))"

section \<open>Addresses and the peer cache\<close>

datatype sock_addr = Sock_v4 bytes "16 word" | Sock_v6 bytes "16 word"

fun encode_peer_addr :: "sock_addr \<Rightarrow> bytes" where
  "encode_peer_addr (Sock_v4 ip port) = ip @ be16 port"
| "encode_peer_addr (Sock_v6 ip port) = ip @ be16 port"

definition decode_peer_addr :: "bytes \<Rightarrow> sock_addr option" where
  "decode_peer_addr blob =
     (if length blob = 6 then Some (Sock_v4 (take 4 blob) (of_be16 (drop 4 blob)))
      else if length blob = 18 then Some (Sock_v6 (take 16 blob) (of_be16 (drop 16 blob)))
      else None)"

definition upsert_peer_row :: "int \<Rightarrow> int \<Rightarrow> sock_addr \<Rightarrow> peer_row list \<Rightarrow> peer_row list" where
  "upsert_peer_row tid now a t =
     (let blob = encode_peer_addr a
      in if list_ex (\<lambda>r. pr_torrent r = tid \<and> pr_addr r = blob) t
         then sql_update (\<lambda>r. pr_torrent r = tid \<and> pr_addr r = blob) (\<lambda>r. r\<lparr>pr_last_seen := now\<rparr>) t
         else t @ [\<lparr>pr_torrent = tid, pr_addr = blob, pr_last_seen = now\<rparr>])"

definition upsert_peer_cache_on :: "int \<Rightarrow> sock_addr list \<Rightarrow> int \<Rightarrow> peer_row list \<Rightarrow> peer_row list" where
  "upsert_peer_cache_on tid peers now t = fold (upsert_peer_row tid now) peers t"

definition upsert_peer_cache :: "int \<Rightarrow> int \<Rightarrow> sock_addr list \<Rightarrow> catalog \<Rightarrow> catalog_error + (nat \<times> catalog)" where
  "upsert_peer_cache now tid peers c =
     (if peers = [] then Inr (0, c)
      else if torrent_by_id c tid = None then Inl (Foreign_key tid)
      else Inr (length peers, c\<lparr>ct_peers := upsert_peer_cache_on tid peers now (ct_peers c)\<rparr>))"

definition torrent_peers :: "int \<Rightarrow> peer_row list \<Rightarrow> peer_row list" where
  "torrent_peers tid t = filter (\<lambda>r. pr_torrent r = tid) t"

text \<open>\<open>ORDER BY last_seen DESC\<close>; rows of the same age come in table order.\<close>

definition newest_first :: "int \<Rightarrow> peer_row list \<Rightarrow> peer_row list" where
  "newest_first tid t = sort_key (\<lambda>r. - pr_last_seen r) (torrent_peers tid t)"

definition list_peer_cache :: "int \<Rightarrow> nat \<Rightarrow> catalog \<Rightarrow> sock_addr list" where
  "list_peer_cache tid limit c =
     List.map_filter (\<lambda>r. decode_peer_addr (pr_addr r)) (take (max limit 1) (newest_first tid (ct_peers c)))"

definition peer_cache_len :: "int \<Rightarrow> catalog \<Rightarrow> nat" where
  "peer_cache_len tid c = length (torrent_peers tid (ct_peers c))"

definition prune_peer_cache_on :: "int \<Rightarrow> nat \<Rightarrow> peer_row list \<Rightarrow> peer_row list" where
  "prune_peer_cache_on tid keep t =
     (let keep = max keep 1; kept = map pr_addr (take keep (newest_first tid t))
      in if length (torrent_peers tid t) \<le> keep then t
         else filter (\<lambda>r. \<not> (pr_torrent r = tid \<and> pr_addr r \<notin> set kept)) t)"

section \<open>Tracker statistics\<close>

record tracker_update =
  tu_seeders :: "nat option"
  tu_leechers :: "nat option"
  tu_interval :: "nat option"
  tu_peers :: "nat option"
  tu_status :: bytes
  tu_success :: bool

definition tracker_key :: "int \<Rightarrow> catalog \<Rightarrow> nat" where
  "tracker_key tid c = (case torrent_by_id c tid of None \<Rightarrow> 0 | Some r \<Rightarrow> tr_tracker_key r)"

definition set_tracker_key :: "int \<Rightarrow> nat \<Rightarrow> catalog \<Rightarrow> catalog_error + catalog" where
  "set_tracker_key tid key c =
     (if key = 0 then Inl Key_zero
      else if torrent_by_id c tid = None then Inl (Torrent_not_found tid)
      else Inr (update_torrent tid (\<lambda>r. r\<lparr>tr_tracker_key := key\<rparr>) c))"

definition ensure_tracker_key :: "nat \<Rightarrow> int \<Rightarrow> catalog \<Rightarrow> catalog_error + (nat \<times> catalog)" where
  "ensure_tracker_key random_key tid c =
     (if tracker_key tid c \<noteq> 0 then Inr (tracker_key tid c, c)
      else case set_tracker_key tid random_key c of Inl e \<Rightarrow> Inl e | Inr c \<Rightarrow> Inr (random_key, c))"

definition coalesce :: "nat option \<Rightarrow> int option \<Rightarrow> int option" where
  "coalesce new old = (case new of Some n \<Rightarrow> Some (int n) | None \<Rightarrow> old)"

definition apply_tracker_update :: "int \<Rightarrow> tracker_update \<Rightarrow> tracker_row \<Rightarrow> tracker_row" where
  "apply_tracker_update now u r =
     (let st = (if length (chars_of (tu_status u)) > 200 then utf8_encode (take 200 (chars_of (tu_status u))) else tu_status u)
      in if tu_success u then
           r\<lparr>kr_seeders := coalesce (tu_seeders u) (kr_seeders r), kr_leechers := coalesce (tu_leechers u) (kr_leechers r),
             kr_last_announce_at := Some now, kr_last_interval := coalesce (tu_interval u) (kr_last_interval r),
             kr_last_peers := coalesce (tu_peers u) (kr_last_peers r), kr_last_status := Some st\<rparr>
         else r\<lparr>kr_last_announce_at := Some now, kr_last_status := Some st\<rparr>)"

text \<open>SQL \<open>trim\<close> strips spaces, \<open>lower\<close> folds ASCII.\<close>

definition sql_trim :: "bytes \<Rightarrow> bytes" where
  "sql_trim s = rev (dropWhile (\<lambda>b. b = 0x20) (rev (dropWhile (\<lambda>b. b = 0x20) s)))"

definition record_tracker_announce_on :: "int \<Rightarrow> int \<Rightarrow> bytes \<Rightarrow> tracker_update \<Rightarrow> tracker_row list \<Rightarrow> tracker_row list" where
  "record_tracker_announce_on now tid url u t =
     (if list_ex (\<lambda>r. kr_torrent r = tid \<and> kr_url r = url) t
      then sql_update (\<lambda>r. kr_torrent r = tid \<and> kr_url r = url) (apply_tracker_update now u) t
      else
        case find (\<lambda>r. kr_torrent r = tid \<and> to_ascii_lowercase (sql_trim (kr_url r)) = to_ascii_lowercase (str_trim url)) t of
          None \<Rightarrow> t
        | Some k \<Rightarrow> sql_update (\<lambda>r. kr_id r = kr_id k) (apply_tracker_update now u) t)"

definition persist_after_announce ::
  "int \<Rightarrow> int \<Rightarrow> sock_addr list \<Rightarrow> sock_addr list \<Rightarrow> nat \<Rightarrow> (bytes \<times> tracker_update) option \<Rightarrow> catalog
     \<Rightarrow> catalog_error + catalog" where
  "persist_after_announce now tid tracker_peers manual_peers prune_keep tracker c =
     (if (tracker_peers \<noteq> [] \<or> manual_peers \<noteq> []) \<and> torrent_by_id c tid = None then Inl (Foreign_key tid)
      else
        let peers = ct_peers c;
            peers = (if tracker_peers = [] then peers
                     else prune_peer_cache_on tid prune_keep (upsert_peer_cache_on tid tracker_peers now peers));
            peers = (if manual_peers = [] then peers else upsert_peer_cache_on tid manual_peers now peers);
            trackers = (case tracker of None \<Rightarrow> ct_trackers c
                        | Some (url, u) \<Rightarrow> record_tracker_announce_on now tid url u (ct_trackers c))
        in Inr (c\<lparr>ct_peers := peers, ct_trackers := trackers\<rparr>))"

section \<open>Lifetime counters\<close>

definition stats_uploaded :: "int \<Rightarrow> catalog \<Rightarrow> nat" where
  "stats_uploaded tid c = (case ct_stats c tid of None \<Rightarrow> 0 | Some s \<Rightarrow> i64_as_u64 (max 0 (sr_uploaded s)))"

fun set_uploaded_batch :: "(int \<times> nat) list \<Rightarrow> catalog \<Rightarrow> catalog_error + catalog" where
  "set_uploaded_batch [] c = Inr c"
| "set_uploaded_batch ((tid, uploaded) # rows) c =
     (if torrent_by_id c tid = None then Inl (Foreign_key tid)
      else
        let s = stats_or_new c tid
        in set_uploaded_batch rows (c\<lparr>ct_stats := (ct_stats c)(tid \<mapsto>
             s\<lparr>sr_uploaded := max (sr_uploaded s) (u64_as_i64 uploaded)\<rparr>)\<rparr>))"

definition set_uploaded_at_least :: "int \<Rightarrow> nat \<Rightarrow> catalog \<Rightarrow> catalog_error + catalog" where
  "set_uploaded_at_least tid uploaded c = set_uploaded_batch [(tid, uploaded)] c"

section \<open>Settings\<close>

record session_limits =
  sl_max_upload_bps :: nat
  sl_max_download_bps :: nat
  sl_min_peers :: nat
  sl_max_peers :: nat

definition get_setting :: "string \<Rightarrow> catalog \<Rightarrow> bytes option" where
  "get_setting key c = ct_settings c key"

definition set_setting :: "string \<Rightarrow> bytes \<Rightarrow> catalog \<Rightarrow> catalog" where
  "set_setting key v c = c\<lparr>ct_settings := (ct_settings c)(key \<mapsto> v)\<rparr>"

definition parse_u32 :: "bytes \<Rightarrow> nat option" where
  "parse_u32 s = (case parse_usize s of None \<Rightarrow> None | Some n \<Rightarrow> if n \<le> u32_max then Some n else None)"

definition setting_or :: "(bytes \<Rightarrow> nat option) \<Rightarrow> nat \<Rightarrow> string \<Rightarrow> catalog \<Rightarrow> nat" where
  "setting_or parse dflt key c =
     (case get_setting key c of None \<Rightarrow> dflt | Some v \<Rightarrow> (case parse v of None \<Rightarrow> dflt | Some n \<Rightarrow> n))"

definition load_session_limits :: "catalog \<Rightarrow> session_limits" where
  "load_session_limits c =
     (let max_peers = max (setting_or parse_u32 40 ''max_peers'' c) 1
      in \<lparr>sl_max_upload_bps = setting_or parse_usize 0 ''max_upload_bps'' c,
          sl_max_download_bps = setting_or parse_usize 0 ''max_download_bps'' c,
          sl_min_peers = min (setting_or parse_u32 20 ''min_peers'' c) max_peers,
          sl_max_peers = max_peers\<rparr>)"

definition set_session_limits :: "session_limits \<Rightarrow> catalog \<Rightarrow> catalog" where
  "set_session_limits lim c =
     (let max_peers = max (sl_max_peers lim) 1; min_peers = min (sl_min_peers lim) max_peers
      in set_setting ''max_peers'' (dec max_peers) (set_setting ''min_peers'' (dec min_peers)
           (set_setting ''max_download_bps'' (dec (sl_max_download_bps lim))
             (set_setting ''max_upload_bps'' (dec (sl_max_upload_bps lim)) c))))"

end
