(* ===== verification/Catalog_Correct.thy ===== *)
theory Catalog_Correct
  imports Catalog_Store
begin

text \<open>
  What the catalog guarantees: its tables stay consistent under every operation, it records exactly the
  pieces reported to it, a torrent goes in and comes out as the layout the rest of the program relies on,
  and deleting and purging only remove what they should.
\<close>

section \<open>Invariant\<close>

definition row_pc :: "torrent_row \<Rightarrow> nat" where
  "row_pc r = i64_as_u32 (tr_piece_count r)"

text \<open>The stored bits and their count agree; a torrent not marked complete misses a piece.\<close>

definition bits_ok :: "torrent_row \<Rightarrow> bitfield_row option \<Rightarrow> bool" where
  "bits_ok r b \<longleftrightarrow> tr_complete r \<or>
     (case b of
        None \<Rightarrow> True
      | Some b \<Rightarrow>
          (case br_bits b of
             None \<Rightarrow> br_have_count b = 0
           | Some bits \<Rightarrow> bf_fits bits (row_pc r) \<and> br_have_count b = int (card (bf.members bits (row_pc r)))
               \<and> (0 < row_pc r \<longrightarrow> card (bf.members bits (row_pc r)) < row_pc r)))"

definition delete_ok :: "torrent_row \<Rightarrow> bool" where
  "delete_ok r \<longleftrightarrow> (tr_deleted r \<longleftrightarrow> tr_deleted_at r \<noteq> None) \<and> (tr_deleted r \<longrightarrow> \<not> tr_want_start r)"

definition torrent_ids :: "catalog \<Rightarrow> int set" where
  "torrent_ids c = tr_id ` set (ct_torrents c)"

definition keys_ok :: "catalog \<Rightarrow> bool" where
  "keys_ok c \<longleftrightarrow> distinct (map tr_id (ct_torrents c)) \<and> distinct (map tr_infohash (ct_torrents c))
     \<and> (\<forall>i \<in> torrent_ids c. 0 < i)
     \<and> distinct (map (\<lambda>p. (pr_torrent p, pr_addr p)) (ct_peers c))"

definition refs_ok :: "catalog \<Rightarrow> bool" where
  "refs_ok c \<longleftrightarrow> (\<forall>f \<in> set (ct_files c). fr_torrent f \<in> torrent_ids c)
     \<and> (\<forall>k \<in> set (ct_trackers c). kr_torrent k \<in> torrent_ids c)
     \<and> (\<forall>p \<in> set (ct_peers c). pr_torrent p \<in> torrent_ids c)
     \<and> dom (ct_hashes c) \<subseteq> torrent_ids c \<and> dom (ct_bitfield c) \<subseteq> torrent_ids c \<and> dom (ct_stats c) \<subseteq> torrent_ids c
     \<and> dom (ct_meta c) \<subseteq> torrent_ids c \<and> dom (ct_blobs c) \<subseteq> torrent_ids c"

definition rows_ok :: "catalog \<Rightarrow> bool" where
  "rows_ok c \<longleftrightarrow> (\<forall>r \<in> set (ct_torrents c). bits_ok r (ct_bitfield c (tr_id r)) \<and> delete_ok r)"

definition catalog_ok :: "catalog \<Rightarrow> bool" where
  "catalog_ok c \<longleftrightarrow> keys_ok c \<and> refs_ok c \<and> rows_ok c"

section \<open>Rows\<close>

lemma sql_update_map: "(\<And>r. key (f r) = key r) \<Longrightarrow> map key (sql_update P f t) = map key t"
  by (simp add: sql_update_def)

lemma set_sql_update: "set (sql_update P f t) = (\<lambda>r. if P r then f r else r) ` set t"
  by (simp add: sql_update_def)

lemma by_id_Some:
  assumes "keys_ok c"
  shows "torrent_by_id c tid = Some r \<longleftrightarrow> r \<in> set (ct_torrents c) \<and> tr_id r = tid"
proof -
  have "find P t = Some x \<longleftrightarrow> x \<in> set t \<and> P x" if "distinct (map tr_id t)" "P = (\<lambda>r. tr_id r = tid)" for P t and x :: torrent_row
    using that by (induction t) (auto simp: rev_image_eqI)
  then show ?thesis using assms by (simp add: torrent_by_id_def keys_ok_def)
qed

lemma by_id_None: "torrent_by_id c tid = None \<longleftrightarrow> tid \<notin> torrent_ids c"
  by (auto simp: torrent_by_id_def torrent_ids_def find_None_iff)

lemma by_id_update:
  assumes "\<And>r. tr_id (f r) = tr_id r"
  shows "torrent_by_id (update_torrent tid f c) i
    = (if i = tid then map_option f (torrent_by_id c i) else torrent_by_id c i)"
proof -
  have "find (\<lambda>r. tr_id r = i) (sql_update (\<lambda>r. tr_id r = tid) f t)
      = (if i = tid then map_option f (find (\<lambda>r. tr_id r = i) t) else find (\<lambda>r. tr_id r = i) t)" for t
    using assms by (induction t) (auto simp: sql_update_def)
  then show ?thesis by (simp add: torrent_by_id_def update_torrent_def)
qed

text \<open>The general change: one torrent's row and bitfield, nothing else that the invariant sees.\<close>

lemma ids_update [simp]:
  "(\<And>r. tr_id (f r) = tr_id r) \<Longrightarrow> torrent_ids (update_torrent tid f c) = torrent_ids c"
  using sql_update_map [of tr_id f "\<lambda>r. tr_id r = tid" "ct_torrents c"]
  by (simp add: torrent_ids_def update_torrent_def) (metis list.set_map)

lemma ok_row_change:
  assumes "catalog_ok c" "\<And>r. tr_id (f r) = tr_id r" "\<And>r. tr_infohash (f r) = tr_infohash r"
    and c': "ct_torrents c' = ct_torrents (update_torrent tid f c)" "ct_files c' = ct_files c" "ct_hashes c' = ct_hashes c"
      "ct_trackers c' = ct_trackers c" "ct_peers c' = ct_peers c" "ct_meta c' = ct_meta c" "ct_blobs c' = ct_blobs c"
      "\<And>i. i \<noteq> tid \<Longrightarrow> ct_bitfield c' i = ct_bitfield c i" "dom (ct_stats c') = dom (ct_stats c)"
    and tid: "tid \<notin> torrent_ids c \<Longrightarrow> ct_bitfield c' tid = None"
    and row: "\<And>r. torrent_by_id c tid = Some r \<Longrightarrow> bits_ok (f r) (ct_bitfield c' tid) \<and> delete_ok (f r)"
  shows "catalog_ok c'"
proof -
  have ids: "torrent_ids c' = torrent_ids c" using ids_update [of f tid c] assms(2) c'(1) by (simp add: torrent_ids_def)
  have "map tr_id (ct_torrents c') = map tr_id (ct_torrents c)" "map tr_infohash (ct_torrents c') = map tr_infohash (ct_torrents c)"
    using assms(2,3) by (simp_all add: c'(1) update_torrent_def sql_update_map)
  then have "keys_ok c'" using assms(1) ids c' unfolding catalog_ok_def keys_ok_def by simp
  moreover have "ct_bitfield c i \<noteq> None \<Longrightarrow> i \<in> torrent_ids c" for i
    using assms(1) by (auto simp: catalog_ok_def refs_ok_def)
  then have "dom (ct_bitfield c') \<subseteq> torrent_ids c"
    using c'(8) tid by (metis domIff subsetI)
  then have "refs_ok c'" using assms(1) ids c' by (auto simp: catalog_ok_def refs_ok_def)
  moreover have "rows_ok c'"
    unfolding rows_ok_def
  proof
    fix r assume "r \<in> set (ct_torrents c')"
    then obtain r0 where r0: "r0 \<in> set (ct_torrents c)" "r = (if tr_id r0 = tid then f r0 else r0)"
      by (auto simp: c'(1) update_torrent_def set_sql_update)
    then have "torrent_by_id c (tr_id r0) = Some r0" using by_id_Some assms(1) by (simp add: catalog_ok_def)
    then show "bits_ok r (ct_bitfield c' (tr_id r)) \<and> delete_ok r"
      using r0 row [of r0] c'(8) [of "tr_id r0"] assms(1,2) by (auto simp: catalog_ok_def rows_ok_def)
  qed
  ultimately show ?thesis by (simp add: catalog_ok_def)
qed

lemma ok_row_facts:
  assumes "catalog_ok c" "torrent_by_id c tid = Some r"
  shows "bits_ok r (ct_bitfield c tid)" "delete_ok r" "tid \<in> torrent_ids c" "tr_id r = tid"
  using assms by_id_Some [of c tid r] by (auto simp: catalog_ok_def rows_ok_def torrent_ids_def)

section \<open>Possession\<close>

definition have_pieces :: "catalog \<Rightarrow> int \<Rightarrow> nat set" where
  "have_pieces c tid =
     (case load_bitfield_state tid c of Inl e \<Rightarrow> {} | Inr (complete, bits, have, pc) \<Rightarrow> bf.members bits pc)"

lemma as_u32_nat [simp]: "n < 2 ^ 32 \<Longrightarrow> i64_as_u32 (int n) = n"
  by (simp add: i64_as_u32_def)

lemma i64_as_u32_0 [simp]: "i64_as_u32 0 = 0"
  by (simp add: i64_as_u32_def)

lemma row_pc_less: "row_pc r < 2 ^ 32"
  using pos_mod_bound [of "2 ^ 32" "tr_piece_count r"] by (simp add: row_pc_def i64_as_u32_def nat_less_iff)

lemma load_state:
  assumes "catalog_ok c" "torrent_by_id c tid = Some r"
  obtains bits where "load_bitfield_state tid c = Inr (tr_complete r, bits, card (bf.members bits (row_pc r)), row_pc r)"
    "bf_fits bits (row_pc r)" "tr_complete r \<longrightarrow> bf.members bits (row_pc r) = {..<row_pc r}"
    "\<not> tr_complete r \<longrightarrow> 0 < row_pc r \<longrightarrow> card (bf.members bits (row_pc r)) < row_pc r"
    "have_pieces c tid = bf.members bits (row_pc r)"
proof -
  note b = ok_row_facts(1) [OF assms]
  have "\<exists>bits. load_bitfield_state tid c = Inr (tr_complete r, bits, card (bf.members bits (row_pc r)), row_pc r)
     \<and> bf_fits bits (row_pc r) \<and> (tr_complete r \<longrightarrow> bf.members bits (row_pc r) = {..<row_pc r})
     \<and> (\<not> tr_complete r \<longrightarrow> 0 < row_pc r \<longrightarrow> card (bf.members bits (row_pc r)) < row_pc r)"
  proof (cases "tr_complete r")
    case True
    then show ?thesis by (intro exI [of _ "all_set_bitfield (row_pc r)"])
        (simp add: load_bitfield_state_def assms(2) row_pc_def [symmetric] Let_def)
  next
    case False
    have u: "i64_as_u32 (int (card (bf.members bits (row_pc r)))) = card (bf.members bits (row_pc r))" for bits
      using bf.card_members_le [of bits "row_pc r"] row_pc_less [of r] by simp
    show ?thesis
    proof (cases "ct_bitfield c tid")
      case None
      then show ?thesis using False by (intro exI [of _ "empty_bitfield (row_pc r)"])
          (simp add: load_bitfield_state_def assms(2) row_pc_def [symmetric] Let_def)
    next
      case (Some br)
      show ?thesis
      proof (cases "br_bits br")
        case None
        then show ?thesis using False Some b by (intro exI [of _ "empty_bitfield (row_pc r)"])
            (simp add: load_bitfield_state_def assms(2) row_pc_def [symmetric] Let_def bits_ok_def)
      next
        case (Some bits)
        then show ?thesis using False \<open>ct_bitfield c tid = Some br\<close> b u by (intro exI [of _ bits])
            (simp add: load_bitfield_state_def assms(2) row_pc_def [symmetric] Let_def bits_ok_def)
      qed
    qed
  qed
  then obtain bits where l: "load_bitfield_state tid c = Inr (tr_complete r, bits, card (bf.members bits (row_pc r)), row_pc r)"
     "bf_fits bits (row_pc r)" "tr_complete r \<longrightarrow> bf.members bits (row_pc r) = {..<row_pc r}"
     "\<not> tr_complete r \<longrightarrow> 0 < row_pc r \<longrightarrow> card (bf.members bits (row_pc r)) < row_pc r" by (elim exE conjE)
  have h: "have_pieces c tid = bf.members bits (row_pc r)" by (simp only: have_pieces_def l(1) sum.case prod.case)
  show thesis by (rule that [OF l h])
qed

lemma mark_items_spec:
  assumes "mark_items pc items (bits, hv, delta, changed) = (bits', hv', delta', changed')"
    "bf_fits bits pc" "hv = card (bf.members bits pc)" "\<forall>(i, n) \<in> set items. n = sz i"
  shows "bf.members bits' pc = bf.members bits pc \<union> {i. i < pc \<and> i \<in> fst ` set items}
    \<and> hv' = card (bf.members bits' pc) \<and> bf_fits bits' pc
    \<and> (changed' \<longleftrightarrow> changed \<or> bf.members bits' pc \<noteq> bf.members bits pc)
    \<and> delta' = delta + (\<Sum>i \<in> bf.members bits' pc - bf.members bits pc. int (sz i))"
  using assms
proof (induction pc items "(bits, hv, delta, changed)" arbitrary: bits hv delta changed rule: mark_items.induct)
  case (2 pc i n items bits hv delta changed)
  let ?M = "bf.members bits pc"
  show ?case
  proof (cases "i \<ge> pc \<or> bitfield_get bits i")
    case True
    then have "i < pc \<Longrightarrow> i \<in> ?M" by (auto simp: bf.members_def)
    with "2.hyps"(1) [OF True] "2.prems" True show ?thesis by auto
  next
    case False
    let ?b = "bitfield_set bits i"
    have m: "bf.members ?b pc = insert i ?M" "bf_fits ?b pc" "i \<notin> ?M"
      using False "2.prems"(2) by (auto simp: bf.members_set bf_fits_def) (auto simp: bf.members_def)
    then have "hv + 1 = card (bf.members ?b pc)" using "2.prems"(3) by simp
    from "2.hyps"(2) [OF False _ m(2) this] "2.prems" False have ih:
      "bf.members bits' pc = insert i ?M \<union> {i. i < pc \<and> i \<in> fst ` set items}"
      "hv' = card (bf.members bits' pc)" "bf_fits bits' pc" "changed'"
      "delta' = delta + int n + (\<Sum>i \<in> bf.members bits' pc - insert i ?M. int (sz i))"
      by (simp_all add: m(1))
    have "bf.members bits' pc - ?M = insert i (bf.members bits' pc - insert i ?M)" using ih(1) m(3) by auto
    then have "(\<Sum>i \<in> bf.members bits' pc - ?M. int (sz i)) = int (sz i) + (\<Sum>i \<in> bf.members bits' pc - insert i ?M. int (sz i))"
      by (metis Diff_iff finite_Diff bf.finite_members insertI1 sum.insert)
    moreover have "n = sz i" using "2.prems"(4) by simp
    ultimately have "delta' = delta + (\<Sum>i \<in> bf.members bits' pc - ?M. int (sz i))" using ih(5) by linarith
    moreover have "bf.members bits' pc = ?M \<union> {j. j < pc \<and> j \<in> fst ` set ((i, n) # items)}"
      using ih(1) False by auto
    moreover have "changed' \<longleftrightarrow> changed \<or> bf.members bits' pc \<noteq> ?M" using ih(1,4) m(3) by blast
    ultimately show ?thesis using ih(2,3) by (intro conjI)
  qed
qed simp

text \<open>The possession half of an operation on one torrent: its row's status and its bits.\<close>

lemma have_pieces_other:
  "torrent_by_id c' i = torrent_by_id c i \<Longrightarrow> ct_bitfield c' i = ct_bitfield c i \<Longrightarrow> have_pieces c' i = have_pieces c i"
  by (cases "torrent_by_id c i") (simp_all add: have_pieces_def load_bitfield_state_def Let_def)

lemma have_pieces_row:
  "torrent_by_id c i = Some r \<Longrightarrow> tr_complete r \<Longrightarrow> have_pieces c i = {..<row_pc r}"
  by (simp add: have_pieces_def load_bitfield_state_def row_pc_def Let_def)

lemma have_pieces_bits:
  "torrent_by_id c i = Some r \<Longrightarrow> \<not> tr_complete r \<Longrightarrow> ct_bitfield c i = Some \<lparr>br_bits = Some bits, br_have_count = n\<rparr> \<Longrightarrow>
   have_pieces c i = bf.members bits (row_pc r)"
  by (simp add: have_pieces_def load_bitfield_state_def row_pc_def Let_def)

definition complete_at :: "catalog \<Rightarrow> int \<Rightarrow> bool" where
  "complete_at c tid = (case torrent_by_id c tid of None \<Rightarrow> False | Some r \<Rightarrow> tr_complete r)"

definition downloaded_at :: "catalog \<Rightarrow> int \<Rightarrow> int" where
  "downloaded_at c tid = (case ct_stats c tid of None \<Rightarrow> 0 | Some s \<Rightarrow> sr_downloaded s)"

lemma stored_projections:
  "ct_torrents (put_bits t b n c) = ct_torrents c" "ct_torrents (add_downloaded t d c) = ct_torrents c"
  "ct_torrents (finish_stats w t c) = ct_torrents c" "torrent_by_id (put_bits t b n c) i = torrent_by_id c i"
  "torrent_by_id (add_downloaded t d c) i = torrent_by_id c i" "torrent_by_id (finish_stats w t c) i = torrent_by_id c i"
  "ct_bitfield (put_bits t b n c) = (ct_bitfield c)(t \<mapsto> \<lparr>br_bits = b, br_have_count = int n\<rparr>)"
  "ct_bitfield (add_downloaded t d c) = ct_bitfield c" "ct_bitfield (finish_stats w t c) = ct_bitfield c"
  "ct_bitfield (update_torrent t f c) = ct_bitfield c" "ct_stats (put_bits t b n c) = ct_stats c"
  "ct_stats (update_torrent t f c) = ct_stats c" "dom (ct_stats (add_downloaded t d c)) = dom (ct_stats c)"
  "dom (ct_stats (finish_stats w t c)) = dom (ct_stats c)"
  "downloaded_at (put_bits t b n c) i = downloaded_at c i" "downloaded_at (update_torrent t f c) i = downloaded_at c i"
  "downloaded_at (finish_stats w t c) i = downloaded_at c i"
  by (auto simp: put_bits_def add_downloaded_def finish_stats_def torrent_by_id_def update_torrent_def downloaded_at_def dom_def
      split: option.split)

lemma other_tables:
  "ct_files (put_bits t b n c) = ct_files c" "ct_files (add_downloaded t d c) = ct_files c"
  "ct_files (finish_stats w t c) = ct_files c" "ct_files (update_torrent t f c) = ct_files c"
  "ct_hashes (put_bits t b n c) = ct_hashes c" "ct_hashes (add_downloaded t d c) = ct_hashes c"
  "ct_hashes (finish_stats w t c) = ct_hashes c" "ct_hashes (update_torrent t f c) = ct_hashes c"
  "ct_trackers (put_bits t b n c) = ct_trackers c" "ct_trackers (add_downloaded t d c) = ct_trackers c"
  "ct_trackers (finish_stats w t c) = ct_trackers c" "ct_trackers (update_torrent t f c) = ct_trackers c"
  "ct_peers (put_bits t b n c) = ct_peers c" "ct_peers (add_downloaded t d c) = ct_peers c"
  "ct_peers (finish_stats w t c) = ct_peers c" "ct_peers (update_torrent t f c) = ct_peers c"
  "ct_meta (put_bits t b n c) = ct_meta c" "ct_meta (add_downloaded t d c) = ct_meta c"
  "ct_meta (finish_stats w t c) = ct_meta c" "ct_meta (update_torrent t f c) = ct_meta c"
  "ct_blobs (put_bits t b n c) = ct_blobs c" "ct_blobs (add_downloaded t d c) = ct_blobs c"
  "ct_blobs (finish_stats w t c) = ct_blobs c" "ct_blobs (update_torrent t f c) = ct_blobs c"
  by (simp_all add: put_bits_def add_downloaded_def finish_stats_def update_torrent_def)

lemma add_downloaded_at:
  "downloaded_at (add_downloaded t d c) i = downloaded_at c i + (if i = t \<and> ct_stats c t \<noteq> None then d else 0)"
  by (simp add: add_downloaded_def downloaded_at_def split: option.split)

lemmas store_simps = stored_projections other_tables

text \<open>What an operation on the pieces of torrent \<open>tid\<close> may touch.\<close>

definition pieces_frame :: "int \<Rightarrow> catalog \<Rightarrow> catalog \<Rightarrow> bool" where
  "pieces_frame tid c c' \<longleftrightarrow> torrent_ids c' = torrent_ids c \<and> dom (ct_stats c') = dom (ct_stats c)
     \<and> (\<forall>i. map_option row_pc (torrent_by_id c' i) = map_option row_pc (torrent_by_id c i))
     \<and> (\<forall>i. i \<noteq> tid \<longrightarrow> torrent_by_id c' i = torrent_by_id c i \<and> have_pieces c' i = have_pieces c i
              \<and> downloaded_at c' i = downloaded_at c i)"

lemma pieces_frame_refl [simp]: "pieces_frame tid c c"
  by (simp add: pieces_frame_def)

lemma complete_iff_full:
  assumes "catalog_ok c" "torrent_by_id c tid = Some r" "0 < row_pc r"
  shows "tr_complete r \<longleftrightarrow> have_pieces c tid = {..<row_pc r}"
proof -
  obtain bits where l: "load_bitfield_state tid c = Inr (tr_complete r, bits, card (bf.members bits (row_pc r)), row_pc r)"
    "bf_fits bits (row_pc r)" "tr_complete r \<longrightarrow> bf.members bits (row_pc r) = {..<row_pc r}"
    "\<not> tr_complete r \<longrightarrow> 0 < row_pc r \<longrightarrow> card (bf.members bits (row_pc r)) < row_pc r"
    "have_pieces c tid = bf.members bits (row_pc r)"
    by (rule load_state [OF assms(1,2)])
  show ?thesis
  proof (cases "tr_complete r")
    case False
    from l(4) [rule_format, OF False assms(3)] have "card (have_pieces c tid) < row_pc r" unfolding l(5) .
    then have "have_pieces c tid \<noteq> {..<row_pc r}" by (metis card_lessThan less_irrefl)
    with False show ?thesis by blast
  next
    case True
    then show ?thesis using l(3) l(5) by blast
  qed
qed

lemma mark_torrent_pieces_spec:
  assumes ok: "catalog_ok c" and r: "torrent_by_id c tid = Some r" and sz: "\<forall>(i, n) \<in> set items. n = sz i"
  shows "\<exists>b c'. mark_torrent_pieces now tid items c = Inr (b, c') \<and> catalog_ok c' \<and> pieces_frame tid c c'
    \<and> have_pieces c' tid = have_pieces c tid \<union> {i. i < row_pc r \<and> i \<in> fst ` set items}
    \<and> (b \<longleftrightarrow> complete_at c' tid \<and> \<not> complete_at c tid) \<and> (complete_at c tid \<longrightarrow> complete_at c' tid)
    \<and> (ct_stats c tid \<noteq> None \<longrightarrow>
         downloaded_at c' tid = downloaded_at c tid + (\<Sum>i \<in> have_pieces c' tid - have_pieces c tid. int (sz i)))"
proof -
  obtain bits where l: "load_bitfield_state tid c = Inr (tr_complete r, bits, card (bf.members bits (row_pc r)), row_pc r)"
    "bf_fits bits (row_pc r)" "tr_complete r \<longrightarrow> bf.members bits (row_pc r) = {..<row_pc r}"
    "\<not> tr_complete r \<longrightarrow> 0 < row_pc r \<longrightarrow> card (bf.members bits (row_pc r)) < row_pc r"
    "have_pieces c tid = bf.members bits (row_pc r)"
    by (rule load_state [OF ok r])
  note f = ok_row_facts [OF ok r]
  show ?thesis
  proof (cases "tr_complete r \<or> row_pc r = 0")
    case True
    then have "{i. i < row_pc r \<and> i \<in> fst ` set items} \<subseteq> have_pieces c tid"
      unfolding l(5) using l(3) by (metis (no_types, lifting) lessThan_iff mem_Collect_eq not_less_zero subsetI)
    then have "have_pieces c tid = have_pieces c tid \<union> {i. i < row_pc r \<and> i \<in> fst ` set items}" by blast
    moreover have "mark_torrent_pieces now tid items c = Inr (False, c)" using True by (simp add: mark_torrent_pieces_def l(1))
    ultimately show ?thesis using ok by (intro exI [of _ False] exI [of _ c]) auto
  next
    case notfull: False
    obtain b' n' d' ch where m: "mark_items (row_pc r) items (bits, card (bf.members bits (row_pc r)), 0, False) = (b', n', d', ch)"
      by (rule prod_cases4)
    from mark_items_spec [OF m l(2) refl sz] have s:
      "bf.members b' (row_pc r) = have_pieces c tid \<union> {i. i < row_pc r \<and> i \<in> fst ` set items}"
      "n' = card (bf.members b' (row_pc r))" "bf_fits b' (row_pc r)"
      "ch \<longleftrightarrow> bf.members b' (row_pc r) \<noteq> have_pieces c tid"
      "d' = (\<Sum>i \<in> bf.members b' (row_pc r) - have_pieces c tid. int (sz i))"
      by (simp_all only: l(5) simp_thms add_0)
    have d0: "0 \<le> d'" unfolding s(5) by (intro sum_nonneg) simp
    show ?thesis
    proof (cases ch)
      case False
      then have "mark_torrent_pieces now tid items c = Inr (False, c)"
        using notfull m by (simp add: mark_torrent_pieces_def l(1))
      then show ?thesis using s(1,4) False ok by (intro exI [of _ False] exI [of _ c]) auto
    next
      case True
      define c1 where "c1 = put_bits tid (if n' \<ge> row_pc r then None else Some b') n' c"
      define c2 where "c2 = (if d' > 0 then add_downloaded tid d' c1 else c1)"
      have c2: "ct_torrents c2 = ct_torrents c" "torrent_by_id c2 i = torrent_by_id c i"
        "ct_bitfield c2 = (ct_bitfield c)(tid \<mapsto> \<lparr>br_bits = (if n' \<ge> row_pc r then None else Some b'), br_have_count = int n'\<rparr>)"
        "dom (ct_stats c2) = dom (ct_stats c)"
        "ct_stats c tid \<noteq> None \<Longrightarrow> downloaded_at c2 i = downloaded_at c i + (if i = tid then d' else 0)"
        "i \<noteq> tid \<Longrightarrow> downloaded_at c2 i = downloaded_at c i"
        "ct_files c2 = ct_files c" "ct_hashes c2 = ct_hashes c" "ct_trackers c2 = ct_trackers c" "ct_peers c2 = ct_peers c"
        "ct_meta c2 = ct_meta c" "ct_blobs c2 = ct_blobs c" for i
        using d0 by (simp_all add: c2_def c1_def store_simps add_downloaded_at)
      have run: "mark_torrent_pieces now tid items c =
          (if n' \<ge> row_pc r then Inr (True, put_bits tid None (row_pc r) (finish_stats now tid
              (update_torrent tid (\<lambda>r. r\<lparr>tr_complete := True, tr_state := ''started''\<rparr>) c2)))
           else if card (bf.members bits (row_pc r)) = 0 then
             Inr (False, update_torrent tid (\<lambda>r. r\<lparr>tr_state := ''started'', tr_complete := False\<rparr>) c2)
           else Inr (False, c2))"
        using notfull m True by (simp add: mark_torrent_pieces_def l(1) Let_def c2_def c1_def)
      have conclude: ?thesis
        if "catalog_ok c'" "pieces_frame tid c c'" "mark_torrent_pieces now tid items c = Inr (b, c')"
          "have_pieces c' tid = bf.members b' (row_pc r)" "b \<longleftrightarrow> complete_at c' tid"
          "ct_stats c tid \<noteq> None \<Longrightarrow> downloaded_at c' tid = downloaded_at c tid + d'" for b c'
        using that notfull s(1,5) by (intro exI [of _ b] exI [of _ c']) (simp add: complete_at_def r)
      have frame: "pieces_frame tid c c'"
        if "ct_torrents c' = ct_torrents (update_torrent tid g c)" "\<And>r. tr_id (g r) = tr_id r" "\<And>r. row_pc (g r) = row_pc r"
          "dom (ct_stats c') = dom (ct_stats c)" "\<And>i. i \<noteq> tid \<Longrightarrow> ct_bitfield c' i = ct_bitfield c i"
          "\<And>i. i \<noteq> tid \<Longrightarrow> downloaded_at c' i = downloaded_at c i" for c' g
      proof -
        have b: "torrent_by_id c' i = (if i = tid then map_option g (torrent_by_id c i) else torrent_by_id c i)" for i
          using by_id_update [of g tid c i] that(1,2) by (simp add: torrent_by_id_def)
        have "torrent_ids c' = torrent_ids c" using ids_update [of g tid c] that(1,2) by (simp add: torrent_ids_def)
        then show ?thesis
          using that(3-6) b have_pieces_other [of c' _ c]
          by (auto simp: pieces_frame_def option.map_comp comp_def)
      qed
      show ?thesis
      proof (cases "n' \<ge> row_pc r")
        case full: True
        let ?g = "\<lambda>r. r\<lparr>tr_complete := True, tr_state := ''started''\<rparr>"
        let ?c = "put_bits tid None (row_pc r) (finish_stats now tid (update_torrent tid ?g c2))"
        have t: "ct_torrents ?c = ct_torrents (update_torrent tid ?g c)"
          by (simp add: store_simps) (simp add: update_torrent_def c2)
        then have b: "torrent_by_id ?c tid = Some (?g r)"
          using by_id_update [of ?g tid c tid] r by (simp add: torrent_by_id_def)
        have "catalog_ok ?c"
          by (rule ok_row_change [OF ok _ _ t]) (use f r in \<open>simp_all add: store_simps c2 bits_ok_def delete_ok_def\<close>)
        moreover have "pieces_frame tid c ?c"
          by (rule frame [OF t]) (simp_all add: store_simps c2 row_pc_def)
        moreover have "bf.members b' (row_pc r) = {..<row_pc r}"
          using full s(2) bf.card_members_le [of b' "row_pc r"] bf.members_full [of b' "row_pc r"] by simp
        then have "have_pieces ?c tid = bf.members b' (row_pc r)" using have_pieces_row [OF b] by (simp add: row_pc_def)
        ultimately show ?thesis
          using full b c2(5) by (intro conclude [of ?c True]) (simp_all add: run complete_at_def store_simps)
      next
        case part: False
        have bits: "bits_ok r' (Some \<lparr>br_bits = Some b', br_have_count = int n'\<rparr>)" if "row_pc r' = row_pc r" for r'
          using part s(2,3) that by (simp add: bits_ok_def)
        define g :: "torrent_row \<Rightarrow> torrent_row" where "g = (\<lambda>r'. if card (bf.members bits (row_pc r)) = 0 then r'\<lparr>tr_state := ''started'', tr_complete := False\<rparr> else r')"
        have g: "tr_id (g r') = tr_id r'" "tr_infohash (g r') = tr_infohash r'" "row_pc (g r') = row_pc r'" "delete_ok (g r') = delete_ok r'" for r'
          by (simp_all add: g_def row_pc_def delete_ok_def)
        let ?c = "update_torrent tid g c2"
        have t: "ct_torrents ?c = ct_torrents (update_torrent tid g c)" by (simp add: update_torrent_def c2)
        then have b: "torrent_by_id ?c tid = Some (g r)"
          using by_id_update [of g tid c tid] r g(1) by (simp add: torrent_by_id_def)
        have nc: "\<not> tr_complete (g r)" using notfull by (simp add: g_def)
        have "catalog_ok ?c"
          by (rule ok_row_change [OF ok g(1,2) t]) (use f r part bits g in \<open>simp_all add: store_simps c2\<close>)
        moreover have "pieces_frame tid c ?c"
          by (rule frame [OF t]) (simp_all add: store_simps c2 g)
        moreover have "mark_torrent_pieces now tid items c = Inr (False, ?c)"
          using part by (simp add: run g_def) (simp add: update_torrent_def sql_update_def)
        moreover have "have_pieces ?c tid = bf.members b' (row_pc r)"
          using have_pieces_bits [OF b nc, of b' "int n'"] part by (simp add: store_simps c2 g)
        ultimately show ?thesis
          using b nc c2(5) by (intro conclude [of ?c False]) (simp_all add: complete_at_def store_simps)
      qed
    qed
  qed
qed

section \<open>A batch of reported pieces\<close>

definition pc_at :: "catalog \<Rightarrow> int \<Rightarrow> nat" where
  "pc_at c t = (case torrent_by_id c t of None \<Rightarrow> 0 | Some r \<Rightarrow> row_pc r)"

definition reported :: "(int \<times> nat \<times> nat) list \<Rightarrow> int \<Rightarrow> nat set" where
  "reported pieces t = {i. \<exists>n. (t, i, n) \<in> set pieces}"

text \<open>What a batch does to the torrents \<open>ts\<close>, and that it leaves the others alone.\<close>

definition batch_frame :: "int set \<Rightarrow> catalog \<Rightarrow> catalog \<Rightarrow> bool" where
  "batch_frame ts c c' \<longleftrightarrow> torrent_ids c' = torrent_ids c \<and> dom (ct_stats c') = dom (ct_stats c)
     \<and> (\<forall>t. pc_at c' t = pc_at c t)
     \<and> (\<forall>t. t \<notin> ts \<longrightarrow> have_pieces c' t = have_pieces c t \<and> complete_at c' t = complete_at c t
              \<and> downloaded_at c' t = downloaded_at c t)"

definition torrent_effect ::
  "(int \<times> nat \<times> nat) list \<Rightarrow> (int \<Rightarrow> nat \<Rightarrow> nat) \<Rightarrow> int \<Rightarrow> catalog \<Rightarrow> bool \<Rightarrow> catalog \<Rightarrow> bool" where
  "torrent_effect pieces sz t c became c' \<longleftrightarrow>
     have_pieces c' t = have_pieces c t \<union> {i. i < pc_at c t \<and> i \<in> reported pieces t}
     \<and> (became \<longleftrightarrow> complete_at c' t \<and> \<not> complete_at c t)
     \<and> (ct_stats c t \<noteq> None \<longrightarrow>
           downloaded_at c' t = downloaded_at c t + (\<Sum>i \<in> have_pieces c' t - have_pieces c t. int (sz t i)))"

lemma batch_items_set: "fst ` set (batch_items t pieces) = reported pieces t"
  by (force simp: batch_items_def reported_def)

lemma frame_batch:
  assumes "pieces_frame t c c'"
  shows "batch_frame {t} c c'"
proof -
  have "map_option row_pc (torrent_by_id c' i) = map_option row_pc (torrent_by_id c i)" for i
    using assms by (simp add: pieces_frame_def)
  then have "pc_at c' i = pc_at c i" for i
    by (metis (no_types, lifting) pc_at_def option.case_eq_if option.map_disc_iff option.map_sel option.distinct(1))
  then show ?thesis using assms by (simp add: pieces_frame_def batch_frame_def complete_at_def)
qed

lemma mark_torrent_effect:
  assumes "catalog_ok c" "t \<in> torrent_ids c" "\<forall>(t, i, n) \<in> set pieces. n = sz t i"
  shows "\<exists>b c'. mark_torrent_pieces now t (batch_items t pieces) c = Inr (b, c') \<and> catalog_ok c'
    \<and> batch_frame {t} c c' \<and> torrent_effect pieces sz t c b c'"
proof -
  obtain r where r: "torrent_by_id c t = Some r" using assms(2) by_id_None by blast
  have "\<forall>(i, n) \<in> set (batch_items t pieces). n = sz t i" using assms(3) by (auto simp: batch_items_def)
  from mark_torrent_pieces_spec [OF assms(1) r this, of now] show ?thesis
    by (auto simp: torrent_effect_def batch_items_set pc_at_def r dest: frame_batch)
qed

lemma mark_batch_spec:
  assumes "catalog_ok c" "set ts \<subseteq> torrent_ids c" "distinct ts" "\<forall>(t, i, n) \<in> set pieces. n = sz t i"
  shows "\<exists>done' c'. mark_batch now pieces ts c = Inr (done', c') \<and> catalog_ok c' \<and> batch_frame (set ts) c c'
    \<and> set done' \<subseteq> set ts \<and> (\<forall>t \<in> set ts. torrent_effect pieces sz t c (t \<in> set done') c')"
  using assms
proof (induction ts arbitrary: c)
  case (Cons t ts)
  obtain b c1 where s: "mark_torrent_pieces now t (batch_items t pieces) c = Inr (b, c1)" "catalog_ok c1"
    "batch_frame {t} c c1" "torrent_effect pieces sz t c b c1"
    using mark_torrent_effect [OF Cons.prems(1) _ Cons.prems(4)] Cons.prems(2) by (metis insert_subset list.set(2))
  have "set ts \<subseteq> torrent_ids c1" "distinct ts" using Cons.prems s(3) by (simp_all add: batch_frame_def)
  from Cons.IH [OF s(2) this Cons.prems(4)] obtain done' c' where i: "mark_batch now pieces ts c1 = Inr (done', c')"
    "catalog_ok c'" "batch_frame (set ts) c1 c'" "set done' \<subseteq> set ts"
    "\<forall>t \<in> set ts. torrent_effect pieces sz t c1 (t \<in> set done') c'" by (elim exE conjE)
  have t: "t \<notin> set ts" "t \<notin> set done'" using Cons.prems(3) i(4) by auto
  have frame: "batch_frame (set (t # ts)) c c'" using s(3) i(3) by (simp add: batch_frame_def)
  have "torrent_effect pieces sz t c b c'" using s(4) i(3) t(1) by (simp add: torrent_effect_def batch_frame_def)
  moreover have "torrent_effect pieces sz t' c (t' \<in> set done') c'" if "t' \<in> set ts" for t'
  proof -
    have "t' \<noteq> t" using that t(1) by blast
    then have "have_pieces c1 t' = have_pieces c t'" "complete_at c1 t' = complete_at c t'"
      "downloaded_at c1 t' = downloaded_at c t'" "pc_at c1 t' = pc_at c t'" "ct_stats c1 t' \<noteq> None \<longleftrightarrow> ct_stats c t' \<noteq> None"
      using s(3) by (auto simp: batch_frame_def)
    then show ?thesis using i(5) that by (simp add: torrent_effect_def)
  qed
  ultimately have "\<forall>t' \<in> set (t # ts). torrent_effect pieces sz t' c (t' \<in> set (if b then t # done' else done')) c'"
    using t by (intro ballI) (metis list.set_intros(1) insert_iff list.set(2))
  then show ?case using s(1) i(1,2,4) frame
    by (intro exI [of _ "if b then t # done' else done'"] exI [of _ c']) auto
qed (simp add: batch_frame_def)

lemma batch_order_set: "set (batch_order pieces) = fst ` set pieces" "distinct (batch_order pieces)"
  by (simp_all add: batch_order_def)

text \<open>C27. One transaction records exactly the pieces reported to it: it succeeds for known torrents and keeps
  the catalog consistent, every torrent then has the pieces it had and the reported ones within its piece
  count, the torrents returned are those that this batch completed, and the lifetime
  download counter grows by the sizes of the new pieces, so a piece reported twice counts once.\<close>

theorem catalog_records_pieces:
  assumes "catalog_ok c" "\<forall>(t, i, n) \<in> set pieces. t \<in> torrent_ids c \<and> n = sz t i"
  shows "\<exists>done' c'. mark_pieces_have_batch now pieces c = Inr (done', c') \<and> catalog_ok c'
    \<and> (\<forall>t. have_pieces c' t = have_pieces c t \<union> {i. i < pc_at c t \<and> i \<in> reported pieces t})
    \<and> (\<forall>t. t \<in> set done' \<longleftrightarrow> complete_at c' t \<and> \<not> complete_at c t)
    \<and> (\<forall>t. ct_stats c t \<noteq> None \<longrightarrow>
           downloaded_at c' t = downloaded_at c t + (\<Sum>i \<in> have_pieces c' t - have_pieces c t. int (sz t i)))"
proof -
  have "set (batch_order pieces) \<subseteq> torrent_ids c" "\<forall>(t, i, n) \<in> set pieces. n = sz t i"
    using assms(2) by (auto simp: batch_order_set)
  from mark_batch_spec [OF assms(1) this(1) batch_order_set(2) this(2), of now]
  obtain done' c' where b: "mark_batch now pieces (batch_order pieces) c = Inr (done', c')" "catalog_ok c'"
    "batch_frame (fst ` set pieces) c c'" "set done' \<subseteq> fst ` set pieces"
    "\<forall>t \<in> fst ` set pieces. torrent_effect pieces sz t c (t \<in> set done') c'"
    unfolding batch_order_set by (elim exE conjE)
  have e: "torrent_effect pieces sz t c (t \<in> set done') c'" for t
  proof (cases "t \<in> fst ` set pieces")
    case False
    then have "reported pieces t = {}" "t \<notin> set done'" using b(4) by (force simp: reported_def)+
    then show ?thesis using b(3) False by (simp add: torrent_effect_def batch_frame_def)
  qed (use b(5) in blast)
  have "mark_pieces_have_batch now pieces c = Inr (done', c')"
    using b(1) by (auto simp: mark_pieces_have_batch_def batch_order_def)
  with b(2) e show ?thesis unfolding torrent_effect_def by blast
qed

section \<open>The startup audit\<close>

definition on_disk :: "(fs_path \<Rightarrow> fs_stat) \<Rightarrow> storage_layout \<Rightarrow> bool" where
  "on_disk fs lay \<longleftrightarrow> (\<forall>f \<in> set (files lay). fs (absolute lay (fl_path f)) = Stat_file (fl_size f))"

lemma check_files_None:
  "check_files fs lay l = None \<longleftrightarrow> (\<forall>f \<in> set l. fs (absolute lay (fl_path f)) = Stat_file (fl_size f))"
  by (induction l) (auto simp: stat_problem_def split: fs_stat.splits option.splits)

definition audited :: "(fs_path \<Rightarrow> fs_stat) \<Rightarrow> catalog \<Rightarrow> int \<Rightarrow> bool" where
  "audited fs c tid \<longleftrightarrow> (\<exists>lay. load_storage_layout tid c = Inr lay \<and> on_disk fs lay)"

lemma audit_problem_None: "audit_problem err fs tid c = None \<longleftrightarrow> audited fs c tid"
  by (auto simp: audit_problem_def audited_def check_complete_layout_def check_files_None on_disk_def split: sum.split)

definition demote :: "string \<Rightarrow> torrent_row \<Rightarrow> torrent_row" where
  "demote msg r = r\<lparr>tr_complete := False, tr_want_start := False, tr_state := ''stopped'', tr_error_msg := Some msg\<rparr>"

text \<open>What demoting some torrents leaves as it was.\<close>

definition demoted_from :: "int set \<Rightarrow> catalog \<Rightarrow> catalog \<Rightarrow> bool" where
  "demoted_from D c c' \<longleftrightarrow> torrent_ids c' = torrent_ids c \<and> ct_meta c' = ct_meta c \<and> ct_files c' = ct_files c
     \<and> (\<forall>i. i \<notin> D \<longrightarrow> torrent_by_id c' i = torrent_by_id c i \<and> have_pieces c' i = have_pieces c i)
     \<and> (\<forall>i \<in> D. \<forall>r. torrent_by_id c i = Some r \<longrightarrow> (\<exists>msg. torrent_by_id c' i = Some (demote msg r)))
     \<and> (\<forall>i \<in> D. have_pieces c' i = {})"

lemma demoted_layout:
  assumes "demoted_from D c c'"
  shows "load_storage_layout i c' = load_storage_layout i c"
proof (cases "torrent_by_id c i")
  case None
  then have "torrent_by_id c' i = None" using assms by (metis by_id_None demoted_from_def)
  then show ?thesis using None by (simp add: load_storage_layout_def)
next
  case (Some r)
  have "\<exists>msg. torrent_by_id c' i = Some r \<or> torrent_by_id c' i = Some (demote msg r)"
    using assms Some by (cases "i \<in> D") (auto simp: demoted_from_def)
  then show ?thesis using Some assms
    by (auto simp: load_storage_layout_def demoted_from_def demote_def file_rows_def split: option.split)
qed

lemma mark_incomplete_spec:
  assumes ok: "catalog_ok c" and r: "torrent_by_id c tid = Some r"
  shows "\<exists>c'. mark_incomplete_storage_problem tid msg c = Inr c' \<and> catalog_ok c' \<and> demoted_from {tid} c c'"
proof -
  let ?c = "update_torrent tid (demote msg) (put_bits tid None 0 c)"
  have t: "ct_torrents ?c = ct_torrents (update_torrent tid (demote msg) c)" by (simp add: update_torrent_def put_bits_def)
  have keep: "tr_id (demote msg x) = tr_id x" "tr_infohash (demote msg x) = tr_infohash x" "row_pc (demote msg x) = row_pc x" for x
    by (simp_all add: demote_def row_pc_def)
  have b: "torrent_by_id ?c i = (if i = tid then map_option (demote msg) (torrent_by_id c i) else torrent_by_id c i)" for i
    using by_id_update [of "demote msg" tid c i] keep(1) t by (simp add: torrent_by_id_def)
  have "catalog_ok ?c"
    by (rule ok_row_change [OF ok keep(1,2) t])
      (use ok_row_facts [OF ok r] r in \<open>simp_all add: store_simps bits_ok_def delete_ok_def demote_def\<close>)
  moreover have "have_pieces ?c tid = {}"
    by (simp add: have_pieces_def load_bitfield_state_def b r store_simps Let_def) (simp add: demote_def)
  moreover have "torrent_ids ?c = torrent_ids c" using ids_update [of "demote msg" tid c] keep(1) t by (simp add: torrent_ids_def)
  moreover have "ct_meta ?c = ct_meta c" "ct_files ?c = ct_files c" by (simp_all add: store_simps)
  moreover have "have_pieces ?c i = have_pieces c i" if "i \<noteq> tid" for i
    by (rule have_pieces_other) (use that b in \<open>simp_all add: store_simps\<close>)
  ultimately have "catalog_ok ?c \<and> demoted_from {tid} c ?c" using r b by (auto simp: demoted_from_def)
  moreover have "mark_incomplete_storage_problem tid msg c = Inr ?c"
    using r by (simp add: mark_incomplete_storage_problem_def demote_def [abs_def])
  ultimately show ?thesis by blast
qed

lemma demoted_audit: "demoted_from D c c' \<Longrightarrow> audit_problem err fs i c' = audit_problem err fs i c"
  by (simp add: audit_problem_def demoted_layout)

lemma demoted_insert:
  assumes "demoted_from {i} c c1" "demoted_from D c1 c2" "i \<notin> D"
  shows "demoted_from (insert i D) c c2"
proof -
  have "torrent_by_id c2 i = torrent_by_id c1 i" "have_pieces c2 i = have_pieces c1 i"
    using assms(2,3) by (simp_all add: demoted_from_def)
  then show ?thesis using assms by (auto simp: demoted_from_def)
qed

lemma audit_loop_spec:
  assumes "catalog_ok c" "set ids \<subseteq> torrent_ids c" "distinct ids"
  shows "\<exists>c' D. audit_loop err fs ids n c = Inr (n + card D, c') \<and> catalog_ok c' \<and> demoted_from D c c'
    \<and> D = {i \<in> set ids. \<not> audited fs c i}"
  using assms
proof (induction ids arbitrary: n c)
  case (Cons i ids)
  show ?case
  proof (cases "audit_problem err fs i c")
    case None
    then have "{j \<in> set (i # ids). \<not> audited fs c j} = {j \<in> set ids. \<not> audited fs c j}" by (auto simp: audit_problem_None)
    then show ?thesis using Cons.IH [of c n] Cons.prems None by simp
  next
    case (Some msg)
    obtain r where "torrent_by_id c i = Some r" using Cons.prems(2) by_id_None by fastforce
    from mark_incomplete_spec [OF Cons.prems(1) this] obtain c1 where c1:
      "mark_incomplete_storage_problem i msg c = Inr c1" "catalog_ok c1" "demoted_from {i} c c1" by blast
    have "set ids \<subseteq> torrent_ids c1" "distinct ids" using Cons.prems c1(3) by (simp_all add: demoted_from_def)
    from Cons.IH [OF c1(2) this, of "n + 1"] obtain c2 D where c2: "audit_loop err fs ids (n + 1) c1 = Inr (n + 1 + card D, c2)"
      "catalog_ok c2" "demoted_from D c1 c2" "D = {j \<in> set ids. \<not> audited fs c1 j}" by (elim exE conjE)
    have "audited fs c1 j = audited fs c j" for j using demoted_layout [OF c1(3)] by (simp add: audited_def)
    then have D: "{j \<in> set (i # ids). \<not> audited fs c j} = insert i D"
      using c2(4) Some audit_problem_None [of err fs i c] by auto
    have "i \<notin> D" using Cons.prems(3) c2(4) by auto
    then have "demoted_from (insert i D) c c2" "card (insert i D) = Suc (card D)"
      using demoted_insert [OF c1(3) c2(3)] c2(4) by simp_all
    then show ?thesis using c1(1) c2(1,2) Some D by (intro exI [of _ c2] exI [of _ "insert i D"]) simp
  qed
qed (simp add: demoted_from_def)

lemma audit_ids_set:
  assumes "catalog_ok c"
  shows "set (audit_ids c) = {i. \<exists>r. torrent_by_id c i = Some r \<and> tr_complete r \<and> \<not> tr_deleted r}" "distinct (audit_ids c)"
    "set (audit_ids c) \<subseteq> torrent_ids c"
proof -
  have k: "keys_ok c" using assms by (simp add: catalog_ok_def)
  show "set (audit_ids c) = {i. \<exists>r. torrent_by_id c i = Some r \<and> tr_complete r \<and> \<not> tr_deleted r}"
    "set (audit_ids c) \<subseteq> torrent_ids c"
    using by_id_Some [OF k] by (auto simp: audit_ids_def torrent_ids_def)
  have "inj_on tr_id (set (ct_torrents c))" "distinct (ct_torrents c)"
    using k by (simp_all add: keys_ok_def distinct_map)
  then show "distinct (audit_ids c)"
    by (auto simp: audit_ids_def distinct_map intro: inj_on_subset)
qed

text \<open>C28. After the startup audit the program seeds only what is on disk: the audit succeeds, a torrent still marked complete and not
  deleted has a layout all of whose files exist as regular files of exactly the expected size; the torrents that failed
  are exactly those demoted, stopped with a message and without any piece; every other torrent
  is untouched.\<close>

theorem audit_leaves_only_whole_torrents:
  assumes "catalog_ok c"
  shows "\<exists>n c'. audit_complete_storage err fs c = Inr (length (audit_ids c), n, c') \<and> catalog_ok c'
    \<and> (\<forall>i r. torrent_by_id c' i = Some r \<and> tr_complete r \<and> \<not> tr_deleted r \<longrightarrow>
         (\<exists>lay. load_storage_layout i c' = Inr lay \<and>
            (\<forall>f \<in> set (files lay). fs (absolute lay (fl_path f)) = Stat_file (fl_size f))))
    \<and> n = card {i \<in> set (audit_ids c). \<not> audited fs c i}
    \<and> (\<forall>i. if i \<in> set (audit_ids c) \<and> \<not> audited fs c i
           then have_pieces c' i = {} \<and> (\<exists>r. torrent_by_id c' i = Some r \<and> \<not> tr_complete r \<and> \<not> tr_want_start r \<and> tr_error_msg r \<noteq> None)
           else torrent_by_id c' i = torrent_by_id c i \<and> have_pieces c' i = have_pieces c i)"
proof -
  note ids = audit_ids_set [OF assms]
  from audit_loop_spec [OF assms ids(3,2), of err fs 0] obtain c' D where
    a: "audit_loop err fs (audit_ids c) 0 c = Inr (card D, c')" "catalog_ok c'" "demoted_from D c c'"
    "D = {i \<in> set (audit_ids c). \<not> audited fs c i}" by auto
  have run: "audit_complete_storage err fs c = Inr (length (audit_ids c), card D, c')"
    by (simp add: audit_complete_storage_def a(1))
  have demoted: "have_pieces c' i = {} \<and> (\<exists>r. torrent_by_id c' i = Some r \<and> \<not> tr_complete r \<and> \<not> tr_want_start r \<and> tr_error_msg r \<noteq> None)"
    if i: "i \<in> D" for i
  proof -
    obtain r where "torrent_by_id c i = Some r" using i a(4) ids(1) by auto
    then obtain msg where "torrent_by_id c' i = Some (demote msg r)" using a(3) i unfolding demoted_from_def by blast
    moreover have "have_pieces c' i = {}" using a(3) i by (simp add: demoted_from_def)
    ultimately show ?thesis by (simp add: demote_def)
  qed
  have "audited fs c' i" if "torrent_by_id c' i = Some r" "tr_complete r" "\<not> tr_deleted r" for i r
  proof -
    have "i \<notin> D" using demoted that by force
    then have "i \<in> set (audit_ids c)" using a(3) that ids(1) by (simp add: demoted_from_def)
    then have "audited fs c i" using \<open>i \<notin> D\<close> a(4) by blast
    then show ?thesis using demoted_layout [OF a(3)] by (simp add: audited_def)
  qed
  moreover have "i \<notin> D \<Longrightarrow> torrent_by_id c' i = torrent_by_id c i \<and> have_pieces c' i = have_pieces c i" for i
    using a(3) by (simp add: demoted_from_def)
  ultimately show ?thesis using run a(2,4) demoted unfolding audited_def on_disk_def
    by (intro exI [of _ "card D"] exI [of _ c']) auto
qed

section \<open>Witnesses\<close>

definition wit_row :: "int \<Rightarrow> torrent_row" where
  "wit_row i = \<lparr>tr_id = i, tr_infohash = [of_int i], tr_name = [], tr_piece_length = 16, tr_piece_count = 3, tr_total_size = 48,
     tr_state = ''stopped'', tr_want_start = False, tr_complete = False, tr_private = False, tr_deleted = False,
     tr_deleted_at = None, tr_tracker_key = 1, tr_created_at = 0, tr_error_msg = None\<rparr>"

definition wit_catalog :: catalog where
  "wit_catalog = catalog_empty\<lparr>ct_torrents := [wit_row 1, wit_row 2],
     ct_stats := [1 \<mapsto> \<lparr>sr_uploaded = 0, sr_downloaded = 5, sr_corrupted = 0, sr_active_time = 0, sr_finished_at = None\<rparr>]\<rparr>"

lemma wit_catalog_ok: "catalog_ok wit_catalog"
  by (simp add: catalog_ok_def keys_ok_def refs_ok_def rows_ok_def wit_catalog_def catalog_empty_def wit_row_def torrent_ids_def
      bits_ok_def delete_ok_def)

lemma wit_catalog_state: "pc_at wit_catalog 1 = 3" "have_pieces wit_catalog 1 = {}" "downloaded_at wit_catalog 1 = 5"
  "ct_stats wit_catalog 1 \<noteq> None"
  by (simp_all add: wit_catalog_def catalog_empty_def wit_row_def pc_at_def torrent_by_id_def row_pc_def i64_as_u32_def
      have_pieces_def load_bitfield_state_def Let_def downloaded_at_def)

theorem catalog_records_pieces_witness:
  "\<exists>done' c'. mark_pieces_have_batch 9 [(1, 0, 16), (1, 2, 16), (1, 0, 16), (1, 7, 16)] wit_catalog = Inr (done', c')
    \<and> have_pieces c' 1 = {0, 2} \<and> downloaded_at c' 1 = 37"
proof -
  let ?p = "[(1, 0, 16), (1, 2, 16), (1, 0, 16), (1, 7, 16)] :: (int \<times> nat \<times> nat) list"
  have "\<forall>(t, i, n) \<in> set ?p. t \<in> torrent_ids wit_catalog \<and> n = 16"
    by (simp add: torrent_ids_def wit_catalog_def wit_row_def)
  from catalog_records_pieces [OF wit_catalog_ok this, of 9] obtain done' c' where r:
    "mark_pieces_have_batch 9 ?p wit_catalog = Inr (done', c')"
    "have_pieces c' 1 = have_pieces wit_catalog 1 \<union> {i. i < pc_at wit_catalog 1 \<and> i \<in> reported ?p 1}"
    "downloaded_at c' 1 = downloaded_at wit_catalog 1 + (\<Sum>i \<in> have_pieces c' 1 - have_pieces wit_catalog 1. int 16)"
    using wit_catalog_state(4) by blast
  moreover have "{i. i < 3 \<and> i \<in> reported ?p 1} = {0, 2}" by (auto simp: reported_def)
  ultimately show ?thesis unfolding wit_catalog_state by (intro exI [of _ done'] exI [of _ c']) simp
qed

text \<open>Two complete torrents, of which only the first is on disk.\<close>

definition wit_seeding :: catalog where
  "wit_seeding = catalog_empty\<lparr>ct_torrents := [(wit_row 1)\<lparr>tr_complete := True\<rparr>, (wit_row 2)\<lparr>tr_complete := True\<rparr>],
     ct_files := [\<lparr>fr_torrent = 1, fr_idx = 0, fr_path = \<lparr>is_abs = False, comps = [''a'']\<rparr>, fr_size = 48, fr_offset = 0, fr_priority = 1\<rparr>],
     ct_meta := [1 \<mapsto> \<lparr>mr_data_root = \<lparr>is_abs = True, comps = [''d'']\<rparr>, mr_home_root = None, mr_source = None\<rparr>]\<rparr>"

theorem audit_leaves_only_whole_torrents_witness:
  "\<exists>n c'. audit_complete_storage (\<lambda>_. ''e'') (\<lambda>_. Stat_file 48) wit_seeding = Inr (2, n, c')
     \<and> torrent_by_id c' 1 = torrent_by_id wit_seeding 1 \<and> have_pieces c' 2 = {}"
proof -
  let ?fs = "\<lambda>_. Stat_file 48"
  note w = wit_seeding_def catalog_empty_def wit_row_def
  have ok: "catalog_ok wit_seeding"
    by (simp add: catalog_ok_def keys_ok_def refs_ok_def rows_ok_def w torrent_ids_def bits_ok_def delete_ok_def)
  have ids: "audit_ids wit_seeding = [1, 2]" by (simp add: audit_ids_def w)
  have "audited ?fs wit_seeding 1" "\<not> audited ?fs wit_seeding 2"
    by (simp_all add: audited_def load_storage_layout_def torrent_by_id_def file_rows_def w Let_def on_disk_def i64_as_u64_def)
  with audit_leaves_only_whole_torrents [OF ok, of "\<lambda>_. ''e''" ?fs] ids obtain n c' where
    r: "audit_complete_storage (\<lambda>_. ''e'') ?fs wit_seeding = Inr (2, n, c')"
    "\<forall>i. if i \<in> {1, 2} \<and> \<not> audited ?fs wit_seeding i
           then have_pieces c' i = {} \<and> (\<exists>r. torrent_by_id c' i = Some r \<and> \<not> tr_complete r \<and> \<not> tr_want_start r \<and> tr_error_msg r \<noteq> None)
           else torrent_by_id c' i = torrent_by_id wit_seeding i \<and> have_pieces c' i = have_pieces wit_seeding i"
    by auto
  have "torrent_by_id c' 1 = torrent_by_id wit_seeding 1" "have_pieces c' 2 = {}"
    using r(2) [rule_format, of 1] r(2) [rule_format, of 2] \<open>audited ?fs wit_seeding 1\<close> \<open>\<not> audited ?fs wit_seeding 2\<close> by simp_all
  then show ?thesis using r(1) by blast
qed

end
