(* ===== verification/Metainfo_Correct.thy ===== *)
theory Metainfo_Correct
  imports Metainfo Bencode_Correct
begin

text \<open>
  What parsing a \<open>.torrent\<close> guarantees: every file path stays below the data root, the files tile the
  torrent's bytes when the sizes in the file are plausible; and what it does not check.
\<close>

section \<open>Characters\<close>

lemma utf8_step:
  assumes "utf8_decode (b # bs) = Some cps"
  shows "\<exists>d r cps'. cps = d # cps' \<and> utf8_decode r = Some cps' \<and> d < 0x140000 \<and> length r \<le> length bs"
proof -
  have c: "cont_byte x \<Longrightarrow> 0x80 \<le> unat x \<and> unat x \<le> 0xBF" for x by (simp add: cont_byte_def)
  have two: "(n - 0xC0) * 64 + (unat x - 0x80) < 0x140000" if "n \<le> 0xDF" "cont_byte x" for n x
    using that c [of x] by linarith
  have three: "(n - 0xE0) * 4096 + (unat x - 0x80) * 64 + (unat y - 0x80) < 0x140000"
    if "n \<le> 0xEF" "cont_byte x" "cont_byte y" for n x y
    using that c [of x] c [of y] by linarith
  have four: "(n - 0xF0) * 262144 + (unat x - 0x80) * 4096 + (unat y - 0x80) * 64 + (unat z - 0x80) < 0x140000"
    if "n \<le> 0xF4" "cont_byte x" "cont_byte y" "cont_byte z" for n x y z
    using that c [of x] c [of y] c [of z] by linarith
  have rest: "utf8_decode r = Some z \<Longrightarrow> length r \<le> n \<Longrightarrow> \<exists>r. utf8_decode r = Some z \<and> length r \<le> n" for r z n
    by blast
  show ?thesis using assms
    by (auto simp: Let_def two three four split: if_splits list.splits) (rule rest, assumption, simp)+
qed

lemma utf8_decode_bound: "utf8_decode s = Some cps \<Longrightarrow> c \<in> set cps \<Longrightarrow> c < 0x140000"
proof (induction "length s" arbitrary: s cps rule: less_induct)
  case less
  show ?case
  proof (cases s)
    case (Cons b bs)
    with utf8_step less.prems(1) obtain d r cps' where
      "cps = d # cps'" "utf8_decode r = Some cps'" "d < 0x140000" "length r \<le> length bs" by blast
    with less.hyps [of r cps'] less.prems(2) Cons show ?thesis by auto
  qed (use less in simp)
qed

lemma chars_bound: "c \<in> set (chars_of s) \<Longrightarrow> c < 0x140000"
  using utf8_decode_bound by (cases "utf8_decode s") (auto simp: chars_of_def)

text \<open>Only a character below 128 contributes a byte below 128, and that byte is the character.\<close>

lemma utf8_char_low:
  assumes "c < 0x140000" "b \<in> set (utf8_char c)" "unat b < 0x80"
  shows "c = unat b"
proof -
  have u: "unat (of_nat n :: byte) = n" if "n < 256" for n using that by (simp add: unat_of_nat)
  have h: "128 \<le> unat (of_nat n :: byte)" if "128 \<le> n" "n < 256" for n using u [OF that(2)] that(1) by simp
  have "128 \<le> unat b" if "0x80 \<le> c"
  proof -
    have d: "c div 262144 < 5" "c < 0x800 \<Longrightarrow> c div 64 < 32" "c < 0x10000 \<Longrightarrow> c div 4096 < 16"
      using assms(1) by (simp_all add: div_less_iff_less_mult)
    have e: "c mod 64 < 64" "c div 64 mod 64 < 64" "c div 4096 mod 64 < 64" by simp_all
    show ?thesis
      using assms(2) that d e unfolding utf8_char_def
      by (auto simp del: of_nat_add split: if_splits intro!: h)
  qed
  then show ?thesis using assms(2,3) u by (cases "c < 0x80") (auto simp: utf8_char_def)
qed

lemma length_utf8_char: "length (utf8_char c) = utf8_len c"
  by (simp add: utf8_char_def utf8_len_def)

lemma utf8_encode_simps [simp]:
  "utf8_encode [] = []" "utf8_encode (c # cs) = utf8_char c @ utf8_encode cs"
  by (simp_all add: utf8_encode_def)

lemma utf8_char_neq_Nil [simp]: "utf8_char c \<noteq> []"
  by (simp add: utf8_char_def)

lemma utf8_cut_length: "length (utf8_encode (utf8_cut n cs)) \<le> n"
  by (induction n cs rule: utf8_cut.induct) (auto simp: length_utf8_char)

lemma utf8_cut_prefix: "\<exists>r. cs = utf8_cut n cs @ r"
  by (induction n cs rule: utf8_cut.induct) auto

lemma trim_end_prefix: "\<exists>r. s = trim_end cs s @ r"
proof -
  have "s = rev (takeWhile (\<lambda>c. c \<in> cs) (rev s) @ dropWhile (\<lambda>c. c \<in> cs) (rev s))" by simp
  then have "s = trim_end cs s @ rev (takeWhile (\<lambda>c. c \<in> cs) (rev s))"
    unfolding trim_end_def by (simp only: rev_append)
  then show ?thesis by blast
qed

section \<open>Components\<close>

text \<open>A name that cannot leave its directory.\<close>

definition safe_name :: "bytes \<Rightarrow> bool" where
  "safe_name bs \<longleftrightarrow> 0x2F \<notin> set bs \<and> 0 \<notin> set bs \<and> length bs \<le> 255 \<and> bs \<noteq> [0x2E] \<and> bs \<noteq> [0x2E, 0x2E]"

lemma norm_loop_chars:
  "\<forall>c \<in> set out. P c \<Longrightarrow> \<forall>c \<in> set cs. c \<noteq> 0x2F \<and> c \<noteq> 0 \<longrightarrow> P c \<Longrightarrow> P 0x5F \<Longrightarrow>
   c \<in> set (norm_loop cs out b) \<Longrightarrow> P c"
  by (induction cs out b arbitrary: rule: norm_loop.induct) (auto split: if_splits)

lemma encode_safe:
  assumes "\<And>c. c \<in> set out \<Longrightarrow> c < 0x140000 \<and> c \<noteq> 0x2F \<and> c \<noteq> 0" "length (utf8_encode out) \<le> 255"
    and "out = [] \<or> hd out \<noteq> 0x2E"
  shows "safe_name (utf8_encode out)"
proof -
  have low: "b \<in> set (utf8_encode out) \<Longrightarrow> unat b < 0x80 \<Longrightarrow> unat b \<noteq> 0x2F \<and> unat b \<noteq> 0" for b
    using assms(1) utf8_char_low by (force simp: utf8_encode_def)
  have "utf8_encode out \<noteq> 0x2E # r" for r
  proof
    assume e: "utf8_encode out = 0x2E # r"
    then obtain c cs where out: "out = c # cs" by (cases out) auto
    with e have "hd (utf8_char c) = 0x2E" by (metis utf8_encode_simps(2) utf8_char_neq_Nil hd_append2 list.sel(1))
    then have "(0x2E :: byte) \<in> set (utf8_char c)" by (metis hd_in_set utf8_char_neq_Nil)
    then have "c = 0x2E" using utf8_char_low [of c "0x2E"] assms(1) out by simp
    with assms(3) out show False by simp
  qed
  then show ?thesis using low [of "0x2F"] low [of 0] assms(2) by (auto simp: safe_name_def)
qed

lemma normalize_safe:
  assumes "normalize_path_component s = Inr part"
  shows "safe_name part"
proof -
  let ?cs = "{0x2E, 0x20, 0x09 :: nat}"
  define raw where "raw = norm_loop (chars_of s) [] False"
  define out where "out = trim_matches ?cs raw"
  have "c \<in> set raw \<Longrightarrow> c < 0x140000 \<and> c \<noteq> 0x2F \<and> c \<noteq> 0" for c
    unfolding raw_def by (rule norm_loop_chars [where P = "\<lambda>c. c < 0x140000 \<and> c \<noteq> 0x2F \<and> c \<noteq> 0"])
      (use chars_bound in auto)
  moreover obtain r where r: "dropWhile (\<lambda>c. c \<in> ?cs) raw = out @ r"
    using trim_end_prefix [of "dropWhile (\<lambda>c. c \<in> ?cs) raw" ?cs] unfolding out_def trim_matches_def by blast
  have "set out \<subseteq> set raw" using r set_dropWhileD [of _ "\<lambda>c. c \<in> ?cs" raw] by (metis Un_iff set_append subsetI)
  ultimately have chars: "\<And>c. c \<in> set out \<Longrightarrow> c < 0x140000 \<and> c \<noteq> 0x2F \<and> c \<noteq> 0" by blast
  have first: "out = [] \<or> hd out \<notin> ?cs"
  proof (cases out)
    case (Cons c cs)
    then have "dropWhile (\<lambda>c. c \<in> ?cs) raw \<noteq> []" "hd (dropWhile (\<lambda>c. c \<in> ?cs) raw) = hd out" using r by simp_all
    then show ?thesis using hd_dropWhile [of "\<lambda>c. c \<in> ?cs" raw] by metis
  qed simp
  show ?thesis
  proof (cases "length (utf8_encode out) > 255")
    case True
    define cut where "cut = trim_end {0x2E, 0x20, 0x5F} (utf8_cut 255 out)"
    have part: "part = utf8_encode cut"
      using assms True unfolding normalize_path_component_def raw_def [symmetric] out_def [symmetric] Let_def cut_def
      by (auto split: if_splits)
    obtain r1 r2 where "utf8_cut 255 out = cut @ r1" "out = utf8_cut 255 out @ r2"
      using trim_end_prefix utf8_cut_prefix unfolding cut_def by metis
    then have p: "out = cut @ r1 @ r2" and "utf8_encode (utf8_cut 255 out) = utf8_encode cut @ utf8_encode r1"
      by (simp_all add: utf8_encode_def)
    then have "length (utf8_encode cut) \<le> 255" using utf8_cut_length [of 255 out] by simp
    moreover have "cut = [] \<or> hd cut \<noteq> 0x2E" using first p by (cases cut) auto
    moreover have "set cut \<subseteq> set out" using p by auto
    ultimately show ?thesis unfolding part by (intro encode_safe) (use chars in blast)+
  next
    case False
    then have "part = utf8_encode out"
      using assms unfolding normalize_path_component_def raw_def [symmetric] out_def [symmetric] Let_def
      by (auto split: if_splits)
    then show ?thesis using encode_safe [of out] chars first False by auto
  qed
qed

section \<open>Files\<close>

text \<open>A path below the directory it is joined to.\<close>

definition safe_path :: "fs_path \<Rightarrow> bool" where
  "safe_path p \<longleftrightarrow> \<not> is_abs p
     \<and> (\<forall>c \<in> set (comps p). \<exists>bs. c = os_string bs \<and> bs \<noteq> [] \<and> safe_name bs)"

lemma safe_push: "safe_path p \<Longrightarrow> safe_name part \<Longrightarrow> safe_path (path_push p part)"
  by (auto simp: safe_path_def path_push_def)

lemma safe_from: "safe_name part \<Longrightarrow> safe_path (path_from part)"
  unfolding path_from_def by (rule safe_push) (simp_all add: safe_path_def)

lemma file_path_safe: "file_path idx p vs = Inr q \<Longrightarrow> safe_path p \<Longrightarrow> safe_path q"
  by (induction idx p vs rule: file_path.induct)
    (auto split: option.splits sum.splits dest: normalize_safe intro: safe_push)

fun tiled :: "nat \<Rightarrow> torrent_file list \<Rightarrow> bool" where
  "tiled off [] = True"
| "tiled off (f # fs) = (tf_offset f = off \<and> tiled (sat_add64 off (tf_size f)) fs)"

lemma tiled_snoc:
  "tiled off (fs @ [f]) \<longleftrightarrow> tiled off fs \<and> tf_offset f = foldl (\<lambda>o' f. sat_add64 o' (tf_size f)) off fs"
  by (induction fs arbitrary: off) auto

lemma files_loop_ok:
  assumes "files_loop nm idx off vs out = Inr fs" "safe_name nm" "\<forall>f \<in> set out. safe_path (tf_path f) \<and> tf_size f \<le> u64_max"
    "tiled 0 out" "off = foldl (\<lambda>o' f. sat_add64 o' (tf_size f)) 0 out"
  shows "(\<forall>f \<in> set fs. safe_path (tf_path f) \<and> tf_size f \<le> u64_max) \<and> tiled 0 fs"
  using assms
proof (induction nm idx off vs out rule: files_loop.induct)
  case (2 nm idx off f fs' out)
  from "2.prems"(1) obtain n pl path where e: "dict_get_int f (ascii ''length'') = Some n"
    "dict_get_list f (ascii ''path'') = Some pl" "file_path idx (path_from nm) pl = Inr path"
    by (auto split: option.splits sum.splits)
  let ?f = "\<lparr>tf_path = path, tf_size = i64_as_u64 n, tf_offset = off\<rparr>"
  have "i64_as_u64 n \<le> u64_max" using pos_mod_bound [of "2 ^ 64" n] by (simp add: i64_as_u64_def nat_le_iff)
  moreover have "safe_path path" by (rule file_path_safe [OF e(3) safe_from]) (rule "2.prems"(2))
  ultimately show ?case
    using "2.IH" [OF e] "2.prems" e by (simp add: tiled_snoc)
qed simp

lemma torrent_name_safe:
  "safe_name (case normalize_path_component s of Inl e \<Rightarrow> ascii ''unnamed'' | Inr s \<Rightarrow> s)"
proof -
  have "safe_name (ascii ''unnamed'')" by (simp add: safe_name_def ascii_def)
  then show ?thesis using normalize_safe by (auto split: sum.split)
qed

lemma parse_files_ok:
  assumes "parse_files info = Inr fs"
  shows "(\<forall>f \<in> set fs. safe_path (tf_path f) \<and> tf_size f \<le> u64_max) \<and> tiled 0 fs"
proof (cases "dict_get_list info (ascii ''files'')")
  case None
  then obtain n where "fs = [\<lparr>tf_path = path_from (case normalize_path_component (info_name info) of
       Inl e \<Rightarrow> ascii ''unnamed'' | Inr s \<Rightarrow> s), tf_size = i64_as_u64 n, tf_offset = 0\<rparr>]"
    using assms by (auto simp: parse_files_def Let_def split: option.splits)
  moreover have "i64_as_u64 n \<le> u64_max" using pos_mod_bound [of "2 ^ 64" n] by (simp add: i64_as_u64_def nat_le_iff)
  ultimately show ?thesis using safe_from [OF torrent_name_safe] by simp
next
  case (Some l)
  then have "files_loop (case normalize_path_component (info_name info) of
       Inl e \<Rightarrow> ascii ''unnamed'' | Inr s \<Rightarrow> s) 0 0 l [] = Inr fs"
    using assms by (simp add: parse_files_def Let_def)
  from files_loop_ok [OF this torrent_name_safe] show ?thesis by simp
qed

text \<open>The fields of a parsed file.\<close>

lemma parse_bytes_facts:
  assumes "parse_bytes sha1 data = Inr m"
  shows "0 < mi_piece_length m" "mi_piece_length m < 2 ^ 32" "mi_piece_count m < 2 ^ 32"
    "mi_total_size m = sum_list (map tf_size (mi_files m)) mod 2 ^ 64"
    "mi_piece_count m = length (mi_pieces m) div 20 mod 2 ^ 32"
    "0 < mi_total_size m \<Longrightarrow> mi_piece_count m = div_ceil (mi_total_size m) (mi_piece_length m) mod 2 ^ 32"
    "\<exists>info. parse_files info = Inr (mi_files m)"
    "\<exists>raw pre post v. mi_infohash m = sha1 raw \<and> data = pre @ raw @ post \<and> decode_full raw = Inr v"
proof -
  from assms obtain root raw info pl pieces fs where p: "decode_full data = Inr root"
    "find_raw_dict_value data (ascii ''info'') = Inr raw" "dict_get_int info (ascii ''piece length'') = Some pl"
    "i64_as_u32 pl \<noteq> 0" "parse_files info = Inr fs" "mi_files m = fs" "mi_piece_length m = i64_as_u32 pl"
    "mi_pieces m = pieces" "mi_piece_count m = length pieces div 20 mod 2 ^ 32" "mi_total_size m = sum_sizes fs"
    "0 < sum_sizes fs \<Longrightarrow> div_ceil (sum_sizes fs) (i64_as_u32 pl) mod 2 ^ 32 = length pieces div 20 mod 2 ^ 32"
    "mi_infohash m = sha1 raw"
    by (auto simp: parse_bytes_def Let_def split: sum.splits option.splits if_splits)
  from p(4,7) show "0 < mi_piece_length m" by simp
  show "mi_piece_length m < 2 ^ 32"
    using pos_mod_bound [of "2 ^ 32" pl] by (simp add: p(7) i64_as_u32_def nat_less_iff)
  show "mi_piece_count m < 2 ^ 32" "mi_piece_count m = length (mi_pieces m) div 20 mod 2 ^ 32"
    by (simp_all add: p(8,9))
  show "mi_total_size m = sum_list (map tf_size (mi_files m)) mod 2 ^ 64" by (simp add: p(6,10) sum_sizes_def)
  show "mi_piece_count m = div_ceil (mi_total_size m) (mi_piece_length m) mod 2 ^ 32" if "0 < mi_total_size m"
    using p(11) that by (simp add: p(7,9,10))
  show "\<exists>info. parse_files info = Inr (mi_files m)" using p(5,6) by blast
  show "\<exists>raw pre post v. mi_infohash m = sha1 raw \<and> data = pre @ raw @ post \<and> decode_full raw = Inr v"
    using find_raw_is_value [of data "ascii ''info''"] p(2,12) by auto
qed

section \<open>Names for the operating system\<close>

lemma os_char: "char_of (unat (b :: byte)) = (c :: char) \<longleftrightarrow> unat b = of_char c"
proof -
  have "unat b < 256" using unsigned_less [of b, where ?'a = nat] by simp
  then have "of_char (char_of (unat b) :: char) = unat b" by simp
  then show ?thesis by (metis char_of_char)
qed

lemma safe_os_string:
  assumes "safe_name bs" "bs \<noteq> []"
  shows "os_string bs \<noteq> '''' \<and> os_string bs \<noteq> ''.'' \<and> os_string bs \<noteq> ''..''
    \<and> CHR ''/'' \<notin> set (os_string bs) \<and> CHR 0x00 \<notin> set (os_string bs) \<and> length (os_string bs) \<le> 255"
proof -
  have c: "char_of (unat b) = CHR ''/'' \<longleftrightarrow> b = 0x2F" "char_of (unat b) = CHR 0x00 \<longleftrightarrow> b = 0"
    "char_of (unat b) = CHR ''.'' \<longleftrightarrow> b = 0x2E" for b :: byte
    by (simp_all add: os_char word_unat_eq_iff)
  have c': "CHR ''/'' = char_of (unat b) \<longleftrightarrow> b = 0x2F" "CHR 0x00 = char_of (unat b) \<longleftrightarrow> b = 0" for b :: byte
    using c by metis+
  show ?thesis using assms by (auto simp: os_string_def safe_name_def c c' image_iff)
qed

text \<open>C24. A hostile \<open>.torrent\<close> cannot name a file outside the torrent's directory: in a metainfo the parser accepts,
  every file path is relative, and each of its components is a proper file name of at most 255
  bytes, neither empty nor \<open>.\<close> nor \<open>..\<close>, without a slash or a NUL; joined to the data root it stays below it.\<close>

theorem metainfo_paths_safe:
  assumes "parse_bytes sha1 data = Inr m" "f \<in> set (mi_files m)"
  shows "\<not> is_abs (tf_path f)
    \<and> (\<forall>c \<in> set (comps (tf_path f)).
         c \<noteq> '''' \<and> c \<noteq> ''.'' \<and> c \<noteq> ''..'' \<and> CHR ''/'' \<notin> set c \<and> CHR 0x00 \<notin> set c \<and> length c \<le> 255)
    \<and> path_join root (tf_path f) = root\<lparr>comps := comps root @ comps (tf_path f)\<rparr>"
proof -
  obtain info where "parse_files info = Inr (mi_files m)" using parse_bytes_facts(7) [OF assms(1)] by blast
  with parse_files_ok assms(2) have "safe_path (tf_path f)" by blast
  then have sp: "\<not> is_abs (tf_path f)"
    "\<And>c. c \<in> set (comps (tf_path f)) \<Longrightarrow> \<exists>bs. c = os_string bs \<and> bs \<noteq> [] \<and> safe_name bs"
    by (auto simp: safe_path_def)
  have "c \<noteq> '''' \<and> c \<noteq> ''.'' \<and> c \<noteq> ''..'' \<and> CHR ''/'' \<notin> set c \<and> CHR 0x00 \<notin> set c \<and> length c \<le> 255"
    if "c \<in> set (comps (tf_path f))" for c
    using sp(2) [OF that] safe_os_string by (elim exE conjE) simp
  then show ?thesis using sp(1) by (simp add: path_join_def)
qed

text \<open>The check of the empty name happens before the cut to 255 bytes: a long enough run of
  underscores still normalises to nothing.\<close>

lemma underscores:
  "utf8_decode (replicate n 0x5F) = Some (replicate n 0x5F)"
  "norm_loop (replicate n 0x5F) out b = out @ replicate n 0x5F"
  "utf8_encode (replicate n 0x5F) = replicate n 0x5F"
  "utf8_cut k (replicate n 0x5F) = replicate (min k n) 0x5F"
proof -
  show "utf8_decode (replicate n 0x5F) = Some (replicate n 0x5F)" by (induction n) simp_all
  show "norm_loop (replicate n 0x5F) out b = out @ replicate n 0x5F"
    by (induction n arbitrary: out b) (simp_all add: is_control_def)
  show "utf8_encode (replicate n 0x5F) = replicate n 0x5F" by (induction n) (simp_all add: utf8_char_def)
  show "utf8_cut k (replicate n 0x5F) = replicate (min k n) 0x5F"
  proof (induction n arbitrary: k)
    case (Suc n)
    then show ?case by (cases k) (simp_all add: utf8_len_def)
  qed simp
qed

lemma normalize_may_be_empty:
  assumes "255 < n"
  shows "normalize_path_component (replicate n 0x5F) = Inr []"
proof -
  have t: "trim_end cs (replicate k 0x5F) = (if 0x5F \<in> cs then [] else replicate k 0x5F)" for cs k
    by (auto simp: trim_end_def)
  then have "trim_matches {0x2E, 0x20, 0x09} (replicate n 0x5F) = replicate n 0x5F"
    by (simp add: trim_matches_def)
  moreover have "replicate n (0x5F :: nat) \<noteq> [] \<and> replicate n (0x5F :: nat) \<noteq> [0x2E] \<and> replicate n (0x5F :: nat) \<noteq> [0x2E, 0x2E]"
    using assms by (auto simp: list_eq_iff_nth_eq)
  ultimately show ?thesis
    using assms by (simp add: normalize_path_component_def chars_of_def underscores t Let_def del: replicate_Suc)
qed

section \<open>Sizes the parser accepts\<close>

definition sized_info :: "int \<Rightarrow> bytes \<Rightarrow> bvalue" where
  "sized_info n ps = BDict [(ascii ''length'', BInt n), (ascii ''name'', BBytes (ascii ''a'')),
     (ascii ''piece length'', BInt 16384), (ascii ''pieces'', BBytes ps)]"

definition sized_torrent :: "int \<Rightarrow> bytes \<Rightarrow> bytes" where
  "sized_torrent n ps = encode (BDict [(ascii ''info'', sized_info n ps)])"

lemma sized_root_ok:
  assumes "- (2 ^ 63) \<le> n" "n < 2 ^ 63" "length ps \<le> u64_max"
  shows "bval_ok (BDict [(ascii ''info'', sized_info n ps)])"
  using assms by (simp add: sized_info_def ascii_def)

text \<open>Parsing a torrent of one file with the given length and piece hashes.\<close>

lemma sized_torrent_parses:
  assumes ok: "- (2 ^ 63) \<le> n" "n < 2 ^ 63" "length ps \<le> u64_max"
    and len: "length (encode (BDict [(ascii ''info'', sized_info n ps)])) \<le> u64_max"
    and ps: "length ps mod 20 = 0" "i64_as_u64 n = 0 \<or> div_ceil (i64_as_u64 n) 16384 mod 2 ^ 32 = length ps div 20 mod 2 ^ 32"
  shows "\<exists>m. parse_bytes sha1 (sized_torrent n ps) = Inr m \<and> map tf_size (mi_files m) = [i64_as_u64 n]
     \<and> mi_total_size m = i64_as_u64 n \<and> mi_piece_count m = length ps div 20 mod 2 ^ 32 \<and> mi_piece_length m = 16384"
proof -
  let ?m = "[(ascii ''info'', sized_info n ps)]"
  note r_ok = sized_root_ok [OF ok]
  have d: "decode_full (sized_torrent n ps) = Inr (BDict ?m)"
    unfolding sized_torrent_def by (rule decode_full_encode [OF r_ok len])
  have g: "dict_get (BDict ?m) (ascii ''info'') = Some (sized_info n ps)" by (simp add: dict_get_def)
  then have r: "find_raw_dict_value (sized_torrent n ps) (ascii ''info'') = Inr (encode (sized_info n ps))"
    using find_raw_encode [OF r_ok len] by (simp add: sized_torrent_def)
  have i: "dict_get_int (sized_info n ps) (ascii ''piece length'') = Some 16384"
    "dict_get_bytes (sized_info n ps) (ascii ''pieces'') = Some ps"
    "dict_get_list (sized_info n ps) (ascii ''files'') = None"
    "dict_get_int (sized_info n ps) (ascii ''length'') = Some n"
    by (simp_all add: sized_info_def dict_get_int_def dict_get_bytes_def dict_get_list_def dict_get_def ascii_def)
  have "i64_as_u64 n < 2 ^ 64" using pos_mod_bound [of "2 ^ 64" n] by (simp add: i64_as_u64_def nat_less_iff)
  moreover have "i64_as_u32 16384 = 16384" by (simp add: i64_as_u32_def)
  ultimately show ?thesis using ps
    by (simp add: parse_bytes_def d g r i parse_files_def sum_sizes_def Let_def)
qed

text \<open>The sizes in a metainfo are not checked for sense: the length is cast to unsigned and the number of
  pieces is compared only after truncation to 32 bits. A torrent whose one file has length -1 and
  which has no piece at all is accepted, with a size of 18446744073709551615 bytes and zero pieces.\<close>

theorem metainfo_accepts_impossible_size:
  "\<exists>m. parse_bytes sha1 (sized_torrent (- 1) []) = Inr m
     \<and> mi_total_size m = 18446744073709551615 \<and> mi_piece_count m = 0 \<and> mi_piece_length m = 16384"
proof -
  have "i64_as_u64 (- 1) = 18446744073709551615" by (simp add: i64_as_u64_def)
  moreover have "length (encode (BDict [(ascii ''info'', sized_info (- 1) [])])) \<le> u64_max"
    by (simp add: sized_info_def ascii_def enc_str_def dec.simps dec_int_def)
  ultimately show ?thesis
    using sized_torrent_parses [of "- 1" "[]" sha1] by (force simp: div_ceil_def)
qed

text \<open>A torrent of one file of five bytes.\<close>

lemma small_torrent_parses:
  "\<exists>m. parse_bytes sha1 (sized_torrent 5 (replicate 20 7)) = Inr m \<and> map tf_size (mi_files m) = [5]
     \<and> mi_total_size m = 5 \<and> mi_piece_count m = 1 \<and> mi_piece_length m = 16384"
proof -
  have "i64_as_u64 5 = 5" by (simp add: i64_as_u64_def)
  moreover have "length (encode (BDict [(ascii ''info'', sized_info 5 (replicate 20 7))])) \<le> u64_max"
    by (simp add: sized_info_def ascii_def enc_str_def dec.simps dec_int_def)
  ultimately show ?thesis
    using sized_torrent_parses [of 5 "replicate 20 7" sha1] by (simp add: div_ceil_def)
qed

theorem metainfo_paths_safe_witness:
  "\<exists>m f. parse_bytes (\<lambda>x. x) (sized_torrent 5 (replicate 20 7)) = Inr m \<and> f \<in> set (mi_files m) \<and> \<not> is_abs (tf_path f)
     \<and> '''' \<notin> set (comps (tf_path f))"
proof -
  obtain m where m: "parse_bytes (\<lambda>x. x) (sized_torrent 5 (replicate 20 7)) = Inr m" "map tf_size (mi_files m) = [5]"
    using small_torrent_parses [of "\<lambda>x. x"] by (elim exE conjE)
  then have f: "hd (mi_files m) \<in> set (mi_files m)" by (cases "mi_files m") auto
  from metainfo_paths_safe [OF m(1) f, of "\<lparr>is_abs = True, comps = []\<rparr>"] have "\<not> is_abs (tf_path (hd (mi_files m))) \<and> '''' \<notin> set (comps (tf_path (hd (mi_files m))))"
    by auto
  with m(1) f show ?thesis by (intro exI [of _ m] exI [of _ "hd (mi_files m)"] conjI) simp_all
qed

end
