(* ===== verification/Catalog_Import.thy ===== *)
theory Catalog_Import
  imports Catalog_Correct Metainfo_Correct Hot_Correct
begin

text \<open>
  From a \<open>.torrent\<close> file to the storage layout the download runs on: the parsed metainfo
  is inserted into the catalog and read back as the layout that
  the in-memory torrent, the piece buffers and the disk spans rely on.
\<close>

section \<open>Keys\<close>

lemma next_id_greater: "r \<in> set t \<Longrightarrow> key r < next_id key t"
proof -
  have "r \<in> set t \<Longrightarrow> key r \<le> foldr (\<lambda>r m. max (key r) m) t 0" by (induction t) auto
  then show "r \<in> set t \<Longrightarrow> key r < next_id key t" unfolding next_id_def by linarith
qed

lemma next_id_pos: "0 < next_id key t"
proof -
  have "0 \<le> foldr (\<lambda>r m. max (key r) m) t 0" by (induction t) auto
  then show ?thesis by (simp add: next_id_def)
qed

lemma next_id_fresh: "next_id tr_id (ct_torrents c) \<notin> torrent_ids c"
  using next_id_greater [of _ "ct_torrents c" tr_id] by (force simp: torrent_ids_def)

section \<open>Rows of the new torrent\<close>

lemma insert_trackers_set:
  "set (insert_trackers tid us t) \<subseteq> set t \<union> {k. kr_torrent k = tid}"
  by (induction tid us t rule: insert_trackers.induct) auto

lemma insert_row_fields:
  fixes now key tid m root
  defines "r \<equiv> insert_row now key tid (from_metainfo m root)"
  shows "tr_id r = tid" "tr_infohash r = mi_infohash m" "delete_ok r" "\<not> tr_complete r"
    "tr_piece_length r = int (mi_piece_length m)" "tr_piece_count r = int (mi_piece_count m)"
    "tr_total_size r = u64_as_i64 (mi_total_size m)"
  by (simp_all add: r_def insert_row_def from_metainfo_def delete_ok_def Let_def)

lemma enumerate_sorted: "sorted (map fst (enumerate n xs))"
  by (simp add: enumerate_eq_zip sorted_iff_nth_mono)

lemma insert_files_fields:
  "map fr_path (insert_files tid (from_metainfo m root)) = map tf_path (mi_files m)"
  "map fr_size (insert_files tid (from_metainfo m root)) = map (\<lambda>f. u64_as_i64 (tf_size f)) (mi_files m)"
  "map fr_offset (insert_files tid (from_metainfo m root)) = map (\<lambda>f. u64_as_i64 (tf_offset f)) (mi_files m)"
proof -
  have e: "map (\<lambda>x. g (snd x)) (enumerate 0 fs) = map g fs" for g :: "torrent_file \<Rightarrow> 'x" and fs
    using map_map [of g snd "enumerate 0 fs"] by (simp add: comp_def)
  show "map fr_path (insert_files tid (from_metainfo m root)) = map tf_path (mi_files m)"
    "map fr_size (insert_files tid (from_metainfo m root)) = map (\<lambda>f. u64_as_i64 (tf_size f)) (mi_files m)"
    "map fr_offset (insert_files tid (from_metainfo m root)) = map (\<lambda>f. u64_as_i64 (tf_offset f)) (mi_files m)"
    by (simp_all add: insert_files_def from_metainfo_def case_prod_beta comp_def
        e e [of "\<lambda>f. u64_as_i64 (tf_size f)"] e [of "\<lambda>f. u64_as_i64 (tf_offset f)"])
qed

lemma insert_files_read:
  assumes "\<And>f. f \<in> set (ct_files c) \<Longrightarrow> fr_torrent f \<noteq> tid" "ct_files c' = ct_files c @ insert_files tid ins"
  shows "file_rows c' tid = insert_files tid ins"
proof -
  have "filter (\<lambda>r. fr_torrent r = tid) (ct_files c) = []" using assms(1) by (auto simp: filter_empty_conv)
  moreover have "filter (\<lambda>r. fr_torrent r = tid) (insert_files tid ins) = insert_files tid ins"
    by (rule filter_True) (auto simp: insert_files_def)
  moreover have "map fr_idx (insert_files tid ins) = map fst (enumerate 0 (mi_files (ti_metainfo ins)))"
    by (simp add: insert_files_def comp_def case_prod_beta)
  then have "sorted (map fr_idx (insert_files tid ins))" using enumerate_sorted by metis
  ultimately show ?thesis by (simp add: file_rows_def assms(2) sorted_sort_id sort_key_id_if_sorted)
qed

section \<open>The catalog after an import\<close>

definition insert_ok :: "torrent_insert \<Rightarrow> bool" where
  "insert_ok ins \<longleftrightarrow> ti_complete ins \<or>
     (let pc = i64_as_u32 (int (mi_piece_count (ti_metainfo ins)))
      in case ti_bitfield ins of
           None \<Rightarrow> ti_have_count ins = 0
         | Some b \<Rightarrow> bf_fits b pc \<and> ti_have_count ins = card (bf.members b pc)
             \<and> (0 < pc \<longrightarrow> card (bf.members b pc) < pc))"

lemma insert_ok_from_metainfo [simp]: "insert_ok (from_metainfo m root)"
  by (simp add: insert_ok_def from_metainfo_def Let_def)

lemma insert_keeps_ok:
  assumes "catalog_ok c" "\<forall>r \<in> set (ct_torrents c). tr_infohash r \<noteq> mi_infohash (ti_metainfo ins)" "insert_ok ins"
    and c': "c' = snd (insert_torrent now key ins c)"
  shows "catalog_ok c'"
proof -
  let ?tid = "next_id tr_id (ct_torrents c)"
  let ?m = "ti_metainfo ins"
  have "find (\<lambda>r. tr_infohash r = mi_infohash ?m) (ct_torrents c) = None" using assms(2) by (auto simp: find_None_iff)
  then have c': "ct_torrents c' = ct_torrents c @ [insert_row now key ?tid ins]" "ct_files c' = ct_files c @ insert_files ?tid ins"
    "ct_hashes c' = (ct_hashes c)(?tid \<mapsto> mi_pieces ?m)" "ct_trackers c' = insert_trackers ?tid (mi_trackers ?m) (ct_trackers c)"
    "ct_bitfield c' = (ct_bitfield c)(?tid \<mapsto> \<lparr>br_bits = (if ti_complete ins \<and> ti_bitfield ins = None then None else ti_bitfield ins),
        br_have_count = int (ti_have_count ins)\<rparr>)" "ct_peers c' = ct_peers c"
    "dom (ct_meta c') = insert ?tid (dom (ct_meta c))" "dom (ct_blobs c') \<subseteq> insert ?tid (dom (ct_blobs c))"
    "dom (ct_stats c') = insert ?tid (dom (ct_stats c))"
    by (auto simp: c' insert_torrent_def Let_def split: option.splits if_splits)
  have row: "tr_id (insert_row now key ?tid ins) = ?tid" "tr_infohash (insert_row now key ?tid ins) = mi_infohash ?m"
    "delete_ok (insert_row now key ?tid ins)" "bits_ok (insert_row now key ?tid ins) (ct_bitfield c' ?tid)"
    using assms(3) by (auto simp: insert_row_def delete_ok_def Let_def bits_ok_def c'(5) insert_ok_def row_pc_def split: option.splits)
  have ids: "torrent_ids c' = insert ?tid (torrent_ids c)" by (simp add: torrent_ids_def c'(1) row)
  have keys: "keys_ok c'"
    using assms(1,2) next_id_fresh [of c] next_id_pos ids
    by (auto simp: catalog_ok_def keys_ok_def c'(1,6) row torrent_ids_def)
  have "set (ct_trackers c') \<subseteq> set (ct_trackers c) \<union> {k. kr_torrent k = ?tid}"
    unfolding c'(4) by (rule insert_trackers_set)
  then have "\<forall>k \<in> set (ct_trackers c'). kr_torrent k \<in> torrent_ids c'"
    using assms(1) ids by (auto simp: catalog_ok_def refs_ok_def)
  moreover have "dom (ct_blobs c') \<subseteq> torrent_ids c'" using assms(1) ids c'(8) unfolding catalog_ok_def refs_ok_def by blast
  ultimately have "refs_ok c'"
    using assms(1) ids by (auto simp: catalog_ok_def refs_ok_def c'(2,3,5,6,7,9) insert_files_def)
  have "rows_ok c'"
    unfolding rows_ok_def
  proof
    fix r assume "r \<in> set (ct_torrents c')"
    then consider "r = insert_row now key ?tid ins" | "r \<in> set (ct_torrents c)" by (auto simp: c'(1))
    then show "bits_ok r (ct_bitfield c' (tr_id r)) \<and> delete_ok r"
    proof cases
      case 2
      then have "tr_id r \<noteq> ?tid" using next_id_greater [of r "ct_torrents c" tr_id] by simp
      then show ?thesis using assms(1) 2 by (simp add: catalog_ok_def rows_ok_def c'(5))
    qed (use row in simp)
  qed
  with keys \<open>refs_ok c'\<close> show ?thesis by (simp add: catalog_ok_def)
qed

section \<open>The layout read back\<close>

lemma tiled_contiguous:
  assumes "tiled off fs" "off + sum_list (map tf_size fs) \<le> u64_max" "map fl_size ls = map tf_size fs"
    "map fl_offset ls = map tf_offset fs"
  shows "contiguous off ls"
  using assms
proof (induction off fs arbitrary: ls rule: tiled.induct)
  case (2 off f fs)
  then obtain l ls' where ls: "ls = l # ls'" by (cases ls) auto
  have "sat_add64 off (tf_size f) = off + tf_size f" using "2.prems"(2) by (simp add: sat_add64_def)
  then show ?case using "2.prems" "2.IH" [of ls'] by (simp add: ls)
qed simp

lemma tiled_offsets: "tiled off fs \<Longrightarrow> off \<le> u64_max \<Longrightarrow> f \<in> set fs \<Longrightarrow> tf_offset f \<le> u64_max"
  by (induction off fs rule: tiled.induct) (auto simp: sat_add64_def)

text \<open>What the tables hold after the insert, and the layout they are read back as.\<close>

definition stored_layout :: "int \<Rightarrow> metainfo \<Rightarrow> fs_path \<Rightarrow> storage_layout" where
  "stored_layout tid m root = \<lparr>data_root = root, piece_length = i64_as_u32 (int (mi_piece_length m)),
    piece_count = i64_as_u32 (int (mi_piece_count m)), total_size = i64_as_u64 (u64_as_i64 (mi_total_size m)),
    files = map (\<lambda>f. \<lparr>fl_path = fr_path f, fl_size = i64_as_u64 (fr_size f), fl_offset = i64_as_u64 (fr_offset f),
                             fl_priority = fr_priority f\<rparr>) (insert_files tid (from_metainfo m root))\<rparr>"

lemma inserted_tables:
  assumes "catalog_ok c" "\<forall>r \<in> set (ct_torrents c). tr_infohash r \<noteq> mi_infohash m" "mi_files m \<noteq> []"
    and run: "insert_torrent now key (from_metainfo m root) c = (out, c')"
    and tid: "tid = next_id tr_id (ct_torrents c)" and ok: "catalog_ok c'"
  shows "out = Inserted tid" "load_storage_layout tid c' = Inr (stored_layout tid m root)"
    "load_piece_hashes tid c' = Inr (mi_pieces m)" "have_pieces c' tid = {}"
proof -
  let ?ins = "from_metainfo m root"
  have "find (\<lambda>r. tr_infohash r = mi_infohash m) (ct_torrents c) = None" using assms(2) by (auto simp: find_None_iff)
  then show "out = Inserted tid" and c': "load_piece_hashes tid c' = Inr (mi_pieces m)"
    using run by (auto simp: insert_torrent_def from_metainfo_def load_piece_hashes_def Let_def tid)
  have rows: "ct_torrents c' = ct_torrents c @ [insert_row now key tid ?ins]" "ct_files c' = ct_files c @ insert_files tid ?ins"
    "ct_bitfield c' tid = Some \<lparr>br_bits = None, br_have_count = 0\<rparr>"
    "ct_meta c' tid = Some \<lparr>mr_data_root = root, mr_home_root = None, mr_source = None\<rparr>"
    using run \<open>find _ _ = None\<close> by (auto simp: insert_torrent_def from_metainfo_def Let_def tid)
  have r: "torrent_by_id c' tid = Some (insert_row now key tid ?ins)"
    using by_id_Some [of c' tid] ok by (simp add: rows(1) insert_row_fields catalog_ok_def)
  have "f \<in> set (ct_files c) \<Longrightarrow> fr_torrent f \<noteq> tid" for f
    using assms(1) next_id_fresh [of c] by (auto simp: catalog_ok_def refs_ok_def tid)
  then have fs: "file_rows c' tid = insert_files tid ?ins" by (rule insert_files_read [OF _ rows(2)])
  show "load_storage_layout tid c' = Inr (stored_layout tid m root)" using assms(3)
    by (simp add: load_storage_layout_def r rows(4) fs Let_def stored_layout_def insert_row_fields)
      (simp add: insert_files_def from_metainfo_def enumerate_eq_zip)
  show "have_pieces c' tid = {}"
    by (simp add: have_pieces_def load_bitfield_state_def r rows(3) Let_def insert_row_fields)
qed

lemma stored_files:
  assumes "\<forall>f \<in> set (mi_files m). tf_size f \<le> u64_max" "\<forall>f \<in> set (mi_files m). tf_offset f \<le> u64_max"
  shows "map fl_path (files (stored_layout tid m root)) = map tf_path (mi_files m)"
    "map fl_size (files (stored_layout tid m root)) = map tf_size (mi_files m)"
    "map fl_offset (files (stored_layout tid m root)) = map tf_offset (mi_files m)"
proof -
  have i: "map i64_as_u64 (map (\<lambda>f. u64_as_i64 (g f)) (mi_files m)) = map g (mi_files m)"
    if "\<forall>f \<in> set (mi_files m). g f \<le> u64_max" for g using that by simp
  let ?fs = "insert_files tid (from_metainfo m root)"
  have "map fl_path (files (stored_layout tid m root)) = map fr_path ?fs"
    "map fl_size (files (stored_layout tid m root)) = map i64_as_u64 (map fr_size ?fs)"
    "map fl_offset (files (stored_layout tid m root)) = map i64_as_u64 (map fr_offset ?fs)" by (simp_all add: stored_layout_def)
  then show "map fl_path (files (stored_layout tid m root)) = map tf_path (mi_files m)"
    "map fl_size (files (stored_layout tid m root)) = map tf_size (mi_files m)"
    "map fl_offset (files (stored_layout tid m root)) = map tf_offset (mi_files m)"
    using i [OF assms(1)] i [OF assms(2)] unfolding insert_files_fields by auto
qed

text \<open>C26. A torrent file that the parser accepts and the catalog does not know yet, whose total size is not 0, fits 64
  bits and needs fewer than \<open>2 ^ 32\<close> pieces, is inserted under a new id, leaves the catalog consistent, and is read back as the layout the rest of the
  program relies on: its files are those of the torrent in order, tile the torrent without gaps, and agree with the
  piece length and count; the piece hashes are the torrent's and no piece is on disk yet.\<close>

theorem imported_torrent_layout:
  assumes "catalog_ok c" "parse_bytes sha1 data = Inr m" "\<forall>r \<in> set (ct_torrents c). tr_infohash r \<noteq> mi_infohash m"
    and sizes: "sum_list (map tf_size (mi_files m)) \<le> u64_max" "0 < sum_list (map tf_size (mi_files m))"
      "div_ceil (mi_total_size m) (mi_piece_length m) < 2 ^ 32"
  shows "\<exists>tid c' lay. insert_torrent now key (from_metainfo m root) c = (Inserted tid, c')
    \<and> tid \<notin> torrent_ids c \<and> catalog_ok c'
    \<and> load_storage_layout tid c' = Inr lay \<and> small_layout lay
    \<and> data_root lay = root \<and> map fl_path (files lay) = map tf_path (mi_files m)
    \<and> map fl_size (files lay) = map tf_size (mi_files m) \<and> piece_length lay = mi_piece_length m
    \<and> load_piece_hashes tid c' = Inr (mi_pieces m) \<and> have_pieces c' tid = {}"
proof -
  let ?tid = "next_id tr_id (ct_torrents c)"
  let ?lay = "stored_layout ?tid m root"
  obtain out c' where run: "insert_torrent now key (from_metainfo m root) c = (out, c')" by fastforce
  have ok: "catalog_ok c'"
    by (rule insert_keeps_ok [OF assms(1), of "from_metainfo m root" _ now key])
      (use assms(3) in \<open>simp_all add: run\<close>, simp add: from_metainfo_def)
  have "mi_files m \<noteq> []" using sizes(2) by auto
  note ins = inserted_tables [OF assms(1,3) this run refl ok]
  obtain info where "parse_files info = Inr (mi_files m)" using parse_bytes_facts(7) [OF assms(2)] by blast
  note fok = parse_files_ok [OF this]
  have fields: "map fl_path (files ?lay) = map tf_path (mi_files m)" "map fl_size (files ?lay) = map tf_size (mi_files m)"
    "map fl_offset (files ?lay) = map tf_offset (mi_files m)"
    using fok tiled_offsets [of 0 "mi_files m"] by (intro stored_files; auto)+
  have tot: "mi_total_size m = sum_list (map tf_size (mi_files m))" "mi_total_size m \<le> u64_max"
    using parse_bytes_facts(4) [OF assms(2)] sizes(1) by simp_all
  have pl: "piece_length ?lay = mi_piece_length m" "piece_count ?lay = mi_piece_count m" "total_size ?lay = mi_total_size m"
    using parse_bytes_facts(2,3) [OF assms(2)] tot(2) by (simp_all add: stored_layout_def)
  have "mi_piece_count m = div_ceil (mi_total_size m) (mi_piece_length m)"
    using parse_bytes_facts(6) [OF assms(2)] tot(1) sizes(2,3) by simp
  moreover have "contiguous 0 (files ?lay)"
    by (rule tiled_contiguous [OF _ _ fields(2,3)]) (use fok sizes(1) in simp_all)
  ultimately have "small_layout ?lay"
    using pl tot fields(2) parse_bytes_facts(1,3) [OF assms(2)] by (simp add: small_layout_def layout_ok_def)
  then show ?thesis
    using run ins ok next_id_fresh fields pl(1)
    by (intro exI [of _ ?tid] exI [of _ c'] exI [of _ ?lay]) (simp add: stored_layout_def)
qed

theorem imported_torrent_layout_witness:
  "\<exists>m tid c' lay. insert_torrent 1 2 (from_metainfo m \<lparr>is_abs = True, comps = [''d'']\<rparr>) catalog_empty = (Inserted tid, c')
     \<and> load_storage_layout tid c' = Inr lay \<and> small_layout lay \<and> map fl_size (files lay) = [5] \<and> have_pieces c' tid = {}"
proof -
  obtain m where m: "parse_bytes (\<lambda>x. x) (sized_torrent 5 (replicate 20 7)) = Inr m" "map tf_size (mi_files m) = [5]"
    "mi_total_size m = 5" "mi_piece_length m = 16384"
    using small_torrent_parses [of "\<lambda>x. x"] by (elim exE conjE)
  have "catalog_ok catalog_empty"
    by (simp add: catalog_ok_def keys_ok_def refs_ok_def rows_ok_def catalog_empty_def torrent_ids_def)
  moreover have "\<forall>r \<in> set (ct_torrents catalog_empty). tr_infohash r \<noteq> mi_infohash m" by (simp add: catalog_empty_def)
  moreover have "sum_list (map tf_size (mi_files m)) \<le> u64_max" "0 < sum_list (map tf_size (mi_files m))"
    "div_ceil (mi_total_size m) (mi_piece_length m) < 2 ^ 32"
    by (simp_all add: m div_ceil_def)
  ultimately have "\<exists>tid c' lay. insert_torrent 1 2 (from_metainfo m \<lparr>is_abs = True, comps = [''d'']\<rparr>) catalog_empty = (Inserted tid, c')
    \<and> tid \<notin> torrent_ids catalog_empty \<and> catalog_ok c' \<and> load_storage_layout tid c' = Inr lay \<and> small_layout lay
    \<and> data_root lay = \<lparr>is_abs = True, comps = [''d'']\<rparr> \<and> map fl_path (files lay) = map tf_path (mi_files m)
    \<and> map fl_size (files lay) = map tf_size (mi_files m) \<and> piece_length lay = mi_piece_length m
    \<and> load_piece_hashes tid c' = Inr (mi_pieces m) \<and> have_pieces c' tid = {}"
    by (intro imported_torrent_layout [OF _ m(1)])
  then show ?thesis unfolding m(2) by (elim exE conjE) (intro exI conjI)
qed

end
