(* ===== verification/Catalog_Invariant.thy ===== *)
theory Catalog_Invariant
  imports Catalog_Import
begin

text \<open>
  The catalog stays consistent: every operation that writes a table keeps its invariant, so it holds in every
  state the program can bring the catalog to from an empty database.
\<close>

section \<open>Two general changes\<close>

lemma ok_map_rows:
  assumes ok: "catalog_ok c" and t: "ct_torrents c' = map f (ct_torrents c)"
    and f: "\<And>r. tr_id (f r) = tr_id r" "\<And>r. tr_infohash (f r) = tr_infohash r" "\<And>r. row_pc (f r) = row_pc r"
      "\<And>r. tr_complete (f r) = tr_complete r" "\<And>r. r \<in> set (ct_torrents c) \<Longrightarrow> delete_ok r \<Longrightarrow> delete_ok (f r)"
    and rest: "ct_files c' = ct_files c" "ct_hashes c' = ct_hashes c" "ct_bitfield c' = ct_bitfield c"
      "ct_trackers c' = ct_trackers c" "ct_peers c' = ct_peers c" "ct_blobs c' = ct_blobs c"
      "dom (ct_stats c') \<subseteq> torrent_ids c" "dom (ct_meta c') \<subseteq> torrent_ids c"
  shows "catalog_ok c'"
proof -
  have ids: "torrent_ids c' = torrent_ids c" by (simp add: torrent_ids_def t f(1) image_image)
  have "bits_ok (f r) b = bits_ok r b" for r b unfolding bits_ok_def f(3,4) ..
  then show ?thesis using ok ids
    by (auto simp: catalog_ok_def keys_ok_def refs_ok_def rows_ok_def t f rest comp_def)
qed

lemma ok_side_tables:
  assumes ok: "catalog_ok c" and t: "ct_torrents c' = ct_torrents c" "ct_bitfield c' = ct_bitfield c" "ct_hashes c' = ct_hashes c"
    and side: "fr_torrent ` set (ct_files c') \<subseteq> torrent_ids c" "kr_torrent ` set (ct_trackers c') \<subseteq> torrent_ids c"
      "pr_torrent ` set (ct_peers c') \<subseteq> torrent_ids c" "distinct (map (\<lambda>p. (pr_torrent p, pr_addr p)) (ct_peers c'))"
      "dom (ct_stats c') \<subseteq> torrent_ids c" "dom (ct_meta c') \<subseteq> torrent_ids c" "dom (ct_blobs c') \<subseteq> torrent_ids c"
  shows "catalog_ok c'"
proof -
  have "torrent_ids c' = torrent_ids c" by (simp add: torrent_ids_def t)
  then show ?thesis using ok side by (auto simp: catalog_ok_def keys_ok_def refs_ok_def rows_ok_def t)
qed

lemma ok_refs:
  assumes "catalog_ok c"
  shows "fr_torrent ` set (ct_files c) \<subseteq> torrent_ids c" "kr_torrent ` set (ct_trackers c) \<subseteq> torrent_ids c"
    "pr_torrent ` set (ct_peers c) \<subseteq> torrent_ids c" "distinct (map (\<lambda>p. (pr_torrent p, pr_addr p)) (ct_peers c))"
    "dom (ct_stats c) \<subseteq> torrent_ids c" "dom (ct_meta c) \<subseteq> torrent_ids c" "dom (ct_blobs c) \<subseteq> torrent_ids c"
  using assms by (auto simp: catalog_ok_def refs_ok_def keys_ok_def)

lemma by_id_ids: "torrent_by_id c i \<noteq> None \<longleftrightarrow> i \<in> torrent_ids c"
  unfolding by_id_None by simp

section \<open>Torrent rows\<close>

lemma ok_update_status:
  assumes "catalog_ok c" "\<And>r. tr_id (f r) = tr_id r" "\<And>r. tr_infohash (f r) = tr_infohash r" "\<And>r. row_pc (f r) = row_pc r"
      "\<And>r. tr_complete (f r) = tr_complete r" "\<And>r. r \<in> set (ct_torrents c) \<Longrightarrow> P r \<Longrightarrow> delete_ok r \<Longrightarrow> delete_ok (f r)"
  shows "catalog_ok (c\<lparr>ct_torrents := sql_update P f (ct_torrents c)\<rparr>)"
  by (rule ok_map_rows [where f = "\<lambda>r. if P r then f r else r", OF assms(1)])
    (use assms ok_refs [OF assms(1)] in \<open>simp_all add: sql_update_def\<close>)

lemma ok_set_want_start: "catalog_ok c \<Longrightarrow> set_want_start tid want c = Inr c' \<Longrightarrow> catalog_ok c'"
  by (auto simp: set_want_start_def row_pc_def delete_ok_def split: if_splits intro!: ok_update_status)

lemma ok_sync_state: "catalog_ok c \<Longrightarrow> catalog_ok (snd (sync_state_with_want_start c))"
proof -
  assume ok: "catalog_ok c"
  let ?c = "c\<lparr>ct_torrents := sql_update needs_started (\<lambda>r. r\<lparr>tr_state := ''started''\<rparr>) (ct_torrents c)\<rparr>"
  have "catalog_ok ?c" using ok by (rule ok_update_status) (simp_all add: row_pc_def delete_ok_def)
  then have "catalog_ok (?c\<lparr>ct_torrents := sql_update needs_stopped (\<lambda>r. r\<lparr>tr_state := ''stopped''\<rparr>) (ct_torrents ?c)\<rparr>)"
    by (rule ok_update_status) (simp_all add: row_pc_def delete_ok_def)
  then show ?thesis by (simp add: sync_state_with_want_start_def Let_def)
qed

lemma ok_mark_deleted: "catalog_ok c \<Longrightarrow> mark_deleted now tid c = Inr c' \<Longrightarrow> catalog_ok c'"
  by (auto simp: mark_deleted_def update_torrent_def row_pc_def delete_ok_def split: option.splits if_splits intro!: ok_update_status)

lemma ok_set_torrent_state: "catalog_ok c \<Longrightarrow> catalog_ok (set_torrent_state tid st c)"
  unfolding set_torrent_state_def update_torrent_def by (rule ok_update_status) (simp_all add: row_pc_def delete_ok_def)

lemma ok_set_tracker_key: "catalog_ok c \<Longrightarrow> set_tracker_key tid k c = Inr c' \<Longrightarrow> catalog_ok c'"
  by (auto simp: set_tracker_key_def update_torrent_def row_pc_def delete_ok_def split: if_splits intro!: ok_update_status)

section \<open>Removal\<close>

lemma ok_drop_torrent:
  assumes "catalog_ok c"
  shows "catalog_ok (drop_torrent tid c)"
proof -
  have "torrent_ids (drop_torrent tid c) = torrent_ids c - {tid}" by (auto simp: torrent_ids_def drop_torrent_def)
  then show ?thesis
    using assms by (auto simp: catalog_ok_def keys_ok_def refs_ok_def rows_ok_def drop_torrent_def distinct_map_filter dom_def)
qed

lemma ok_remove_torrent: "catalog_ok c \<Longrightarrow> remove_torrent i c = Inr c' \<Longrightarrow> catalog_ok c'"
  by (auto simp: remove_torrent_def ok_drop_torrent split: option.splits if_splits)

lemma ok_remove_all: "catalog_ok c \<Longrightarrow> remove_all_torrents ids c = Inr c' \<Longrightarrow> catalog_ok c'"
  by (induction ids c rule: remove_all_torrents.induct) (auto split: sum.splits dest: ok_remove_torrent)

lemma remove_all_spec:
  assumes "catalog_ok c" "distinct ids" "\<forall>i \<in> set ids. \<exists>r. torrent_by_id c i = Some r \<and> tr_deleted r"
  shows "\<exists>c'. remove_all_torrents ids c = Inr c' \<and> catalog_ok c' \<and> torrent_ids c' = torrent_ids c - set ids
    \<and> (\<forall>i. i \<notin> set ids \<longrightarrow> torrent_by_id c' i = torrent_by_id c i \<and> have_pieces c' i = have_pieces c i)"
  using assms
proof (induction ids arbitrary: c)
  case (Cons i ids)
  obtain r where r: "torrent_by_id c i = Some r" "tr_deleted r" using Cons.prems(3) by auto
  then have "\<not> tr_want_start r" using ok_row_facts(2) [OF Cons.prems(1) r(1)] by (simp add: delete_ok_def)
  then have rm: "remove_torrent i c = Inr (drop_torrent i c)" using r by (simp add: remove_torrent_def)
  have b: "torrent_by_id (drop_torrent i c) j = (if j = i then None else torrent_by_id c j)" for j
  proof -
    have "find (\<lambda>r. tr_id r = j) (filter (\<lambda>r. tr_id r \<noteq> i) t) = (if j = i then None else find (\<lambda>r. tr_id r = j) t)" for t :: "torrent_row list"
      by (induction t) auto
    then show ?thesis by (simp add: torrent_by_id_def drop_torrent_def)
  qed
  have h: "have_pieces (drop_torrent i c) j = have_pieces c j" if "j \<noteq> i" for j
    by (rule have_pieces_other) (use that b in \<open>simp_all add: drop_torrent_def\<close>)
  have ids: "torrent_ids (drop_torrent i c) = torrent_ids c - {i}" by (auto simp: torrent_ids_def drop_torrent_def)
  have "\<forall>j \<in> set ids. \<exists>r. torrent_by_id (drop_torrent i c) j = Some r \<and> tr_deleted r" using Cons.prems(2,3) b by auto
  from Cons.IH [OF ok_drop_torrent [OF Cons.prems(1)] _ this] Cons.prems(2) obtain c' where
    "remove_all_torrents ids (drop_torrent i c) = Inr c'" "catalog_ok c'" "torrent_ids c' = torrent_ids c - {i} - set ids"
    "\<forall>j. j \<notin> set ids \<longrightarrow> torrent_by_id c' j = torrent_by_id (drop_torrent i c) j \<and> have_pieces c' j = have_pieces (drop_torrent i c) j"
    unfolding ids by auto
  then show ?case using rm b h by (intro exI [of _ c']) auto
qed simp

definition expired :: "int \<Rightarrow> nat \<Rightarrow> catalog \<Rightarrow> int set" where
  "expired now days c =
     {i. 0 < days \<and> (\<exists>r. torrent_by_id c i = Some r \<and> purge_due (purge_cutoff now days) r)}"

text \<open>Purging forgets only what was deleted long enough ago: it never fails, removes exactly the torrents that are soft-deleted
  with a deletion time at or before the cutoff and every row that refers to them, reports their number,
  and leaves all other torrents and their pieces as they were; with zero days it does nothing.\<close>

theorem purge_removes_only_expired:
  assumes "catalog_ok c"
  shows "\<exists>c'. purge_soft_deleted now days c = Inr (card (expired now days c), c') \<and> catalog_ok c' \<and> torrent_ids c' = torrent_ids c - expired now days c
    \<and> (\<forall>i. i \<notin> expired now days c \<longrightarrow> torrent_by_id c' i = torrent_by_id c i \<and> have_pieces c' i = have_pieces c i)"
proof (cases "days = 0")
  case True
  then show ?thesis using assms(1) by (simp add: purge_soft_deleted_def expired_def)
next
  case False
  let ?ids = "map tr_id (sort_key tr_id (filter (purge_due (purge_cutoff now days)) (ct_torrents c)))"
  have k: "keys_ok c" using assms(1) by (simp add: catalog_ok_def)
  have ids: "set ?ids = expired now days c" using False by_id_Some [OF k] by (auto simp: expired_def)
  have "inj_on tr_id (set (ct_torrents c))" "distinct (ct_torrents c)" using k by (simp_all add: keys_ok_def distinct_map)
  then have dist: "distinct ?ids" by (auto simp: distinct_map intro: inj_on_subset)
  have "\<forall>i \<in> set ?ids. \<exists>r. torrent_by_id c i = Some r \<and> tr_deleted r"
    unfolding ids by (auto simp: expired_def purge_due_def)
  from remove_all_spec [OF assms(1) dist this] obtain c' where c':
    "remove_all_torrents ?ids c = Inr c'" "catalog_ok c'" "torrent_ids c' = torrent_ids c - expired now days c"
    "\<forall>i. i \<notin> expired now days c \<longrightarrow> torrent_by_id c' i = torrent_by_id c i \<and> have_pieces c' i = have_pieces c i"
    unfolding ids by (elim exE conjE)
  have "length ?ids = card (expired now days c)" using distinct_card [OF dist] unfolding ids by simp
  then have "purge_soft_deleted now days c = Inr (card (expired now days c), c')"
    using False c'(1) by (simp add: purge_soft_deleted_def Let_def del: length_map length_sort)
  then show ?thesis using c'(2-4) by blast
qed

section \<open>Side tables\<close>

lemma ok_put_row:
  assumes "catalog_ok c" "tid \<in> torrent_ids c"
  shows "catalog_ok (c\<lparr>ct_stats := (ct_stats c)(tid \<mapsto> s)\<rparr>)" "catalog_ok (c\<lparr>ct_meta := (ct_meta c)(tid \<mapsto> m)\<rparr>)"
    "catalog_ok (c\<lparr>ct_blobs := (ct_blobs c)(tid \<mapsto> b)\<rparr>)"
  using ok_refs [OF assms(1)] assms(2) by (intro ok_side_tables [OF assms(1)]; simp)+

lemma ok_set_metainfo_blob:
  assumes "catalog_ok c" "set_metainfo_blob tid blob c = Inr c'"
  shows "catalog_ok c'"
proof -
  have "torrent_by_id c tid \<noteq> None" "c' = c\<lparr>ct_blobs := (ct_blobs c)(tid \<mapsto> blob)\<rparr>"
    using assms(2) by (auto simp: set_metainfo_blob_def split: if_splits)
  then show ?thesis using ok_put_row(3) [OF assms(1)] by (simp only: by_id_ids)
qed

lemma ok_update_meta: "catalog_ok c \<Longrightarrow> update_meta tid f c = Inr c' \<Longrightarrow> catalog_ok c'"
proof -
  assume ok: "catalog_ok c" and u: "update_meta tid f c = Inr c'"
  then obtain m where m: "ct_meta c tid = Some m" "c' = c\<lparr>ct_meta := (ct_meta c)(tid \<mapsto> f m)\<rparr>"
    by (auto simp: update_meta_def split: option.splits)
  have "tid \<in> torrent_ids c" using m(1) ok_refs(6) [OF ok] by blast
  then show "catalog_ok c'" using ok_put_row(2) [OF ok] m(2) by simp
qed

lemma ok_set_uploaded_batch: "catalog_ok c \<Longrightarrow> set_uploaded_batch rows c = Inr c' \<Longrightarrow> catalog_ok c'"
proof (induction rows c rule: set_uploaded_batch.induct)
  case (2 tid uploaded rows c)
  have t: "torrent_by_id c tid \<noteq> None" using "2.prems"(2) by (auto split: if_splits)
  then have "catalog_ok (c\<lparr>ct_stats := (ct_stats c)(tid \<mapsto> x)\<rparr>)" for x
    using ok_put_row(1) [OF "2.prems"(1)] by (simp only: by_id_ids)
  then show ?case using "2.IH" "2.prems"(2) t by (simp add: Let_def)
qed simp

lemma ok_update_import_meta:
  assumes "catalog_ok c" "update_import_meta tid created fin up down c = Inr c'"
  shows "catalog_ok c'"
proof -
  define c1 where "c1 = (case created of
      Some t \<Rightarrow> if t > 0 then update_torrent tid (\<lambda>r. r\<lparr>tr_created_at := t\<rparr>) c else c | None \<Rightarrow> c)"
  have "catalog_ok (update_torrent tid (\<lambda>r. r\<lparr>tr_created_at := t\<rparr>) c)" for t
    unfolding update_torrent_def using assms(1) by (rule ok_update_status) (simp_all add: row_pc_def delete_ok_def)
  then have ok: "catalog_ok c1" using assms(1) by (simp add: c1_def split: option.split)
  have "c' = c1 \<or> (\<exists>s. torrent_by_id c1 tid \<noteq> None \<and> c' = c1\<lparr>ct_stats := (ct_stats c1)(tid \<mapsto> s)\<rparr>)"
    using assms(2) unfolding update_import_meta_def c1_def [symmetric] Let_def by (auto split: if_splits)
  then show ?thesis
    using ok ok_put_row(1) [OF ok] unfolding by_id_ids by blast
qed

lemma ok_files:
  assumes "catalog_ok c" "map fr_torrent fs = map fr_torrent (ct_files c)"
  shows "catalog_ok (c\<lparr>ct_files := fs\<rparr>)"
proof -
  have "fr_torrent ` set fs = fr_torrent ` set (ct_files c)" using assms(2) by (metis list.set_map)
  then show ?thesis using ok_refs [OF assms(1)] by (intro ok_side_tables [OF assms(1)]) simp_all
qed

lemma update_file_torrents: "map fr_torrent (update_file tid idx prio t) = map fr_torrent t"
  unfolding update_file_def by (rule sql_update_map) simp

lemma ok_set_file_priority: "catalog_ok c \<Longrightarrow> set_file_priority_row tid idx prio c = Inr c' \<Longrightarrow> catalog_ok c'"
  by (auto simp: set_file_priority_row_def update_file_torrents split: if_splits intro!: ok_files)

lemma ok_set_file_priorities: "catalog_ok c \<Longrightarrow> catalog_ok (set_file_priorities tid prios c)"
proof -
  have "map fr_torrent (fold (\<lambda>(idx, prio). update_file tid idx prio) ps t) = map fr_torrent t" for ps t
    by (induction ps arbitrary: t) (simp_all add: update_file_torrents case_prod_beta)
  then show "catalog_ok c \<Longrightarrow> catalog_ok (set_file_priorities tid prios c)"
    unfolding set_file_priorities_def by (intro ok_files) simp_all
qed

lemma ok_tables:
  assumes "catalog_ok c" "kr_torrent ` set ks \<subseteq> torrent_ids c" "pr_torrent ` set ps \<subseteq> torrent_ids c"
    "distinct (map (\<lambda>p. (pr_torrent p, pr_addr p)) ps)"
  shows "catalog_ok (c\<lparr>ct_peers := ps, ct_trackers := ks\<rparr>)"
  using assms ok_refs [OF assms(1)] by (intro ok_side_tables [OF assms(1)]) simp_all

definition peers_ok :: "int set \<Rightarrow> peer_row list \<Rightarrow> bool" where
  "peers_ok ids t \<longleftrightarrow> pr_torrent ` set t \<subseteq> ids \<and> distinct (map (\<lambda>p. (pr_torrent p, pr_addr p)) t)"

lemma peers_ok_upsert_row:
  assumes "peers_ok ids t" "tid \<in> ids"
  shows "peers_ok ids (upsert_peer_row tid now a t)"
proof (cases "list_ex (\<lambda>r. pr_torrent r = tid \<and> pr_addr r = encode_peer_addr a) t")
  case True
  have "map (\<lambda>p. (pr_torrent p, pr_addr p)) (sql_update P (\<lambda>r. r\<lparr>pr_last_seen := now\<rparr>) t) = map (\<lambda>p. (pr_torrent p, pr_addr p)) t"
    "map pr_torrent (sql_update P (\<lambda>r. r\<lparr>pr_last_seen := now\<rparr>) t) = map pr_torrent t" for P
    by (rule sql_update_map, simp)+
  then show ?thesis using assms True by (simp add: peers_ok_def upsert_peer_row_def Let_def) (metis list.set_map)
next
  case False
  then show ?thesis using assms by (auto simp: peers_ok_def upsert_peer_row_def Let_def list_ex_iff)
qed

lemma peers_ok_upsert: "peers_ok ids t \<Longrightarrow> tid \<in> ids \<Longrightarrow> peers_ok ids (upsert_peer_cache_on tid peers now t)"
  unfolding upsert_peer_cache_on_def by (induction peers arbitrary: t) (simp_all add: peers_ok_upsert_row)

lemma peers_ok_filter: "peers_ok ids t \<Longrightarrow> peers_ok ids (filter P t)"
  by (auto simp: peers_ok_def distinct_map_filter)

lemma peers_ok_prune: "peers_ok ids t \<Longrightarrow> peers_ok ids (prune_peer_cache_on tid keep t)"
  by (simp add: prune_peer_cache_on_def Let_def peers_ok_filter)

lemma record_tracker_torrents: "map kr_torrent (record_tracker_announce_on now tid url u t) = map kr_torrent t"
proof -
  have "map kr_torrent (sql_update P (apply_tracker_update now u) t) = map kr_torrent t" for P
    by (rule sql_update_map) (simp add: apply_tracker_update_def Let_def)
  then show ?thesis by (simp add: record_tracker_announce_on_def split: option.split)
qed

lemma ok_upsert_peer_cache: "catalog_ok c \<Longrightarrow> upsert_peer_cache now tid peers c = Inr (n, c') \<Longrightarrow> catalog_ok c'"
proof -
  assume ok: "catalog_ok c" and u: "upsert_peer_cache now tid peers c = Inr (n, c')"
  have p: "peers_ok (torrent_ids c) (ct_peers c)" using ok_refs [OF ok] by (simp add: peers_ok_def)
  have "c' = c \<or> torrent_by_id c tid \<noteq> None \<and> c' = c\<lparr>ct_peers := upsert_peer_cache_on tid peers now (ct_peers c)\<rparr>"
    using u by (auto simp: upsert_peer_cache_def split: if_splits)
  then show "catalog_ok c'"
    using peers_ok_upsert [OF p, of tid peers now] ok ok_refs [OF ok]
      ok_side_tables [OF ok, of "c\<lparr>ct_peers := upsert_peer_cache_on tid peers now (ct_peers c)\<rparr>"]
    unfolding by_id_ids by (auto simp: peers_ok_def)
qed

lemma ok_persist_after_announce:
  assumes ok: "catalog_ok c" and p: "persist_after_announce now tid tp mp keep tr c = Inr c'"
  shows "catalog_ok c'"
proof -
  let ?ps = "if tp = [] then ct_peers c else prune_peer_cache_on tid keep (upsert_peer_cache_on tid tp now (ct_peers c))"
  let ?qs = "if mp = [] then ?ps else upsert_peer_cache_on tid mp now ?ps"
  let ?ks = "case tr of None \<Rightarrow> ct_trackers c | Some (url, u) \<Rightarrow> record_tracker_announce_on now tid url u (ct_trackers c)"
  have ids: "tp \<noteq> [] \<or> mp \<noteq> [] \<Longrightarrow> tid \<in> torrent_ids c" and c': "c' = c\<lparr>ct_peers := ?qs, ct_trackers := ?ks\<rparr>"
    using p by (simp_all add: persist_after_announce_def Let_def by_id_None split: if_splits)
  have "peers_ok (torrent_ids c) (ct_peers c)" using ok_refs [OF ok] by (simp add: peers_ok_def)
  then have "peers_ok (torrent_ids c) ?ps" using ids by (simp add: peers_ok_upsert peers_ok_prune)
  then have "peers_ok (torrent_ids c) ?qs" using ids by (simp add: peers_ok_upsert)
  moreover have "map kr_torrent ?ks = map kr_torrent (ct_trackers c)"
    by (simp add: record_tracker_torrents split: option.split)
  then have "kr_torrent ` set ?ks \<subseteq> torrent_ids c" using ok_refs(2) [OF ok] by (metis list.set_map)
  ultimately show ?thesis unfolding c' peers_ok_def by (intro ok_tables [OF ok]) blast+
qed

section \<open>Insertion, restoring, recheck\<close>

lemma ok_restore_deleted:
  assumes ok: "catalog_ok c"
  shows "catalog_ok (restore_deleted tid ins c)"
proof (cases "is_deleted c tid")
  case True
  then obtain r where "torrent_by_id c tid = Some r" by (auto simp: is_deleted_def split: option.splits)
  then have tid: "tid \<in> torrent_ids c" using ok_row_facts(3) [OF ok] by blast
  define c1 where "c1 = update_torrent tid (\<lambda>r. r\<lparr>tr_deleted := False, tr_deleted_at := None,
                  tr_want_start := ti_want_start ins, tr_state := restored_state ins, tr_error_msg := None\<rparr>) c"
  have c1: "catalog_ok c1" unfolding c1_def update_torrent_def
    using ok by (rule ok_update_status) (simp_all add: row_pc_def delete_ok_def)
  have tid1: "tid \<in> torrent_ids c1" unfolding c1_def using ids_update [of _ tid c] tid by simp
  define c2 where "c2 = (if path_is_empty (ti_data_root ins) then c1
                 else c1\<lparr>ct_meta := (ct_meta c1)(tid \<mapsto> restore_meta ins (ct_meta c1 tid))\<rparr>)"
  have c2: "catalog_ok c2" "tid \<in> torrent_ids c2"
    using ok_put_row(2) [OF c1 tid1] c1 tid1 by (simp_all add: c2_def torrent_ids_def)
  have "restore_deleted tid ins c = c2 \<or> (\<exists>blob. restore_deleted tid ins c = c2\<lparr>ct_blobs := (ct_blobs c2)(tid \<mapsto> blob)\<rparr>)"
    using True unfolding restore_deleted_def Let_def c1_def [symmetric] c2_def [symmetric] by (auto split: option.splits)
  then show ?thesis using c2 ok_put_row(3) [OF c2] by auto
qed (simp add: restore_deleted_def ok)

lemma ok_insert_torrent:
  assumes "catalog_ok c" "insert_ok ins" "insert_torrent now key ins c = (out, c')"
  shows "catalog_ok c'"
proof (cases "find (\<lambda>r. tr_infohash r = mi_infohash (ti_metainfo ins)) (ct_torrents c)")
  case None
  then have "\<forall>r \<in> set (ct_torrents c). tr_infohash r \<noteq> mi_infohash (ti_metainfo ins)" by (auto simp: find_None_iff)
  from insert_keeps_ok [OF assms(1) this assms(2), of c' now key] assms(3) show ?thesis by simp
next
  case (Some r)
  then have "c' = c \<or> c' = restore_deleted (tr_id r) ins c" using assms(3) by (auto simp: insert_torrent_def split: if_splits)
  then show ?thesis using assms(1) ok_restore_deleted by blast
qed

lemma bits_of_have_members:
  "bf_fits (bits_of_have have) (length have) \<and> bf.members (bits_of_have have) (length have) = {i. i < length have \<and> have ! i}"
proof -
  have "bits_of_have have = fold (\<lambda>i bf. bitfield_set bf i) (map fst (filter snd (enumerate 0 have))) (empty_bitfield (length have))"
  proof -
    have "fold (\<lambda>(i, h) bf. if h then bitfield_set bf i else bf) ps b = fold (\<lambda>i bf. bitfield_set bf i) (map fst (filter snd ps)) b" for ps b
      by (induction ps arbitrary: b) auto
    then show ?thesis by (simp add: bits_of_have_def)
  qed
  moreover have idx: "set (map fst (filter snd (enumerate 0 have))) = {i. i < length have \<and> have ! i}"
    by (force simp: in_set_enumerate_eq image_iff)
  have "set (map fst (filter snd (enumerate 0 have))) \<subseteq> {..<length have}" unfolding idx by auto
  note g = bf.get_fold [OF bf_fits_empty this] bf.fits_fold [OF bf_fits_empty]
  ultimately show ?thesis unfolding bf.members_def using g unfolding idx by auto
qed

lemma ok_recheck:
  assumes ok: "catalog_ok c" and r: "torrent_by_id c tid = Some r"
    and s: "set_bitfield_from_recheck now tid (row_pc r) have c = Inr c'"
  shows "catalog_ok c'"
proof -
  have len: "length have = row_pc r" using s by (simp add: set_bitfield_from_recheck_def split: if_splits)
  define n where "n = length (filter (\<lambda>h. h) have)"
  define whole where "whole \<longleftrightarrow> row_pc r > 0 \<and> n = row_pc r"
  note f = ok_row_facts [OF ok r]
  let ?g = "\<lambda>r. r\<lparr>tr_complete := whole, tr_state := ''stopped'', tr_error_msg := None\<rparr>"
  let ?c = "update_torrent tid ?g (put_bits tid (if whole then None else Some (bits_of_have have)) n c)"
  have c': "c' = (if whole then put_bits tid None n (finish_stats now tid ?c) else ?c)"
    using s unfolding set_bitfield_from_recheck_def Let_def n_def [symmetric] whole_def [symmetric] by (simp add: len r)
  then have t: "ct_torrents c' = ct_torrents (update_torrent tid ?g c)" by (simp add: store_simps) (simp add: update_torrent_def store_simps)
  have n: "n = card {i. i < row_pc r \<and> have ! i}" unfolding n_def len [symmetric] by (rule length_filter_conv_card)
  have m: "bf_fits (bits_of_have have) (row_pc r)" "bf.members (bits_of_have have) (row_pc r) = {i. i < row_pc r \<and> have ! i}"
    using bits_of_have_members [of "have"] by (simp_all add: len)
  have "n \<le> row_pc r" unfolding n_def len [symmetric] by simp
  have "bits_ok (?g r) (ct_bitfield c' tid)"
  proof (cases whole)
    case False
    have "row_pc (?g r) = row_pc r" by (simp add: row_pc_def)
    moreover have "0 < row_pc r \<longrightarrow> n < row_pc r" using \<open>n \<le> row_pc r\<close> False by (auto simp: whole_def)
    moreover have "ct_bitfield c' tid = Some \<lparr>br_bits = Some (bits_of_have have), br_have_count = int n\<rparr>"
      using False by (simp add: c' store_simps)
    ultimately show ?thesis using m n unfolding bits_ok_def by simp
  qed (simp add: bits_ok_def)
  then show ?thesis
    by (intro ok_row_change [OF ok _ _ t])
      (use f r in \<open>simp_all add: c' store_simps delete_ok_def\<close>)
qed

section \<open>Every reachable catalog\<close>

text \<open>One successful operation of the program on the catalog. A recheck runs with the torrent's own piece
  count, an insertion with a bitfield that fits its piece count.\<close>

inductive catalog_step :: "catalog \<Rightarrow> catalog \<Rightarrow> bool" where
  Insert: "insert_ok ins \<Longrightarrow> insert_torrent now key ins c = (out, c') \<Longrightarrow> catalog_step c c'"
| Set_blob: "set_metainfo_blob tid blob c = Inr c' \<Longrightarrow> catalog_step c c'"
| Import_meta: "update_import_meta tid created fin up down c = Inr c' \<Longrightarrow> catalog_step c c'"
| Want: "set_want_start tid want c = Inr c' \<Longrightarrow> catalog_step c c'"
| Sync: "sync_state_with_want_start c = (n, c') \<Longrightarrow> catalog_step c c'"
| Delete: "mark_deleted now tid c = Inr c' \<Longrightarrow> catalog_step c c'"
| Remove: "remove_torrent tid c = Inr c' \<Longrightarrow> catalog_step c c'"
| Purge: "purge_soft_deleted now days c = Inr (n, c') \<Longrightarrow> catalog_step c c'"
| State: "catalog_step c (set_torrent_state tid st c)"
| File_priority: "set_file_priority_row tid idx prio c = Inr c' \<Longrightarrow> catalog_step c c'"
| File_priorities: "catalog_step c (set_file_priorities tid prios c)"
| Recheck: "torrent_by_id c tid = Some r \<Longrightarrow> set_bitfield_from_recheck now tid (row_pc r) hv c = Inr c' \<Longrightarrow> catalog_step c c'"
| Pieces: "mark_pieces_have_batch now pieces c = Inr (done', c') \<Longrightarrow> (\<And>t i n n'. (t, i, n) \<in> set pieces \<Longrightarrow> (t, i, n') \<in> set pieces \<Longrightarrow> n = n')
     \<Longrightarrow> fst ` set pieces \<subseteq> torrent_ids c \<Longrightarrow> catalog_step c c'"
| Audit: "audit_complete_storage err fs c = Inr (k, n, c') \<Longrightarrow> catalog_step c c'"
| Problem: "mark_incomplete_storage_problem tid msg c = Inr c' \<Longrightarrow> catalog_step c c'"
| Data_root: "set_data_root tid root c = Inr c' \<Longrightarrow> catalog_step c c'"
| Home_root: "set_home_root tid home c = Inr c' \<Longrightarrow> catalog_step c c'"
| Peers: "upsert_peer_cache now tid peers c = Inr (n, c') \<Longrightarrow> catalog_step c c'"
| Announce: "persist_after_announce now tid tp mp keep tr c = Inr c' \<Longrightarrow> catalog_step c c'"
| Key: "ensure_tracker_key key tid c = Inr (k, c') \<Longrightarrow> catalog_step c c'"
| Uploaded: "set_uploaded_batch rows c = Inr c' \<Longrightarrow> catalog_step c c'"
| Setting: "catalog_step c (set_setting k v c)"

lemma catalog_step_ok: "catalog_step c c' \<Longrightarrow> catalog_ok c \<Longrightarrow> catalog_ok c'"
proof (induction rule: catalog_step.induct)
  case (Sync c n c')
  then show ?case using ok_sync_state [of c] by simp
next
  case (Purge now days c n c')
  then show ?case by (auto simp: purge_soft_deleted_def Let_def split: if_splits sum.splits dest: ok_remove_all)
next
  case (Pieces now pieces c done' c')
  define sz where "sz t i = (SOME n. (t, i, n) \<in> set pieces)" for t i
  have "n = sz t i" if "(t, i, n) \<in> set pieces" for t i n
    unfolding sz_def using someI [of "\<lambda>n. (t, i, n) \<in> set pieces", OF that] that Pieces(2) by blast
  then have "\<forall>(t, i, n) \<in> set pieces. n = sz t i" by auto
  moreover have "set (batch_order pieces) \<subseteq> torrent_ids c" using Pieces(3) by (simp add: batch_order_set)
  ultimately have "\<exists>done' c'. mark_batch now pieces (batch_order pieces) c = Inr (done', c') \<and> catalog_ok c'"
    using mark_batch_spec [OF Pieces(4) _ batch_order_set(2) [of pieces], of pieces sz now] by blast
  then show ?case using Pieces(1,4)
    by (auto simp: mark_pieces_have_batch_def split: if_splits)
next
  case (Audit err fs c k n c')
  then show ?case using audit_loop_spec [OF Audit(2) audit_ids_set(3,2) [OF Audit(2)], of err fs 0]
    by (auto simp: audit_complete_storage_def)
next
  case (Problem tid msg c c')
  then obtain r where "torrent_by_id c tid = Some r" by (auto simp: mark_incomplete_storage_problem_def split: if_splits)
  from mark_incomplete_spec [OF Problem(2) this, of msg] show ?case using Problem(1) by auto
next
  case (Key key tid c k c')
  then show ?case by (auto simp: ensure_tracker_key_def split: if_splits sum.splits dest: ok_set_tracker_key)
next
  case (Setting c k v)
  then show ?case using ok_refs [OF Setting] by (intro ok_side_tables [OF Setting]) (simp_all add: set_setting_def)
qed (auto simp: set_data_root_def set_home_root_def
  dest: ok_insert_torrent ok_set_metainfo_blob ok_update_import_meta ok_set_want_start ok_mark_deleted ok_remove_torrent ok_recheck
    ok_update_meta ok_upsert_peer_cache ok_persist_after_announce ok_set_uploaded_batch ok_set_file_priority
  intro: ok_set_torrent_state ok_set_file_priorities)

text \<open>C25. The catalog is consistent in every state the program can bring it to from an empty database: ids and
  info-hashes are unique and every row of the other tables refers to an existing torrent; of a torrent not marked complete, the
  stored bits and the stored count agree and at least one piece is missing; a deleted torrent has a
  deletion time and is not started.\<close>

theorem catalog_always_consistent:
  assumes "catalog_step\<^sup>*\<^sup>* catalog_empty c"
  shows "catalog_ok c"
  using assms
proof (induction rule: rtranclp_induct)
  case base
  show ?case by (simp add: catalog_ok_def keys_ok_def refs_ok_def rows_ok_def catalog_empty_def torrent_ids_def)
next
  case (step c c')
  then show ?case using catalog_step_ok by blast
qed

theorem catalog_always_consistent_witness:
  "catalog_ok (set_torrent_state 1 ''started'' (set_setting ''min_peers'' [0x35] catalog_empty))"
proof -
  note step = r_into_rtranclp [where r = catalog_step]
  have "catalog_step\<^sup>*\<^sup>* catalog_empty (set_setting ''min_peers'' [0x35] catalog_empty)"
    by (rule step) (rule catalog_step.Setting)
  then have "catalog_step\<^sup>*\<^sup>* catalog_empty (set_torrent_state 1 ''started'' (set_setting ''min_peers'' [0x35] catalog_empty))"
    by (rule rtranclp.rtrancl_into_rtrancl) (rule catalog_step.State)
  then show ?thesis by (rule catalog_always_consistent)
qed

text \<open>One of two torrents was deleted long ago.\<close>

definition wit_deleted :: catalog where
  "wit_deleted = catalog_empty\<lparr>ct_torrents :=
     [(wit_row 1)\<lparr>tr_deleted := True, tr_deleted_at := Some 5, tr_state := ''deleted''\<rparr>, wit_row 2]\<rparr>"

theorem purge_removes_only_expired_witness:
  "\<exists>c'. purge_soft_deleted 1000000 2 wit_deleted = Inr (1, c') \<and> torrent_ids c' = {2}
     \<and> torrent_by_id c' 2 = torrent_by_id wit_deleted 2"
proof -
  note w = wit_deleted_def catalog_empty_def wit_row_def
  have ok: "catalog_ok wit_deleted"
    by (simp add: catalog_ok_def keys_ok_def refs_ok_def rows_ok_def w torrent_ids_def bits_ok_def delete_ok_def)
  have cut: "purge_cutoff 1000000 2 = 827200" by (simp add: purge_cutoff_def sat_i64_def u64_as_i64_def)
  have "torrent_by_id wit_deleted i = (if i = 1 then Some (hd (ct_torrents wit_deleted)) else if i = 2 then Some (wit_row 2) else None)" for i
    by (simp add: torrent_by_id_def w)
  then have e: "expired 1000000 2 wit_deleted = {1}"
    by (auto simp: expired_def cut purge_due_def) (simp_all add: w)
  have ids: "torrent_ids wit_deleted - {1} = {2}" by (auto simp: torrent_ids_def w)
  from purge_removes_only_expired [OF ok, of 1000000 2] obtain c' where
    "purge_soft_deleted 1000000 2 wit_deleted = Inr (card {1 :: int}, c')" "torrent_ids c' = torrent_ids wit_deleted - {1}"
    "\<forall>i. i \<notin> {1} \<longrightarrow> torrent_by_id c' i = torrent_by_id wit_deleted i \<and> have_pieces c' i = have_pieces wit_deleted i"
    unfolding e by (elim exE conjE)
  then show ?thesis using ids by (intro exI [of _ c']) simp
qed

end
