(* ===== verification/Tracker.thy ===== *)
theory Tracker
  imports Catalog_Store
begin

text \<open>
  The tracker clients (\<open>tracker.rs\<close>, \<open>tracker/http.rs\<close>, \<open>tracker/udp.rs\<close>) and the per-host limit
  (\<open>tracker/limit.rs\<close>). What the network answers, the resolved addresses, the random draws and the URL parser of
  the \<open>url\<close> crate are arguments; everything the code computes from them is modelled.
\<close>

section \<open>Lossy UTF-8\<close>

text \<open>\<open>String::from_utf8_lossy\<close>: every maximal ill-formed part becomes one U+FFFD.\<close>

definition second_ok :: "byte \<Rightarrow> byte \<Rightarrow> bool" where
  "second_ok b c \<longleftrightarrow>
     (let b = unat b; c = unat c
      in if b = 0xE0 then 0xA0 \<le> c \<and> c \<le> 0xBF
         else if b = 0xED then 0x80 \<le> c \<and> c \<le> 0x9F
         else if b = 0xF0 then 0x90 \<le> c \<and> c \<le> 0xBF
         else if b = 0xF4 then 0x80 \<le> c \<and> c \<le> 0x8F
         else 0x80 \<le> c \<and> c \<le> 0xBF)"

text \<open>The length of a sequence that starts with a byte, 0 when none does.\<close>

definition lead_width :: "byte \<Rightarrow> nat" where
  "lead_width b =
     (let b = unat b
      in if b < 0x80 then 1 else if 0xC2 \<le> b \<and> b \<le> 0xDF then 2
         else if 0xE0 \<le> b \<and> b \<le> 0xEF then 3 else if 0xF0 \<le> b \<and> b \<le> 0xF4 then 4 else 0)"

text \<open>How many bytes of the sequence are there; \<open>k\<close> continuation bytes are still missing.\<close>

fun good_conts :: "nat \<Rightarrow> bytes \<Rightarrow> nat" where
  "good_conts 0 bs = 0"
| "good_conts (Suc k) [] = 0"
| "good_conts (Suc k) (c # cs) = (if cont_byte c then Suc (good_conts k cs) else 0)"

definition sequence_part :: "byte \<Rightarrow> bytes \<Rightarrow> nat" where
  "sequence_part b cs =
     (case cs of
        [] \<Rightarrow> 1
      | c # cs' \<Rightarrow> if lead_width b \<ge> 2 \<and> second_ok b c then 2 + good_conts (lead_width b - 2) cs' else 1)"

function from_utf8_lossy :: "bytes \<Rightarrow> bytes" where
  "from_utf8_lossy [] = []"
| "from_utf8_lossy (b # cs) =
     (let n = sequence_part b cs
      in (if n = lead_width b then b # take (n - 1) cs else [0xEF, 0xBF, 0xBD]) @ from_utf8_lossy (drop (n - 1) cs))"
  by pat_completeness auto
termination by (relation "measure length") auto

section \<open>Requests and responses\<close>

record announce_request =
  aq_url :: bytes
  aq_infohash :: bytes
  aq_peer_id :: bytes
  aq_port :: "16 word"
  aq_uploaded :: nat
  aq_downloaded :: nat
  aq_left :: nat
  aq_event :: "string option"
  aq_numwant :: nat
  aq_user_agent :: bytes
  aq_key :: nat

record announce_response =
  ar_interval :: nat
  ar_min_interval :: nat
  ar_peers :: "sock_addr list"
  ar_failure :: "bytes option"
  ar_complete :: "nat option"
  ar_incomplete :: "nat option"

definition response_default :: announce_response where
  "response_default = \<lparr>ar_interval = 0, ar_min_interval = 0, ar_peers = [], ar_failure = None,
     ar_complete = None, ar_incomplete = None\<rparr>"

datatype tracker_error =
    Empty_url
  | Unsupported_scheme bytes
  | Not_udp_url bytes
  | Bad_udp_port bytes
  | Empty_udp_host
  | Tracker_bencode bencode_error
  | Udp_connect_short
  | Udp_connect_mismatch
  | Udp_connect_error bytes
  | Udp_connect_action nat
  | Udp_announce_short
  | Udp_announce_mismatch
  | Udp_announce_action nat
  | Network_error bytes
  | Udp_failed

section \<open>HTTP\<close>

text \<open>\<open>major\<close>: the package's major version, from the build.\<close>

definition tracker_user_agent :: "bytes \<Rightarrow> bytes" where
  "tracker_user_agent major = ascii ''seedchamp/'' @ major"

definition effective_user_agent :: "bytes \<Rightarrow> announce_request \<Rightarrow> bytes" where
  "effective_user_agent major req =
     (let ua = str_trim (aq_user_agent req) in if ua = [] then tracker_user_agent major else ua)"

definition percent_encode_bytes :: "bytes \<Rightarrow> bytes" where
  "percent_encode_bytes bs =
     concat (map (\<lambda>x. [0x25, hex_digit_upper (unat x div 16), hex_digit_upper (unat x mod 16)]) bs)"

text \<open>\<open>{:08x}\<close> of a \<open>u32\<close>.\<close>

definition hex8 :: "nat \<Rightarrow> bytes" where
  "hex8 n = map (\<lambda>i. hex_digit (n div 16 ^ i mod 16)) (rev [0..<8])"

definition build_announce_url :: "announce_request \<Rightarrow> tracker_error + bytes" where
  "build_announce_url req =
     (let base = str_trim (aq_url req)
      in if base = [] then Inl Empty_url
         else
           let sep = (if str_contains base (ascii ''?'') then ascii ''&'' else ascii ''?'');
               url = base @ sep @ ascii ''info_hash='' @ percent_encode_bytes (aq_infohash req)
                   @ ascii ''&peer_id='' @ percent_encode_bytes (aq_peer_id req)
                   @ ascii ''&port='' @ dec (unat (aq_port req)) @ ascii ''&uploaded='' @ dec (aq_uploaded req)
                   @ ascii ''&downloaded='' @ dec (aq_downloaded req) @ ascii ''&left='' @ dec (aq_left req)
                   @ ascii ''&compact=1&numwant='' @ dec (aq_numwant req);
               url = (case aq_event req of None \<Rightarrow> url | Some ev \<Rightarrow> url @ ascii ''&event='' @ ascii ev)
           in Inr (if aq_key req \<noteq> 0 then url @ ascii ''&key='' @ hex8 (aq_key req) else url))"

fun chunks6 :: "bytes \<Rightarrow> bytes list" where
  "chunks6 (a # b # c # d # e # f # rest) = [a, b, c, d, e, f] # chunks6 rest"
| "chunks6 _ = []"

definition compact_peer :: "bytes \<Rightarrow> sock_addr" where
  "compact_peer chunk = Sock_v4 (take 4 chunk) (of_be16 (drop 4 chunk))"

fun sock_port :: "sock_addr \<Rightarrow> 16 word" where
  "sock_port (Sock_v4 ip p) = p"
| "sock_port (Sock_v6 ip p) = p"

text \<open>\<open>.max(0) as u32\<close> of an \<open>i64\<close>.\<close>

definition count_u32 :: "int \<Rightarrow> nat" where
  "count_u32 n = i64_as_u32 (max n 0)"

definition swarm_count :: "bvalue \<Rightarrow> string \<Rightarrow> nat option" where
  "swarm_count v key =
     (case dict_get_int v (ascii key) of None \<Rightarrow> None | Some n \<Rightarrow> if n \<ge> 0 then Some (i64_as_u32 n) else None)"

definition parse_announce_response :: "bytes \<Rightarrow> tracker_error + announce_response" where
  "parse_announce_response body =
     (case decode_full body of
        Inl e \<Rightarrow> Inl (Tracker_bencode e)
      | Inr v \<Rightarrow>
          (case dict_get_str v (ascii ''failure reason'') of
             Some f \<Rightarrow> Inr (response_default\<lparr>ar_failure := Some f\<rparr>)
           | None \<Rightarrow>
               (let interval = count_u32 (case dict_get_int v (ascii ''interval'') of None \<Rightarrow> 1800 | Some n \<Rightarrow> n);
                    min_interval = count_u32 (case dict_get_int v (ascii ''min interval'') of None \<Rightarrow> 0 | Some n \<Rightarrow> n)
                in Inr \<lparr>ar_interval = (if interval = 0 then 1800 else interval), ar_min_interval = min_interval,
                     ar_peers = (case dict_get_bytes v (ascii ''peers'') of
                                   None \<Rightarrow> [] | Some ps \<Rightarrow> map compact_peer (chunks6 ps)),
                     ar_failure = None, ar_complete = swarm_count v ''complete'', ar_incomplete = swarm_count v ''incomplete''\<rparr>)))"

text \<open>\<open>http_get url user_agent\<close> is what the GET returned: an error or the body.\<close>

definition announce_http ::
  "(bytes \<Rightarrow> bytes \<Rightarrow> bytes + bytes) \<Rightarrow> bytes \<Rightarrow> announce_request \<Rightarrow> tracker_error + announce_response" where
  "announce_http http_get major req =
     (case build_announce_url req of
        Inl e \<Rightarrow> Inl e
      | Inr url \<Rightarrow> (case http_get url (effective_user_agent major req) of
                     Inl e \<Rightarrow> Inl (Network_error e) | Inr body \<Rightarrow> parse_announce_response body))"

section \<open>UDP\<close>

definition be64 :: "64 word \<Rightarrow> bytes" where
  "be64 w = map (\<lambda>i. ucast (drop_bit (8 * i) w)) (rev [0..<8])"

definition of_be64 :: "bytes \<Rightarrow> 64 word" where
  "of_be64 bs = foldl (\<lambda>w b. push_bit 8 w OR ucast b) 0 bs"

definition PROTOCOL_ID :: "64 word" where "PROTOCOL_ID = 0x0000041727101980"
definition ACTION_CONNECT :: "32 word" where "ACTION_CONNECT = 0"
definition ACTION_ANNOUNCE :: "32 word" where "ACTION_ANNOUNCE = 1"
definition ACTION_ERROR :: "32 word" where "ACTION_ERROR = 3"

definition strip_prefix :: "bytes \<Rightarrow> bytes \<Rightarrow> bytes option" where
  "strip_prefix p s = (if starts_with s p then Some (drop (length p) s) else None)"

text \<open>\<open>rsplit_once\<close>: the part before and after the last occurrence.\<close>

definition rsplit_once :: "byte \<Rightarrow> bytes \<Rightarrow> (bytes \<times> bytes) option" where
  "rsplit_once c s =
     (let after = rev (takeWhile (\<lambda>b. b \<noteq> c) (rev s))
      in if c \<in> set s then Some (take (length s - length after - 1) s, after) else None)"

definition parse_u16 :: "bytes \<Rightarrow> nat option" where
  "parse_u16 s = (case parse_usize s of None \<Rightarrow> None | Some n \<Rightarrow> if n \<le> 65535 then Some n else None)"

definition parse_udp_tracker_url :: "bytes \<Rightarrow> tracker_error + bytes \<times> nat" where
  "parse_udp_tracker_url url =
     (let u = str_trim url
      in case (case strip_prefix (ascii ''udp://'') u of Some r \<Rightarrow> Some r | None \<Rightarrow> strip_prefix (ascii ''UDP://'') u) of
           None \<Rightarrow> Inl (Not_udp_url url)
         | Some rest \<Rightarrow>
             (let hostport = takeWhile (\<lambda>b. b \<noteq> 0x2F) rest
              in case (case rsplit_once 0x3A hostport of
                         Some (h, p) \<Rightarrow> (case parse_u16 p of None \<Rightarrow> Inl (Bad_udp_port url) | Some port \<Rightarrow> Inr (h, port))
                       | None \<Rightarrow> Inr (hostport, 80)) of
                   Inl e \<Rightarrow> Inl e
                 | Inr (host, port) \<Rightarrow> if host = [] then Inl Empty_udp_host else Inr (host, port)))"

definition build_connect_packet :: "32 word \<Rightarrow> bytes" where
  "build_connect_packet tid = be64 PROTOCOL_ID @ be32 ACTION_CONNECT @ be32 tid"

definition event_code :: "string option \<Rightarrow> 32 word" where
  "event_code ev =
     (if ev = Some ''completed'' then 1 else if ev = Some ''started'' then 2 else if ev = Some ''stopped'' then 3 else 0)"

definition build_announce_packet :: "nat \<Rightarrow> 64 word \<Rightarrow> 32 word \<Rightarrow> announce_request \<Rightarrow> bytes" where
  "build_announce_packet random_key conn_id tid req =
     be64 conn_id @ be32 ACTION_ANNOUNCE @ be32 tid @ aq_infohash req @ aq_peer_id req
     @ be64 (of_nat (aq_downloaded req)) @ be64 (of_nat (aq_left req)) @ be64 (of_nat (aq_uploaded req))
     @ be32 (event_code (aq_event req)) @ be32 0
     @ be32 (of_nat (if aq_key req \<noteq> 0 then aq_key req else random_key))
     @ be32 (of_nat (aq_numwant req)) @ be16 (aq_port req)"

text \<open>A reply is the first \<open>n\<close> bytes of the receive buffer.\<close>

definition parse_connect_response :: "bytes \<Rightarrow> 32 word \<Rightarrow> tracker_error + 64 word" where
  "parse_connect_response r tid =
     (if length r < 16 then Inl Udp_connect_short
      else
        let action = of_be32 (slice 0 4 r)
        in if of_be32 (slice 4 8 r) \<noteq> tid then Inl Udp_connect_mismatch
           else if action = ACTION_ERROR then Inl (Udp_connect_error (from_utf8_lossy (drop 8 r)))
           else if action \<noteq> ACTION_CONNECT then Inl (Udp_connect_action (unat action))
           else Inr (of_be64 (slice 8 16 r)))"

definition parse_announce_response_udp :: "bytes \<Rightarrow> 32 word \<Rightarrow> tracker_error + announce_response" where
  "parse_announce_response_udp r tid =
     (if length r < 20 then Inl Udp_announce_short
      else
        let action = of_be32 (slice 0 4 r)
        in if of_be32 (slice 4 8 r) \<noteq> tid then Inl Udp_announce_mismatch
           else if action = ACTION_ERROR then Inr (response_default\<lparr>ar_failure := Some (from_utf8_lossy (drop 8 r))\<rparr>)
           else if action \<noteq> ACTION_ANNOUNCE then Inl (Udp_announce_action (unat action))
           else Inr \<lparr>ar_interval = unat (of_be32 (slice 8 12 r)), ar_min_interval = 0,
                ar_peers = filter (\<lambda>a. sock_port a \<noteq> 0) (map compact_peer (chunks6 (drop 20 r))),
                ar_failure = None, ar_complete = Some (unat (of_be32 (slice 16 20 r))),
                ar_incomplete = Some (unat (of_be32 (slice 12 16 r)))\<rparr>)"

text \<open>One address: the packets sent and the result. The two transaction ids and what was received after each
  packet, an error or a datagram, are arguments; a datagram is cut to the receive buffer.\<close>

record udp_exchange =
  ux_tid1 :: "32 word"
  ux_reply1 :: "bytes + bytes"
  ux_tid2 :: "32 word"
  ux_reply2 :: "bytes + bytes"
  ux_random_key :: nat

definition announce_udp_addr ::
  "udp_exchange \<Rightarrow> announce_request \<Rightarrow> bytes list \<times> (tracker_error + announce_response)" where
  "announce_udp_addr x req =
     (let p1 = build_connect_packet (ux_tid1 x)
      in case ux_reply1 x of
           Inl e \<Rightarrow> ([p1], Inl (Network_error e))
         | Inr r1 \<Rightarrow>
             (case parse_connect_response (take 2048 r1) (ux_tid1 x) of
                Inl e \<Rightarrow> ([p1], Inl e)
              | Inr conn_id \<Rightarrow>
                  (let p2 = build_announce_packet (ux_random_key x) conn_id (ux_tid2 x) req
                   in case ux_reply2 x of
                        Inl e \<Rightarrow> ([p1, p2], Inl (Network_error e))
                      | Inr r2 \<Rightarrow> ([p1, p2], parse_announce_response_udp (take 4096 r2) (ux_tid2 x)))))"

fun announce_udp_addrs ::
  "udp_exchange list \<Rightarrow> announce_request \<Rightarrow> tracker_error \<Rightarrow> tracker_error + announce_response" where
  "announce_udp_addrs [] req last_err = Inl last_err"
| "announce_udp_addrs (x # xs) req last_err =
     (case snd (announce_udp_addr x req) of Inr r \<Rightarrow> Inr r | Inl e \<Rightarrow> announce_udp_addrs xs req e)"

definition announce_udp ::
  "(bytes \<Rightarrow> nat \<Rightarrow> bytes + udp_exchange list) \<Rightarrow> announce_request \<Rightarrow> tracker_error + announce_response" where
  "announce_udp resolve req =
     (case parse_udp_tracker_url (aq_url req) of
        Inl e \<Rightarrow> Inl e
      | Inr (host, port) \<Rightarrow>
          (case resolve host port of Inl e \<Rightarrow> Inl (Network_error e) | Inr xs \<Rightarrow> announce_udp_addrs xs req Udp_failed))"

section \<open>Dispatch and keys\<close>

definition generate_tracker_key :: "nat list \<Rightarrow> nat option" where
  "generate_tracker_key draws = find (\<lambda>k. k \<noteq> 0) draws"

definition announce_any ::
  "(bytes \<Rightarrow> bytes \<Rightarrow> bytes + bytes) \<Rightarrow> bytes \<Rightarrow> (bytes \<Rightarrow> nat \<Rightarrow> bytes + udp_exchange list) \<Rightarrow> announce_request
     \<Rightarrow> tracker_error + announce_response" where
  "announce_any http_get major resolve req =
     (let u = to_ascii_lowercase (str_trim (aq_url req))
      in if starts_with u (ascii ''udp://'') then announce_udp resolve req
         else if starts_with u (ascii ''http://'') \<or> starts_with u (ascii ''https://'') then announce_http http_get major req
         else Inl (Unsupported_scheme (aq_url req)))"

section \<open>The per-host limit\<close>

text \<open>Free tokens of each host seen so far. A permit is the host it must be returned to, if any.\<close>

record host_limiter =
  hl_max :: nat
  hl_hosts :: "bytes \<Rightarrow> nat option"

definition limiter_hosts_new :: "nat \<Rightarrow> host_limiter" where
  "limiter_hosts_new m = \<lparr>hl_max = m, hl_hosts = (\<lambda>_. None)\<rparr>"

definition sem_for :: "bytes \<Rightarrow> host_limiter \<Rightarrow> nat" where
  "sem_for key l = (case hl_hosts l key of Some n \<Rightarrow> n | None \<Rightarrow> max (hl_max l) 1)"

text \<open>\<open>None\<close>: the caller waits for a token.\<close>

definition host_acquire :: "bytes \<Rightarrow> host_limiter \<Rightarrow> bytes option option \<times> host_limiter" where
  "host_acquire key l =
     (if hl_max l = 0 \<or> key = [] then (Some None, l)
      else
        let n = sem_for key l
        in if n = 0 then (None, l\<lparr>hl_hosts := (hl_hosts l)(key \<mapsto> n)\<rparr>)
           else (Some (Some key), l\<lparr>hl_hosts := (hl_hosts l)(key \<mapsto> n - 1)\<rparr>))"

definition host_release :: "bytes option \<Rightarrow> host_limiter \<Rightarrow> host_limiter" where
  "host_release permit l =
     (case permit of
        None \<Rightarrow> l
      | Some key \<Rightarrow> (case hl_hosts l key of None \<Rightarrow> l | Some n \<Rightarrow>
          l\<lparr>hl_hosts := (hl_hosts l)(key \<mapsto> min (n + 1) (max (hl_max l) 1))\<rparr>))"

text \<open>\<open>parse_url\<close> is the parser of the \<open>url\<close> crate: host and port or default port.\<close>

definition tracker_host_key :: "(bytes \<Rightarrow> (bytes \<times> nat option) option) \<Rightarrow> bytes \<Rightarrow> bytes" where
  "tracker_host_key parse_url url =
     (let raw = str_trim url
      in if raw = [] then []
         else
           let candidate = (if str_contains raw (ascii ''://'') then raw else ascii ''http://'' @ raw)
           in case parse_url candidate of
                None \<Rightarrow> to_ascii_lowercase raw
              | Some (h, p) \<Rightarrow>
                  (let host = to_ascii_lowercase h
                   in if host = [] then to_ascii_lowercase raw
                      else host @ [0x3A] @ dec (case p of Some n \<Rightarrow> n | None \<Rightarrow> 80)))"

text \<open>\<open>announce_limited\<close>: a permit is taken for the host, the announce runs, the permit is returned.\<close>

definition announce_limited ::
  "(bytes \<Rightarrow> bytes \<Rightarrow> bytes + bytes) \<Rightarrow> bytes \<Rightarrow> (bytes \<Rightarrow> nat \<Rightarrow> bytes + udp_exchange list)
     \<Rightarrow> (bytes \<Rightarrow> (bytes \<times> nat option) option) \<Rightarrow> announce_request \<Rightarrow> host_limiter
     \<Rightarrow> (tracker_error + announce_response) option \<times> host_limiter" where
  "announce_limited http_get major resolve parse_url req l =
     (case host_acquire (tracker_host_key parse_url (aq_url req)) l of
        (None, l') \<Rightarrow> (None, l')
      | (Some permit, l') \<Rightarrow> (Some (announce_any http_get major resolve req), host_release permit l'))"

end
