(* ===== verification/Tracker_Correct.thy ===== *)
theory Tracker_Correct
  imports Tracker Bencode_Correct
begin

text \<open>
  What the tracker clients promise: an answer built as BEP 15 or BEP 3 say is read back exactly, an answer
  to another transaction is refused, and no host has more announces in flight than its limit.
\<close>

section \<open>Integers on the wire\<close>

lemma length_be64 [simp]: "length (be64 w) = 8"
  by (simp add: be64_def)

lemma foldl_be:
  "foldl (\<lambda>w b. push_bit 8 w OR ucast (b :: byte)) acc (map (\<lambda>i. ucast (drop_bit (8 * i) w)) (rev [0..<k]))
     = push_bit (8 * k) acc OR take_bit (8 * k) (w :: 64 word)"
proof (induction k arbitrary: acc)
  case (Suc k)
  have "push_bit (8 * k) (push_bit 8 acc OR ucast (ucast (drop_bit (8 * k) w) :: byte)) OR take_bit (8 * k) w
      = push_bit (8 * Suc k) acc OR take_bit (8 * Suc k) w"
  proof (rule bit_word_eqI)
    fix n assume n: "n < LENGTH(64)"
    consider "n < 8 * k" | "8 * k \<le> n" "n < 8 * k + 8" | "8 * k + 8 \<le> n" by linarith
    then show "bit (push_bit (8 * k) (push_bit 8 acc OR ucast (ucast (drop_bit (8 * k) w) :: byte)) OR take_bit (8 * k) w) n
        = bit (push_bit (8 * Suc k) acc OR take_bit (8 * Suc k) w) n"
      using n by cases (auto simp: bit_simps add.commute [of "8 * k" 8])
  qed
  then show ?case by (simp add: Suc.IH)
qed simp

lemma of_be64_be64 [simp]: "of_be64 (be64 w) = w"
  using foldl_be [of 0 w 8] by (simp add: of_be64_def be64_def take_bit_word_eq_self)

lemma slice_first: "length xs = n \<Longrightarrow> slice 0 n (xs @ ys) = xs"
  by (simp add: slice_def)

lemma slice_skip: "length xs = k \<Longrightarrow> k \<le> a \<Longrightarrow> slice a b (xs @ ys) = slice (a - k) (b - k) ys"
  by (simp add: slice_def)

section \<open>Compact peers\<close>

definition peer_bytes :: "sock_addr \<Rightarrow> bytes" where
  "peer_bytes a = (case a of Sock_v4 ip p \<Rightarrow> ip @ be16 p | Sock_v6 ip p \<Rightarrow> [])"

fun peer_v4 :: "sock_addr \<Rightarrow> bool" where
  "peer_v4 (Sock_v4 ip p) \<longleftrightarrow> length ip = 4"
| "peer_v4 (Sock_v6 ip p) \<longleftrightarrow> False"

lemma chunks6_append: "length c = 6 \<Longrightarrow> chunks6 (c @ rest) = c # chunks6 rest"
  by (auto simp: length_Suc_conv numeral_eq_Suc)

lemma peer_v4_bytes:
  assumes "peer_v4 a"
  shows "length (peer_bytes a) = 6" "compact_peer (peer_bytes a) = a"
  using assms by (cases a; simp add: peer_bytes_def compact_peer_def)+

lemma chunks6_peers:
  "list_all peer_v4 ps \<Longrightarrow> map compact_peer (chunks6 (concat (map peer_bytes ps))) = ps"
  by (induction ps) (simp_all add: chunks6_append peer_v4_bytes)

lemma length_peers: "list_all peer_v4 ps \<Longrightarrow> length (concat (map peer_bytes ps)) = 6 * length ps"
  by (induction ps) (simp_all add: peer_v4_bytes)

section \<open>The UDP exchange\<close>

text \<open>The answers of a tracker that follows BEP 15, and the request as such a tracker reads it.\<close>

definition connect_reply :: "32 word \<Rightarrow> 64 word \<Rightarrow> bytes" where
  "connect_reply tid cid = be32 0 @ be32 tid @ be64 cid"

definition announce_reply :: "32 word \<Rightarrow> 32 word \<Rightarrow> 32 word \<Rightarrow> 32 word \<Rightarrow> sock_addr list \<Rightarrow> bytes" where
  "announce_reply tid iv leechers seeders ps =
     be32 1 @ be32 tid @ be32 iv @ be32 leechers @ be32 seeders @ concat (map peer_bytes ps)"

lemma parse_connect_reply: "parse_connect_response (connect_reply tid cid @ junk) tid = Inr cid"
  by (simp add: parse_connect_response_def connect_reply_def ACTION_CONNECT_def ACTION_ERROR_def
      slice_skip slice_first Let_def)

lemma parse_announce_reply:
  assumes "list_all peer_v4 ps"
  shows "parse_announce_response_udp (announce_reply tid iv leechers seeders ps) tid =
    Inr \<lparr>ar_interval = unat iv, ar_min_interval = 0, ar_peers = filter (\<lambda>a. sock_port a \<noteq> 0) ps, ar_failure = None,
      ar_complete = Some (unat seeders), ar_incomplete = Some (unat leechers)\<rparr>"
  using chunks6_peers [OF assms]
  by (simp add: parse_announce_response_udp_def announce_reply_def ACTION_ANNOUNCE_def ACTION_ERROR_def
      slice_skip slice_first Let_def)

lemma length_announce_packet:
  "length (aq_infohash req) = 20 \<Longrightarrow> length (aq_peer_id req) = 20
     \<Longrightarrow> length (build_announce_packet rk cid tid req) = 98"
  by (simp add: build_announce_packet_def be16_def)

lemma of_be64_slice: "slice 0 8 (be64 w @ xs) = be64 w"
  by (simp add: slice_first)

lemma announce_packet_fields:
  fixes rk :: nat and cid :: "64 word" and tid :: "32 word"
  assumes "length (aq_infohash req) = 20" "length (aq_peer_id req) = 20"
  defines "p \<equiv> build_announce_packet rk cid tid req"
  shows "of_be64 (slice 0 8 p) = cid" "of_be32 (slice 8 12 p) = 1" "of_be32 (slice 12 16 p) = tid"
    "slice 16 36 p = aq_infohash req" "slice 36 56 p = aq_peer_id req"
    "of_be64 (slice 56 64 p) = of_nat (aq_downloaded req)" "of_be64 (slice 64 72 p) = of_nat (aq_left req)"
    "of_be64 (slice 72 80 p) = of_nat (aq_uploaded req)" "of_be32 (slice 80 84 p) = event_code (aq_event req)"
    "of_be32 (slice 88 92 p) = of_nat (if aq_key req \<noteq> 0 then aq_key req else rk)"
    "of_be32 (slice 92 96 p) = of_nat (aq_numwant req)" "of_be16 (slice 96 98 p) = aq_port req"
  unfolding p_def build_announce_packet_def using assms(1,2)
  by (simp_all add: slice_skip slice_first ACTION_ANNOUNCE_def, simp add: slice_def)

text \<open>C29. Announcing to a UDP tracker that follows BEP 15 gets the tracker's answer, and the tracker gets
  the request: with replies to the transaction ids sent, both packets go out, the second is 98 bytes whose fields
  read back as the request's, under the connection id the tracker chose, and the result is the interval, the
  seeders and leechers, and the peers in order without those of port 0.\<close>

theorem udp_announce_roundtrip:
  assumes "length (aq_infohash req) = 20" "length (aq_peer_id req) = 20" "list_all peer_v4 ps" "length ps \<le> 679"
    and "x = \<lparr>ux_tid1 = t1, ux_reply1 = Inr (connect_reply t1 cid), ux_tid2 = t2,
              ux_reply2 = Inr (announce_reply t2 iv leechers seeders ps), ux_random_key = rk\<rparr>"
  shows "\<exists>p. announce_udp_addr x req =
      ([be64 PROTOCOL_ID @ be32 0 @ be32 t1, p],
       Inr \<lparr>ar_interval = unat iv, ar_min_interval = 0, ar_peers = filter (\<lambda>a. sock_port a \<noteq> 0) ps,
         ar_failure = None, ar_complete = Some (unat seeders), ar_incomplete = Some (unat leechers)\<rparr>)
    \<and> length p = 98 \<and> of_be64 (slice 0 8 p) = cid \<and> of_be32 (slice 8 12 p) = 1 \<and> of_be32 (slice 12 16 p) = t2
    \<and> slice 16 36 p = aq_infohash req \<and> slice 36 56 p = aq_peer_id req
    \<and> of_be64 (slice 56 64 p) = of_nat (aq_downloaded req) \<and> of_be64 (slice 64 72 p) = of_nat (aq_left req)
    \<and> of_be64 (slice 72 80 p) = of_nat (aq_uploaded req) \<and> of_be32 (slice 80 84 p) = event_code (aq_event req)
    \<and> of_be32 (slice 88 92 p) = of_nat (if aq_key req \<noteq> 0 then aq_key req else rk)
    \<and> of_be32 (slice 92 96 p) = of_nat (aq_numwant req) \<and> of_be16 (slice 96 98 p) = aq_port req"
proof -
  have l: "length (announce_reply t2 iv leechers seeders ps) \<le> 4096" "length (connect_reply t1 cid) \<le> 2048"
    using assms(3,4) by (simp_all add: announce_reply_def connect_reply_def length_peers)
  show ?thesis
    using l announce_packet_fields [OF assms(1,2)] length_announce_packet [OF assms(1,2)] parse_announce_reply [OF assms(3)]
      parse_connect_reply [of t1 cid "[]"]
    by (simp add: announce_udp_addr_def assms(5) build_connect_packet_def ACTION_CONNECT_def)
qed

definition wit_request :: announce_request where
  "wit_request = \<lparr>aq_url = ascii ''udp://t:80'', aq_infohash = replicate 20 1, aq_peer_id = replicate 20 2, aq_port = 6881,
     aq_uploaded = 3, aq_downloaded = 4, aq_left = 5, aq_event = Some ''started'', aq_numwant = 50, aq_user_agent = [],
     aq_key = 7\<rparr>"

theorem udp_announce_witness:
  "snd (announce_udp_addr \<lparr>ux_tid1 = 11, ux_reply1 = Inr (connect_reply 11 99), ux_tid2 = 12,
      ux_reply2 = Inr (announce_reply 12 1800 2 3 [Sock_v4 [1, 2, 3, 4] 6881, Sock_v4 [5, 6, 7, 8] 0]), ux_random_key = 0\<rparr> wit_request)
   = Inr \<lparr>ar_interval = 1800, ar_min_interval = 0, ar_peers = [Sock_v4 [1, 2, 3, 4] 6881], ar_failure = None,
       ar_complete = Some 3, ar_incomplete = Some 2\<rparr>"
  using udp_announce_roundtrip [of wit_request "[Sock_v4 [1, 2, 3, 4] 6881, Sock_v4 [5, 6, 7, 8] 0]", OF _ _ _ _ refl,
      of 11 99 12 1800 2 3 0]
  by (auto simp: wit_request_def)

text \<open>A UDP announce never takes another transaction's datagram for its own: a success comes from a reply
  of at least 20 bytes that carries the second transaction id, sent after one that carried the first.\<close>

lemma udp_own_transaction:
  assumes "snd (announce_udp_addr x req) = Inr r"
  obtains r1 r2 where "ux_reply1 x = Inr r1" "ux_reply2 x = Inr r2" "16 \<le> length r1" "of_be32 (slice 4 8 r1) = ux_tid1 x"
    "20 \<le> length r2" "of_be32 (slice 4 8 r2) = ux_tid2 x"
proof -
  have s: "slice 4 8 (take n xs) = slice 4 8 xs" if "8 \<le> n" for n and xs :: bytes
    using that by (simp add: slice_def drop_take min_def)
  show thesis
    using assms that
    by (auto simp: announce_udp_addr_def parse_connect_response_def parse_announce_response_udp_def Let_def s
        split: sum.splits if_splits)
qed

section \<open>The HTTP answer\<close>

text \<open>The dictionary a tracker that follows BEP 3 and BEP 23 sends.\<close>

definition http_answer :: "int \<Rightarrow> int \<Rightarrow> int \<Rightarrow> int \<Rightarrow> sock_addr list \<Rightarrow> bvalue" where
  "http_answer seeders leechers iv min_iv ps =
     BDict [(ascii ''complete'', BInt seeders), (ascii ''incomplete'', BInt leechers), (ascii ''interval'', BInt iv),
       (ascii ''min interval'', BInt min_iv), (ascii ''peers'', BBytes (concat (map peer_bytes ps)))]"

lemma http_answer_ok:
  "0 \<le> s \<Longrightarrow> s < 2 ^ 32 \<Longrightarrow> 0 \<le> l \<Longrightarrow> l < 2 ^ 32 \<Longrightarrow> 0 \<le> iv \<Longrightarrow> iv < 2 ^ 32 \<Longrightarrow> 0 \<le> mi \<Longrightarrow> mi < 2 ^ 32
     \<Longrightarrow> bval_ok (http_answer s l iv mi ps)"
  by (simp add: http_answer_def ascii_def)

lemma i64_as_u32_small: "0 \<le> n \<Longrightarrow> n < 2 ^ 32 \<Longrightarrow> i64_as_u32 n = nat n"
  by (simp add: i64_as_u32_def)

text \<open>C30. The answer of an HTTP tracker that follows BEP 3 is read exactly: whatever is behind the GET of the
  announce URL, if it returns the bencoded dictionary of the interval, minimal interval, seeders, leechers and compact
  peers, all within a \<open>u32\<close>, these are the fields of the response (an interval of 0 becomes 1800), and the peers
  are the ones sent, in order.\<close>

theorem http_announce_roundtrip:
  assumes "build_announce_url req = Inr url" "list_all peer_v4 ps"
    and "0 \<le> s" "s < 2 ^ 32" "0 \<le> l" "l < 2 ^ 32" "0 \<le> iv" "iv < 2 ^ 32" "0 \<le> mi" "mi < 2 ^ 32"
    and "length (encode (http_answer s l iv mi ps)) \<le> u64_max"
    and "http_get url (effective_user_agent major req) = Inr (encode (http_answer s l iv mi ps))"
  shows "announce_http http_get major req =
    Inr \<lparr>ar_interval = (if iv = 0 then 1800 else nat iv), ar_min_interval = nat mi, ar_peers = ps, ar_failure = None,
      ar_complete = Some (nat s), ar_incomplete = Some (nat l)\<rparr>"
proof -
  have "decode_full (encode (http_answer s l iv mi ps)) = Inr (http_answer s l iv mi ps)"
    using http_answer_ok assms(3-11) by (intro decode_full_encode) auto
  then show ?thesis
    using assms(1,12) chunks6_peers [OF assms(2)] assms(3-10)
    by (simp add: announce_http_def parse_announce_response_def http_answer_def dict_get_str_def dict_get_int_def
        dict_get_bytes_def dict_get_def ascii_def count_u32_def swarm_count_def i64_as_u32_small max_def)
qed

theorem http_announce_witness:
  "announce_http (\<lambda>u a. Inr (encode (http_answer 3 2 900 60 [Sock_v4 [1, 2, 3, 4] 6881]))) (ascii ''1'')
     (wit_request\<lparr>aq_url := ascii ''http://t/a''\<rparr>)
   = Inr \<lparr>ar_interval = 900, ar_min_interval = 60, ar_peers = [Sock_v4 [1, 2, 3, 4] 6881], ar_failure = None,
       ar_complete = Some 3, ar_incomplete = Some 2\<rparr>"
proof -
  let ?req = "wit_request\<lparr>aq_url := ascii ''http://t/a''\<rparr>"
  have "\<exists>url. build_announce_url ?req = Inr url"
    by (simp add: build_announce_url_def Let_def) code_simp
  then obtain url where "build_announce_url ?req = Inr url" by blast
  moreover have "length (encode (http_answer 3 2 900 60 [Sock_v4 [1, 2, 3, 4] 6881])) \<le> u64_max"
    by (simp add: http_answer_def enc_str_def dec.simps dec_int_def ascii_def peer_bytes_def be16_def)
  ultimately show ?thesis
    using http_announce_roundtrip [of ?req url "[Sock_v4 [1, 2, 3, 4] 6881]" 3 2 900 60
        "\<lambda>u a. Inr (encode (http_answer 3 2 900 60 [Sock_v4 [1, 2, 3, 4] 6881]))" "ascii ''1''"]
    by simp
qed

section \<open>The limit per host\<close>

text \<open>The limiter together with the permits handed out and not yet returned.\<close>

inductive limiter_step :: "host_limiter \<times> bytes option list \<Rightarrow> host_limiter \<times> bytes option list \<Rightarrow> bool" where
  acquire: "host_acquire key l = (Some p, l') \<Longrightarrow> limiter_step (l, held) (l', p # held)"
| waits: "host_acquire key l = (None, l') \<Longrightarrow> limiter_step (l, held) (l', held)"
| release: "p \<in> set held \<Longrightarrow> limiter_step (l, held) (host_release p l, remove1 p held)"

definition permits_ok :: "nat \<Rightarrow> host_limiter \<times> bytes option list \<Rightarrow> bool" where
  "permits_ok m s \<longleftrightarrow> hl_max (fst s) = m
     \<and> (\<forall>key. sem_for key (fst s) + count_list (snd s) (Some key) = max m 1)"

lemma sem_for_upd [simp]:
  "sem_for k (l\<lparr>hl_hosts := (hl_hosts l)(key \<mapsto> n)\<rparr>) = (if k = key then n else sem_for k l)"
  by (simp add: sem_for_def split: option.split)

lemma permits_ok_acquire:
  assumes "permits_ok m (l, held)" "host_acquire key l = (Some p, l')"
  shows "permits_ok m (l', p # held)"
proof (cases "hl_max l = 0 \<or> key = []")
  case False
  have "sem_for key l + count_list held (Some key) = max m 1"
    using assms(1) by (simp add: permits_ok_def)
  moreover have "p = Some key" "l' = l\<lparr>hl_hosts := (hl_hosts l)(key \<mapsto> sem_for key l - 1)\<rparr>" "sem_for key l \<noteq> 0"
    using assms(2) False by (auto simp: host_acquire_def Let_def split: if_splits)
  ultimately show ?thesis
    using assms(1) by (auto simp: permits_ok_def)
next
  case True
  then show ?thesis using assms by (auto simp: permits_ok_def host_acquire_def)
qed

lemma permits_ok_wait:
  assumes "permits_ok m (l, held)" "host_acquire key l = (None, l')"
  shows "permits_ok m (l', held)"
proof -
  have "l' = l\<lparr>hl_hosts := (hl_hosts l)(key \<mapsto> sem_for key l)\<rparr>"
    using assms(2) by (auto simp: host_acquire_def Let_def split: if_splits)
  then have "hl_max l' = hl_max l" "\<And>k. sem_for k l' = sem_for k l" by simp_all
  then show ?thesis using assms(1) by (simp add: permits_ok_def)
qed

lemma count_list_remove1:
  "count_list (remove1 x xs) y = (if x = y then count_list xs y - 1 else count_list xs y)"
  by (induction xs) (auto simp: count_list_0_iff)

lemma permits_ok_release:
  assumes "permits_ok m (l, held)" "p \<in> set held"
  shows "permits_ok m (host_release p l, remove1 p held)"
proof (cases p)
  case None
  then show ?thesis using assms(1) by (simp add: permits_ok_def host_release_def count_list_remove1)
next
  case (Some key)
  have inv: "hl_max l = m" "\<And>k. sem_for k l + count_list held (Some k) = max m 1"
    using assms(1) by (auto simp: permits_ok_def)
  have pos: "count_list held (Some key) \<noteq> 0"
    using assms(2) Some by (simp add: count_list_0_iff)
  then obtain n where n: "hl_hosts l key = Some n" "n + count_list held (Some key) = max m 1"
    using inv(1) inv(2) [of key] by (cases "hl_hosts l key") (auto simp: sem_for_def)
  have "host_release p l = l\<lparr>hl_hosts := (hl_hosts l)(key \<mapsto> min (n + 1) (max m 1))\<rparr>"
    using n(1) Some inv(1) by (simp add: host_release_def)
  then have s: "sem_for k (host_release p l) = (if k = key then n + 1 else sem_for k l)" for k
    using n(2) pos by auto
  have "hl_max (host_release p l) = m"
    using inv(1) by (simp add: host_release_def split: option.splits)
  moreover have "sem_for k (host_release p l) + count_list (remove1 p held) (Some k) = max m 1" for k
    using n(2) pos inv(2) [of k] s [of k] Some by (auto simp: count_list_remove1)
  ultimately show ?thesis by (simp add: permits_ok_def)
qed

lemma limiter_step_ok: "limiter_step s s' \<Longrightarrow> permits_ok m s \<Longrightarrow> permits_ok m s'"
  by (cases rule: limiter_step.cases) (auto intro: permits_ok_acquire permits_ok_wait permits_ok_release)

lemma limiter_reachable_ok:
  assumes "limiter_step\<^sup>*\<^sup>* (limiter_hosts_new m, []) s"
  shows "permits_ok m s"
  using assms
proof induction
  case base
  show ?case by (simp add: permits_ok_def limiter_hosts_new_def sem_for_def)
next
  case step
  then show ?case using limiter_step_ok by blast
qed

text \<open>C31. In every state reachable from a new limiter of \<open>m > 0\<close> per host, by any interleaving of acquires and
  releases of held permits, no host has more than \<open>m\<close> permits out, and an acquire for a host waits exactly when
  \<open>m\<close> of its permits are out: the limit is neither exceeded nor does a finished announce leave a slot lost.\<close>

theorem host_limit_respected:
  assumes "0 < m" "limiter_step\<^sup>*\<^sup>* (limiter_hosts_new m, []) (l, held)" "key \<noteq> []"
  shows "count_list held (Some key) \<le> m
    \<and> (fst (host_acquire key l) = None \<longleftrightarrow> count_list held (Some key) = m)"
proof -
  have ok: "hl_max l = m" "sem_for key l + count_list held (Some key) = max m 1"
    using limiter_reachable_ok [OF assms(2)] by (simp_all add: permits_ok_def)
  then show ?thesis
    using assms(1,3) by (auto simp: host_acquire_def Let_def)
qed

theorem host_limit_witness:
  "fst (host_acquire [1] (snd (host_acquire [1] (limiter_hosts_new 2)))) \<noteq> None"
proof -
  let ?l = "snd (host_acquire [1] (limiter_hosts_new 2))"
  have "limiter_step (limiter_hosts_new 2, []) (?l, [Some [1]])"
    by (rule limiter_step.acquire [where key = "[1]"])
      (simp add: host_acquire_def limiter_hosts_new_def sem_for_def Let_def)
  then show ?thesis
    using host_limit_respected [of 2, OF _ r_into_rtranclp, of ?l "[Some [1]]" "[1]"] by simp
qed

section \<open>A scheme in mixed case\<close>

text \<open>C32. The dispatch compares the scheme without regard to case, the UDP client accepts only \<open>udp\<close> and
  \<open>UDP\<close>: an announce URL that starts with any other spelling, such as \<open>Udp\<close>, is sent to the UDP client and always
  fails there, whatever the network does.\<close>

theorem mixed_case_udp_always_fails:
  assumes "to_ascii_lowercase (take 6 (str_trim (aq_url req))) = ascii ''udp://''"
    and "take 6 (str_trim (aq_url req)) \<noteq> ascii ''udp://''" "take 6 (str_trim (aq_url req)) \<noteq> ascii ''UDP://''"
  shows "announce_any http_get major resolve req = Inl (Not_udp_url (aq_url req))"
proof -
  have l: "length (ascii ''udp://'') = 6" "length (ascii ''UDP://'') = 6" by (simp_all add: ascii_def)
  have "take 6 (to_ascii_lowercase (str_trim (aq_url req))) = ascii ''udp://''"
    using assms(1) by (simp add: to_ascii_lowercase_def take_map)
  then have "starts_with (to_ascii_lowercase (str_trim (aq_url req))) (ascii ''udp://'')"
    by (simp add: starts_with_def l)
  moreover have "parse_udp_tracker_url (aq_url req) = Inl (Not_udp_url (aq_url req))"
    using assms(2,3) by (simp add: parse_udp_tracker_url_def strip_prefix_def starts_with_def l Let_def)
  ultimately show ?thesis by (simp add: announce_any_def announce_udp_def Let_def)
qed

theorem mixed_case_udp_witness:
  "announce_any (\<lambda>u a. Inr []) [] (\<lambda>h p. Inr []) (wit_request\<lparr>aq_url := ascii ''Udp://t:1''\<rparr>)
     = Inl (Not_udp_url (ascii ''Udp://t:1''))"
proof -
  have t: "str_trim (ascii ''Udp://t:1'') = ascii ''Udp://t:1''" by code_simp
  show ?thesis
    using mixed_case_udp_always_fails [of "wit_request\<lparr>aq_url := ascii ''Udp://t:1''\<rparr>" "\<lambda>u a. Inr []" "[]" "\<lambda>h p. Inr []"]
    by (simp add: t) (simp add: ascii_def to_ascii_lowercase_def ascii_lower_def)
qed

end
