(* ===== verification/Registry.thy ===== *)
theory Registry
  imports Tracker Hot_Invariant Catalog_Invariant Mse "HOL-Library.AList"
begin

text \<open>
  The registry of started torrents (\<open>hot/registry.rs\<close>). A torrent in memory is an object shared by the two maps
  of the registry and by the connections; it is a reference into a heap here, so that a torrent that was stopped and
  started again is a new object beside the one old connections still hold.
\<close>

type_synonym arc = nat

record registry =
  rg_by_hash :: "(bytes \<times> arc) list"
  rg_by_id :: "(int \<times> arc) list"

definition registry_new :: registry where
  "registry_new = \<lparr>rg_by_hash = [], rg_by_id = []\<rparr>"

text \<open>The maps are association lists; their order is the iteration order.\<close>

definition registry_get :: "bytes \<Rightarrow> registry \<Rightarrow> arc option" where
  "registry_get infohash r = map_of (rg_by_hash r) infohash"

definition registry_get_id :: "int \<Rightarrow> registry \<Rightarrow> arc option" where
  "registry_get_id tid r = map_of (rg_by_id r) tid"

definition registry_ids :: "registry \<Rightarrow> int list" where
  "registry_ids r = map fst (rg_by_id r)"

definition registry_len :: "registry \<Rightarrow> nat" where
  "registry_len r = length (rg_by_hash r)"

text \<open>\<open>t\<close> is the torrent the new reference \<open>p\<close> points to.\<close>

definition registry_insert :: "arc \<Rightarrow> hot_torrent \<Rightarrow> registry \<Rightarrow> registry" where
  "registry_insert p t r =
     \<lparr>rg_by_hash = AList.update (ht_infohash t) p (rg_by_hash r), rg_by_id = AList.update (ht_id t) p (rg_by_id r)\<rparr>"

definition registry_remove :: "(arc \<Rightarrow> hot_torrent) \<Rightarrow> bytes \<Rightarrow> registry \<Rightarrow> registry" where
  "registry_remove heap infohash r =
     (case map_of (rg_by_hash r) infohash of
        None \<Rightarrow> r
      | Some p \<Rightarrow> \<lparr>rg_by_hash = AList.delete infohash (rg_by_hash r), rg_by_id = AList.delete (ht_id (heap p)) (rg_by_id r)\<rparr>)"

definition match_req2 :: "(bytes \<Rightarrow> bytes) \<Rightarrow> (arc \<Rightarrow> hot_torrent) \<Rightarrow> bytes \<Rightarrow> registry \<Rightarrow> arc option" where
  "match_req2 sha1 heap req2 r = find (\<lambda>p. hash_req2 sha1 (ht_infohash (heap p)) = req2) (map snd (rg_by_hash r))"

section \<open>Loading from the catalog\<close>

text \<open>Rows of equal tier are neighbours: \<open>ORDER BY tier, id\<close>.\<close>

fun group_tiers :: "(int \<times> string) list \<Rightarrow> (int \<times> string list) list \<Rightarrow> (int \<times> string list) list" where
  "group_tiers [] tiers = tiers"
| "group_tiers ((tier, url) # rows) tiers =
     group_tiers rows
       (if tiers \<noteq> [] \<and> fst (last tiers) = tier then butlast tiers @ [(tier, snd (last tiers) @ [url])]
        else tiers @ [(tier, [url])])"

definition load_tracker_tiers :: "catalog \<Rightarrow> int \<Rightarrow> (int \<times> string list) list" where
  "load_tracker_tiers c tid =
     group_tiers (map (\<lambda>k. (int (kr_tier k), os_string (kr_url k)))
       (sort_key (\<lambda>k. int (kr_tier k)) (sort_key kr_id (filter (\<lambda>k. kr_torrent k = tid \<and> kr_enabled k) (ct_trackers c))))) []"

datatype load_error = Load_catalog catalog_error | Not_complete int nat | Bad_infohash | Bad_hashes nat nat

text \<open>The torrent built from what was read.\<close>

definition loaded_torrent ::
  "torrent_row \<Rightarrow> storage_layout \<Rightarrow> (int \<times> string list) list \<Rightarrow> nat \<Rightarrow> bool \<Rightarrow> bytes \<Rightarrow> nat \<Rightarrow> bytes \<Rightarrow> int \<Rightarrow> hot_torrent" where
  "loaded_torrent row lay tiers tkey complete bitfield have_count hashes tid =
     (let pc = i64_as_u32 (tr_piece_count row);
          bf = (if complete then all_set_bitfield pc else if bitfield = [] then empty_bitfield pc else bitfield);
          n = (if complete then pc else have_count)
      in finish_new
           \<lparr>ht_id = tid, ht_infohash = tr_infohash row, ht_name = os_string (tr_name row), ht_layout = lay,
            ht_piece_count = pc, ht_piece_hashes = hashes,
            ht_pieces = \<lparr>ps_bitfield = bf, ps_complete = complete, ps_have_count = n\<rparr>,
            ht_file_priority = map fl_priority (files lay), ht_tracker_tiers = tiers,
            ht_tracker_key = tkey, ht_wanted_bf = empty_bitfield pc, ht_download_missing = 0,
            ht_have_count_atomic = n, ht_completed_payload = 0, ht_in_flight = {},
            ht_availability = replicate pc 0, ht_have_hub = [], ht_staging_pool = None,
            ht_staging_mem_limit = DEFAULT_STAGING_MEM_LIMIT\<rparr>)"

definition load_hashes :: "int \<Rightarrow> nat \<Rightarrow> bool \<Rightarrow> catalog \<Rightarrow> load_error + bytes" where
  "load_hashes tid pc complete c =
     (if complete then Inr []
      else case load_piece_hashes tid c of
             Inl e \<Rightarrow> Inl (Load_catalog e)
           | Inr hs \<Rightarrow> if length hs \<noteq> pc * 20 then Inl (Bad_hashes (length hs) pc) else Inr hs)"

text \<open>\<open>key\<close> is the announce key drawn if the torrent has none.\<close>

definition load_from_catalog :: "nat \<Rightarrow> int \<Rightarrow> bool \<Rightarrow> catalog \<Rightarrow> load_error + hot_torrent \<times> catalog" where
  "load_from_catalog key tid allow_incomplete c =
     (case load_storage_layout tid c of
        Inl e \<Rightarrow> Inl (Load_catalog e)
      | Inr lay \<Rightarrow>
          (case load_bitfield_bytes tid c of
             Inl e \<Rightarrow> Inl (Load_catalog e)
           | Inr (complete, bitfield, have_count) \<Rightarrow>
               if \<not> complete \<and> \<not> allow_incomplete then Inl (Not_complete tid have_count)
               else
                 (case torrent_by_id c tid of
                    None \<Rightarrow> Inl (Load_catalog No_rows)
                  | Some row \<Rightarrow>
                      if length (tr_infohash row) \<noteq> 20 then Inl Bad_infohash
                      else
                        (case load_hashes tid (i64_as_u32 (tr_piece_count row)) complete c of
                           Inl e \<Rightarrow> Inl e
                         | Inr hashes \<Rightarrow>
                             (case ensure_tracker_key key tid c of
                                Inl e \<Rightarrow> Inl (Load_catalog e)
                              | Inr (tkey, c') \<Rightarrow>
                                  Inr (loaded_torrent row lay (load_tracker_tiers c tid) tkey complete bitfield have_count
                                    hashes tid, c'))))))"

text \<open>The complete torrents of the list, loaded one by one into new references from \<open>p\<close> on.\<close>

fun activate_loop ::
  "(int \<Rightarrow> nat) \<Rightarrow> int list \<Rightarrow> arc \<Rightarrow> (arc \<Rightarrow> hot_torrent) \<Rightarrow> registry \<Rightarrow> catalog
     \<Rightarrow> nat \<times> (arc \<Rightarrow> hot_torrent) \<times> registry \<times> catalog" where
  "activate_loop keys [] p heap r c = (0, heap, r, c)"
| "activate_loop keys (tid # tids) p heap r c =
     (case load_from_catalog (keys tid) tid False c of
        Inl e \<Rightarrow> activate_loop keys tids p heap r c
      | Inr (t, c') \<Rightarrow>
          (case activate_loop keys tids (p + 1) (heap(p := t)) (registry_insert p t r) c' of
             (n, rest) \<Rightarrow> (n + 1, rest)))"

definition activate_all_complete ::
  "(int \<Rightarrow> nat) \<Rightarrow> arc \<Rightarrow> (arc \<Rightarrow> hot_torrent) \<Rightarrow> registry \<Rightarrow> catalog
     \<Rightarrow> nat \<times> (arc \<Rightarrow> hot_torrent) \<times> registry \<times> catalog" where
  "activate_all_complete keys p heap r c =
     activate_loop keys (map lr_id (filter lr_complete (list_torrents_filtered None c))) p heap r c"

section \<open>A loaded torrent\<close>

lemma rebuild_keeps [simp]:
  "ht_id (rebuild_wanted_and_missing t) = ht_id t" "ht_infohash (rebuild_wanted_and_missing t) = ht_infohash t"
  "ht_layout (rebuild_wanted_and_missing t) = ht_layout t" "ht_pieces (rebuild_wanted_and_missing t) = ht_pieces t"
  "ht_piece_count (rebuild_wanted_and_missing t) = ht_piece_count t"
  by (simp_all add: rebuild_wanted_and_missing_def Let_def)

lemma finish_new_keeps [simp]:
  "ht_id (finish_new t) = ht_id t" "ht_infohash (finish_new t) = ht_infohash t" "ht_layout (finish_new t) = ht_layout t"
  "ht_pieces (finish_new t) = ht_pieces t" "ht_piece_count (finish_new t) = ht_piece_count t"
  "have_set (finish_new t) = have_set t"
  by (simp_all add: finish_new_def recount_completed_payload_def Let_def have_set_def)

lemma ensure_key_state:
  assumes "ensure_tracker_key key tid c = Inr (k, c')"
  shows "c' = c \<or> c' = update_torrent tid (\<lambda>r. r\<lparr>tr_tracker_key := k\<rparr>) c"
  using assms by (auto simp: ensure_tracker_key_def set_tracker_key_def split: if_splits)

lemma ensure_key_ok:
  assumes "ensure_tracker_key key tid c = Inr (k, c')" "catalog_ok c"
  shows "catalog_ok c'"
  using assms ok_set_tracker_key [OF assms(2)] by (auto simp: ensure_tracker_key_def split: if_splits sum.splits)

lemma key_keeps_pieces:
  "have_pieces (update_torrent tid (\<lambda>r. r\<lparr>tr_tracker_key := k\<rparr>) c) i = have_pieces c i"
proof -
  let ?c = "update_torrent tid (\<lambda>r. r\<lparr>tr_tracker_key := k\<rparr>) c"
  have "torrent_by_id ?c i = map_option (\<lambda>r. if i = tid then r\<lparr>tr_tracker_key := k\<rparr> else r) (torrent_by_id c i)"
    by (subst by_id_update) (auto simp: option.map_ident)
  moreover have "ct_bitfield ?c = ct_bitfield c" by (simp add: update_torrent_def)
  ultimately have "load_bitfield_state i ?c = load_bitfield_state i c"
    by (cases "torrent_by_id c i") (auto simp: load_bitfield_state_def Let_def split: option.split)
  then show ?thesis by (simp add: have_pieces_def)
qed

lemma members_nil [simp]: "bf.members [] n = {}"
  by (simp add: bf.members_def bitfield_get_def byte_at_def)

lemma loaded_shape:
  assumes "i64_as_u32 (tr_piece_count row) = pc"
  shows "\<exists>raw. loaded_torrent row lay tiers tkey complete bits n hs tid = finish_new raw
    \<and> ht_id raw = tid \<and> ht_infohash raw = tr_infohash row \<and> ht_layout raw = lay \<and> ht_piece_count raw = pc
    \<and> ps_bitfield (ht_pieces raw) = (if complete then all_set_bitfield pc else if bits = [] then empty_bitfield pc else bits)
    \<and> ps_complete (ht_pieces raw) = complete \<and> ht_in_flight raw = {} \<and> ht_have_hub raw = [] \<and> ht_staging_pool raw = None
    \<and> ps_have_count (ht_pieces raw) = (if complete then pc else n)
    \<and> ht_have_count_atomic raw = (if complete then pc else n)"
  unfolding loaded_torrent_def Let_def assms by (rule exI, rule conjI, rule refl) simp

lemma loaded_torrent_ok:
  assumes "bf_fits bits (row_pc row)" "tr_complete row \<longrightarrow> bf.members bits (row_pc row) = {..<row_pc row}"
    "\<not> tr_complete row \<longrightarrow> 0 < row_pc row \<longrightarrow> card (bf.members bits (row_pc row)) < row_pc row"
    "piece_count lay = row_pc row" "small_layout lay"
    and t: "t = loaded_torrent row lay tiers k (tr_complete row) bits (card (bf.members bits (row_pc row))) hs tid"
  shows "hot_ok t \<and> have_set t = bf.members bits (row_pc row) \<and> (is_torrent_complete t \<longleftrightarrow> tr_complete row)
    \<and> ht_id t = tid \<and> ht_layout t = lay \<and> ht_infohash t = tr_infohash row"
proof -
  have pcs: "i64_as_u32 (tr_piece_count row) = row_pc row" by (simp add: row_pc_def)
  let ?bf = "if tr_complete row then all_set_bitfield (row_pc row) else if bits = [] then empty_bitfield (row_pc row) else bits"
  have bf: "bf_fits ?bf (row_pc row)" "bf.members ?bf (row_pc row) = bf.members bits (row_pc row)"
    using assms(1,2) by simp_all
  obtain raw where raw: "t = finish_new raw" "ht_id raw = tid" "ht_infohash raw = tr_infohash row" "ht_layout raw = lay"
    "ht_piece_count raw = row_pc row" "ps_bitfield (ht_pieces raw) = ?bf"
    "ps_complete (ht_pieces raw) = tr_complete row" "ht_in_flight raw = {}" "ht_have_hub raw = []" "ht_staging_pool raw = None"
    "ps_have_count (ht_pieces raw) = (if tr_complete row then row_pc row else card (bf.members bits (row_pc row)))"
    "ht_have_count_atomic raw = (if tr_complete row then row_pc row else card (bf.members bits (row_pc row)))"
    using loaded_shape [OF pcs, of lay tiers k "tr_complete row" bits "card (bf.members bits (row_pc row))" hs tid] unfolding t
    by (elim exE conjE)
  have have_raw: "have_set raw = bf.members bits (row_pc row)" unfolding have_set_def raw bf(2) ..
  have n: "(if tr_complete row then row_pc row else card (bf.members bits (row_pc row))) = card (bf.members bits (row_pc row))"
    using assms(2) by simp
  have "complete_ok raw"
  proof (cases "tr_complete row")
    case True
    then show ?thesis using assms(2) by (simp add: complete_ok_def have_raw raw(5,7))
  next
    case False
    then have "0 < row_pc row \<longrightarrow> bf.members bits (row_pc row) \<noteq> {..<row_pc row}"
      using assms(3) by (metis card_lessThan less_irrefl)
    with False show ?thesis unfolding complete_ok_def have_raw raw(5,7) by blast
  qed
  then have "hot_ok t"
    unfolding raw(1) by (intro finish_new_ok) (simp_all only: raw have_raw n assms(4,5) bf(1))
  then show ?thesis by (simp add: raw(1) have_raw is_torrent_complete_def raw(2-7))
qed

text \<open>C34. Starting a torrent gives an in-memory torrent that agrees with a consistent catalog: from a row with a
  20 byte infohash, files, a data root and piece hashes of the right length the load succeeds, and whenever it succeeds
  for a usable layout the torrent satisfies its whole invariant (counters, completeness, wanted pieces), has exactly the
  pieces the catalog records, is complete exactly when the catalog says so, and the catalog is left consistent with
  the same pieces.\<close>

theorem started_torrent_agrees_with_catalog:
  assumes "catalog_ok c" "torrent_by_id c tid = Some row" "load_storage_layout tid c = Inr lay" "small_layout lay"
    "length (tr_infohash row) = 20" "load_piece_hashes tid c = Inr hs" "length hs = row_pc row * 20" "0 < key"
  shows "\<exists>t c'. load_from_catalog key tid True c = Inr (t, c') \<and> hot_ok t \<and> ht_id t = tid \<and> ht_layout t = lay
    \<and> ht_infohash t = tr_infohash row \<and> have_set t = have_pieces c tid
    \<and> (is_torrent_complete t \<longleftrightarrow> tr_complete row)
    \<and> catalog_ok c' \<and> (\<forall>i. have_pieces c' i = have_pieces c i)"
proof -
  obtain bits where b: "load_bitfield_state tid c = Inr (tr_complete row, bits, card (bf.members bits (row_pc row)), row_pc row)"
    "bf_fits bits (row_pc row)" "tr_complete row \<longrightarrow> bf.members bits (row_pc row) = {..<row_pc row}"
    "\<not> tr_complete row \<longrightarrow> 0 < row_pc row \<longrightarrow> card (bf.members bits (row_pc row)) < row_pc row"
    "have_pieces c tid = bf.members bits (row_pc row)"
    using load_state [OF assms(1,2)] by metis
  have pc: "piece_count lay = row_pc row"
    using assms(2,3) by (auto simp: load_storage_layout_def row_pc_def Let_def split: option.splits if_splits)
  have "\<exists>k c'. ensure_tracker_key key tid c = Inr (k, c')"
    using assms(2,8) by (cases "tracker_key tid c = 0") (simp_all add: ensure_tracker_key_def set_tracker_key_def)
  then obtain k c' where k: "ensure_tracker_key key tid c = Inr (k, c')" by blast
  let ?t = "loaded_torrent row lay (load_tracker_tiers c tid) k (tr_complete row) bits (card (bf.members bits (row_pc row)))
      (if tr_complete row then [] else hs) tid"
  have "load_hashes tid (row_pc row) (tr_complete row) c = Inr (if tr_complete row then [] else hs)"
    using assms(6,7) by (simp add: load_hashes_def)
  then have "load_from_catalog key tid True c = Inr (?t, c')"
    using assms(2,3,5) k b(1) by (simp add: load_from_catalog_def load_bitfield_bytes_def row_pc_def)
  moreover have "\<forall>i. have_pieces c' i = have_pieces c i" using ensure_key_state [OF k] key_keeps_pieces by auto
  ultimately show ?thesis
    using loaded_torrent_ok [OF b(2-4) pc assms(4) refl] ensure_key_ok [OF k assms(1)] unfolding b(5) by blast
qed

definition wit_startable :: catalog where
  "wit_startable = catalog_empty\<lparr>ct_torrents := [(wit_row 1)\<lparr>tr_infohash := replicate 20 7, tr_piece_length := 16,
      tr_piece_count := 1, tr_total_size := 5\<rparr>],
     ct_files := [\<lparr>fr_torrent = 1, fr_idx = 0, fr_path = \<lparr>is_abs = False, comps = [''a'']\<rparr>, fr_size = 5, fr_offset = 0, fr_priority = 1\<rparr>],
     ct_hashes := [1 \<mapsto> replicate 20 9],
     ct_meta := [1 \<mapsto> \<lparr>mr_data_root = \<lparr>is_abs = True, comps = [''d'']\<rparr>, mr_home_root = None, mr_source = None\<rparr>]\<rparr>"

lemmas wit_startable_simps = wit_startable_def catalog_empty_def wit_row_def

lemma wit_startable_ok: "catalog_ok wit_startable"
  by (simp add: catalog_ok_def keys_ok_def refs_ok_def rows_ok_def wit_startable_simps torrent_ids_def bits_ok_def delete_ok_def)

theorem started_torrent_agrees_with_catalog_witness:
  "\<exists>t c'. load_from_catalog 5 1 True wit_startable = Inr (t, c') \<and> hot_ok t \<and> have_set t = {}"
proof -
  let ?row = "(wit_row 1)\<lparr>tr_infohash := replicate 20 7, tr_piece_length := 16, tr_piece_count := 1, tr_total_size := 5\<rparr>"
  let ?lay = "\<lparr>data_root = \<lparr>is_abs = True, comps = [''d'']\<rparr>, piece_length = 16, piece_count = 1, total_size = 5,
      files = [\<lparr>fl_path = \<lparr>is_abs = False, comps = [''a'']\<rparr>, fl_size = 5, fl_offset = 0, fl_priority = 1\<rparr>]\<rparr>"
  have row: "torrent_by_id wit_startable 1 = Some ?row" by (simp add: torrent_by_id_def wit_startable_simps)
  have fr: "file_rows wit_startable 1 = [\<lparr>fr_torrent = 1, fr_idx = 0, fr_path = \<lparr>is_abs = False, comps = [''a'']\<rparr>,
      fr_size = 5, fr_offset = 0, fr_priority = 1\<rparr>]"
    by (simp add: file_rows_def wit_startable_simps)
  have meta: "ct_meta wit_startable 1 = Some \<lparr>mr_data_root = \<lparr>is_abs = True, comps = [''d'']\<rparr>, mr_home_root = None, mr_source = None\<rparr>"
    by (simp add: wit_startable_simps)
  have lay: "load_storage_layout 1 wit_startable = Inr ?lay"
    by (simp add: load_storage_layout_def row fr meta wit_row_def Let_def i64_as_u64_def i64_as_u32_def)
  have small: "small_layout ?lay" by (simp add: small_layout_def layout_ok_def div_ceil_def)
  have hs: "load_piece_hashes 1 wit_startable = Inr (replicate 20 9)" by (simp add: load_piece_hashes_def wit_startable_simps)
  have h: "have_pieces wit_startable 1 = {}"
    by (simp add: have_pieces_def load_bitfield_state_def row Let_def) (simp add: wit_startable_simps)
  show ?thesis
    using started_torrent_agrees_with_catalog [OF wit_startable_ok row lay small _ hs, of 5] h
    by (auto simp: row_pc_def wit_row_def i64_as_u32_def)
qed

end
