(* ===== verification/Establish.thy ===== *)
theory Establish
  imports Registry Wire_Correct Mse_Correct Framing Peer_Id
begin

text \<open>
  How a connection is established (\<open>peer/establish.rs\<close>): the order of plain and encrypted attempts of an
  outbound connection, the two sides of the encrypted handshake over a socket, and the binding of an inbound connection
  to its torrent. A socket is what its reads will still return and what was written to it; a read at the end of that
  input fails, which stands for an error and for the end of any time budget. Connecting, random draws, the clock and
  the registry at each look-up are arguments.
\<close>

section \<open>The socket\<close>

text \<open>The chunks the reads will return (an empty chunk is the end of the stream), what was written, and how many
  writes will succeed.\<close>

record conn =
  cn_in :: "bytes list"
  cn_out :: bytes
  cn_writes :: nat

datatype est_error =
    Connect_failed
  | Sock_read
  | Sock_write
  | Sock_eof
  | Eof_mid_sync mse_error
  | Mse_failed mse_error
  | Not_bt_first byte
  | Bt_failed wire_error
  | Infohash_mismatch
  | Is_self
  | Plain_rejected
  | Pe_rejected
  | Invalid_handshake
  | Unknown_infohash bytes
  | Unknown_skey
  | Req1_missing
  | Sync_too_large mse_error
  | No_common_crypto
  | At_max_peers int
  | Needs_pe_mode
  | Mse_timeout
  | Over_read nat nat
  | Response_full
  | Both_failed est_error est_error

fun take_exact :: "nat \<Rightarrow> bytes list \<Rightarrow> (bytes \<times> bytes list) option" where
  "take_exact 0 ins = Some ([], ins)"
| "take_exact (Suc n) [] = None"
| "take_exact (Suc n) (ch # ins) =
     (if ch = [] then None
      else if length ch > Suc n then Some (take (Suc n) ch, drop (Suc n) ch # ins)
      else case take_exact (Suc n - length ch) ins of None \<Rightarrow> None | Some (bs, ins') \<Rightarrow> Some (ch @ bs, ins'))"

definition read_exact :: "nat \<Rightarrow> conn \<Rightarrow> est_error + bytes \<times> conn" where
  "read_exact n c =
     (case take_exact n (cn_in c) of None \<Rightarrow> Inl Sock_read | Some (bs, ins) \<Rightarrow> Inr (bs, c\<lparr>cn_in := ins\<rparr>))"

definition crypt_opt :: "rc4 option \<Rightarrow> bytes \<Rightarrow> bytes \<times> rc4 option" where
  "crypt_opt k bs = (case k of None \<Rightarrow> (bs, None) | Some k \<Rightarrow> (case crypt_inplace k bs of (out, k) \<Rightarrow> (out, Some k)))"

definition read_exact_crypto :: "nat \<Rightarrow> rc4 option \<Rightarrow> conn \<Rightarrow> est_error + bytes \<times> rc4 option \<times> conn" where
  "read_exact_crypto n k c =
     (case read_exact n c of Inl e \<Rightarrow> Inl e | Inr (bs, c) \<Rightarrow> (case crypt_opt k bs of (bs, k) \<Rightarrow> Inr (bs, k, c)))"

text \<open>At most \<open>n\<close> bytes; no byte is the end of the stream.\<close>

definition read_some :: "nat \<Rightarrow> bytes list \<Rightarrow> (bytes \<times> bytes list) option" where
  "read_some n ins =
     (let n = max n 1
      in case ins of
           [] \<Rightarrow> None
         | ch # ins' \<Rightarrow> if length ch \<le> n then Some (ch, ins') else Some (take n ch, drop n ch # ins'))"

definition write_all :: "bytes \<Rightarrow> conn \<Rightarrow> est_error + conn" where
  "write_all bs c =
     (if bs = [] then Inr c
      else if cn_writes c = 0 then Inl Sock_write
      else Inr (c\<lparr>cn_out := cn_out c @ bs, cn_writes := cn_writes c - 1\<rparr>))"

definition write_all_crypto :: "bytes \<Rightarrow> rc4 option \<Rightarrow> conn \<Rightarrow> est_error + rc4 option \<times> conn" where
  "write_all_crypto bs k c =
     (case crypt_opt k bs of (out, k) \<Rightarrow> (case write_all out c of Inl e \<Rightarrow> Inl e | Inr c \<Rightarrow> Inr (k, c)))"

lemma read_some_measure:
  assumes "read_some n ins = Some (got, ins')" "got \<noteq> []"
  shows "length (concat ins') + length ins' < length (concat ins) + length ins"
  using assms by (cases ins) (auto simp: read_some_def Let_def max_def split: if_splits)

section \<open>The initiator\<close>

text \<open>The draws of an attempt: private key, padding length and bytes, and whether the deadline has passed once the
  given bytes were received.\<close>

record pe_draws =
  dr_key :: bytes
  dr_pad :: nat
  dr_fill :: "nat \<Rightarrow> bytes"
  dr_late :: "bytes \<Rightarrow> bool"

function response_loop :: "(bytes \<Rightarrow> bool) \<Rightarrow> rc4 \<Rightarrow> bytes \<Rightarrow> bytes list \<Rightarrow> est_error + 32 word \<times> rc4 \<times> bytes list" where
  "response_loop late dcr buf ins =
     (if late buf then Inl Mse_timeout
      else case initiator_scan_response dcr buf of
             (Inl e, _) \<Rightarrow> Inl (Mse_failed e)
           | (Inr (Found select consumed), dcr) \<Rightarrow>
               if consumed \<noteq> length buf then Inl (Over_read consumed (length buf)) else Inr (select, dcr, ins)
           | (Inr NeedMore, dcr) \<Rightarrow>
               if length buf \<ge> MAX_PAD_B + MSE_RESP_HDR + MAX_PAD_B then Inl Response_full
               else (case read_some 256 ins of
                       None \<Rightarrow> Inl Sock_read
                     | Some (got, ins') \<Rightarrow> if got = [] then Inl Sock_eof else response_loop late dcr (buf @ got) ins'))"
  by pat_completeness auto
termination
  by (relation "measure (\<lambda>(_, _, _, ins). length (concat ins) + length ins)") (auto dest: read_some_measure)

declare response_loop.simps [simp del]

definition pe_initiate ::
  "(bytes \<Rightarrow> bytes) \<Rightarrow> bignum \<Rightarrow> pe_draws \<Rightarrow> bytes \<Rightarrow> encryption_mode \<Rightarrow> conn \<Rightarrow> est_error + mse_session \<times> conn" where
  "pe_initiate sha1 bn dr skey mode c =
     (if \<not> wants_pe mode then Inl Needs_pe_mode
      else let dh = dh_generate bn (dr_key dr)
           in case write_all (initiator_ya_pad bn dh (dr_pad dr mod 32) (dr_fill dr)) c of Inl e \<Rightarrow> Inl e | Inr c \<Rightarrow>
             (case read_exact DH_PUB_LEN c of Inl e \<Rightarrow> Inl e | Inr (yb, c) \<Rightarrow>
             (case compute_secret bn dh yb of Inl e \<Rightarrow> Inl (Mse_failed e) | Inr secret \<Rightarrow>
             (case initiator_build_sync sha1 secret skey (crypto_provide_bits mode) [] of
                Inl e \<Rightarrow> Inl (Mse_failed e)
              | Inr (sync, encr, dcr) \<Rightarrow>
             (case write_all sync c of Inl e \<Rightarrow> Inl e | Inr c \<Rightarrow>
             (case response_loop (dr_late dr) dcr [] (cn_in c) of Inl e \<Rightarrow> Inl e | Inr (select, dcr, ins) \<Rightarrow>
                Inr (\<lparr>ms_crypto_select = select, ms_encrypt = encr, ms_decrypt = dcr,
                      ms_rc4 = (select AND CRYPTO_RC4 \<noteq> 0)\<rparr>, c\<lparr>cn_in := ins\<rparr>)))))))"

section \<open>Outbound connections\<close>

datatype peer_crypto = Crypto_unknown | Crypto_plain | Crypto_pe_plain | Crypto_rc4

record wire_crypto =
  wc_encrypt :: rc4
  wc_decrypt :: rc4

definition mse_to_wire :: "mse_session \<Rightarrow> wire_crypto option \<times> peer_crypto" where
  "mse_to_wire m =
     (if ms_rc4 m then (Some \<lparr>wc_encrypt = ms_encrypt m, wc_decrypt = ms_decrypt m\<rparr>, Crypto_rc4)
      else (None, Crypto_pe_plain))"

text \<open>The part of the configuration used here, and the cells shared with the list of live peers.\<close>

record est_cfg =
  ec_encryption :: encryption_mode
  ec_peer_id :: bytes
  ec_on_bound :: "(int \<Rightarrow> bool) option"

record cells =
  cl_crypto :: peer_crypto
  cl_piece_count :: nat
  cl_label :: "nat list"

text \<open>What \<open>EstablishedPeer::new\<close> is called with.\<close>

record established =
  es_conn :: conn
  es_torrent :: arc
  es_wire :: "wire_crypto option"
  es_hs :: bytes
  es_initial :: bytes

definition reject_if_self :: "bytes \<Rightarrow> bytes \<Rightarrow> est_error + unit" where
  "reject_if_self our_peer_id peer_hs =
     (case parse_handshake peer_hs of
        Inl e \<Rightarrow> Inl (Bt_failed e)
      | Inr (_, their_id) \<Rightarrow> if their_id = our_peer_id then Inl Is_self else Inr ())"

definition log_handshake_ok :: "bytes \<Rightarrow> cells \<Rightarrow> cells" where
  "log_handshake_ok peer_hs cl =
     cl\<lparr>cl_label := (case parse_handshake peer_hs of Inr (_, pid) \<Rightarrow> identify_peer_id pid | Inl _ \<Rightarrow> map of_char ''unknown'')\<rparr>"

text \<open>Both dials read the handshake of the peer the same way.\<close>

definition peer_handshake :: "bytes \<Rightarrow> bytes \<Rightarrow> est_error + unit" where
  "peer_handshake infohash peer_hs =
     (if peer_hs ! 0 \<noteq> 19 then Inl (Not_bt_first (peer_hs ! 0))
      else case parse_handshake peer_hs of
             Inl e \<Rightarrow> Inl (Bt_failed e)
           | Inr (ih, _) \<Rightarrow> if ih \<noteq> infohash then Inl Infohash_mismatch else Inr ())"

text \<open>\<open>c0\<close> is the connected socket, if connecting worked.\<close>

definition dial_plain :: "bytes \<Rightarrow> bytes \<Rightarrow> conn option \<Rightarrow> est_error + conn \<times> bytes" where
  "dial_plain infohash our_hs c0 =
     (case c0 of None \<Rightarrow> Inl Connect_failed | Some c \<Rightarrow>
     (case write_all_crypto our_hs None c of Inl e \<Rightarrow> Inl e | Inr (_, c) \<Rightarrow>
     (case read_exact_crypto HANDSHAKE_LEN None c of Inl e \<Rightarrow> Inl e | Inr (peer_hs, _, c) \<Rightarrow>
     (case peer_handshake infohash peer_hs of Inl e \<Rightarrow> Inl e | Inr _ \<Rightarrow> Inr (c, peer_hs)))))"

definition dial_pe ::
  "(bytes \<Rightarrow> bytes) \<Rightarrow> bignum \<Rightarrow> pe_draws \<Rightarrow> bytes \<Rightarrow> encryption_mode \<Rightarrow> bytes \<Rightarrow> cells \<Rightarrow> conn option
     \<Rightarrow> (est_error + conn \<times> wire_crypto option \<times> bytes) \<times> cells" where
  "dial_pe sha1 bn dr infohash mode our_hs cl c0 =
     (case c0 of None \<Rightarrow> (Inl Connect_failed, cl) | Some c \<Rightarrow>
     (case pe_initiate sha1 bn dr infohash mode c of Inl e \<Rightarrow> (Inl e, cl) | Inr (mse, c) \<Rightarrow>
     (case mse_to_wire mse of (wire, crypto) \<Rightarrow>
        ((case write_all_crypto our_hs (map_option wc_encrypt wire) c of Inl e \<Rightarrow> Inl e | Inr (ek, c) \<Rightarrow>
         (case read_exact_crypto HANDSHAKE_LEN (map_option wc_decrypt wire) c of Inl e \<Rightarrow> Inl e | Inr (peer_hs, dk, c) \<Rightarrow>
         (case peer_handshake infohash peer_hs of Inl e \<Rightarrow> Inl e | Inr _ \<Rightarrow>
            Inr (c, (case (ek, dk) of (Some ek, Some dk) \<Rightarrow> Some \<lparr>wc_encrypt = ek, wc_decrypt = dk\<rparr> | _ \<Rightarrow> None), peer_hs)))),
         cl\<lparr>cl_crypto := crypto\<rparr>))))"

definition run_outbound_after_hs ::
  "est_cfg \<Rightarrow> arc \<Rightarrow> conn \<Rightarrow> wire_crypto option \<Rightarrow> bytes \<Rightarrow> cells \<Rightarrow> (est_error + established) \<times> cells" where
  "run_outbound_after_hs cfg p c wire peer_hs cl =
     (case reject_if_self (ec_peer_id cfg) peer_hs of
        Inl e \<Rightarrow> (Inl e, cl)
      | Inr _ \<Rightarrow> (Inr \<lparr>es_conn = c, es_torrent = p, es_wire = wire, es_hs = peer_hs, es_initial = []\<rparr>,
                  log_handshake_ok peer_hs cl))"

text \<open>\<open>plain\<close> and \<open>pe\<close> are the sockets of the two attempts; the session itself starts from what is returned.\<close>

definition run_outbound_peer ::
  "(bytes \<Rightarrow> bytes) \<Rightarrow> bignum \<Rightarrow> pe_draws \<Rightarrow> (arc \<Rightarrow> hot_torrent) \<Rightarrow> arc \<Rightarrow> est_cfg \<Rightarrow> conn option \<Rightarrow> conn option \<Rightarrow> cells
     \<Rightarrow> (est_error + established) \<times> cells" where
  "run_outbound_peer sha1 bn dr heap p cfg plain pe cl =
     (let ih = ht_infohash (heap p);
          our_hs = encode_handshake ih (ec_peer_id cfg);
          after_plain = (\<lambda>c peer_hs cl. run_outbound_after_hs cfg p c None peer_hs (cl\<lparr>cl_crypto := Crypto_plain\<rparr>))
      in case ec_encryption cfg of
           PreferPlain \<Rightarrow>
             (case dial_plain ih our_hs plain of
                Inr (c, peer_hs) \<Rightarrow> after_plain c peer_hs cl
              | Inl plain_err \<Rightarrow>
                  (case dial_pe sha1 bn dr ih PreferPlain our_hs cl pe of
                     (Inr (c, wire, peer_hs), cl) \<Rightarrow> run_outbound_after_hs cfg p c wire peer_hs cl
                   | (Inl pe_err, cl) \<Rightarrow> (Inl (Both_failed plain_err pe_err), cl)))
         | PreferRc4 \<Rightarrow>
             (case dial_pe sha1 bn dr ih PreferRc4 our_hs cl pe of
                (Inr (c, wire, peer_hs), cl) \<Rightarrow> run_outbound_after_hs cfg p c wire peer_hs cl
              | (Inl pe_err, cl) \<Rightarrow>
                  (case dial_plain ih our_hs plain of
                     Inr (c, peer_hs) \<Rightarrow> after_plain c peer_hs cl
                   | Inl plain_err \<Rightarrow> (Inl (Both_failed pe_err plain_err), cl)))
         | RequireRc4 \<Rightarrow>
             (case dial_pe sha1 bn dr ih RequireRc4 our_hs cl pe of
                (Inr (c, wire, peer_hs), cl) \<Rightarrow> run_outbound_after_hs cfg p c wire peer_hs cl
              | (Inl e, cl) \<Rightarrow> (Inl e, cl))
         | Off \<Rightarrow>
             (case dial_plain ih our_hs plain of
                Inr (c, peer_hs) \<Rightarrow> after_plain c peer_hs cl
              | Inl e \<Rightarrow> (Inl e, cl)))"

section \<open>The receiver\<close>

definition ACCEPT_MAX :: nat where
  "ACCEPT_MAX = 512 + 20 + 20 + 8 + 4 + 2 + 512 + 2 + 512"

function req1_loop :: "bytes \<Rightarrow> bytes \<Rightarrow> bytes list \<Rightarrow> est_error + nat \<times> bytes \<times> bytes list" where
  "req1_loop req1 buf ins =
     (if length buf \<ge> ACCEPT_MAX then Inl Req1_missing
      else case read_some 4096 ins of
             None \<Rightarrow> Inl Sock_read
           | Some (got, ins') \<Rightarrow>
               if got = [] then Inl Sock_eof
               else (case find_slice (buf @ got) req1 of
                       Some pos \<Rightarrow> Inr (pos, buf @ got, ins')
                     | None \<Rightarrow> req1_loop req1 (buf @ got) ins'))"
  by pat_completeness auto
termination
  by (relation "measure (\<lambda>(_, _, ins). length (concat ins) + length ins)") (auto dest: read_some_measure)

text \<open>The errors whose text contains \<open>truncated\<close> or \<open>overflow\<close>.\<close>

definition wants_more :: "mse_error \<Rightarrow> bool" where
  "wants_more e \<longleftrightarrow> e \<in> {PayloadTruncated, PadCOverflow, IaOverflow}"

text \<open>\<open>reg buf\<close> is the registry at the look-up made when \<open>buf\<close> had been received.\<close>

function sync_loop ::
  "(bytes \<Rightarrow> bytes) \<Rightarrow> (arc \<Rightarrow> hot_torrent) \<Rightarrow> (bytes \<Rightarrow> registry) \<Rightarrow> bytes \<Rightarrow> nat \<Rightarrow> bytes \<Rightarrow> bytes list
     \<Rightarrow> est_error + (arc \<times> 32 word \<times> bytes \<times> rc4 \<times> rc4) \<times> bytes list" where
  "sync_loop sha1 heap reg secret pos buf ins =
     (if length buf < pos + 40 then
        (case read_some 4096 ins of
           None \<Rightarrow> Inl Sock_read
         | Some (got, ins') \<Rightarrow> if got = [] then Inl Sock_eof else sync_loop sha1 heap reg secret pos (buf @ got) ins')
      else case match_req2 sha1 heap (deobfuscate_req2 sha1 secret (slice (pos + 20) (pos + 40) buf)) (reg buf) of
             None \<Rightarrow> Inl Unknown_skey
           | Some p \<Rightarrow>
               (case receiver_parse_initiator sha1 secret (ht_infohash (heap p)) (drop pos buf) of
                  Inr (provide, ia, dcr, encr) \<Rightarrow> Inr ((p, provide, ia, dcr, encr), ins)
                | Inl e \<Rightarrow>
                    if wants_more e then
                      (case read_some 4096 ins of
                         None \<Rightarrow> Inl Sock_read
                       | Some (got, ins') \<Rightarrow>
                           if got = [] then Inl (Eof_mid_sync e)
                           else if length (buf @ got) > pos + ACCEPT_MAX then Inl (Sync_too_large e)
                           else sync_loop sha1 heap reg secret pos (buf @ got) ins')
                    else Inl (Mse_failed e)))"
  by pat_completeness auto
termination
  by (relation "measure (\<lambda>(_, _, _, _, _, _, ins). length (concat ins) + length ins)") (auto dest: read_some_measure)

declare req1_loop.simps [simp del] sync_loop.simps [simp del]

definition pe_accept_incoming ::
  "(bytes \<Rightarrow> bytes) \<Rightarrow> bignum \<Rightarrow> bytes \<Rightarrow> (arc \<Rightarrow> hot_torrent) \<Rightarrow> (bytes \<Rightarrow> registry) \<Rightarrow> byte \<Rightarrow> encryption_mode \<Rightarrow> conn
     \<Rightarrow> est_error + arc \<times> mse_session \<times> bytes \<times> conn" where
  "pe_accept_incoming sha1 bn raw heap reg first mode c =
     (case read_exact (DH_PUB_LEN - 1) c of Inl e \<Rightarrow> Inl e | Inr (ya, c) \<Rightarrow>
      let dh = dh_generate bn raw
      in case write_all (public_key_bytes bn dh) c of Inl e \<Rightarrow> Inl e | Inr c \<Rightarrow>
     (case compute_secret bn dh (first # ya) of Inl e \<Rightarrow> Inl (Mse_failed e) | Inr secret \<Rightarrow>
     (case req1_loop (hash_req1 sha1 secret) [] (cn_in c) of Inl e \<Rightarrow> Inl e | Inr (pos, buf, ins) \<Rightarrow>
     (case sync_loop sha1 heap reg secret pos buf ins of Inl e \<Rightarrow> Inl e | Inr ((p, provide, ia, dcr, encr), ins) \<Rightarrow>
     (case select_crypto (crypto_provide_bits mode) provide mode of None \<Rightarrow> Inl No_common_crypto | Some select \<Rightarrow>
     (case receiver_build_response encr select of (resp, encr) \<Rightarrow>
     (case write_all resp (c\<lparr>cn_in := ins\<rparr>) of Inl e \<Rightarrow> Inl e | Inr c \<Rightarrow>
        Inr (p, \<lparr>ms_crypto_select = select, ms_encrypt = encr, ms_decrypt = dcr,
                 ms_rc4 = (select AND CRYPTO_RC4 \<noteq> 0)\<rparr>, ia, c))))))))"

section \<open>Inbound connections\<close>

definition inbound_after_known ::
  "(arc \<Rightarrow> hot_torrent) \<Rightarrow> est_cfg \<Rightarrow> arc \<Rightarrow> wire_crypto option \<Rightarrow> bytes \<Rightarrow> peer_crypto \<Rightarrow> bytes \<Rightarrow> cells \<Rightarrow> conn
     \<Rightarrow> (est_error + established) \<times> cells" where
  "inbound_after_known heap cfg p wire peer_hs crypto initial cl c =
     (case reject_if_self (ec_peer_id cfg) peer_hs of Inl e \<Rightarrow> (Inl e, cl) | Inr _ \<Rightarrow>
      let t = heap p
      in if (case ec_on_bound cfg of None \<Rightarrow> False | Some cb \<Rightarrow> \<not> cb (ht_id t)) then (Inl (At_max_peers (ht_id t)), cl)
         else let cl = cl\<lparr>cl_piece_count := ht_piece_count t, cl_crypto := crypto\<rparr>
              in case write_all_crypto (encode_handshake (ht_infohash t) (ec_peer_id cfg)) (map_option wc_encrypt wire) c of
                   Inl e \<Rightarrow> (Inl e, cl)
                 | Inr (ek, c) \<Rightarrow>
                     (Inr \<lparr>es_conn = c, es_torrent = p,
                           es_wire = (case (wire, ek) of (Some w, Some ek) \<Rightarrow> Some (w\<lparr>wc_encrypt := ek\<rparr>) | _ \<Rightarrow> None),
                           es_hs = peer_hs, es_initial = initial\<rparr>, cl))"

definition inbound_after_hs ::
  "(arc \<Rightarrow> hot_torrent) \<Rightarrow> (bytes \<Rightarrow> registry) \<Rightarrow> est_cfg \<Rightarrow> bytes \<Rightarrow> cells \<Rightarrow> conn \<Rightarrow> (est_error + established) \<times> cells" where
  "inbound_after_hs heap reg cfg hs_buf cl c =
     (if \<not> looks_like_bt_handshake hs_buf then (Inl Invalid_handshake, cl)
      else case parse_handshake hs_buf of
             Inl e \<Rightarrow> (Inl (Bt_failed e), cl)
           | Inr (infohash, _) \<Rightarrow>
               (case registry_get infohash (reg hs_buf) of
                  None \<Rightarrow> (Inl (Unknown_infohash infohash), cl)
                | Some p \<Rightarrow> inbound_after_known heap cfg p None hs_buf Crypto_plain [] cl c))"

definition after_pe ::
  "(arc \<Rightarrow> hot_torrent) \<Rightarrow> est_cfg \<Rightarrow> arc \<Rightarrow> mse_session \<Rightarrow> bytes \<Rightarrow> cells \<Rightarrow> conn \<Rightarrow> (est_error + established) \<times> cells" where
  "after_pe heap cfg p mse ia cl c =
     (let ih = ht_infohash (heap p);
          crypto = (if ms_rc4 mse then Crypto_rc4 else Crypto_pe_plain);
          wire = (if ms_rc4 mse then Some \<lparr>wc_encrypt = ms_encrypt mse, wc_decrypt = ms_decrypt mse\<rparr> else None)
      in if length ia \<ge> HANDSHAKE_LEN \<and> looks_like_bt_handshake (take HANDSHAKE_LEN ia) then
           (case parse_handshake (take HANDSHAKE_LEN ia) of
              Inl e \<Rightarrow> (Inl (Bt_failed e), cl)
            | Inr (h, _) \<Rightarrow>
                if h \<noteq> ih then (Inl Infohash_mismatch, cl)
                else inbound_after_known heap cfg p wire (take HANDSHAKE_LEN ia) crypto (drop HANDSHAKE_LEN ia) cl c)
         else case read_exact_crypto HANDSHAKE_LEN (map_option wc_decrypt wire) c of
                Inl e \<Rightarrow> (Inl e, cl)
              | Inr (hs_buf, dk, c) \<Rightarrow>
                  if \<not> looks_like_bt_handshake hs_buf then (Inl Invalid_handshake, cl)
                  else (case parse_handshake hs_buf of
                          Inl e \<Rightarrow> (Inl (Bt_failed e), cl)
                        | Inr (h, _) \<Rightarrow>
                            if h \<noteq> ih then (Inl Infohash_mismatch, cl)
                            else inbound_after_known heap cfg p
                                   (case (wire, dk) of (Some w, Some dk) \<Rightarrow> Some (w\<lparr>wc_decrypt := dk\<rparr>) | _ \<Rightarrow> None)
                                   hs_buf crypto [] cl c))"

definition establish_inbound ::
  "(bytes \<Rightarrow> bytes) \<Rightarrow> bignum \<Rightarrow> bytes \<Rightarrow> (arc \<Rightarrow> hot_torrent) \<Rightarrow> (bytes \<Rightarrow> registry) \<Rightarrow> est_cfg \<Rightarrow> cells \<Rightarrow> conn
     \<Rightarrow> (est_error + established) \<times> cells" where
  "establish_inbound sha1 bn raw heap reg cfg cl c =
     (case read_exact 1 c of Inl e \<Rightarrow> (Inl e, cl) | Inr (first, c) \<Rightarrow>
      if hd first = 19 then
        (if requires_rc4 (ec_encryption cfg) then (Inl Plain_rejected, cl)
         else case read_exact (HANDSHAKE_LEN - 1) c of
                Inl e \<Rightarrow> (Inl e, cl)
              | Inr (bs, c) \<Rightarrow> inbound_after_hs heap reg cfg (hd first # bs) cl c)
      else if \<not> wants_pe (ec_encryption cfg) then (Inl Pe_rejected, cl)
      else case pe_accept_incoming sha1 bn raw heap reg (hd first) (ec_encryption cfg) c of
             Inl e \<Rightarrow> (Inl e, cl)
           | Inr (p, mse, ia, c) \<Rightarrow> after_pe heap cfg p mse ia cl c)"

definition run_inbound_peer ::
  "(bytes \<Rightarrow> bytes) \<Rightarrow> bignum \<Rightarrow> bytes \<Rightarrow> (arc \<Rightarrow> hot_torrent) \<Rightarrow> (bytes \<Rightarrow> registry) \<Rightarrow> est_cfg \<Rightarrow> cells \<Rightarrow> conn
     \<Rightarrow> (est_error + established) \<times> cells" where
  "run_inbound_peer sha1 bn raw heap reg cfg cl c =
     (case establish_inbound sha1 bn raw heap reg cfg cl c of
        (Inl e, cl) \<Rightarrow> (Inl e, cl)
      | (Inr es, cl) \<Rightarrow> (Inr es, log_handshake_ok (es_hs es) cl))"

end
