(* ===== verification/Establish_Correct.thy ===== *)
theory Establish_Correct
  imports Establish
begin

text \<open>
  Properties of establishing a connection: the two sides of the encrypted handshake agree for every
  fragmentation of the streams, the encryption policy is respected, and where it is not.
\<close>

section \<open>Reads over fragmented input\<close>

lemma take_exact_append:
  assumes "[] \<notin> set A" "n \<le> length (concat A)"
  shows "\<exists>A'. take_exact n (A @ B) = Some (take n (concat A), A' @ B) \<and> concat A' = drop n (concat A) \<and> [] \<notin> set A'"
  using assms
proof (induction A arbitrary: n)
  case Nil
  then show ?case by (intro exI [of _ "[]"]) simp
next
  case (Cons ch A)
  show ?case
  proof (cases n)
    case 0
    with Cons.prems show ?thesis by (intro exI [of _ "ch # A"]) auto
  next
    case (Suc m)
    show ?thesis
    proof (cases "length ch > Suc m")
      case True
      with Suc Cons.prems show ?thesis by (intro exI [of _ "drop n ch # A"]) auto
    next
      case False
      with Suc Cons.prems have "n - length ch \<le> length (concat A)" "[] \<notin> set A" by auto
      from Cons.IH [OF this(2,1)] False Suc Cons.prems show ?thesis by auto
    qed
  qed
qed

lemma take_exact_short: "length (concat A) < n \<Longrightarrow> take_exact n A = None"
proof (induction A arbitrary: n)
  case (Cons ch A)
  from Cons.prems obtain m where "n = Suc m" by (cases n) auto
  with Cons show ?case by auto
qed (auto simp: gr0_conv_Suc)

lemma read_exact_append:
  assumes "[] \<notin> set A" "concat A = x @ y"
  obtains A' where "read_exact (length x) \<lparr>cn_in = A @ B, cn_out = ob, cn_writes = w\<rparr>
      = Inr (x, \<lparr>cn_in = A' @ B, cn_out = ob, cn_writes = w\<rparr>)" "concat A' = y" "[] \<notin> set A'"
  using take_exact_append [of A "length x" B] assms by (auto simp: read_exact_def)

lemma read_some_append:
  assumes "[] \<notin> set A" "A \<noteq> []" "0 < n"
  obtains got A' where "read_some n (A @ B) = Some (got, A' @ B)" "got \<noteq> []" "got @ concat A' = concat A" "[] \<notin> set A'"
proof (cases A)
  case Nil
  with assms show ?thesis by simp
next
  case (Cons ch A1)
  have [simp]: "max n (Suc 0) = n" using assms(3) by simp
  show ?thesis
  proof (cases "length ch \<le> n")
    case True
    show ?thesis by (rule that [of ch A1]) (use True Cons assms in \<open>auto simp: read_some_def\<close>)
  next
    case False
    show ?thesis by (rule that [of "take n ch" "drop n ch # A1"]) (use False Cons assms in \<open>auto simp: read_some_def\<close>)
  qed
qed

lemma no_bytes_no_chunks:
  assumes "[] \<notin> set A" "concat A = []"
  shows "A = []"
  using assms by (cases A) auto

lemma response_loop_reads:
  assumes "[] \<notin> set A" "buf @ concat A = R" "length R \<le> 1038" "\<forall>b. \<not> late b"
    and "initiator_scan_response dcr R = (Inr (Found v (length R)), dcr')"
    and "\<And>b x. R = b @ x \<Longrightarrow> x \<noteq> [] \<Longrightarrow> initiator_scan_response dcr b = (Inr NeedMore, dcr)"
  shows "response_loop late dcr buf (A @ B) = Inr (v, dcr', B)"
  using assms(1,2)
proof (induction "length (concat A)" arbitrary: buf A rule: less_induct)
  case less
  show ?case
  proof (cases "concat A = []")
    case True
    with less.prems no_bytes_no_chunks have "A = []" "buf = R" by auto
    with assms(4,5) show ?thesis by (subst response_loop.simps) simp
  next
    case False
    then have "A \<noteq> []" by auto
    from read_some_append [OF less.prems(1) this, of 256 B] obtain got A' where
      r: "read_some 256 (A @ B) = Some (got, A' @ B)" "got \<noteq> []" "got @ concat A' = concat A" "[] \<notin> set A'" by auto
    have "initiator_scan_response dcr buf = (Inr NeedMore, dcr)"
      by (rule assms(6) [of _ "concat A"]) (use less.prems False in auto)
    moreover have "length buf < length R"
      using less.prems(2) False by (metis length_append length_greater_0_conv less_add_same_cancel1)
    moreover have "response_loop late dcr (buf @ got) (A' @ B) = Inr (v, dcr', B)"
      by (rule less.hyps) (use r less.prems(2) in \<open>auto simp flip: r(3)\<close>)
    ultimately show ?thesis using r assms(3,4) by (subst response_loop.simps) simp
  qed
qed

lemma find_slice_from_length:
  "find_slice_from i hay needle = Some q \<Longrightarrow> length needle \<le> length hay"
  by (induction i hay needle rule: find_slice_from.induct) (auto split: if_splits dest: arg_cong [of _ _ length])

lemma find_slice_from_append:
  assumes "find_slice_from i hay needle = Some q"
  shows "find_slice_from i (hay @ x) needle = Some q"
  using assms
proof (induction hay arbitrary: i)
  case Nil
  then show ?case by (cases x) (auto split: if_splits)
next
  case (Cons b hay)
  have "length needle \<le> length (b # hay)" by (rule find_slice_from_length [OF Cons.prems])
  then have same: "take (length needle) ((b # hay) @ x) = take (length needle) (b # hay)"
    by (simp only: take_append) simp
  show ?case
  proof (cases "take (length needle) (b # hay) = needle")
    case True
    with same Cons.prems show ?thesis by simp
  next
    case False
    with Cons.prems have "find_slice_from (Suc i) hay needle = Some q" by simp
    with Cons.IH same False show ?thesis by simp
  qed
qed

lemma find_slice_append: "find_slice hay needle = Some q \<Longrightarrow> find_slice (hay @ x) needle = Some q"
  by (simp add: find_slice_def find_slice_from_append)

lemma find_slice_bound:
  "find_slice_from i hay needle = Some q \<Longrightarrow> i \<le> q \<and> q + length needle \<le> i + length hay"
proof (induction i hay needle rule: find_slice_from.induct)
  case (2 i b hay needle)
  show ?case
  proof (cases "take (length needle) (b # hay) = needle")
    case True
    with 2 find_slice_from_length [OF "2.prems"] show ?thesis by simp
  next
    case False
    with 2 show ?thesis by auto
  qed
qed (auto split: if_splits)

lemma req1_loop_finds:
  assumes "[] \<notin> set A" "buf @ concat A = R" "length R < ACCEPT_MAX" "find_slice R req1 = Some pos" "find_slice buf req1 = None"
  obtains buf' A' where "req1_loop req1 buf (A @ B) = Inr (pos, buf', A' @ B)" "buf' @ concat A' = R" "[] \<notin> set A'"
    "pos + length req1 \<le> length buf'"
  using assms(1,2,5)
proof (induction "length (concat A)" arbitrary: buf A thesis rule: less_induct)
  case less
  have "A \<noteq> []" using less.prems(3,4) assms(4) by auto
  from read_some_append [OF less.prems(2) this, of 4096 B] obtain got A' where
    r: "read_some 4096 (A @ B) = Some (got, A' @ B)" "got \<noteq> []" "got @ concat A' = concat A" "[] \<notin> set A'" by auto
  have room: "\<not> ACCEPT_MAX \<le> length buf" using less.prems(3) assms(3) by auto
  have R: "(buf @ got) @ concat A' = R" using less.prems(3) r(3) by simp
  show ?case
  proof (cases "find_slice (buf @ got) req1")
    case (Some q)
    with find_slice_append [OF Some, of "concat A'"] R assms(4) have "q = pos" by simp
    with Some find_slice_bound [of 0 "buf @ got" req1 pos] have "pos + length req1 \<le> length (buf @ got)"
      by (simp add: find_slice_def)
    moreover have "req1_loop req1 buf (A @ B) = Inr (pos, buf @ got, A' @ B)"
      using room r Some \<open>q = pos\<close> by (subst req1_loop.simps) simp
    ultimately show ?thesis using less.prems(1) R r(4) by blast
  next
    case None
    have step: "req1_loop req1 buf (A @ B) = req1_loop req1 (buf @ got) (A' @ B)"
      using room r None by (subst req1_loop.simps) simp
    have "length (concat A') < length (concat A)" using r(2) by (simp flip: r(3))
    from less.hyps [OF this _ r(4) R None] less.prems(1) step show ?thesis by metis
  qed
qed

section \<open>The receiver finds the torrent and the initiator's flight\<close>

text \<open>The flight is 56 bytes when no initial payload is sent; any part of it that holds both hashes is reported as
  truncated.\<close>

lemma sync_shape:
  assumes sha: "\<forall>x. length (sha1 x :: bytes) = 20"
    and build: "initiator_build_sync sha1 secret skey provide [] = Inr (sync, encr, dcr)"
  obtains tail where "sync = hash_req1 sha1 secret @ obfuscated_hash sha1 secret skey @ tail" "length tail = 16"
    "length (hash_req1 sha1 secret) = 20" "length (obfuscated_hash sha1 secret skey) = 20"
    "deobfuscate_req2 sha1 secret (obfuscated_hash sha1 secret skey) = hash_req2 sha1 skey"
proof -
  have hl: "length (hash_req1 sha1 secret) = 20" "length (hash_req2 sha1 skey) = 20"
    "length (hash_req3 sha1 secret) = 20" "length (obfuscated_hash sha1 secret skey) = 20"
    using sha by (simp_all add: hash_req1_def hash_req2_def hash_req3_def sha1_salt1_def obfuscated_hash_def)
  moreover have "deobfuscate_req2 sha1 secret (obfuscated_hash sha1 secret skey) = hash_req2 sha1 skey"
    by (simp add: deobfuscate_req2_def obfuscated_hash_def xor_bytes_cancel hl)
  moreover obtain a where "sync = hash_req1 sha1 secret @ obfuscated_hash sha1 secret skey
      @ fst (crypt_inplace a (initiator_inner provide []))"
    using build by (auto simp: initiator_build_sync_def Let_def case_prod_beta split: option.splits)
  ultimately show ?thesis
    using that [of "fst (crypt_inplace a (initiator_inner provide []))"] by (simp add: rc.crypt_length initiator_inner_def)
qed

lemma truncated_flight:
  assumes sha: "\<forall>x. length (sha1 x :: bytes) = 20"
    and build: "initiator_build_sync sha1 secret skey provide [] = Inr (sync, encr, dcr)"
    and "sync = buf @ x" "x \<noteq> []" "40 \<le> length buf"
  shows "receiver_parse_initiator sha1 secret skey buf = Inl PayloadTruncated"
proof -
  obtain tail where t: "sync = hash_req1 sha1 secret @ obfuscated_hash sha1 secret skey @ tail" "length tail = 16"
    "length (hash_req1 sha1 secret) = 20" "length (obfuscated_hash sha1 secret skey) = 20"
    by (rule sync_shape [OF sha build])
  have "length sync = 56" by (simp add: t)
  moreover have "length sync = length buf + length x" by (simp add: assms(3))
  ultimately have "length buf < 56" using assms(4) by (cases x) simp_all
  have "take 20 sync = hash_req1 sha1 secret" by (simp add: t)
  moreover have "take 20 sync = take 20 buf" using assms(5) by (simp add: assms(3))
  ultimately have "take 20 buf = hash_req1 sha1 secret" by simp
  then have "buf = hash_req1 sha1 secret @ drop 20 buf" by (metis append_take_drop_id)
  moreover have "hash_req1 sha1 secret \<noteq> []" using t(3) by auto
  ultimately have "find_slice buf (hash_req1 sha1 secret) = Some 0"
    by (metis find_slice_def find_slice_from_prefix)
  with \<open>length buf < 56\<close> show ?thesis by (simp add: receiver_parse_initiator_def)
qed

lemma sync_loop_reads:
  assumes sha: "\<forall>x. length (sha1 x :: bytes) = 20"
    and build: "initiator_build_sync sha1 secret (ht_infohash (heap p)) provide [] = Inr (sync, encr, dcr)"
    and known: "\<forall>b. match_req2 sha1 heap (hash_req2 sha1 (ht_infohash (heap p))) (reg b) = Some p"
    and "[] \<notin> set A" "buf @ concat A = pad @ sync"
  shows "sync_loop sha1 heap reg secret (length pad) buf (A @ B) = Inr ((p, provide, [], encr, dcr), B)"
  using assms(4,5)
proof (induction "length (concat A)" arbitrary: buf A rule: less_induct)
  case less
  let ?R = "pad @ sync" and ?loop = "sync_loop sha1 heap reg secret (length pad)"
  obtain tail where t: "sync = hash_req1 sha1 secret @ obfuscated_hash sha1 secret (ht_infohash (heap p)) @ tail" "length tail = 16"
    "length (hash_req1 sha1 secret) = 20" "length (obfuscated_hash sha1 secret (ht_infohash (heap p))) = 20"
    "deobfuscate_req2 sha1 secret (obfuscated_hash sha1 secret (ht_infohash (heap p))) = hash_req2 sha1 (ht_infohash (heap p))"
    by (rule sync_shape [OF sha build])
  have total: "length buf + length (concat A) = length pad + 56"
    using arg_cong [OF less.prems(2), of length] by (simp add: t)
  have more: "\<exists>got A'. read_some 4096 (A @ B) = Some (got, A' @ B) \<and> got \<noteq> []
      \<and> ?loop (buf @ got) (A' @ B) = Inr ((p, provide, [], encr, dcr), B) \<and> length (buf @ got) \<le> length pad + 56"
    if "concat A \<noteq> []"
  proof -
    have "A \<noteq> []" using that by auto
    from read_some_append [OF less.prems(1) this, of 4096 B] obtain got A' where
      r: "read_some 4096 (A @ B) = Some (got, A' @ B)" "got \<noteq> []" "got @ concat A' = concat A" "[] \<notin> set A'" by auto
    have "?loop (buf @ got) (A' @ B) = Inr ((p, provide, [], encr, dcr), B)"
      by (rule less.hyps) (use r less.prems(2) in \<open>auto simp flip: r(3)\<close>)
    moreover have "length (buf @ got) \<le> length pad + 56" using total by (simp flip: r(3))
    ultimately show ?thesis using r by blast
  qed
  show ?case
  proof (cases "length buf < length pad + 40")
    case True
    with total have "0 < length (concat A)" by linarith
    then have "concat A \<noteq> []" by (rule length_greater_0_conv [THEN iffD1])
    with more True show ?thesis by (subst sync_loop.simps) auto
  next
    case False
    then have "slice (length pad + 20) (length pad + 40) buf = slice (length pad + 20) (length pad + 40) (buf @ concat A)"
      by (simp add: slice_def)
    then have "slice (length pad + 20) (length pad + 40) buf = obfuscated_hash sha1 secret (ht_infohash (heap p))"
      unfolding less.prems(2) by (simp add: t slice_def)
    then have hit: "match_req2 sha1 heap (deobfuscate_req2 sha1 secret (slice (length pad + 20) (length pad + 40) buf)) (reg buf) = Some p"
      using known t(5) by simp
    have flight: "sync = drop (length pad) buf @ concat A"
      using arg_cong [OF less.prems(2), of "drop (length pad)"] False by simp
    show ?thesis
    proof (cases "concat A = []")
      case True
      with no_bytes_no_chunks less.prems(1) have "A = []" by blast
      moreover have "receiver_parse_initiator sha1 secret (ht_infohash (heap p)) (drop (length pad) buf) = Inr (provide, [], encr, dcr)"
        using receiver_reads_initiator [OF sha _ build, of "[]"] find_slice_sync [OF sha build] flight True by simp
      ultimately show ?thesis using False hit by (subst sync_loop.simps) simp
    next
      case rest: False
      have "receiver_parse_initiator sha1 secret (ht_infohash (heap p)) (drop (length pad) buf) = Inl PayloadTruncated"
        by (rule truncated_flight [OF sha build flight rest]) (use False in simp)
      with more [OF rest] False hit show ?thesis
        by (subst sync_loop.simps) (auto simp: wants_more_def ACCEPT_MAX_def)
    qed
  qed
qed

section \<open>The two sides of the exchange\<close>

lemma length_pad_left: "length (pad_left_96 bs) = 96"
  by (simp add: pad_left_96_def)

lemma length_public_key: "length (public_key_bytes bn kp) = 96"
  by (simp add: public_key_bytes_def length_pad_left)

lemma length_response: "length (fst (receiver_build_response k v)) = 14"
  by (simp add: receiver_build_response_def rc.crypt_length)

lemma write_all_ok:
  "bs \<noteq> [] \<Longrightarrow> 0 < w \<Longrightarrow> write_all bs \<lparr>cn_in = ins, cn_out = ob, cn_writes = w\<rparr>
     = Inr \<lparr>cn_in = ins, cn_out = ob @ bs, cn_writes = w - 1\<rparr>"
  by (simp add: write_all_def)

lemma response_read:
  assumes "\<forall>b. \<not> late b" "[] \<notin> set A" "concat A = fst (receiver_build_response d v)"
  shows "response_loop late d [] (A @ B) = Inr (v, snd (receiver_build_response d v), B)"
proof (rule response_loop_reads [OF assms(2) _ _ assms(1)])
  show "[] @ concat A = fst (receiver_build_response d v)" using assms(3) by simp
  show "length (fst (receiver_build_response d v)) \<le> 1038" by (simp add: length_response)
  show "initiator_scan_response d (fst (receiver_build_response d v))
      = (Inr (Found v (length (fst (receiver_build_response d v)))), snd (receiver_build_response d v))"
    using scan_finds [of "[]" d v "[]"] by (simp add: length_response)
next
  fix b x
  assume "fst (receiver_build_response d v) = b @ x" and x: "x \<noteq> []"
  then have "length b + length x = 14" by (metis length_append length_response)
  with x have "length b < 14" by (cases x) simp_all
  then show "initiator_scan_response d b = (Inr NeedMore, d)" by (simp add: initiator_scan_response_def)
qed

lemma initiate_reads:
  assumes "wants_pe mode" "\<forall>b. \<not> dr_late dr b" "2 \<le> w"
    and "compute_secret bn (dh_generate bn (dr_key dr)) yb = Inr secret" "length yb = 96"
    and "initiator_build_sync sha1 secret skey (crypto_provide_bits mode) [] = Inr (sync, e, d)" "sync \<noteq> []"
    and "[] \<notin> set A" "concat A = yb @ fst (receiver_build_response d v)"
  shows "pe_initiate sha1 bn dr skey mode \<lparr>cn_in = A @ B, cn_out = [], cn_writes = w\<rparr>
     = Inr (\<lparr>ms_crypto_select = v, ms_encrypt = e, ms_decrypt = snd (receiver_build_response d v),
              ms_rc4 = (v AND CRYPTO_RC4 \<noteq> 0)\<rparr>,
            \<lparr>cn_in = B, cn_out = initiator_ya_pad bn (dh_generate bn (dr_key dr)) (dr_pad dr mod 32) (dr_fill dr) @ sync,
             cn_writes = w - 2\<rparr>)"
proof -
  let ?f1 = "initiator_ya_pad bn (dh_generate bn (dr_key dr)) (dr_pad dr mod 32) (dr_fill dr)"
  have "?f1 \<noteq> []" by (metis initiator_ya_pad_def length_public_key append_is_Nil_conv list.size(3) zero_neq_numeral)
  then have w1: "write_all ?f1 \<lparr>cn_in = A @ B, cn_out = [], cn_writes = w\<rparr>
      = Inr \<lparr>cn_in = A @ B, cn_out = ?f1, cn_writes = w - 1\<rparr>"
    using assms(3) by (simp add: write_all_ok)
  obtain A' where r: "read_exact (length yb) \<lparr>cn_in = A @ B, cn_out = ?f1, cn_writes = w - 1\<rparr>
      = Inr (yb, \<lparr>cn_in = A' @ B, cn_out = ?f1, cn_writes = w - 1\<rparr>)"
    "concat A' = fst (receiver_build_response d v)" "[] \<notin> set A'"
    by (rule read_exact_append [OF assms(8,9)])
  have w2: "write_all sync \<lparr>cn_in = A' @ B, cn_out = ?f1, cn_writes = w - 1\<rparr>
      = Inr \<lparr>cn_in = A' @ B, cn_out = ?f1 @ sync, cn_writes = w - 2\<rparr>"
    using assms(3,7) by (simp add: write_all_ok)
  show ?thesis
    using w1 r(1) w2 response_read [OF assms(2) r(3,2), of B] assms(1,4,5,6)
    by (simp add: pe_initiate_def Let_def)
qed

lemma accept_reads:
  assumes sha: "\<forall>x. length (sha1 x :: bytes) = 20" and "2 \<le> w"
    and "compute_secret bn (dh_generate bn raw) (first # ya) = Inr secret" "length ya = 95"
    and build: "initiator_build_sync sha1 secret (ht_infohash (heap p)) provide [] = Inr (sync, e, d)"
    and known: "\<forall>b. match_req2 sha1 heap (hash_req2 sha1 (ht_infohash (heap p))) (reg b) = Some p"
    and pad: "length pad < 512" "find_slice (pad @ sync) (hash_req1 sha1 secret) = Some (length pad)"
    and "select_crypto (crypto_provide_bits mode) provide mode = Some v"
    and "[] \<notin> set A" "concat A = ya @ pad @ sync"
  shows "pe_accept_incoming sha1 bn raw heap reg first mode \<lparr>cn_in = A @ B, cn_out = [], cn_writes = w\<rparr>
     = Inr (p, \<lparr>ms_crypto_select = v, ms_encrypt = snd (receiver_build_response d v), ms_decrypt = e,
                 ms_rc4 = (v AND CRYPTO_RC4 \<noteq> 0)\<rparr>, [],
            \<lparr>cn_in = B, cn_out = public_key_bytes bn (dh_generate bn raw) @ fst (receiver_build_response d v),
             cn_writes = w - 2\<rparr>)"
proof -
  let ?yb = "public_key_bytes bn (dh_generate bn raw)"
  obtain tail where t: "sync = hash_req1 sha1 secret @ obfuscated_hash sha1 secret (ht_infohash (heap p)) @ tail" "length tail = 16"
    "length (hash_req1 sha1 secret) = 20" "length (obfuscated_hash sha1 secret (ht_infohash (heap p))) = 20"
    by (rule sync_shape [OF sha build])
  obtain A1 where r1: "read_exact (length ya) \<lparr>cn_in = A @ B, cn_out = [], cn_writes = w\<rparr>
      = Inr (ya, \<lparr>cn_in = A1 @ B, cn_out = [], cn_writes = w\<rparr>)" "concat A1 = pad @ sync" "[] \<notin> set A1"
    by (rule read_exact_append [OF assms(10,11)])
  have "?yb \<noteq> []" "fst (receiver_build_response d v) \<noteq> []"
    by (metis length_public_key length_response list.size(3) zero_neq_numeral)+
  note writes = write_all_ok [OF this(1), of w] write_all_ok [OF this(2), of "w - 1"]
  have none: "find_slice [] (hash_req1 sha1 secret) = None"
    using t(3) by (cases "hash_req1 sha1 secret") (auto simp: find_slice_def)
  have "length (pad @ sync) < ACCEPT_MAX" using pad(1) by (simp add: t ACCEPT_MAX_def)
  moreover have "[] @ concat A1 = pad @ sync" using r1(2) by simp
  ultimately obtain buf A2 where q: "req1_loop (hash_req1 sha1 secret) [] (A1 @ B) = Inr (length pad, buf, A2 @ B)"
    "buf @ concat A2 = pad @ sync" "[] \<notin> set A2"
    using req1_loop_finds [OF r1(3) _ _ pad(2) none] by metis
  show ?thesis
    using r1(1) writes q(1) sync_loop_reads [OF sha build known q(3,2), of B] assms(2,3,4,9)
    by (simp add: pe_accept_incoming_def Let_def case_prod_beta)
qed

section \<open>The handshakes behind the exchange\<close>

definition advanced :: "wire_crypto option \<Rightarrow> bytes \<Rightarrow> bytes \<Rightarrow> wire_crypto option" where
  "advanced wire sent received =
     map_option (\<lambda>k. \<lparr>wc_encrypt = snd (crypt_inplace (wc_encrypt k) sent),
                       wc_decrypt = snd (crypt_inplace (wc_decrypt k) received)\<rparr>) wire"

definition sealed :: "rc4 option \<Rightarrow> bytes \<Rightarrow> bytes" where
  "sealed k bs = fst (crypt_opt k bs)"

lemma sealed_read:
  assumes "[] \<notin> set A" "concat A = sealed k hs" "length hs = n"
  shows "read_exact_crypto n k \<lparr>cn_in = A @ B, cn_out = ob, cn_writes = w\<rparr>
     = Inr (hs, map_option (\<lambda>k. snd (crypt_inplace k hs)) k, \<lparr>cn_in = B, cn_out = ob, cn_writes = w\<rparr>)"
proof -
  have n: "length (sealed k hs) = n"
    using assms(3) by (cases k) (simp_all add: sealed_def crypt_opt_def case_prod_beta rc.crypt_length)
  obtain A' where "read_exact n \<lparr>cn_in = A @ B, cn_out = ob, cn_writes = w\<rparr>
      = Inr (sealed k hs, \<lparr>cn_in = A' @ B, cn_out = ob, cn_writes = w\<rparr>)" "concat A' = []" "[] \<notin> set A'"
    using read_exact_append [of A "sealed k hs" "[]" B] assms n by auto
  with no_bytes_no_chunks have "read_exact n \<lparr>cn_in = A @ B, cn_out = ob, cn_writes = w\<rparr>
      = Inr (sealed k hs, \<lparr>cn_in = B, cn_out = ob, cn_writes = w\<rparr>)" by fastforce
  then show ?thesis
    by (cases k) (simp_all add: read_exact_crypto_def sealed_def crypt_opt_def case_prod_beta rc.crypt_crypt)
qed

lemma sealed_written:
  assumes "hs \<noteq> []" "0 < w"
  shows "write_all_crypto hs k \<lparr>cn_in = ins, cn_out = ob, cn_writes = w\<rparr>
     = Inr (map_option (\<lambda>k. snd (crypt_inplace k hs)) k, \<lparr>cn_in = ins, cn_out = ob @ sealed k hs, cn_writes = w - 1\<rparr>)"
proof -
  have "sealed k hs \<noteq> []"
    using assms(1) rc.crypt_length by (cases k) (auto simp: sealed_def crypt_opt_def case_prod_beta simp flip: length_greater_0_conv)
  with assms(2) show ?thesis
    by (cases k) (simp_all add: write_all_crypto_def sealed_def crypt_opt_def case_prod_beta write_all_ok)
qed

lemma handshake_facts:
  assumes "length ih = 20" "length pid = 20"
  shows "length (encode_handshake ih pid) = 68" "encode_handshake ih pid \<noteq> []" "hd (encode_handshake ih pid) = 19"
    "parse_handshake (encode_handshake ih pid) = Inr (ih, pid)" "looks_like_bt_handshake (encode_handshake ih pid)"
    "peer_handshake ih (encode_handshake ih pid) = Inr ()"
proof -
  show p: "parse_handshake (encode_handshake ih pid) = Inr (ih, pid)"
    using assms by (simp add: parse_handshake_def handshake_bits slice_def nth_append)
  show "length (encode_handshake ih pid) = 68" "encode_handshake ih pid \<noteq> []" "hd (encode_handshake ih pid) = 19"
    "looks_like_bt_handshake (encode_handshake ih pid)"
    using assms by (simp_all add: handshake_bits looks_like_bt_handshake_def slice_def)
  show "peer_handshake ih (encode_handshake ih pid) = Inr ()"
    by (simp add: peer_handshake_def p) (simp add: handshake_bits)
qed

lemma dial_pe_completes:
  assumes "pe_initiate sha1 bn dr ih mode c0 = Inr (mse, \<lparr>cn_in = A @ B, cn_out = ob, cn_writes = w\<rparr>)"
    and "mse_to_wire mse = (wire, crypto)" "0 < w" "our_hs \<noteq> []"
    and "[] \<notin> set A" "concat A = sealed (map_option wc_decrypt wire) peer_hs" "length peer_hs = 68" "peer_handshake ih peer_hs = Inr ()"
  shows "dial_pe sha1 bn dr ih mode our_hs cl (Some c0)
     = (Inr (\<lparr>cn_in = B, cn_out = ob @ sealed (map_option wc_encrypt wire) our_hs, cn_writes = w - 1\<rparr>,
             advanced wire our_hs peer_hs, peer_hs), cl\<lparr>cl_crypto := crypto\<rparr>)"
  using assms(1,2,8) sealed_written [OF assms(4,3)] sealed_read [OF assms(5,6,7)]
  by (cases wire) (simp_all add: dial_pe_def advanced_def)

lemma after_pe_completes:
  assumes "mse_to_wire mse = (wire, crypto)" "0 < w"
    and "[] \<notin> set A" "concat A = sealed (map_option wc_decrypt wire) (encode_handshake ih their_id)"
    and "ht_infohash (heap p) = ih" "length ih = 20" "length their_id = 20" "length (ec_peer_id cfg) = 20" "their_id \<noteq> ec_peer_id cfg"
    and "\<forall>cb. ec_on_bound cfg = Some cb \<longrightarrow> cb (ht_id (heap p))"
  shows "after_pe heap cfg p mse [] cl \<lparr>cn_in = A @ B, cn_out = ob, cn_writes = w\<rparr>
     = (Inr \<lparr>es_conn = \<lparr>cn_in = B, cn_out = ob @ sealed (map_option wc_encrypt wire) (encode_handshake ih (ec_peer_id cfg)),
                          cn_writes = w - 1\<rparr>,
              es_torrent = p, es_wire = advanced wire (encode_handshake ih (ec_peer_id cfg)) (encode_handshake ih their_id),
              es_hs = encode_handshake ih their_id, es_initial = []\<rparr>,
        cl\<lparr>cl_piece_count := ht_piece_count (heap p), cl_crypto := crypto\<rparr>)"
proof -
  note theirs = handshake_facts [OF assms(6,7)] and ours = handshake_facts [OF assms(6,8)]
  have cb: "\<not> (case ec_on_bound cfg of None \<Rightarrow> False | Some cb \<Rightarrow> \<not> cb (ht_id (heap p)))"
    using assms(10) by (auto split: option.splits)
  note io = sealed_read [OF assms(3,4) theirs(1), of B ob w] sealed_written [OF ours(2) assms(2)]
  show ?thesis
  proof (cases "ms_rc4 mse")
    case True
    with assms(1) have "wire = Some \<lparr>wc_encrypt = ms_encrypt mse, wc_decrypt = ms_decrypt mse\<rparr>" "crypto = Crypto_rc4"
      by (auto simp: mse_to_wire_def)
    with True io cb theirs(4,5) assms(5,9) show ?thesis
      by (simp add: after_pe_def inbound_after_known_def reject_if_self_def advanced_def Let_def)
  next
    case False
    with assms(1) have "wire = None" "crypto = Crypto_pe_plain" by (auto simp: mse_to_wire_def)
    with False io cb theirs(4,5) assms(5,9) show ?thesis
      by (simp add: after_pe_def inbound_after_known_def reject_if_self_def advanced_def Let_def)
  qed
qed

lemma find_slice_first:
  assumes "needle \<noteq> []" "\<forall>k < length pad. take (length needle) (drop k (pad @ needle)) \<noteq> needle"
  shows "find_slice_from i (pad @ needle @ rest) needle = Some (i + length pad)"
  using assms(2)
proof (induction pad arbitrary: i)
  case Nil
  then show ?case using find_slice_from_prefix [OF assms(1)] by simp
next
  case (Cons b pad)
  have "take (length needle) ((b # pad) @ needle @ rest) = take (length needle) ((b # pad) @ needle)"
    by (simp only: append_assoc [symmetric] take_append) simp
  with Cons.prems have "take (length needle) (b # pad @ needle @ rest) \<noteq> needle" by force
  moreover have "\<forall>k < length pad. take (length needle) (drop k (pad @ needle)) \<noteq> needle"
    using Cons.prems by (metis Suc_less_eq append_Cons drop_Suc_Cons length_Cons)
  ultimately show ?case using Cons.IH [of "Suc i"] by simp
qed

text \<open>Each side alone, fed the flights of the other in any chunks.\<close>

definition pe_session :: "32 word \<Rightarrow> rc4 \<Rightarrow> rc4 \<Rightarrow> mse_session" where
  "pe_session v e d = \<lparr>ms_crypto_select = v, ms_encrypt = e, ms_decrypt = d, ms_rc4 = (v AND CRYPTO_RC4 \<noteq> 0)\<rparr>"

definition pe_wire :: "32 word \<Rightarrow> rc4 \<Rightarrow> rc4 \<Rightarrow> wire_crypto option" where
  "pe_wire v e d = fst (mse_to_wire (pe_session v e d))"

lemma pe_wire_keys: "map_option wc_decrypt (pe_wire v e d) = map_option wc_encrypt (pe_wire v d e)"
  by (simp add: pe_wire_def pe_session_def mse_to_wire_def)

lemma dialling_side:
  assumes "wants_pe mode" "\<forall>b. \<not> dr_late dr b" "3 \<le> w"
    and "compute_secret bn (dh_generate bn (dr_key dr)) yb = Inr secret" "length yb = 96"
    and "initiator_build_sync sha1 secret ih (crypto_provide_bits mode) [] = Inr (sync, e, d0)" "sync \<noteq> []"
    and "length ih = 20" "length my_id = 20" "length their_id = 20"
    and "d = snd (receiver_build_response d0 v)" "wire = pe_wire v e d"
    and "[] \<notin> set A1" "[] \<notin> set A2" "concat A1 = yb @ fst (receiver_build_response d0 v)"
      "concat A2 = sealed (map_option wc_decrypt wire) (encode_handshake ih their_id)"
  shows "fst (dial_pe sha1 bn dr ih mode (encode_handshake ih my_id) cl (Some \<lparr>cn_in = A1 @ A2, cn_out = [], cn_writes = w\<rparr>))
     = Inr (\<lparr>cn_in = [], cn_out = initiator_ya_pad bn (dh_generate bn (dr_key dr)) (dr_pad dr mod 32) (dr_fill dr) @ sync
               @ sealed (map_option wc_encrypt wire) (encode_handshake ih my_id), cn_writes = w - 3\<rparr>,
            advanced wire (encode_handshake ih my_id) (encode_handshake ih their_id), encode_handshake ih their_id)"
proof -
  have w: "2 \<le> w" "0 < w - 2" using assms(3) by auto
  note mine = handshake_facts [OF assms(8,9)] and theirs = handshake_facts [OF assms(8,10)]
  have "mse_to_wire (pe_session v e d) = (wire, snd (mse_to_wire (pe_session v e d)))"
    by (simp add: assms(12) pe_wire_def)
  from dial_pe_completes [OF initiate_reads [OF assms(1,2) w(1) assms(4-7,13,15), of "A2 @ []",
        folded assms(11), folded pe_session_def] this w(2) mine(2) assms(14,16) theirs(1,6)]
  show ?thesis by simp
qed

lemma accepting_side:
  assumes sha: "\<forall>x. length (sha1 x :: bytes) = 20" and "3 \<le> w" "wants_pe (ec_encryption cfg)"
    and "compute_secret bn (dh_generate bn raw) (first # ya) = Inr secret" "length ya = 95" "first \<noteq> 19"
    and build: "initiator_build_sync sha1 secret ih provide [] = Inr (sync, e, d0)"
    and known: "\<forall>b. match_req2 sha1 heap (hash_req2 sha1 ih) (reg b) = Some p"
    and pad: "length pad < 512" "find_slice (pad @ sync) (hash_req1 sha1 secret) = Some (length pad)"
    and "select_crypto (crypto_provide_bits (ec_encryption cfg)) provide (ec_encryption cfg) = Some v"
    and ids: "ih = ht_infohash (heap p)" "length ih = 20" "length their_id = 20" "length (ec_peer_id cfg) = 20" "their_id \<noteq> ec_peer_id cfg"
    and "\<forall>cb. ec_on_bound cfg = Some cb \<longrightarrow> cb (ht_id (heap p))"
    and "d = snd (receiver_build_response d0 v)" "wire = pe_wire v d e"
    and "[] \<notin> set B1" "[] \<notin> set B2" "concat B1 = (first # ya) @ pad @ sync"
      "concat B2 = sealed (map_option wc_decrypt wire) (encode_handshake ih their_id)"
  shows "fst (establish_inbound sha1 bn raw heap reg cfg cl \<lparr>cn_in = B1 @ B2, cn_out = [], cn_writes = w\<rparr>)
     = Inr \<lparr>es_conn = \<lparr>cn_in = [], cn_out = public_key_bytes bn (dh_generate bn raw) @ fst (receiver_build_response d0 v)
                @ sealed (map_option wc_encrypt wire) (encode_handshake ih (ec_peer_id cfg)), cn_writes = w - 3\<rparr>,
             es_torrent = p, es_wire = advanced wire (encode_handshake ih (ec_peer_id cfg)) (encode_handshake ih their_id),
             es_hs = encode_handshake ih their_id, es_initial = []\<rparr>"
proof -
  have w: "2 \<le> w" "0 < w - 2" using assms(2) by auto
  have "concat B1 = [first] @ ya @ pad @ sync" using assms(22) by simp
  from read_exact_append [OF assms(20) this, of B2 "[]" w] obtain B where
    one: "read_exact 1 \<lparr>cn_in = B1 @ B2, cn_out = [], cn_writes = w\<rparr> = Inr ([first], \<lparr>cn_in = B @ B2, cn_out = [], cn_writes = w\<rparr>)"
    and B: "concat B = ya @ pad @ sync" "[] \<notin> set B" by auto
  let ?c = "\<lparr>cn_in = B2 @ [], cn_out = public_key_bytes bn (dh_generate bn raw) @ fst (receiver_build_response d0 v), cn_writes = w - 2\<rparr>"
  have "pe_accept_incoming sha1 bn raw heap reg first (ec_encryption cfg) \<lparr>cn_in = B @ B2, cn_out = [], cn_writes = w\<rparr>
      = Inr (p, pe_session v d e, [], ?c)"
    using accept_reads [OF sha w(1) assms(4,5) build [unfolded ids(1)] known [unfolded ids(1)] pad assms(11) B(2,1), of B2]
    by (simp add: pe_session_def assms(18))
  with one assms(3,6) have "establish_inbound sha1 bn raw heap reg cfg cl \<lparr>cn_in = B1 @ B2, cn_out = [], cn_writes = w\<rparr>
      = after_pe heap cfg p (pe_session v d e) [] cl ?c" by (simp add: establish_inbound_def)
  moreover have "mse_to_wire (pe_session v d e) = (wire, snd (mse_to_wire (pe_session v d e)))"
    by (simp add: assms(19) pe_wire_def)
  from after_pe_completes [where heap = heap and p = p, OF this w(2) assms(21,23) ids(1) [symmetric] ids(2,3,4,5) assms(17)]
  have "after_pe heap cfg p (pe_session v d e) [] cl ?c
      = (Inr \<lparr>es_conn = \<lparr>cn_in = [], cn_out = (public_key_bytes bn (dh_generate bn raw) @ fst (receiver_build_response d0 v))
                @ sealed (map_option wc_encrypt wire) (encode_handshake ih (ec_peer_id cfg)), cn_writes = w - 2 - 1\<rparr>,
             es_torrent = p, es_wire = advanced wire (encode_handshake ih (ec_peer_id cfg)) (encode_handshake ih their_id),
             es_hs = encode_handshake ih their_id, es_initial = []\<rparr>,
         cl\<lparr>cl_piece_count := ht_piece_count (heap p), cl_crypto := snd (mse_to_wire (pe_session v d e))\<rparr>)" .
  ultimately show ?thesis by simp
qed

text \<open>The two ends of an established stream fit: both plain, or RC4 in both directions.\<close>

definition mirrored :: "32 word \<Rightarrow> wire_crypto option \<Rightarrow> wire_crypto option \<Rightarrow> bool" where
  "mirrored v a b \<longleftrightarrow>
     (if v = CRYPTO_RC4 then \<exists>i r. a = Some i \<and> b = Some r \<and> wc_encrypt i = wc_decrypt r \<and> wc_decrypt i = wc_encrypt r
      else v = CRYPTO_PLAIN \<and> a = None \<and> b = None)"

text \<open>C38. Two seedchamp peers whose encryption policies are compatible establish an encrypted connection, however the
  network fragments the streams: for all key and padding draws there are the flights \<open>f1 f2 f3\<close> of the dialling side and
  \<open>g1 g2 g3\<close> of the accepting side such that each side, fed the flights of the other in any non-empty chunks (the third
  apart, since it is sent in answer), succeeds having sent exactly its own; the accepting side has found the torrent by
  its hidden infohash, each has the other's handshake, no byte is lost, and the streams are plain or mirrored RC4 as
  selected. The padding must not contain the synchronisation hash by accident, and the first byte of the dialling
  side's public key must not be 19.\<close>

theorem encrypted_peers_meet:
  assumes sha: "\<forall>x. length (sha1 x :: bytes) = 20" and bn: "bignum_spec bn"
    and modes: "wants_pe mi" "wants_pe (ec_encryption cfg)"
      "select_crypto (crypto_provide_bits (ec_encryption cfg)) (crypto_provide_bits mi) (ec_encryption cfg) = Some v"
    and ids: "ih = ht_infohash (heap p)" "length ih = 20" "length my_id = 20" "length (ec_peer_id cfg) = 20" "my_id \<noteq> ec_peer_id cfg"
    and known: "\<forall>b. match_req2 sha1 heap (hash_req2 sha1 ih) (reg b) = Some p"
    and bound: "\<forall>cb. ec_on_bound cfg = Some cb \<longrightarrow> cb (ht_id (heap p))"
    and draws: "\<forall>b. \<not> dr_late dr b" "compute_secret bn (dh_generate bn (dr_key dr)) (public_key_bytes bn (dh_generate bn raw)) = Inr secret"
      "pad = dr_fill dr (dr_pad dr mod 32)" "length pad < 512" "\<forall>k < length pad. take 20 (drop k (pad @ hash_req1 sha1 secret)) \<noteq> hash_req1 sha1 secret"
      "hd (public_key_bytes bn (dh_generate bn (dr_key dr))) \<noteq> 19"
  shows "\<exists>f1 f2 f3 g1 g2 g3. \<forall>A1 A2 B1 B2 w w' cl cl'.
    [] \<notin> set (A1 @ A2 @ B1 @ B2) \<and> concat A1 = g1 @ g2 \<and> concat A2 = g3 \<and> concat B1 = f1 @ f2 \<and> concat B2 = f3
      \<and> 3 \<le> w \<and> 3 \<le> w' \<longrightarrow>
    (\<exists>c a es. fst (dial_pe sha1 bn dr ih mi (encode_handshake ih my_id) cl (Some \<lparr>cn_in = A1 @ A2, cn_out = [], cn_writes = w\<rparr>))
          = Inr (c, a, encode_handshake ih (ec_peer_id cfg))
       \<and> cn_out c = f1 @ f2 @ f3 \<and> cn_in c = []
       \<and> fst (establish_inbound sha1 bn raw heap reg cfg cl' \<lparr>cn_in = B1 @ B2, cn_out = [], cn_writes = w'\<rparr>) = Inr es
       \<and> es_torrent es = p \<and> es_hs es = encode_handshake ih my_id \<and> es_initial es = []
       \<and> cn_out (es_conn es) = g1 @ g2 @ g3 \<and> cn_in (es_conn es) = []
       \<and> mirrored v a (es_wire es))"
proof -
  let ?ki = "dh_generate bn (dr_key dr)" and ?kr = "dh_generate bn raw"
  let ?ya = "public_key_bytes bn ?ki" and ?yb = "public_key_bytes bn ?kr"
  let ?hi = "encode_handshake ih my_id" and ?hr = "encode_handshake ih (ec_peer_id cfg)"
  have sr: "compute_secret bn ?kr ?ya = Inr secret"
    using draws(2) compute_secret_value [OF bn] by (metis mult.commute)
  obtain k l where "rc4_key_a sha1 secret ih = Some k" "rc4_key_b sha1 secret ih = Some l" using rc4_keys_Some [OF sha] .
  then obtain sync e d0 where b: "initiator_build_sync sha1 secret ih (crypto_provide_bits mi) [] = Inr (sync, e, d0)"
    by (auto simp: initiator_build_sync_def Let_def case_prod_beta)
  obtain tail where t: "sync = hash_req1 sha1 secret @ obfuscated_hash sha1 secret ih @ tail" "length (hash_req1 sha1 secret) = 20"
    by (rule sync_shape [OF sha b])
  then have "hash_req1 sha1 secret \<noteq> []" and sync: "sync \<noteq> []" by auto
  with find_slice_first [of "hash_req1 sha1 secret" pad 0 "obfuscated_hash sha1 secret ih @ tail"] t draws(5)
  have hit: "find_slice (pad @ sync) (hash_req1 sha1 secret) = Some (length pad)" by (simp add: find_slice_def)
  obtain first ya where ya: "?ya = first # ya" "length ya = 95" "first \<noteq> 19"
    using length_public_key [of bn ?ki] draws(6) by (cases ?ya) auto
  have f1: "initiator_ya_pad bn ?ki (dr_pad dr mod 32) (dr_fill dr) = (first # ya) @ pad"
    by (simp add: initiator_ya_pad_def draws(3) ya(1) min_absorb1 order.trans [OF less_imp_le, of _ 32])
  define d where "d = snd (receiver_build_response d0 v)"
  let ?f3 = "sealed (map_option wc_encrypt (pe_wire v e d)) ?hi" and ?g3 = "sealed (map_option wc_encrypt (pe_wire v d e)) ?hr"
  have "v = CRYPTO_PLAIN \<or> v = CRYPTO_RC4" using select_sound [OF modes(3)] by auto
  then have mirrored: "mirrored v (advanced (pe_wire v e d) ?hi ?hr) (advanced (pe_wire v d e) ?hr ?hi)"
    by (auto simp: mirrored_def advanced_def pe_wire_def pe_session_def mse_to_wire_def)
  show ?thesis
  proof (rule exI [of _ "(first # ya) @ pad"], rule exI [of _ sync], rule exI [of _ ?f3], rule exI [of _ ?yb],
      rule exI [of _ "fst (receiver_build_response d0 v)"], rule exI [of _ ?g3], intro allI impI, elim conjE, goal_cases)
    case (1 A1 A2 B1 B2 w w' cl cl')
    then have ne: "[] \<notin> set A1" "[] \<notin> set A2" "[] \<notin> set B1" "[] \<notin> set B2" by auto
    note i = dialling_side [OF modes(1) draws(1) 1(6) draws(2) length_public_key b sync ids(2,3,4) d_def refl ne(1,2) 1(2)
        1(3) [folded pe_wire_keys], unfolded f1]
    note r = accepting_side [OF sha 1(7) modes(2) sr [unfolded ya(1)] ya(2,3) b known draws(4) hit modes(3) ids bound d_def refl
        ne(3,4) _ 1(5) [folded pe_wire_keys]]
    show ?case using mirrored 1(4) by (simp add: i r)
  qed
qed

definition wit_draws :: pe_draws where
  "wit_draws = \<lparr>dr_key = [1], dr_pad = 0, dr_fill = (\<lambda>n. replicate n 0), dr_late = (\<lambda>_. False)\<rparr>"

definition wit_accept :: est_cfg where
  "wit_accept = \<lparr>ec_encryption = RequireRc4, ec_peer_id = replicate 20 2, ec_on_bound = Some (\<lambda>_. True)\<rparr>"

definition wit_heap :: "arc \<Rightarrow> hot_torrent" where
  "wit_heap _ = (new_empty 1 [] [] test_layout [] 0)\<lparr>ht_infohash := replicate 20 7\<rparr>"

definition wit_registry :: registry where
  "wit_registry = \<lparr>rg_by_hash = [(replicate 20 7, 0)], rg_by_id = []\<rparr>"

definition wit_cells :: cells where
  "wit_cells = \<lparr>cl_crypto = Crypto_unknown, cl_piece_count = 0, cl_label = []\<rparr>"

lemma wit_key: "public_key_bytes test_bignum (dh_generate test_bignum [1]) = replicate 95 0 @ [2]"
proof -
  have "2 < dh_modulus" using dh_modulus_facts(1,2) by (cases "dh_modulus = 2") auto
  moreover have "be_nat [1] = 1" by (simp add: be_nat_def)
  moreover have "nat_to_be 2 = [2]" by (subst nat_to_be.simps) simp
  ultimately show ?thesis
    by (simp add: public_key_bytes_def dh_generate_def test_bignum_def pad_left_96_def dh_modulus_def)
qed

theorem encrypted_peers_meet_witness:
  "\<exists>A B c a es.
     fst (dial_pe test_sha1 test_bignum wit_draws (replicate 20 7) PreferPlain (encode_handshake (replicate 20 7) (replicate 20 1)) wit_cells
       (Some \<lparr>cn_in = A, cn_out = [], cn_writes = 3\<rparr>)) = Inr (c, a, encode_handshake (replicate 20 7) (replicate 20 2))
   \<and> fst (establish_inbound test_sha1 test_bignum [3] wit_heap (\<lambda>_. wit_registry) wit_accept wit_cells
       \<lparr>cn_in = B, cn_out = [], cn_writes = 3\<rparr>) = Inr es
   \<and> concat A = cn_out (es_conn es) \<and> concat B = cn_out c \<and> mirrored CRYPTO_RC4 a (es_wire es)"
proof -
  let ?ih = "replicate 20 7 :: bytes"
  have sel: "select_crypto (crypto_provide_bits RequireRc4) (crypto_provide_bits PreferPlain) RequireRc4 = Some CRYPTO_RC4"
    by (simp add: select_crypto_def)
  have found: "\<forall>b. match_req2 test_sha1 wit_heap (hash_req2 test_sha1 ?ih) wit_registry = Some 0"
    by (simp add: match_req2_def wit_registry_def wit_heap_def)
  obtain secret where sec: "compute_secret test_bignum (dh_generate test_bignum [1]) (public_key_bytes test_bignum (dh_generate test_bignum [3])) = Inr secret"
    using compute_secret_value [OF test_bignum_spec] by blast
  obtain f1 f2 f3 g1 g2 g3 where run: "\<forall>A1 A2 B1 B2 w w' cl cl'.
    [] \<notin> set (A1 @ A2 @ B1 @ B2) \<and> concat A1 = g1 @ g2 \<and> concat A2 = g3 \<and> concat B1 = f1 @ f2 \<and> concat B2 = f3
      \<and> 3 \<le> w \<and> 3 \<le> w' \<longrightarrow>
    (\<exists>c a es. fst (dial_pe test_sha1 test_bignum wit_draws ?ih PreferPlain (encode_handshake ?ih (replicate 20 1)) cl
            (Some \<lparr>cn_in = A1 @ A2, cn_out = [], cn_writes = w\<rparr>)) = Inr (c, a, encode_handshake ?ih (ec_peer_id wit_accept))
       \<and> cn_out c = f1 @ f2 @ f3 \<and> cn_in c = []
       \<and> fst (establish_inbound test_sha1 test_bignum [3] wit_heap (\<lambda>_. wit_registry) wit_accept cl'
            \<lparr>cn_in = B1 @ B2, cn_out = [], cn_writes = w'\<rparr>) = Inr es
       \<and> es_torrent es = 0 \<and> es_hs es = encode_handshake ?ih (replicate 20 1) \<and> es_initial es = []
       \<and> cn_out (es_conn es) = g1 @ g2 @ g3 \<and> cn_in (es_conn es) = [] \<and> mirrored CRYPTO_RC4 a (es_wire es))"
    using encrypted_peers_meet [OF test_sha1_length test_bignum_spec, of PreferPlain wit_accept CRYPTO_RC4 ?ih wit_heap 0
        "replicate 20 1" "\<lambda>_. wit_registry" wit_draws "[3]" secret "[]"] sel found sec
    by (simp add: wants_pe_def wit_accept_def wit_heap_def wit_draws_def wit_key) blast
  let ?ch = "\<lambda>x :: bytes. if x = [] then [] else [x]"
  show ?thesis
    using run [rule_format, of "?ch (g1 @ g2)" "?ch g3" "?ch (f1 @ f2)" "?ch f3" 3 3 wit_cells wit_cells]
    by (intro exI [of _ "?ch (g1 @ g2) @ ?ch g3"] exI [of _ "?ch (f1 @ f2) @ ?ch f3"]) (auto simp: wit_accept_def)
qed

section \<open>What an established connection guarantees\<close>

text \<open>The session may start: the handshake is for the torrent and not our own, and the published crypto is what the
  streams use.\<close>

definition good_start :: "(arc \<Rightarrow> hot_torrent) \<Rightarrow> est_cfg \<Rightarrow> established \<Rightarrow> cells \<Rightarrow> bool" where
  "good_start heap cfg es cl \<longleftrightarrow>
     (\<exists>their_id. parse_handshake (es_hs es) = Inr (ht_infohash (heap (es_torrent es)), their_id) \<and> their_id \<noteq> ec_peer_id cfg)
     \<and> (es_wire es \<noteq> None \<longleftrightarrow> cl_crypto cl = Crypto_rc4)"

lemma match_req2_member: "match_req2 sha1 heap h r = Some p \<Longrightarrow> p \<in> snd ` set (rg_by_hash r)"
  by (auto simp: match_req2_def find_Some_iff)

lemma registry_get_member: "registry_get h r = Some p \<Longrightarrow> p \<in> snd ` set (rg_by_hash r)"
  by (force simp: registry_get_def dest: map_of_SomeD)

lemma write_all_crypto_key:
  "write_all_crypto bs k c = Inr (k', c') \<Longrightarrow> (k' = None \<longleftrightarrow> k = None)"
  by (cases k) (auto simp: write_all_crypto_def crypt_opt_def case_prod_beta split: sum.splits)

lemma read_exact_crypto_key:
  "read_exact_crypto n k c = Inr (bs, k', c') \<Longrightarrow> (k' = None \<longleftrightarrow> k = None)"
  by (cases k) (auto simp: read_exact_crypto_def crypt_opt_def case_prod_beta split: sum.splits)

lemma known_good:
  assumes "inbound_after_known heap cfg p wire peer_hs crypto initial cl c = (Inr es, cl')"
    and "parse_handshake peer_hs = Inr (ht_infohash (heap p), their_id)" "wire \<noteq> None \<longleftrightarrow> crypto = Crypto_rc4"
  shows "good_start heap cfg es cl' \<and> es_torrent es = p \<and> cl_crypto cl' = crypto \<and> (es_wire es = None \<longleftrightarrow> wire = None)
    \<and> cl_piece_count cl' = ht_piece_count (heap p) \<and> (\<forall>cb. ec_on_bound cfg = Some cb \<longrightarrow> cb (ht_id (heap p)))"
proof -
  have id: "their_id \<noteq> ec_peer_id cfg" using assms(1,2) by (auto simp: inbound_after_known_def reject_if_self_def)
  with assms(1,2) have cb: "\<not> (case ec_on_bound cfg of None \<Rightarrow> False | Some cb \<Rightarrow> \<not> cb (ht_id (heap p)))"
    by (auto simp: inbound_after_known_def reject_if_self_def)
  with assms(1,2) id obtain ek c' where
    w: "write_all_crypto (encode_handshake (ht_infohash (heap p)) (ec_peer_id cfg)) (map_option wc_encrypt wire) c = Inr (ek, c')"
    "es = \<lparr>es_conn = c', es_torrent = p,
           es_wire = (case (wire, ek) of (Some w, Some ek) \<Rightarrow> Some (w\<lparr>wc_encrypt := ek\<rparr>) | _ \<Rightarrow> None),
           es_hs = peer_hs, es_initial = initial\<rparr>"
    "cl' = cl\<lparr>cl_piece_count := ht_piece_count (heap p), cl_crypto := crypto\<rparr>"
    by (auto simp: inbound_after_known_def reject_if_self_def Let_def split: sum.splits)
  have wire: "es_wire es = None \<longleftrightarrow> wire = None"
    using write_all_crypto_key [OF w(1)] by (cases wire; cases ek) (auto simp: w(2))
  then have "good_start heap cfg es cl'" using id assms(2,3) by (auto simp: good_start_def w(2,3))
  moreover have "\<forall>cb. ec_on_bound cfg = Some cb \<longrightarrow> cb (ht_id (heap p))" using cb by (auto split: option.splits)
  ultimately show ?thesis using wire by (simp add: w(2,3))
qed

lemma pe_known_good:
  assumes "after_pe heap cfg p mse ia cl c = (Inr es, cl')"
  shows "good_start heap cfg es cl' \<and> es_torrent es = p \<and> cl_crypto cl' = (if ms_rc4 mse then Crypto_rc4 else Crypto_pe_plain)
    \<and> (es_wire es = None \<longleftrightarrow> \<not> ms_rc4 mse)
    \<and> cl_piece_count cl' = ht_piece_count (heap p) \<and> (\<forall>cb. ec_on_bound cfg = Some cb \<longrightarrow> cb (ht_id (heap p)))"
proof -
  let ?crypto = "if ms_rc4 mse then Crypto_rc4 else Crypto_pe_plain"
  let ?w = "if ms_rc4 mse then Some \<lparr>wc_encrypt = ms_encrypt mse, wc_decrypt = ms_decrypt mse\<rparr> else None"
  have "\<exists>wire hs init c' their_id. inbound_after_known heap cfg p wire hs ?crypto init cl c' = (Inr es, cl')
      \<and> parse_handshake hs = Inr (ht_infohash (heap p), their_id) \<and> (wire = None \<longleftrightarrow> \<not> ms_rc4 mse)"
  proof (cases "length ia \<ge> HANDSHAKE_LEN \<and> looks_like_bt_handshake (take HANDSHAKE_LEN ia)")
    case True
    with assms have "\<exists>their_id. parse_handshake (take HANDSHAKE_LEN ia) = Inr (ht_infohash (heap p), their_id)
        \<and> inbound_after_known heap cfg p ?w (take HANDSHAKE_LEN ia) ?crypto (drop HANDSHAKE_LEN ia) cl c = (Inr es, cl')"
      by (auto simp: after_pe_def Let_def split: sum.splits if_splits)
    then show ?thesis by (auto split: if_splits)
  next
    case False
    with assms obtain hs dk c' their_id where r: "read_exact_crypto HANDSHAKE_LEN (map_option wc_decrypt ?w) c = Inr (hs, dk, c')"
      "parse_handshake hs = Inr (ht_infohash (heap p), their_id)"
      "inbound_after_known heap cfg p (case (?w, dk) of (Some w, Some dk) \<Rightarrow> Some (w\<lparr>wc_decrypt := dk\<rparr>) | _ \<Rightarrow> None)
         hs ?crypto [] cl c' = (Inr es, cl')"
      by (simp add: after_pe_def Let_def split: sum.splits prod.splits if_splits)
    have w: "(case (?w, dk) of (Some w, Some dk) \<Rightarrow> Some (w\<lparr>wc_decrypt := dk\<rparr>) | _ \<Rightarrow> None) = None \<longleftrightarrow> \<not> ms_rc4 mse"
      using read_exact_crypto_key [OF r(1)] by (cases dk) auto
    show ?thesis by (intro exI conjI) (rule r(3), rule r(2), rule w)
  qed
  then obtain wire hs init c' their_id where k: "inbound_after_known heap cfg p wire hs ?crypto init cl c' = (Inr es, cl')"
    "parse_handshake hs = Inr (ht_infohash (heap p), their_id)" "wire = None \<longleftrightarrow> \<not> ms_rc4 mse" by blast
  from known_good [OF k(1,2)] k(3) show ?thesis by auto
qed

lemma sync_loop_torrent:
  "sync_loop sha1 heap reg secret pos buf ins = Inr ((p, provide, ia, dcr, encr), ins')
    \<Longrightarrow> \<exists>b. p \<in> snd ` set (rg_by_hash (reg b))"
proof (induction sha1 heap reg secret pos buf ins rule: sync_loop.induct)
  case (1 sha1 heap reg secret pos buf ins)
  show ?case
  proof (cases "length buf < pos + 40")
    case True
    with "1.prems" obtain got ins1 where "read_some 4096 ins = Some (got, ins1)" "got \<noteq> []"
      "sync_loop sha1 heap reg secret pos (buf @ got) ins1 = Inr ((p, provide, ia, dcr, encr), ins')"
      by (subst (asm) sync_loop.simps) (auto split: option.splits if_splits)
    with "1.IH"(1) [OF True] show ?thesis by blast
  next
    case False
    with "1.prems" obtain q where q: "match_req2 sha1 heap (deobfuscate_req2 sha1 secret (slice (pos + 20) (pos + 40) buf)) (reg buf) = Some q"
      by (subst (asm) sync_loop.simps) (auto split: option.splits)
    show ?thesis
    proof (cases "receiver_parse_initiator sha1 secret (ht_infohash (heap q)) (drop pos buf)")
      case (Inr r)
      with False q "1.prems" have "q = p" by (subst (asm) sync_loop.simps) (auto split: prod.splits)
      with match_req2_member [OF q] show ?thesis by blast
    next
      case (Inl e)
      with False q "1.prems" obtain got ins1 where "wants_more e" "read_some 4096 ins = Some (got, ins1)" "got \<noteq> []"
        "\<not> pos + ACCEPT_MAX < length (buf @ got)"
        "sync_loop sha1 heap reg secret pos (buf @ got) ins1 = Inr ((p, provide, ia, dcr, encr), ins')"
        by (subst (asm) sync_loop.simps) (auto split: option.splits if_splits)
      with "1.IH"(2) [OF False q Inl] show ?thesis by blast
    qed
  qed
qed

lemma accepted_session:
  assumes "pe_accept_incoming sha1 bn raw heap reg first mode c = Inr (p, mse, ia, c')"
  shows "(\<exists>b. p \<in> snd ` set (rg_by_hash (reg b))) \<and> (mode = RequireRc4 \<longrightarrow> ms_rc4 mse)"
proof -
  obtain provide v dcr encr ins secret pos buf ins' where r:
    "sync_loop sha1 heap reg secret pos buf ins = Inr ((p, provide, ia, dcr, encr), ins')"
    "select_crypto (crypto_provide_bits mode) provide mode = Some v" "ms_rc4 mse = (v AND CRYPTO_RC4 \<noteq> 0)"
    using assms by (auto simp: pe_accept_incoming_def Let_def case_prod_beta split: sum.splits prod.splits option.splits)
  show ?thesis using sync_loop_torrent [OF r(1)] select_sound [OF r(2)] r(3) by auto
qed

lemma inbound_good:
  assumes "run_inbound_peer sha1 bn raw heap reg cfg cl c = (Inr es, cl')"
    and reg: "\<forall>b h q. registry_get h (reg b) = Some q \<longrightarrow> ht_infohash (heap q) = h"
  shows "good_start heap cfg es cl' \<and> (\<exists>b. es_torrent es \<in> snd ` set (rg_by_hash (reg b)))
    \<and> cl_piece_count cl' = ht_piece_count (heap (es_torrent es))
    \<and> (\<forall>cb. ec_on_bound cfg = Some cb \<longrightarrow> cb (ht_id (heap (es_torrent es))))
    \<and> (ec_encryption cfg = RequireRc4 \<longrightarrow> es_wire es \<noteq> None) \<and> (ec_encryption cfg = Off \<longrightarrow> cl_crypto cl' = Crypto_plain)"
proof -
  obtain cl1 where run: "establish_inbound sha1 bn raw heap reg cfg cl c = (Inr es, cl1)" "cl' = log_handshake_ok (es_hs es) cl1"
    using assms(1) by (auto simp: run_inbound_peer_def split: prod.splits sum.splits)
  have same: "good_start heap cfg es cl' = good_start heap cfg es cl1" "cl_piece_count cl' = cl_piece_count cl1"
    "cl_crypto cl' = cl_crypto cl1" by (simp_all add: run(2) log_handshake_ok_def good_start_def)
  obtain fb c1 where one: "read_exact 1 c = Inr (fb, c1)"
    using run(1) by (auto simp: establish_inbound_def split: sum.splits)
  show ?thesis
  proof (cases "hd fb = 19")
    case True
    with run(1) one obtain bs c2 where b: "\<not> requires_rc4 (ec_encryption cfg)"
      "inbound_after_hs heap reg cfg (hd fb # bs) cl c2 = (Inr es, cl1)"
      by (auto simp: establish_inbound_def split: sum.splits if_splits)
    from b(2) obtain h their_id p where k: "parse_handshake (hd fb # bs) = Inr (h, their_id)"
      "registry_get h (reg (hd fb # bs)) = Some p" "inbound_after_known heap cfg p None (hd fb # bs) Crypto_plain [] cl c2 = (Inr es, cl1)"
      by (auto simp: inbound_after_hs_def split: sum.splits option.splits if_splits)
    with reg have "parse_handshake (hd fb # bs) = Inr (ht_infohash (heap p), their_id)" by simp
    from known_good [OF k(3) this] b(1) registry_get_member [OF k(2)] same show ?thesis
      by (auto simp: requires_rc4_def)
  next
    case False
    with run(1) one obtain p mse ia c2 where b: "wants_pe (ec_encryption cfg)"
      "pe_accept_incoming sha1 bn raw heap reg (hd fb) (ec_encryption cfg) c1 = Inr (p, mse, ia, c2)"
      "after_pe heap cfg p mse ia cl c2 = (Inr es, cl1)"
      by (auto simp: establish_inbound_def split: sum.splits if_splits)
    from pe_known_good [OF b(3)] accepted_session [OF b(2)] b(1) same show ?thesis by (auto simp: wants_pe_def)
  qed
qed

lemma peer_handshake_ok:
  "peer_handshake ih hs = Inr u \<Longrightarrow> \<exists>their_id. parse_handshake hs = Inr (ih, their_id)"
  by (auto simp: peer_handshake_def split: if_splits sum.splits)

lemma dial_plain_ok:
  assumes "dial_plain ih our_hs c0 = Inr (c, hs)"
  shows "\<exists>their_id. parse_handshake hs = Inr (ih, their_id)"
proof -
  have "peer_handshake ih hs = Inr ()" using assms by (auto simp: dial_plain_def split: option.splits sum.splits)
  then show ?thesis by (rule peer_handshake_ok)
qed

lemma pe_initiate_rc4:
  "pe_initiate sha1 bn dr ih mode c = Inr (mse, c') \<Longrightarrow> ms_rc4 mse \<longleftrightarrow> ms_crypto_select mse AND CRYPTO_RC4 \<noteq> 0"
  by (auto simp: pe_initiate_def Let_def split: if_splits sum.splits prod.splits)

text \<open>What an outbound encrypted exchange ended with: the peer's selection alone decides.\<close>

definition selected ::
  "(bytes \<Rightarrow> bytes) \<Rightarrow> bignum \<Rightarrow> pe_draws \<Rightarrow> bytes \<Rightarrow> encryption_mode \<Rightarrow> conn option \<Rightarrow> cells \<Rightarrow> bool" where
  "selected sha1 bn dr ih mode pe cl \<longleftrightarrow>
     (\<exists>c mse c'. pe = Some c \<and> pe_initiate sha1 bn dr ih mode c = Inr (mse, c')
        \<and> (cl_crypto cl = Crypto_rc4 \<longleftrightarrow> ms_crypto_select mse AND CRYPTO_RC4 \<noteq> 0))"

lemma dial_pe_ok:
  assumes "dial_pe sha1 bn dr ih mode our_hs cl c0 = (Inr (c, wire, hs), cl')"
  shows "(\<exists>their_id. parse_handshake hs = Inr (ih, their_id)) \<and> (wire \<noteq> None \<longleftrightarrow> cl_crypto cl' = Crypto_rc4)
    \<and> cl_crypto cl' \<in> {Crypto_rc4, Crypto_pe_plain}
    \<and> selected sha1 bn dr ih mode c0 cl'"
proof -
  obtain s where s: "c0 = Some s" using assms by (cases c0) (simp_all add: dial_pe_def)
  obtain mse c1 where m: "pe_initiate sha1 bn dr ih mode s = Inr (mse, c1)"
    using assms s by (cases "pe_initiate sha1 bn dr ih mode s") (auto simp: dial_pe_def)
  obtain wire0 crypto where w: "mse_to_wire mse = (wire0, crypto)" by fastforce
  obtain ek c2 where e: "write_all_crypto our_hs (map_option wc_encrypt wire0) c1 = Inr (ek, c2)"
    using assms s m w by (cases "write_all_crypto our_hs (map_option wc_encrypt wire0) c1") (auto simp: dial_pe_def)
  obtain hs' dk c3 where d: "read_exact_crypto HANDSHAKE_LEN (map_option wc_decrypt wire0) c2 = Inr (hs', dk, c3)"
    using assms s m w e by (cases "read_exact_crypto HANDSHAKE_LEN (map_option wc_decrypt wire0) c2") (auto simp: dial_pe_def)
  have "peer_handshake ih hs' = Inr ()" using assms s m w e d by (cases "peer_handshake ih hs'") (auto simp: dial_pe_def)
  with assms s m w e d have r: "peer_handshake ih hs = Inr ()" "cl' = cl\<lparr>cl_crypto := crypto\<rparr>"
    "wire = (case (ek, dk) of (Some ek, Some dk) \<Rightarrow> Some \<lparr>wc_encrypt = ek, wc_decrypt = dk\<rparr> | _ \<Rightarrow> None)"
    by (simp_all add: dial_pe_def)
  have "wire = None \<longleftrightarrow> wire0 = None"
    using write_all_crypto_key [OF e] read_exact_crypto_key [OF d] by (cases ek; cases dk) (auto simp: r(3))
  moreover have "crypto = Crypto_rc4 \<longleftrightarrow> ms_crypto_select mse AND CRYPTO_RC4 \<noteq> 0"
    using w pe_initiate_rc4 [OF m] by (auto simp: mse_to_wire_def split: if_splits)
  ultimately show ?thesis
    using w peer_handshake_ok [OF r(1)] s m by (auto simp: r(2) mse_to_wire_def selected_def split: if_splits)
qed

lemma after_hs_good:
  assumes "run_outbound_after_hs cfg p c wire hs cl = (Inr es, cl')" "parse_handshake hs = Inr (ht_infohash (heap p), their_id)"
    and "wire \<noteq> None \<longleftrightarrow> cl_crypto cl = Crypto_rc4"
  shows "good_start heap cfg es cl' \<and> es_torrent es = p \<and> cl_crypto cl' = cl_crypto cl"
  using assms
  by (auto simp: run_outbound_after_hs_def reject_if_self_def good_start_def log_handshake_ok_def split: if_splits)

lemma outbound_good:
  assumes "run_outbound_peer sha1 bn dr heap p cfg plain pe cl = (Inr es, cl')"
  shows "good_start heap cfg es cl' \<and> es_torrent es = p \<and> (ec_encryption cfg = Off \<longrightarrow> cl_crypto cl' = Crypto_plain)
    \<and> (ec_encryption cfg = RequireRc4 \<longrightarrow> cl_crypto cl' \<noteq> Crypto_plain)
    \<and> (cl_crypto cl' \<noteq> Crypto_plain \<longrightarrow> selected sha1 bn dr (ht_infohash (heap p)) (ec_encryption cfg) pe cl')"
proof -
  let ?ih = "ht_infohash (heap p)" and ?hs = "encode_handshake (ht_infohash (heap p)) (ec_peer_id cfg)"
  have by_plain: "good_start heap cfg es cl' \<and> es_torrent es = p \<and> cl_crypto cl' = Crypto_plain"
    if "dial_plain ?ih ?hs plain = Inr (c, hs)"
      "run_outbound_after_hs cfg p c None hs (cl1\<lparr>cl_crypto := Crypto_plain\<rparr>) = (Inr es, cl')" for c hs cl1
    using dial_plain_ok [OF that(1)] after_hs_good [where heap = heap, OF that(2)] by auto
  have by_pe: "good_start heap cfg es cl' \<and> es_torrent es = p \<and> cl_crypto cl' \<noteq> Crypto_plain
      \<and> selected sha1 bn dr ?ih mode pe cl'"
    if "dial_pe sha1 bn dr ?ih mode ?hs cl pe = (Inr (c, wire, hs), cl1)"
      "run_outbound_after_hs cfg p c wire hs cl1 = (Inr es, cl')" for mode c wire hs cl1
    using dial_pe_ok [OF that(1)] after_hs_good [where heap = heap, OF that(2)] by (auto simp: selected_def)
  show ?thesis
  proof (cases "ec_encryption cfg")
    case Off
    with assms show ?thesis
      by (auto simp: run_outbound_peer_def Let_def split: sum.splits dest: by_plain)
  next
    case PreferPlain
    with assms show ?thesis
      by (auto simp: run_outbound_peer_def Let_def split: sum.splits prod.splits dest: by_plain by_pe)
  next
    case PreferRc4
    with assms show ?thesis
      by (auto simp: run_outbound_peer_def Let_def split: sum.splits prod.splits dest: by_plain by_pe)
  next
    case RequireRc4
    with assms show ?thesis
      by (auto simp: run_outbound_peer_def Let_def split: sum.splits prod.splits dest: by_pe)
  qed
qed

lemma outbound_start:
  assumes "run_outbound_peer sha1 bn dr heap p cfg plain pe cl = (Inr es, cl')"
  shows "good_start heap cfg es cl' \<and> es_torrent es = p
    \<and> (ec_encryption cfg = Off \<longrightarrow> cl_crypto cl' = Crypto_plain)
    \<and> (ec_encryption cfg = RequireRc4 \<longrightarrow> cl_crypto cl' \<noteq> Crypto_plain)
    \<and> (cl_crypto cl' \<noteq> Crypto_plain \<longrightarrow>
         (\<exists>c0 mse c1. pe = Some c0
            \<and> pe_initiate sha1 bn dr (ht_infohash (heap p)) (ec_encryption cfg) c0 = Inr (mse, c1)
            \<and> (es_wire es \<noteq> None \<longleftrightarrow> ms_crypto_select mse AND CRYPTO_RC4 \<noteq> 0)
            \<and> (ec_encryption cfg = RequireRc4 \<and> ms_crypto_select mse AND crypto_provide_bits RequireRc4 \<noteq> 0
                 \<longrightarrow> es_wire es \<noteq> None)))"
proof -
  note g = outbound_good [OF assms]
  then have "es_wire es \<noteq> None \<longleftrightarrow> cl_crypto cl' = Crypto_rc4" by (simp add: good_start_def)
  with g show ?thesis unfolding selected_def crypto_provide_bits.simps by blast
qed

lemma started:
  assumes "\<And>es cl. x = (Inr es, cl) \<Longrightarrow> Q es cl"
  shows "case x of (Inl _, _) \<Rightarrow> True | (Inr es, cl) \<Rightarrow> Q es cl"
  using assms by (auto split: prod.split sum.split)

text \<open>C39. Whatever the peer sends, a connection starts only with a handshake for its torrent and a peer id that is not our
  own, and the published crypto says truly whether the streams are encrypted. An inbound connection is bound to a torrent
  of the registry that its callback admitted, is encrypted where RC4 is required and in plain text where
  encryption is off. An outbound connection is for the torrent it was dialled for, in plain text where encryption is off,
  and never after a plain handshake where RC4 is required; there an encrypted exchange has completed, and
  the streams are encrypted exactly if the peer's selection has the RC4 bit, so they are with a peer that selects the method
  we offered. Outbound, the policy is thus kept only by the peer's good will, as the next property shows.\<close>

theorem connection_start_conditions:
  assumes "\<forall>b h q. registry_get h (reg b) = Some q \<longrightarrow> ht_infohash (heap q) = h"
  shows "(case run_inbound_peer sha1 bn raw heap reg cfg cl c of
            (Inl _, _) \<Rightarrow> True
          | (Inr es, cl') \<Rightarrow>
              good_start heap cfg es cl' \<and> (\<exists>b. es_torrent es \<in> snd ` set (rg_by_hash (reg b)))
              \<and> cl_piece_count cl' = ht_piece_count (heap (es_torrent es))
              \<and> (\<forall>cb. ec_on_bound cfg = Some cb \<longrightarrow> cb (ht_id (heap (es_torrent es))))
              \<and> (ec_encryption cfg = RequireRc4 \<longrightarrow> es_wire es \<noteq> None)
              \<and> (ec_encryption cfg = Off \<longrightarrow> cl_crypto cl' = Crypto_plain))
    \<and> (case run_outbound_peer sha1 bn dr heap p cfg plain pe cl of
            (Inl _, _) \<Rightarrow> True
          | (Inr es, cl') \<Rightarrow>
              good_start heap cfg es cl' \<and> es_torrent es = p
              \<and> (ec_encryption cfg = Off \<longrightarrow> cl_crypto cl' = Crypto_plain)
              \<and> (ec_encryption cfg = RequireRc4 \<longrightarrow> cl_crypto cl' \<noteq> Crypto_plain)
              \<and> (cl_crypto cl' \<noteq> Crypto_plain \<longrightarrow>
                   (\<exists>c0 mse c1. pe = Some c0
                      \<and> pe_initiate sha1 bn dr (ht_infohash (heap p)) (ec_encryption cfg) c0 = Inr (mse, c1)
                      \<and> (es_wire es \<noteq> None \<longleftrightarrow> ms_crypto_select mse AND CRYPTO_RC4 \<noteq> 0)
                      \<and> (ec_encryption cfg = RequireRc4 \<and> ms_crypto_select mse AND crypto_provide_bits RequireRc4 \<noteq> 0
                           \<longrightarrow> es_wire es \<noteq> None))))"
  by (intro conjI [of "case_prod _ _"] started; erule inbound_good [OF _ assms] outbound_start)

theorem connection_start_conditions_witness:
  "\<exists>es cl'. run_inbound_peer test_sha1 test_bignum [3] wit_heap (\<lambda>_. wit_registry) (wit_accept\<lparr>ec_encryption := Off\<rparr>) wit_cells
       \<lparr>cn_in = [encode_handshake (replicate 20 7) (replicate 20 1)], cn_out = [], cn_writes = 1\<rparr> = (Inr es, cl')
     \<and> good_start wit_heap (wit_accept\<lparr>ec_encryption := Off\<rparr>) es cl' \<and> cl_crypto cl' = Crypto_plain"
proof -
  let ?ih = "replicate 20 7 :: bytes" and ?cfg = "wit_accept\<lparr>ec_encryption := Off\<rparr>"
  let ?hs = "encode_handshake ?ih (replicate 20 1)"
  let ?run = "run_inbound_peer test_sha1 test_bignum [3] wit_heap (\<lambda>_. wit_registry) ?cfg wit_cells
      \<lparr>cn_in = [?hs], cn_out = [], cn_writes = 1\<rparr>"
  have get: "registry_get h wit_registry = (if h = ?ih then Some 0 else None)" for h
    by (simp add: registry_get_def wit_registry_def)
  have reg: "\<forall>b h q. registry_get h wit_registry = Some q \<longrightarrow> ht_infohash (wit_heap q) = h"
    by (simp add: get wit_heap_def)
  note h = handshake_facts [of ?ih "replicate 20 1"]
  obtain t where t: "?hs = 19 # t" "length t = 67" using h(1,3) by (cases ?hs) auto
  have "\<exists>es cl'. ?run = (Inr es, cl')"
  proof -
    have "take_exact (Suc 0) [?hs] = Some ([19], [t])" "take_exact 67 [t] = Some (t, [])"
      using t by (cases t; simp add: eval_nat_numeral)+
    then have "read_exact 1 \<lparr>cn_in = [?hs], cn_out = [], cn_writes = 1\<rparr> = Inr ([19], \<lparr>cn_in = [t], cn_out = [], cn_writes = 1\<rparr>)"
      "read_exact 67 \<lparr>cn_in = [t], cn_out = [], cn_writes = 1\<rparr> = Inr (t, \<lparr>cn_in = [], cn_out = [], cn_writes = 1\<rparr>)"
      by (simp_all add: read_exact_def)
    then show ?thesis
      using h(4,5) handshake_facts(2) [of ?ih "replicate 20 2"]
      by (simp add: run_inbound_peer_def establish_inbound_def inbound_after_hs_def inbound_after_known_def reject_if_self_def
          requires_rc4_def wit_accept_def wit_heap_def get write_all_crypto_def crypt_opt_def write_all_def Let_def flip: t(1))
  qed
  then obtain es cl' where "?run = (Inr es, cl')" by blast
  with connection_start_conditions [where reg = "\<lambda>_. wit_registry" and heap = wit_heap
      and ?sha1.0 = test_sha1 and bn = test_bignum and raw = "[3]" and cfg = ?cfg and cl = wit_cells
        and c = "\<lparr>cn_in = [?hs], cn_out = [], cn_writes = 1\<rparr>", OF reg]
  show ?thesis by (auto simp: wit_accept_def)
qed

section \<open>Where the policy fails\<close>

text \<open>C40. With RC4 required, an outbound connection whose peer answers the encrypted handshake by selecting plain text,
  which was not offered, is accepted: our handshake and the whole session are sent unencrypted.\<close>

theorem require_rc4_downgraded:
  assumes sha: "\<forall>x. length (sha1 x :: bytes) = 20" and bn: "bignum_spec bn" and "\<forall>b. \<not> dr_late dr b"
    and "ec_encryption cfg = RequireRc4" "length (ht_infohash (heap p)) = 20" "length (ec_peer_id cfg) = 20"
    and "length their_id = 20" "their_id \<noteq> ec_peer_id cfg"
  shows "\<exists>ins es cl'. run_outbound_peer sha1 bn dr heap p cfg plain (Some \<lparr>cn_in = ins, cn_out = [], cn_writes = 3\<rparr>) cl = (Inr es, cl')
    \<and> es_wire es = None
    \<and> (\<exists>flights. cn_out (es_conn es) = flights @ encode_handshake (ht_infohash (heap p)) (ec_peer_id cfg))"
proof -
  let ?ih = "ht_infohash (heap p)" and ?hs = "encode_handshake (ht_infohash (heap p)) their_id"
  let ?yb = "public_key_bytes bn (dh_generate bn [1])"
  obtain secret where sec: "compute_secret bn (dh_generate bn (dr_key dr)) ?yb = Inr secret"
    using compute_secret_value [OF bn] by blast
  obtain k l where "rc4_key_a sha1 secret ?ih = Some k" "rc4_key_b sha1 secret ?ih = Some l" using rc4_keys_Some [OF sha] .
  then obtain sync e d0 where b: "initiator_build_sync sha1 secret ?ih (crypto_provide_bits RequireRc4) [] = Inr (sync, e, d0)"
    by (auto simp: initiator_build_sync_def Let_def case_prod_beta)
  obtain tail where "sync = hash_req1 sha1 secret @ tail" "length (hash_req1 sha1 secret) = 20"
    by (rule sync_shape [OF sha b]) (use that in blast)
  then have "sync \<noteq> []" by auto
  have plain: "pe_wire CRYPTO_PLAIN e d = None" for d by (simp add: pe_wire_def pe_session_def mse_to_wire_def)
  let ?resp = "fst (receiver_build_response d0 CRYPTO_PLAIN)"
  note dial = dialling_side [OF _ assms(3) _ sec length_public_key b \<open>sync \<noteq> []\<close> assms(5,6,7) refl plain [symmetric],
    of 3 "[?yb @ ?resp]" "[?hs]" cl]
  have "?yb \<noteq> []" by (metis length_public_key list.size(3) zero_neq_numeral)
  with dial handshake_facts(2) [OF assms(5,7)]
  obtain c cl1 where dial: "dial_pe sha1 bn dr ?ih RequireRc4 (encode_handshake ?ih (ec_peer_id cfg)) cl
      (Some \<lparr>cn_in = [?yb @ ?resp, ?hs], cn_out = [], cn_writes = 3\<rparr>) = (Inr (c, None, ?hs), cl1)"
    "cn_out c = (initiator_ya_pad bn (dh_generate bn (dr_key dr)) (dr_pad dr mod 32) (dr_fill dr) @ sync)
        @ encode_handshake ?ih (ec_peer_id cfg)"
    by (cases "dial_pe sha1 bn dr ?ih RequireRc4 (encode_handshake ?ih (ec_peer_id cfg)) cl
        (Some \<lparr>cn_in = [?yb @ ?resp, ?hs], cn_out = [], cn_writes = 3\<rparr>)")
      (simp add: wants_pe_def advanced_def sealed_def crypt_opt_def)
  show ?thesis
    using dial handshake_facts(4) [OF assms(5,7)] assms(4,8)
    by (intro exI [of _ "[?yb @ ?resp, ?hs]"])
      (simp add: run_outbound_peer_def run_outbound_after_hs_def reject_if_self_def Let_def)
qed

theorem require_rc4_downgraded_witness:
  "\<exists>ins es cl'. run_outbound_peer test_sha1 test_bignum wit_draws wit_heap 0 wit_accept None
      (Some \<lparr>cn_in = ins, cn_out = [], cn_writes = 3\<rparr>) wit_cells = (Inr es, cl') \<and> ec_encryption wit_accept = RequireRc4 \<and> es_wire es = None"
  using require_rc4_downgraded [OF test_sha1_length test_bignum_spec, of wit_draws wit_accept wit_heap 0 "replicate 20 1" None wit_cells]
  by (auto simp: wit_draws_def wit_accept_def wit_heap_def)

text \<open>The first byte alone decides that a peer speaks plain BitTorrent: an encrypted handshake whose public key starts with
  19 (one key in 256) is never answered.\<close>

lemma key_of_first_byte_19_refused:
  assumes "[] \<notin> set A" "concat A = 19 # rest" "take 19 rest \<noteq> BT_PROTOCOL"
  shows "fst (establish_inbound sha1 bn raw heap reg cfg cl \<lparr>cn_in = A, cn_out = [], cn_writes = w\<rparr>)
    \<in> {Inl Plain_rejected, Inl Sock_read, Inl Invalid_handshake}"
proof -
  have "concat A = [19] @ rest" using assms(2) by simp
  from read_exact_append [OF assms(1) this, of "[]" "[]" w] obtain A' where
    one: "read_exact 1 \<lparr>cn_in = A, cn_out = [], cn_writes = w\<rparr> = Inr ([19], \<lparr>cn_in = A', cn_out = [], cn_writes = w\<rparr>)"
    "concat A' = rest" "[] \<notin> set A'" by auto
  show ?thesis
  proof (cases "length rest < 67")
    case True
    then have "read_exact 67 \<lparr>cn_in = A', cn_out = [], cn_writes = w\<rparr> = Inl Sock_read"
      using take_exact_short [of A' 67] one(2) by (simp add: read_exact_def)
    with one show ?thesis by (simp add: establish_inbound_def)
  next
    case False
    from read_exact_append [OF one(3), of "take 67 rest" "drop 67 rest" "[]" "[]" w] one(2) False obtain A2 where
      "read_exact 67 \<lparr>cn_in = A', cn_out = [], cn_writes = w\<rparr> = Inr (take 67 rest, \<lparr>cn_in = A2, cn_out = [], cn_writes = w\<rparr>)" by auto
    moreover have "\<not> looks_like_bt_handshake (19 # take 67 rest)" using assms(3) by (simp add: looks_like_bt_handshake_def slice_def)
    ultimately show ?thesis using one by (simp add: establish_inbound_def inbound_after_hs_def)
  qed
qed

end
