(* ===== verification/Dial.thy ===== *)
theory Dial
  imports Tracker
begin

text \<open>
  Whom to dial and when: the dial list (\<open>session/dial.rs\<close>) and the cooldown of addresses
  (\<open>session/dial_policy.rs\<close>). Instants are milliseconds of a monotonic clock; the shuffles are arguments.
\<close>

type_synonym instant = nat

definition from_secs :: "nat \<Rightarrow> nat" where
  "from_secs s = 1000 * s"

section \<open>Cooldown\<close>

record dial_data =
  dd_next_ok :: instant
  dd_fails :: nat

type_synonym dial_map = "(int \<times> sock_addr) \<Rightarrow> dial_data option"

definition backoff_delay :: "nat \<Rightarrow> nat" where
  "backoff_delay fails =
     (let e = min (fails - 1) 6; secs = min (min (30 * 2 ^ e) u64_max) (30 * 60) in from_secs (max secs 30))"

definition dial_entry :: "int \<Rightarrow> sock_addr \<Rightarrow> instant \<Rightarrow> dial_map \<Rightarrow> dial_data" where
  "dial_entry tid addr now m = (case m (tid, addr) of None \<Rightarrow> \<lparr>dd_next_ok = now, dd_fails = 0\<rparr> | Some e \<Rightarrow> e)"

definition record_dial_fail :: "int \<Rightarrow> sock_addr \<Rightarrow> instant \<Rightarrow> dial_map \<Rightarrow> dial_map" where
  "record_dial_fail tid addr now m =
     (let fails = min (dd_fails (dial_entry tid addr now m) + 1) u32_max
      in m((tid, addr) \<mapsto> \<lparr>dd_next_ok = now + backoff_delay fails, dd_fails = fails\<rparr>))"

definition record_dial_soft_fail :: "int \<Rightarrow> sock_addr \<Rightarrow> instant \<Rightarrow> dial_map \<Rightarrow> dial_map" where
  "record_dial_soft_fail tid addr now m = record_dial_fail tid addr now m"

definition clear_dial_fail :: "int \<Rightarrow> sock_addr \<Rightarrow> dial_map \<Rightarrow> dial_map" where
  "clear_dial_fail tid addr m = m((tid, addr) := None)"

definition hold_until :: "int \<Rightarrow> sock_addr \<Rightarrow> instant \<Rightarrow> nat \<Rightarrow> dial_map \<Rightarrow> dial_map" where
  "hold_until tid addr now hold m =
     (let e = dial_entry tid addr now m; quiet = now + hold
      in m((tid, addr) \<mapsto> (if dd_next_ok e < quiet then e\<lparr>dd_next_ok := quiet\<rparr> else e)))"

definition light_disconnect_cooldown :: "int \<Rightarrow> sock_addr \<Rightarrow> instant \<Rightarrow> dial_map \<Rightarrow> dial_map" where
  "light_disconnect_cooldown tid addr now m = hold_until tid addr now (from_secs 30) m"

definition IDLE_REDIAL :: nat where "IDLE_REDIAL = from_secs 300"

definition record_idle_close :: "int \<Rightarrow> sock_addr \<Rightarrow> instant \<Rightarrow> dial_map \<Rightarrow> dial_map" where
  "record_idle_close tid addr now m = hold_until tid addr now IDLE_REDIAL m"

definition is_cooled_down :: "dial_map \<Rightarrow> int \<Rightarrow> sock_addr \<Rightarrow> instant \<Rightarrow> bool" where
  "is_cooled_down m tid addr now \<longleftrightarrow> (case m (tid, addr) of None \<Rightarrow> False | Some d \<Rightarrow> now < dd_next_ok d)"

text \<open>What the end of an outbound connection does (\<open>session/peer_policy.rs\<close>): \<open>idle\<close> when it was closed for being
  idle, \<open>ok\<close> when it ended without an error, \<open>lived\<close> how long it lasted.\<close>

definition outbound_cooldown :: "bool \<Rightarrow> bool \<Rightarrow> nat \<Rightarrow> int \<Rightarrow> sock_addr \<Rightarrow> instant \<Rightarrow> dial_map \<Rightarrow> dial_map" where
  "outbound_cooldown idle ok lived tid addr now m =
     (if idle then record_idle_close tid addr now m
      else if \<not> ok then record_dial_fail tid addr now m
      else if lived < from_secs 5 then record_dial_soft_fail tid addr now m
      else if lived \<ge> from_secs 30 then clear_dial_fail tid addr m
      else light_disconnect_cooldown tid addr now m)"

section \<open>The dial list\<close>

definition PEER_CACHE_KEEP :: nat where "PEER_CACHE_KEEP = 200"
definition PEER_CACHE_DIAL_LOAD :: nat where "PEER_CACHE_DIAL_LOAD = 80"

text \<open>One pass over addresses: those not seen yet are pushed until there are \<open>m\<close>; the flag says it was full.\<close>

fun push_fresh :: "nat \<Rightarrow> 'a list \<Rightarrow> 'a list \<times> 'a list \<Rightarrow> bool \<times> 'a list \<times> 'a list" where
  "push_fresh m [] (seen, out) = (False, seen, out)"
| "push_fresh m (a # as) (seen, out) =
     (if a \<in> set seen then push_fresh m as (seen, out)
      else if length (out @ [a]) \<ge> m then (True, a # seen, out @ [a])
      else push_fresh m as (a # seen, out @ [a]))"

definition merge_outbound_peers ::
  "('a list \<Rightarrow> 'a list) \<Rightarrow> ('a list \<Rightarrow> 'a list) \<Rightarrow> 'a list \<Rightarrow> 'a list \<Rightarrow> 'a list \<Rightarrow> nat \<Rightarrow> 'a list" where
  "merge_outbound_peers shuffle_cache shuffle_track manual tracker cached mx =
     (let m = max mx 1
      in case push_fresh m manual ([], []) of
           (True, _, out) \<Rightarrow> out
         | (False, seen, out) \<Rightarrow>
             (let cache = filter (\<lambda>a. a \<notin> set seen) cached; track = filter (\<lambda>a. a \<notin> set seen) tracker
              in case push_fresh m (shuffle_cache cache @ shuffle_track track) (seen, out) of (_, _, out) \<Rightarrow> out))"

section \<open>Properties of the dial list and the cooldown\<close>

text \<open>Each address once, at its first place.\<close>

definition firsts :: "'a list \<Rightarrow> 'a list" where
  "firsts xs = rev (remdups (rev xs))"

lemma firsts_append: "firsts (xs @ ys) = firsts xs @ filter (\<lambda>a. a \<notin> set xs) (firsts ys)"
proof -
  have "remdups (us @ vs) = filter (\<lambda>a. a \<notin> set vs) (remdups us) @ remdups vs" for us vs :: "'a list"
    by (induction us) auto
  then show ?thesis by (simp add: firsts_def rev_filter)
qed

lemma firsts_Cons: "firsts (a # xs) = a # filter (\<lambda>b. b \<noteq> a) (firsts xs)"
  using firsts_append [of "[a]" xs] by (simp add: firsts_def)

lemma firsts_simps [simp]: "firsts [] = []" "set (firsts xs) = set xs" "distinct (firsts xs)"
  by (simp_all add: firsts_def)

lemma push_fresh_spec:
  assumes "set seen = set out" "length out < m" "push_fresh m as (seen, out) = (full, seen', out')"
  shows "out' = take m (out @ filter (\<lambda>a. a \<notin> set out) (firsts as))
    \<and> (full \<longleftrightarrow> m \<le> length (out @ filter (\<lambda>a. a \<notin> set out) (firsts as))) \<and> set seen' = set out'"
  using assms
proof (induction as arbitrary: seen out)
  case (Cons a as)
  have f: "filter (\<lambda>b. b \<notin> set out) (firsts (a # as)) =
      (if a \<in> set out then filter (\<lambda>b. b \<notin> set out) (firsts as) else a # filter (\<lambda>b. b \<notin> set (out @ [a])) (firsts as))"
    by (auto simp: firsts_Cons intro: filter_cong)
  consider "a \<in> set out" | "a \<notin> set out" "m \<le> length out + 1" | "a \<notin> set out" "length out + 1 < m" by linarith
  then show ?case
  proof cases
    case 1
    then show ?thesis using Cons.prems Cons.IH [of seen out] by (simp add: f)
  next
    case 2
    then have m: "m = Suc (length out)" using Cons.prems(2) by simp
    have "push_fresh m (a # as) (seen, out) = (True, a # seen, out @ [a])" using 2 Cons.prems(1) by simp
    then have p: "full = True" "seen' = a # seen" "out' = out @ [a]" using Cons.prems(3) by simp_all
    show ?thesis using 2 Cons.prems(1) unfolding f m p by simp
  next
    case 3
    then show ?thesis using Cons.prems Cons.IH [of "a # seen" "out @ [a]"] by (simp add: f)
  qed
qed auto

text \<open>C36. The dial list is the manual peers, then the shuffled cached ones, then the shuffled tracker ones, each
  address once at its first place, cut to the free slots (at least one): so it has no duplicate, is no longer than
  asked, prefers manual peers, and is full whenever enough addresses are known.\<close>

theorem dial_list_correct:
  assumes "\<And>xs. set (shuffle_cache xs) = set xs" "\<And>xs. set (shuffle_track xs) = set xs"
  shows "merge_outbound_peers shuffle_cache shuffle_track manual tracker cached mx
      = take (max mx 1) (firsts (manual @ shuffle_cache (filter (\<lambda>a. a \<notin> set manual) cached)
          @ shuffle_track (filter (\<lambda>a. a \<notin> set manual) tracker)))
    \<and> distinct (merge_outbound_peers shuffle_cache shuffle_track manual tracker cached mx)
    \<and> length (merge_outbound_peers shuffle_cache shuffle_track manual tracker cached mx)
        = min (max mx 1) (card (set manual \<union> set cached \<union> set tracker))"
proof -
  obtain m where m: "m = max mx 1" "0 < m" by simp
  let ?rest = "shuffle_cache (filter (\<lambda>a. a \<notin> set manual) cached) @ shuffle_track (filter (\<lambda>a. a \<notin> set manual) tracker)"
  obtain full seen out where p: "push_fresh m manual ([], []) = (full, seen, out)" by (metis prod_cases3)
  then have o: "out = take m (firsts manual)" "full \<longleftrightarrow> m \<le> length (firsts manual)" "set seen = set out"
    using push_fresh_spec [of "[]" "[]" m manual full seen out] m(2) by auto
  have eq: "merge_outbound_peers shuffle_cache shuffle_track manual tracker cached mx = take m (firsts (manual @ ?rest))"
  proof (cases full)
    case True
    then show ?thesis using p o(1,2) unfolding merge_outbound_peers_def Let_def m(1) [symmetric]
      by (simp add: firsts_append)
  next
    case False
    then have l: "length (firsts manual) < m" using o(2) by simp
    have out: "out = firsts manual" unfolding o(1) using l by simp
    have seen: "set seen = set manual" unfolding o(3) out by simp
    obtain full2 seen2 out2 where p2: "push_fresh m ?rest (seen, out) = (full2, seen2, out2)" by (metis prod_cases3)
    have "length out < m" using l out by simp
    then have "out2 = take m (out @ filter (\<lambda>a. a \<notin> set out) (firsts ?rest))"
      using push_fresh_spec [OF o(3) _ p2] by blast
    then have "out2 = take m (firsts (manual @ ?rest))" unfolding out firsts_append [of manual] by simp
    then show ?thesis using False p p2 unfolding merge_outbound_peers_def Let_def m(1) [symmetric] by (simp add: seen)
  qed
  have "set (firsts (manual @ ?rest)) = set manual \<union> set cached \<union> set tracker" by (auto simp: assms)
  then have "length (firsts (manual @ ?rest)) = card (set manual \<union> set cached \<union> set tracker)"
    using distinct_card [of "firsts (manual @ ?rest)"] by simp
  then show ?thesis unfolding eq m(1) [symmetric] by (simp add: min.commute)
qed

theorem dial_list_witness:
  "merge_outbound_peers rev (\<lambda>xs. xs) [1 :: nat] [5, 6, 7] [2, 1, 3] 4 = [1, 3, 2, 5]"
proof -
  have "merge_outbound_peers rev (\<lambda>xs. xs) [1 :: nat] [5, 6, 7] [2, 1, 3] 4
      = take (max 4 1) (firsts ([1] @ rev (filter (\<lambda>a. a \<notin> set [1]) [2, 1, 3]) @ filter (\<lambda>a. a \<notin> set [1]) [5, 6, 7]))"
    using dial_list_correct [where shuffle_cache = rev and shuffle_track = "\<lambda>xs. xs" and manual = "[1 :: nat]"
        and tracker = "[5, 6, 7]" and cached = "[2, 1, 3]" and mx = 4] by simp
  then show ?thesis by (simp add: firsts_def)
qed

lemma backoff_bounds: "from_secs 30 \<le> backoff_delay n" "backoff_delay n \<le> from_secs 1800"
  by (simp_all add: backoff_delay_def from_secs_def Let_def)

lemma backoff_values:
  "backoff_delay 1 = from_secs 30" "backoff_delay 2 = from_secs 60" "n \<ge> 7 \<Longrightarrow> backoff_delay n = from_secs 1800"
  by (simp_all add: backoff_delay_def from_secs_def Let_def min_absorb2)

text \<open>After an outbound connection ended, its address is not dialled again for that torrent for 30 seconds,
  for 300 when it was closed for being idle, unless it ended cleanly after at least 30 seconds; a failure or a
  connection of under 5 seconds costs at most 30 minutes; and no other address or torrent is affected.\<close>

theorem redial_waits:
  assumes "m' = outbound_cooldown idle ok lived tid addr now m"
    and "idle \<or> \<not> ok \<or> lived < from_secs 30"
  shows "(\<forall>t. now \<le> t \<and> t < now + from_secs (if idle then 300 else 30) \<longrightarrow> is_cooled_down m' tid addr t)
    \<and> (\<not> idle \<and> (\<not> ok \<or> lived < from_secs 5) \<longrightarrow> \<not> is_cooled_down m' tid addr (now + from_secs 1800))
    \<and> (\<forall>k. k \<noteq> (tid, addr) \<longrightarrow> m' k = m k)"
proof -
  have h: "is_cooled_down (hold_until tid addr now h m) tid addr t" if "t < now + h" for t h
    using that by (auto simp: is_cooled_down_def hold_until_def Let_def)
  have f: "is_cooled_down (record_dial_fail tid addr now m) tid addr t \<longleftrightarrow>
      t < now + backoff_delay (min (dd_fails (dial_entry tid addr now m) + 1) u32_max)" for t
    by (simp add: is_cooled_down_def record_dial_fail_def Let_def)
  have o: "hold_until tid addr now h m k = m k" "record_dial_fail tid addr now m k = m k" if "k \<noteq> (tid, addr)" for h k
    using that by (auto simp: hold_until_def record_dial_fail_def Let_def)
  note b = backoff_bounds [of "min (dd_fails (dial_entry tid addr now m) + 1) u32_max"]
  show ?thesis
    using assms(2) b h f o unfolding assms(1) outbound_cooldown_def record_idle_close_def IDLE_REDIAL_def
      record_dial_soft_fail_def light_disconnect_cooldown_def
    by (auto simp: not_less intro: less_le_trans)
qed

theorem redial_waits_witness:
  "\<not> is_cooled_down (\<lambda>_. None) 1 (Sock_v4 [1, 2, 3, 4] 5) 100
   \<and> is_cooled_down (outbound_cooldown False False 7 1 (Sock_v4 [1, 2, 3, 4] 5) 100 (\<lambda>_. None)) 1 (Sock_v4 [1, 2, 3, 4] 5) 30099"
  using redial_waits [OF refl, where idle = False and ok = False and lived = 7 and tid = 1
      and addr = "Sock_v4 [1, 2, 3, 4] 5" and now = 100 and m = "\<lambda>_. None"]
  by (simp add: from_secs_def is_cooled_down_def)

end
