(* ===== verification/Announce.thy ===== *)
theory Announce
  imports Dial Hot "HOL-Library.AList"
begin

text \<open>
  The announce policy of the session (\<open>session/announce.rs\<close>, the completion request of
  \<open>session/catalog_io.rs\<close> and the starvation rule of \<open>session/peer_policy.rs\<close>): which trackers of a torrent are
  contacted and in which order, the schedule of each torrent and the choice of the event. Announcing to one tracker
  is an argument; \<open>announce_any\<close> of theory Tracker is what the code passes.
\<close>

section \<open>Intervals\<close>

definition ANNOUNCE_MIN_SECS :: nat where "ANNOUNCE_MIN_SECS = 60"
definition ANNOUNCE_DEFAULT_SECS :: nat where "ANNOUNCE_DEFAULT_SECS = 1800"
definition ANNOUNCE_MAX_SECS :: nat where "ANNOUNCE_MAX_SECS = 6 * 3600"
definition ANNOUNCE_MIN_INTERVAL_FLOOR_SECS :: nat where "ANNOUNCE_MIN_INTERVAL_FLOOR_SECS = 300"
definition ANNOUNCE_DEFAULT_MIN_INTERVAL_SECS :: nat where "ANNOUNCE_DEFAULT_MIN_INTERVAL_SECS = 600"
definition ANNOUNCE_MIN_INTERVAL_CEIL_SECS :: nat where "ANNOUNCE_MIN_INTERVAL_CEIL_SECS = 4 * 3600"

lemmas announce_consts = ANNOUNCE_MIN_SECS_def ANNOUNCE_DEFAULT_SECS_def ANNOUNCE_MAX_SECS_def
  ANNOUNCE_MIN_INTERVAL_FLOOR_SECS_def ANNOUNCE_DEFAULT_MIN_INTERVAL_SECS_def ANNOUNCE_MIN_INTERVAL_CEIL_SECS_def

definition clamp_announce_interval :: "nat \<Rightarrow> nat" where
  "clamp_announce_interval secs =
     (if secs = 0 then ANNOUNCE_DEFAULT_SECS else min (max secs ANNOUNCE_MIN_SECS) ANNOUNCE_MAX_SECS)"

definition clamp_min_interval :: "nat \<Rightarrow> nat" where
  "clamp_min_interval secs =
     (if secs = 0 then ANNOUNCE_DEFAULT_MIN_INTERVAL_SECS
      else min (max secs ANNOUNCE_MIN_INTERVAL_FLOOR_SECS) ANNOUNCE_MIN_INTERVAL_CEIL_SECS)"

section \<open>The trackers of a torrent\<close>

record announce_outcome =
  ao_peers :: "sock_addr list"
  ao_interval_secs :: nat
  ao_min_interval_secs :: nat
  ao_ok :: bool
  ao_seeders :: "nat option"
  ao_leechers :: "nat option"
  ao_last_status :: "bytes option"
  ao_last_url :: "bytes option"

definition empty_ok :: announce_outcome where
  "empty_ok = \<lparr>ao_peers = [], ao_interval_secs = ANNOUNCE_DEFAULT_SECS,
     ao_min_interval_secs = ANNOUNCE_DEFAULT_MIN_INTERVAL_SECS, ao_ok = True, ao_seeders = None, ao_leechers = None,
     ao_last_status = None, ao_last_url = None\<rparr>"

definition all_failed :: "bytes option \<Rightarrow> bytes option \<Rightarrow> announce_outcome" where
  "all_failed last_url last_status = \<lparr>ao_peers = [], ao_interval_secs = ANNOUNCE_DEFAULT_SECS,
     ao_min_interval_secs = ANNOUNCE_DEFAULT_MIN_INTERVAL_SECS, ao_ok = False, ao_seeders = None, ao_leechers = None,
     ao_last_status = last_status, ao_last_url = last_url\<rparr>"

text \<open>The URLs of a tier that are not empty and not tried yet, and the keys tried so far.\<close>

definition url_key :: "bytes \<Rightarrow> bytes" where
  "url_key url = to_ascii_lowercase (str_trim url)"

fun tier_urls :: "bytes list \<Rightarrow> bytes list \<Rightarrow> bytes list \<times> bytes list" where
  "tier_urls [] seen = ([], seen)"
| "tier_urls (url # urls) seen =
     (if url_key url = [] \<or> url_key url \<in> set seen then tier_urls urls seen
      else case tier_urls urls (url_key url # seen) of (us, seen') \<Rightarrow> (url # us, seen'))"

definition announce_success :: "bytes \<Rightarrow> announce_response \<Rightarrow> announce_outcome" where
  "announce_success url r = \<lparr>ao_peers = ar_peers r, ao_interval_secs = clamp_announce_interval (ar_interval r),
     ao_min_interval_secs = clamp_min_interval (ar_min_interval r), ao_ok = True, ao_seeders = ar_complete r,
     ao_leechers = ar_incomplete r, ao_last_status = Some (ascii ''ok''), ao_last_url = Some url\<rparr>"

text \<open>Contacts the URLs one after the other; the result is the outcome of the first success, or the last URL and
  status, and the URLs contacted. \<open>err_text\<close> is the text of an error.\<close>

fun try_urls ::
  "(tracker_error \<Rightarrow> bytes) \<Rightarrow> (bytes \<Rightarrow> tracker_error + announce_response) \<Rightarrow> bytes list
     \<Rightarrow> bytes option \<times> bytes option \<Rightarrow> (announce_outcome + bytes option \<times> bytes option) \<times> bytes list" where
  "try_urls err_text ask [] prev = (Inr prev, [])"
| "try_urls err_text ask (url # urls) (last_url, last_status) =
     (case ask url of
        Inr r \<Rightarrow>
          (case ar_failure r of
             None \<Rightarrow> (Inl (announce_success url r), [url])
           | Some f \<Rightarrow> (case try_urls err_text ask urls (Some url, Some f) of (res, us) \<Rightarrow> (res, url # us)))
      | Inl e \<Rightarrow> (case try_urls err_text ask urls (Some url, Some (err_text e)) of (res, us) \<Rightarrow> (res, url # us)))"

fun try_tiers ::
  "(tracker_error \<Rightarrow> bytes) \<Rightarrow> (bytes \<Rightarrow> tracker_error + announce_response) \<Rightarrow> (int \<times> bytes list) list \<Rightarrow> bytes list
     \<Rightarrow> bytes option \<times> bytes option \<Rightarrow> announce_outcome \<times> bytes list" where
  "try_tiers err_text ask [] seen (last_url, last_status) = (all_failed last_url last_status, [])"
| "try_tiers err_text ask ((tier, urls) # tiers) seen prev =
     (if urls = [] then try_tiers err_text ask tiers seen prev
      else case tier_urls urls seen of
        (us, seen') \<Rightarrow>
          if us = [] then try_tiers err_text ask tiers seen' prev
          else case try_urls err_text ask us prev of
            (Inl out, contacted) \<Rightarrow> (out, contacted)
          | (Inr prev', contacted) \<Rightarrow>
              (case try_tiers err_text ask tiers seen' prev' of (out, more') \<Rightarrow> (out, contacted @ more')))"

definition announce_request_for ::
  "hot_torrent \<Rightarrow> bytes \<Rightarrow> 16 word \<Rightarrow> string option \<Rightarrow> nat \<Rightarrow> nat \<Rightarrow> bytes \<Rightarrow> nat \<Rightarrow> bytes \<Rightarrow> announce_request" where
  "announce_request_for t peer_id port event uploaded downloaded user_agent numwant url =
     \<lparr>aq_url = url, aq_infohash = ht_infohash t, aq_peer_id = peer_id, aq_port = port, aq_uploaded = uploaded,
      aq_downloaded = downloaded, aq_left = left_bytes t, aq_event = event, aq_numwant = numwant,
      aq_user_agent = user_agent, aq_key = ht_tracker_key t\<rparr>"

text \<open>The outcome and the URLs contacted, in order.\<close>

definition announce_for ::
  "(tracker_error \<Rightarrow> bytes) \<Rightarrow> (announce_request \<Rightarrow> tracker_error + announce_response) \<Rightarrow> hot_torrent \<Rightarrow> bytes \<Rightarrow> 16 word
     \<Rightarrow> string option \<Rightarrow> nat \<Rightarrow> nat \<Rightarrow> bytes \<Rightarrow> nat \<Rightarrow> announce_outcome \<times> bytes list" where
  "announce_for err_text announce t peer_id port event uploaded downloaded user_agent numwant =
     (let tiers = map (\<lambda>(tier, urls). (tier, map ascii urls)) (ht_tracker_tiers t)
      in if tiers = [] then (empty_ok, [])
         else try_tiers err_text
           (\<lambda>url. announce (announce_request_for t peer_id port event uploaded downloaded user_agent numwant url))
           tiers [] (None, None))"

section \<open>Contacted in order, each once, up to the first success\<close>

definition answers :: "tracker_error + announce_response \<Rightarrow> bool" where
  "answers r \<longleftrightarrow> (case r of Inl e \<Rightarrow> False | Inr a \<Rightarrow> ar_failure a = None)"

definition failure_text :: "(tracker_error \<Rightarrow> bytes) \<Rightarrow> tracker_error + announce_response \<Rightarrow> bytes" where
  "failure_text err_text r = (case r of Inl e \<Rightarrow> err_text e | Inr a \<Rightarrow> the (ar_failure a))"

text \<open>The reference: all URLs of all tiers, the empty ones and the repeated ones (up to case and surrounding space)
  left out.\<close>

definition wanted_urls :: "bytes list \<Rightarrow> bytes list \<Rightarrow> bytes list" where
  "wanted_urls urls seen = fst (tier_urls urls seen)"

lemma tier_urls_append:
  "tier_urls (us @ vs) seen =
     (case tier_urls us seen of (a, seen1) \<Rightarrow> case tier_urls vs seen1 of (b, seen2) \<Rightarrow> (a @ b, seen2))"
  by (induction us seen rule: tier_urls.induct) (auto split: prod.split)

lemma tier_urls_fst:
  "fst (tier_urls (url # urls) seen) =
     (if url_key url = [] \<or> url_key url \<in> set seen then fst (tier_urls urls seen)
      else url # fst (tier_urls urls (url_key url # seen)))"
  by (simp split: prod.split)

lemma tier_urls_fresh:
  "distinct (map url_key (fst (tier_urls urls seen)))
   \<and> (\<forall>u \<in> set (fst (tier_urls urls seen)). url_key u \<noteq> [] \<and> url_key u \<notin> set seen \<and> u \<in> set urls)"
proof (induction urls arbitrary: seen)
  case (Cons v urls)
  show ?case
  proof (cases "url_key v = [] \<or> url_key v \<in> set seen")
    case True
    then show ?thesis using Cons.IH [of seen] unfolding tier_urls_fst by auto
  next
    case False
    then show ?thesis using Cons.IH [of "url_key v # seen"] unfolding tier_urls_fst by auto
  qed
qed simp

lemma tier_urls_covers:
  "u \<in> set urls \<Longrightarrow> url_key u \<noteq> [] \<Longrightarrow> url_key u \<in> set seen \<union> url_key ` set (fst (tier_urls urls seen))"
proof (induction urls arbitrary: seen)
  case (Cons v urls)
  show ?case
  proof (cases "url_key v = [] \<or> url_key v \<in> set seen")
    case True
    then show ?thesis using Cons unfolding tier_urls_fst by auto
  next
    case False
    then show ?thesis using Cons.prems Cons.IH [of "url_key v # seen"] unfolding tier_urls_fst by auto
  qed
qed simp

fun upto_success :: "('u \<Rightarrow> bool) \<Rightarrow> 'u list \<Rightarrow> 'u list" where
  "upto_success ok [] = []"
| "upto_success ok (u # us) = (if ok u then [u] else u # upto_success ok us)"

lemma upto_success_none: "\<forall>u \<in> set us. \<not> ok u \<Longrightarrow> upto_success ok (us @ vs) = us @ upto_success ok vs"
  by (induction us) auto

lemma upto_success_some: "u \<in> set us \<Longrightarrow> ok u \<Longrightarrow> upto_success ok (us @ vs) = upto_success ok us"
  by (induction us) auto

lemma upto_success_prefix: "\<exists>rest. us = upto_success ok us @ rest"
  by (induction us) auto

lemma upto_success_last: "find P us = Some u \<Longrightarrow> last (upto_success P us) = u \<and> upto_success P us \<noteq> []"
  by (induction us) (auto split: if_splits)

definition last_failure :: "(tracker_error \<Rightarrow> bytes) \<Rightarrow> (bytes \<Rightarrow> tracker_error + announce_response) \<Rightarrow> bytes list
    \<Rightarrow> bytes option \<times> bytes option \<Rightarrow> bytes option \<times> bytes option" where
  "last_failure err_text ask us prev = (if us = [] then prev else (Some (last us), Some (failure_text err_text (ask (last us)))))"

definition first_answer :: "(bytes \<Rightarrow> tracker_error + announce_response) \<Rightarrow> bytes list \<Rightarrow> announce_outcome option" where
  "first_answer ask us =
     (case find (\<lambda>u. answers (ask u)) us of None \<Rightarrow> None
      | Some u \<Rightarrow> (case ask u of Inl e \<Rightarrow> None | Inr r \<Rightarrow> Some (announce_success u r)))"

lemma try_urls_spec:
  "try_urls err_text ask us prev =
     ((case first_answer ask us of Some out \<Rightarrow> Inl out | None \<Rightarrow> Inr (last_failure err_text ask us prev)),
      upto_success (\<lambda>u. answers (ask u)) us)"
proof (induction us arbitrary: prev)
  case (Cons u us)
  then show ?case
    by (cases prev) (auto simp: first_answer_def last_failure_def answers_def failure_text_def split: sum.split option.split)
qed (simp add: first_answer_def last_failure_def)

lemma first_answer_append:
  "first_answer ask (us @ vs) = (case first_answer ask us of Some out \<Rightarrow> Some out | None \<Rightarrow> first_answer ask vs)"
  by (induction us) (auto simp: first_answer_def answers_def split: sum.split)

lemma first_answer_None: "first_answer ask us = None \<longleftrightarrow> (\<forall>u \<in> set us. \<not> answers (ask u))"
  by (induction us) (auto simp: first_answer_def answers_def split: sum.splits)

lemma last_failure_append:
  "last_failure err_text ask (us @ vs) prev = last_failure err_text ask vs (last_failure err_text ask us prev)"
  by (cases "vs = []") (simp_all add: last_failure_def)

lemma try_tiers_spec:
  shows "try_tiers err_text ask tiers seen prev =
     ((case first_answer ask (fst (tier_urls (concat (map snd tiers)) seen)) of
         Some out \<Rightarrow> out
       | None \<Rightarrow> (case last_failure err_text ask (fst (tier_urls (concat (map snd tiers)) seen)) prev of (u, st) \<Rightarrow> all_failed u st)),
      upto_success (\<lambda>u. answers (ask u)) (fst (tier_urls (concat (map snd tiers)) seen)))"
proof (induction tiers arbitrary: seen prev)
  case Nil
  then show ?case by (cases prev) (simp add: first_answer_def last_failure_def)
next
  case (Cons tier tiers)
  obtain i urls where t: "tier = (i, urls)" by fastforce
  obtain us seen1 where u: "tier_urls urls seen = (us, seen1)" by fastforce
  obtain vs seen2 where v: "tier_urls (concat (map snd tiers)) seen1 = (vs, seen2)" by fastforce
  have all: "tier_urls (concat (map snd ((i, urls) # tiers))) seen = (us @ vs, seen2)"
    by (simp add: tier_urls_append u v)
  note ih = Cons.IH [of seen1, unfolded v fst_conv]
  show ?case
  proof (cases "us = []")
    case True
    then show ?thesis using ih [of prev] u unfolding t all fst_conv True append_Nil by auto
  next
    case False
    then have "urls \<noteq> []" using u by auto
    show ?thesis
    proof (cases "first_answer ask us")
      case None
      then have "\<forall>w \<in> set us. \<not> answers (ask w)" by (simp add: first_answer_None)
      then have "upto_success (\<lambda>u. answers (ask u)) us = us" "upto_success (\<lambda>u. answers (ask u)) (us @ vs) = us @ upto_success (\<lambda>u. answers (ask u)) vs"
        using upto_success_none [of us _ "[]"] by (simp_all add: upto_success_none)
      then show ?thesis using \<open>urls \<noteq> []\<close> False u ih [of "last_failure err_text ask us prev"] None unfolding t all fst_conv
        by (simp add: try_urls_spec first_answer_append last_failure_append split: option.split)
    next
      case (Some out)
      then obtain w where "w \<in> set us" "answers (ask w)" using first_answer_None [of ask us] by auto
      then show ?thesis using \<open>urls \<noteq> []\<close> False u Some unfolding t all fst_conv
        by (cases prev) (simp add: try_urls_spec first_answer_append upto_success_some)
    qed
  qed
qed

text \<open>C35. Announcing to a torrent with trackers contacts its URLs in the order of the tiers, each URL at most once
  (up to case and surrounding space) and none that is blank, one after the other up to and including the first that
  answers without a failure, and every distinct URL when none does; the outcome is that first answer with its
  intervals clamped, or a failure with the last URL tried and its status.\<close>

theorem announce_contacts_in_order:
  fixes t :: hot_torrent
  assumes "ht_tracker_tiers t \<noteq> []"
    and "ask = (\<lambda>url. announce (announce_request_for t peer_id port event uploaded downloaded user_agent numwant url))"
    and "urls = concat (map (\<lambda>(tier, us). map ascii us) (ht_tracker_tiers t))"
    and "announce_for err_text announce t peer_id port event uploaded downloaded user_agent numwant = (out, contacted)"
    and "wanted = fst (tier_urls urls [])"
  shows "set wanted \<subseteq> set urls \<and> distinct (map url_key wanted)
    \<and> url_key ` set wanted = url_key ` set urls - {[]}
    \<and> contacted = upto_success (\<lambda>u. answers (ask u)) wanted
    \<and> (case find (\<lambda>u. answers (ask u)) wanted of
         Some u \<Rightarrow> (\<exists>r. ask u = Inr r \<and> out = announce_success u r \<and> last contacted = u)
       | None \<Rightarrow> contacted = wanted \<and> \<not> ao_ok out \<and> ao_last_url out = (if wanted = [] then None else Some (last wanted))
           \<and> ao_last_status out = (if wanted = [] then None else Some (failure_text err_text (ask (last wanted)))))"
proof -
  let ?tiers = "map (\<lambda>(tier, urls). (tier, map ascii urls)) (ht_tracker_tiers t)"
  let ?w = "fst (tier_urls urls [])"
  have c: "concat (map snd ?tiers) = urls" unfolding assms(3) by (simp add: comp_def split_def)
  have run: "try_tiers err_text ask ?tiers [] (None, None) = (out, contacted)"
    using assms(1,2,4) by (simp add: announce_for_def Let_def)
  then have out: "out = (case first_answer ask ?w of Some o' \<Rightarrow> o'
      | None \<Rightarrow> (case last_failure err_text ask ?w (None, None) of (u, st) \<Rightarrow> all_failed u st))"
    and con: "contacted = upto_success (\<lambda>u. answers (ask u)) ?w"
    unfolding try_tiers_spec c by auto
  have "set ?w \<subseteq> set urls" "distinct (map url_key ?w)" "[] \<notin> url_key ` set ?w" using tier_urls_fresh [of urls "[]"] by auto
  moreover have "url_key ` set ?w = url_key ` set urls - {[]}"
    using tier_urls_fresh [of urls "[]"] tier_urls_covers [of _ urls "[]"] by auto
  moreover have "case find (\<lambda>u. answers (ask u)) ?w of
         Some u \<Rightarrow> (\<exists>r. ask u = Inr r \<and> out = announce_success u r \<and> last contacted = u)
       | None \<Rightarrow> contacted = ?w \<and> \<not> ao_ok out \<and> ao_last_url out = (if ?w = [] then None else Some (last ?w))
           \<and> ao_last_status out = (if ?w = [] then None else Some (failure_text err_text (ask (last ?w))))"
  proof (cases "find (\<lambda>u. answers (ask u)) ?w")
    case None
    then have "\<forall>u \<in> set ?w. \<not> answers (ask u)" by (simp add: find_None_iff)
    then have "contacted = ?w" using upto_success_none [of ?w _ "[]"] con by simp
    moreover have "first_answer ask ?w = None" using None by (simp add: first_answer_def)
    ultimately show ?thesis using None out by (simp add: last_failure_def all_failed_def)
  next
    case (Some u)
    have "answers (ask u)" using Some by (auto simp: find_Some_iff)
    then obtain r where r: "ask u = Inr r" by (auto simp: answers_def split: sum.splits)
    show ?thesis using Some r out con upto_success_last [OF Some] by (simp add: first_answer_def)
  qed
  ultimately show ?thesis using con unfolding assms(5) by blast
qed

lemma str_trim_plain:
  assumes "\<forall>b \<in> set s. 0x20 < unat b \<and> unat b < 0x80"
  shows "str_trim s = s"
proof -
  have d: "utf8_decode s = Some (map unat s)" using assms by (induction s) (auto simp: Let_def)
  have w: "\<forall>c \<in> set (map unat s). \<not> is_whitespace c" using assms by (auto simp: is_whitespace_def)
  have n: "dropWhile is_whitespace xs = xs" if "\<forall>c \<in> set xs. \<not> is_whitespace c" for xs
    using that by (cases xs) auto
  have "concat (map utf8_char (map unat s)) = s" using assms by (induction s) (auto simp: utf8_char_def)
  then show ?thesis using w n [of "map unat s"] n [of "rev (map unat s)"]
    by (simp add: str_trim_def chars_of_def d utf8_encode_def)
qed

definition wit_hot :: hot_torrent where
  "wit_hot = new_empty 1 (replicate 20 1) ''n'' \<lparr>data_root = \<lparr>is_abs = True, comps = []\<rparr>, piece_length = 16, piece_count = 1,
     total_size = 5, files = []\<rparr> [] 7"

theorem announce_contacts_in_order_witness:
  "snd (announce_for (\<lambda>_. []) (\<lambda>req. if aq_url req = ascii ''http://b'' then Inr response_default else Inl Udp_failed)
     (wit_hot\<lparr>ht_tracker_tiers := [(0, [''http://a'', ''HTTP://A'']), (1, [''http://b'', ''http://c''])]\<rparr>)
     [] 6881 None 0 0 [] 50) = [ascii ''http://a'', ascii ''http://b'']"
proof -
  let ?t = "wit_hot\<lparr>ht_tracker_tiers := [(0, [''http://a'', ''HTTP://A'']), (1, [''http://b'', ''http://c''])]\<rparr>"
  let ?ann = "\<lambda>req. if aq_url req = ascii ''http://b'' then Inr response_default else Inl Udp_failed"
  let ?urls = "[ascii ''http://a'', ascii ''HTTP://A'', ascii ''http://b'', ascii ''http://c'']"
  obtain out contacted where r: "announce_for (\<lambda>_. []) ?ann ?t [] 6881 None 0 0 [] 50 = (out, contacted)" by fastforce
  let ?ask = "\<lambda>url. ?ann (announce_request_for ?t [] 6881 None 0 0 [] 50 url)"
  have trim: "str_trim (ascii ''http://a'') = ascii ''http://a''" "str_trim (ascii ''HTTP://A'') = ascii ''HTTP://A''"
    "str_trim (ascii ''http://b'') = ascii ''http://b''" "str_trim (ascii ''http://c'') = ascii ''http://c''"
    by (rule str_trim_plain, simp add: ascii_def)+
  have k: "url_key (ascii ''http://a'') = ascii ''http://a''" "url_key (ascii ''HTTP://A'') = ascii ''http://a''"
    "url_key (ascii ''http://b'') = ascii ''http://b''" "url_key (ascii ''http://c'') = ascii ''http://c''"
    by (simp_all add: url_key_def trim) (simp_all add: to_ascii_lowercase_def ascii_lower_def ascii_def)
  have "?urls = concat (map (\<lambda>(tier, us). map ascii us) (ht_tracker_tiers ?t))" by simp
  moreover have "fst (tier_urls ?urls []) = [ascii ''http://a'', ascii ''http://b'', ascii ''http://c'']"
    by (simp add: tier_urls_fst k) (simp add: ascii_def)
  ultimately have "contacted = upto_success (\<lambda>u. answers (?ask u)) [ascii ''http://a'', ascii ''http://b'', ascii ''http://c'']"
    using announce_contacts_in_order [OF _ refl _ r, of ?urls] by simp
  then have "contacted = [ascii ''http://a'', ascii ''http://b'']"
    by (simp add: announce_request_for_def answers_def response_default_def) (simp add: ascii_def)
  then show ?thesis by (simp add: r)
qed

end
