(* ===== verification/Announce_Sched.thy ===== *)
theory Announce_Sched
  imports Announce
begin

text \<open>
  The announce schedule (\<open>session/announce.rs\<close>, \<open>maybe_request_completed_announce\<close> of
  \<open>session/catalog_io.rs\<close>, \<open>maybe_starve_announce\<close> of \<open>session/peer_policy.rs\<close>). Each operation that holds the schedule
  lock is one function here; an announce is a task that takes the lock when it begins and when it ends.
\<close>

section \<open>Entries\<close>

record torrent_announce =
  ta_next_due :: instant
  ta_interval_secs :: nat
  ta_min_interval_secs :: nat
  ta_last_success :: "instant option"
  ta_sent_started :: bool
  ta_sent_completed :: bool
  ta_pending_completed :: bool
  ta_in_flight :: bool

definition fresh :: "instant \<Rightarrow> torrent_announce" where
  "fresh now = \<lparr>ta_next_due = now, ta_interval_secs = ANNOUNCE_DEFAULT_SECS,
     ta_min_interval_secs = ANNOUNCE_DEFAULT_MIN_INTERVAL_SECS, ta_last_success = None, ta_sent_started = False,
     ta_sent_completed = False, ta_pending_completed = False, ta_in_flight = False\<rparr>"

type_synonym sched = "(int \<times> torrent_announce) list"

definition entry_or_fresh :: "instant \<Rightarrow> int \<Rightarrow> sched \<Rightarrow> torrent_announce" where
  "entry_or_fresh now tid s = (case map_of s tid of Some e \<Rightarrow> e | None \<Rightarrow> fresh now)"

section \<open>Claiming\<close>

text \<open>\<open>kick_announce_now\<close> for a started torrent: whether an announce is to be spawned.\<close>

definition kick_claim :: "instant \<Rightarrow> int \<Rightarrow> sched \<Rightarrow> bool \<times> sched" where
  "kick_claim now tid s =
     (let e = entry_or_fresh now tid s
      in if ta_in_flight e then (False, AList.update tid e s)
         else (True, AList.update tid (e\<lparr>ta_in_flight := True\<rparr>) s))"

definition due_of :: "instant \<Rightarrow> sched \<Rightarrow> int \<Rightarrow> instant" where
  "due_of now s tid = (case map_of s tid of None \<Rightarrow> now | Some e \<Rightarrow> ta_next_due e)"

definition is_due :: "instant \<Rightarrow> sched \<Rightarrow> int \<Rightarrow> bool" where
  "is_due now s tid \<longleftrightarrow> (case map_of s tid of None \<Rightarrow> True | Some e \<Rightarrow> \<not> ta_in_flight e \<and> ta_next_due e \<le> now)"

fun claim_all :: "instant \<Rightarrow> int list \<Rightarrow> sched \<Rightarrow> int list \<times> sched" where
  "claim_all now [] s = ([], s)"
| "claim_all now (tid # ids) s =
     (case kick_claim now tid s of
        (claimed, s) \<Rightarrow> (case claim_all now ids s of (cs, s) \<Rightarrow> (if claimed then tid # cs else cs, s)))"

text \<open>\<open>poll_announce_due\<close>; \<open>max_inflight = 0\<close> means no limit.\<close>

definition in_flight_count :: "sched \<Rightarrow> nat" where
  "in_flight_count s = length (filter (\<lambda>p. ta_in_flight (snd p)) s)"

definition poll_due :: "instant \<Rightarrow> nat \<Rightarrow> int list \<Rightarrow> sched \<Rightarrow> int list \<times> sched" where
  "poll_due now max_inflight hot_ids s =
     (let budget = max_inflight - in_flight_count s; due = sort_key (due_of now s) (filter (is_due now s) hot_ids)
      in if max_inflight = 0 then claim_all now due s
         else if budget = 0 then ([], s)
         else claim_all now (take budget due) s)"

section \<open>Begin and end of an announce\<close>

definition begin_announce :: "instant \<Rightarrow> int \<Rightarrow> sched \<Rightarrow> string option \<times> sched" where
  "begin_announce now tid s =
     (let e = (entry_or_fresh now tid s)\<lparr>ta_in_flight := True\<rparr>
      in if ta_pending_completed e \<and> ta_sent_started e \<and> \<not> ta_sent_completed e then
           (Some ''completed'', AList.update tid (e\<lparr>ta_sent_completed := True, ta_pending_completed := False\<rparr>) s)
         else (if \<not> ta_sent_started e then Some ''started'' else None, AList.update tid e s))"

text \<open>After the trackers answered.\<close>

definition note_success :: "instant \<Rightarrow> int \<Rightarrow> nat \<Rightarrow> sched \<Rightarrow> sched" where
  "note_success now tid min_interval s =
     (case map_of s tid of
        None \<Rightarrow> s
      | Some e \<Rightarrow> AList.update tid (e\<lparr>ta_min_interval_secs := min_interval, ta_last_success := Some now\<rparr>) s)"

definition mark_sent :: "string option \<Rightarrow> torrent_announce \<Rightarrow> torrent_announce" where
  "mark_sent event e =
     (if event = Some ''started'' then e\<lparr>ta_sent_started := True\<rparr>
      else if event = Some ''completed'' then e\<lparr>ta_sent_completed := True, ta_pending_completed := False\<rparr>
      else e)"

text \<open>The end of \<open>announce_and_connect\<close>: whether the completion is to be announced at once.\<close>

definition finish_announce :: "instant \<Rightarrow> int \<Rightarrow> string option \<Rightarrow> bool \<Rightarrow> nat \<Rightarrow> sched \<Rightarrow> bool \<times> sched" where
  "finish_announce now tid event any_ok interval s =
     (case map_of s tid of
        None \<Rightarrow> (False, s)
      | Some e \<Rightarrow>
          (let e = e\<lparr>ta_in_flight := False\<rparr>
           in if any_ok then
                let e = (mark_sent event e)\<lparr>ta_interval_secs := interval\<rparr>
                in if ta_pending_completed e \<and> ta_sent_started e \<and> \<not> ta_sent_completed e
                   then (True, AList.update tid (e\<lparr>ta_next_due := now\<rparr>) s)
                   else (False, AList.update tid (e\<lparr>ta_next_due := now + from_secs interval\<rparr>) s)
              else
                let e = (if event = Some ''completed''
                         then e\<lparr>ta_sent_completed := False, ta_pending_completed := True\<rparr> else e)
                in (False, AList.update tid (e\<lparr>ta_next_due := now + from_secs 300\<rparr>) s)))"

section \<open>Requests from elsewhere\<close>

definition request_completed :: "instant \<Rightarrow> bool \<Rightarrow> bool \<Rightarrow> int \<Rightarrow> sched \<Rightarrow> bool \<times> sched" where
  "request_completed now incomplete_at_start fully_complete tid s =
     (if \<not> incomplete_at_start \<or> \<not> fully_complete then (False, s)
      else
        case map_of s tid of
          None \<Rightarrow> (False, s)
        | Some e \<Rightarrow>
            if ta_sent_completed e \<or> ta_pending_completed e then (False, s)
            else
              let e = e\<lparr>ta_pending_completed := True\<rparr>
              in if ta_in_flight e then (False, AList.update tid e s)
                 else (True, AList.update tid (e\<lparr>ta_next_due := now\<rparr>) s))"

text \<open>\<open>starving\<close>: the torrent may dial, has free slots and fewer useful peers than wanted.\<close>

definition starve_pull :: "instant \<Rightarrow> bool \<Rightarrow> int \<Rightarrow> sched \<Rightarrow> sched" where
  "starve_pull now starving tid s =
     (if \<not> starving then s
      else
        case map_of s tid of
          None \<Rightarrow> s
        | Some e \<Rightarrow>
            let min_iv = max (ta_min_interval_secs e) ANNOUNCE_DEFAULT_MIN_INTERVAL_SECS
            in if ta_in_flight e
                 \<or> (case ta_last_success e of None \<Rightarrow> False | Some t \<Rightarrow> now < t + from_secs min_iv)
                 \<or> ta_next_due e \<le> now then s
               else AList.update tid (e\<lparr>ta_next_due := now\<rparr>) s)"

text \<open>\<open>batch_announce_hot\<close>: a slot every \<open>stagger_ms\<close> for the torrents in order.\<close>

fun assign_slots :: "instant \<Rightarrow> nat \<Rightarrow> nat \<Rightarrow> int list \<Rightarrow> sched \<Rightarrow> sched" where
  "assign_slots now stagger_ms i [] s = s"
| "assign_slots now stagger_ms i (tid # ids) s =
     (let due = now + stagger_ms * i
      in assign_slots now stagger_ms (i + 1) ids
           (AList.update tid
             (case map_of s tid of
                None \<Rightarrow> fresh due
              | Some e \<Rightarrow> if ta_in_flight e then e else e\<lparr>ta_next_due := due\<rparr>) s))"

section \<open>Sequences of announces\<close>

text \<open>The schedule, the announces that run (with the event sent once they have begun) and the log of ended ones.\<close>

record announce_state =
  as_sched :: sched
  as_tasks :: "(int \<times> string option option) list"
  as_log :: "(int \<times> string option \<times> bool) list"

definition spawn :: "bool \<times> sched \<Rightarrow> int \<Rightarrow> announce_state \<Rightarrow> announce_state" where
  "spawn r tid s = s\<lparr>as_sched := snd r, as_tasks := (if fst r then as_tasks s @ [(tid, None)] else as_tasks s)\<rparr>"

text \<open>\<open>start_torrent\<close> puts a new entry and kicks; \<open>stop_torrent\<close> removes the entry.\<close>

definition announce_started :: "instant \<Rightarrow> int \<Rightarrow> announce_state \<Rightarrow> announce_state" where
  "announce_started now tid s =
     (let s = s\<lparr>as_sched := AList.update tid (fresh now) (as_sched s)\<rparr> in spawn (kick_claim now tid (as_sched s)) tid s)"

definition announce_stopped :: "int \<Rightarrow> announce_state \<Rightarrow> announce_state" where
  "announce_stopped tid s = s\<lparr>as_sched := AList.delete tid (as_sched s)\<rparr>"

text \<open>What happens while no torrent is started or stopped. A kick that follows an end or a completion is a step of its
  own: the lock is released in between.\<close>

inductive run_step :: "announce_state \<Rightarrow> announce_state \<Rightarrow> bool" where
  kick: "run_step s (spawn (kick_claim now tid (as_sched s)) tid s)"
| poll: "poll_due now mx hot_ids (as_sched s) = (claimed, sch) \<Longrightarrow> distinct hot_ids \<Longrightarrow>
    run_step s (s\<lparr>as_sched := sch, as_tasks := as_tasks s @ map (\<lambda>tid. (tid, None)) claimed\<rparr>)"
| starts: "as_tasks s = ts @ (tid, None) # ts' \<Longrightarrow> begin_announce now tid (as_sched s) = (event, sch) \<Longrightarrow>
    run_step s (s\<lparr>as_sched := sch, as_tasks := ts @ (tid, Some event) # ts'\<rparr>)"
| success_noted: "(tid, Some event) \<in> set (as_tasks s) \<Longrightarrow> run_step s (s\<lparr>as_sched := note_success now tid iv (as_sched s)\<rparr>)"
| ends: "as_tasks s = ts @ (tid, Some event) # ts' \<Longrightarrow> finish_announce now tid event any_ok iv (as_sched s) = (kick, sch) \<Longrightarrow>
    run_step s (s\<lparr>as_sched := sch, as_tasks := ts @ ts', as_log := as_log s @ [(tid, event, any_ok)]\<rparr>)"
| completion: "request_completed now inc full tid (as_sched s) = (kick, sch) \<Longrightarrow> run_step s (s\<lparr>as_sched := sch\<rparr>)"
| starves: "run_step s (s\<lparr>as_sched := starve_pull now st tid (as_sched s)\<rparr>)"
| batch: "run_step s (s\<lparr>as_sched := assign_slots now ms 0 ids (as_sched s)\<rparr>)"

section \<open>One run of a torrent\<close>

definition tasks_of :: "int \<Rightarrow> announce_state \<Rightarrow> string option option list" where
  "tasks_of i s = map snd (filter (\<lambda>p. fst p = i) (as_tasks s))"

text \<open>The events that a tracker took, in order.\<close>

definition landed :: "int \<Rightarrow> announce_state \<Rightarrow> string list" where
  "landed i s = map (\<lambda>(t, e, ok). the e) (filter (\<lambda>(t, e, ok). t = i \<and> ok \<and> e \<noteq> None) (as_log s))"

definition task_ok :: "torrent_announce \<Rightarrow> string option option \<Rightarrow> bool" where
  "task_ok e x \<longleftrightarrow>
     (case x of
        None \<Rightarrow> True
      | Some None \<Rightarrow> ta_sent_started e
      | Some (Some ev) \<Rightarrow>
          ev = ''started'' \<and> \<not> ta_sent_started e \<or> ev = ''completed'' \<and> ta_sent_started e \<and> ta_sent_completed e)"

definition entry_ok :: "torrent_announce \<Rightarrow> string option option list \<Rightarrow> string list \<Rightarrow> bool" where
  "entry_ok e ts su \<longleftrightarrow>
     (if ta_in_flight e then length ts = 1 else ts = []) \<and> (\<forall>x \<in> set ts. task_ok e x)
     \<and> (ta_sent_completed e \<longrightarrow> ta_sent_started e \<and> \<not> ta_pending_completed e)
     \<and> su = (if ta_sent_started e then [''started''] else [])
            @ (if ta_sent_completed e \<and> Some (Some ''completed'') \<notin> set ts then [''completed''] else [])"

definition view_ok :: "torrent_announce option \<Rightarrow> string option option list \<Rightarrow> string list \<Rightarrow> bool" where
  "view_ok o' ts su \<longleftrightarrow> (case o' of None \<Rightarrow> ts = [] \<and> su = [] | Some e \<Rightarrow> entry_ok e ts su)"

lemma task_ok_other [simp]:
  "task_ok (e\<lparr>ta_next_due := x\<rparr>) y = task_ok e y" "task_ok (e\<lparr>ta_min_interval_secs := n\<rparr>) y = task_ok e y"
  "task_ok (e\<lparr>ta_last_success := o'\<rparr>) y = task_ok e y" "task_ok (e\<lparr>ta_interval_secs := n\<rparr>) y = task_ok e y"
  "task_ok (e\<lparr>ta_in_flight := b\<rparr>) y = task_ok e y" "task_ok (e\<lparr>ta_pending_completed := b\<rparr>) y = task_ok e y"
  by (auto simp: task_ok_def split: option.split)

lemma entry_ok_other [simp]:
  "entry_ok (e\<lparr>ta_next_due := x\<rparr>) ts su = entry_ok e ts su" "entry_ok (e\<lparr>ta_min_interval_secs := n\<rparr>) ts su = entry_ok e ts su"
  "entry_ok (e\<lparr>ta_last_success := o'\<rparr>) ts su = entry_ok e ts su" "entry_ok (e\<lparr>ta_interval_secs := n\<rparr>) ts su = entry_ok e ts su"
  by (simp_all add: entry_ok_def)

lemma entry_ok_pending: "entry_ok e ts su \<Longrightarrow> \<not> ta_sent_completed e \<Longrightarrow> entry_ok (e\<lparr>ta_pending_completed := True\<rparr>) ts su"
  by (simp add: entry_ok_def)

lemma entry_ok_fresh: "entry_ok (fresh now) [] []"
  by (simp add: entry_ok_def fresh_def)

lemma view_simps [simp]: "view_ok None ts su \<longleftrightarrow> ts = [] \<and> su = []" "view_ok (Some e) ts su = entry_ok e ts su"
  by (simp_all add: view_ok_def)

lemma entry_fresh: "view_ok (map_of s i) ts su \<Longrightarrow> entry_ok (entry_or_fresh now i s) ts su"
  by (cases "map_of s i") (simp_all add: entry_or_fresh_def entry_ok_fresh)

lemma update_view [simp]: "map_of (AList.update k v s) = (map_of s)(k \<mapsto> v)"
  by (rule update_conv')

lemma kick_view:
  assumes "view_ok (map_of s i) ts su" "kick_claim now tid s = (claimed, s')"
  shows "view_ok (map_of s' i) (if claimed \<and> tid = i then ts @ [None] else ts) su"
proof (cases "tid = i")
  case True
  have e: "entry_ok (entry_or_fresh now i s) ts su" by (rule entry_fresh [OF assms(1)])
  show ?thesis
  proof (cases "ta_in_flight (entry_or_fresh now i s)")
    case True
    then show ?thesis using assms(2) e \<open>tid = i\<close> by (auto simp: kick_claim_def Let_def)
  next
    case False
    then have "s' = AList.update i ((entry_or_fresh now i s)\<lparr>ta_in_flight := True\<rparr>) s" "claimed"
      using assms(2) \<open>tid = i\<close> by (auto simp: kick_claim_def Let_def)
    then show ?thesis using e False \<open>tid = i\<close> by (simp add: entry_ok_def) (simp add: task_ok_def)
  qed
next
  case False
  then show ?thesis using assms by (auto simp: kick_claim_def Let_def split: if_splits)
qed

lemma claim_all_view:
  assumes "view_ok (map_of s i) ts su" "claim_all now ids s = (cs, s')" "distinct ids"
  shows "view_ok (map_of s' i) (ts @ map (\<lambda>_. None) (filter (\<lambda>c. c = i) cs)) su \<and> set cs \<subseteq> set ids"
  using assms
proof (induction ids arbitrary: s ts cs s')
  case (Cons j ids)
  obtain claimed s1 where k: "kick_claim now j s = (claimed, s1)" by fastforce
  obtain cs1 s2 where r: "claim_all now ids s1 = (cs1, s2)" by fastforce
  have eq: "cs = (if claimed then j # cs1 else cs1)" "s' = s2" using Cons.prems(2) k r by auto
  note v = kick_view [OF Cons.prems(1) k]
  note ih = Cons.IH [OF v r]
  show ?case
    using ih Cons.prems(3) unfolding eq by auto
qed simp

lemma note_view:
  assumes "view_ok (map_of s i) ts su"
  shows "view_ok (map_of (note_success now tid iv s) i) ts su"
  using assms by (cases "map_of s tid"; cases "tid = i") (simp_all add: note_success_def)

lemma starve_view:
  assumes "view_ok (map_of s i) ts su"
  shows "view_ok (map_of (starve_pull now st tid s) i) ts su"
  using assms by (cases "map_of s tid"; cases "tid = i") (simp_all add: starve_pull_def Let_def)

lemma slots_view: "view_ok (map_of s i) ts su \<Longrightarrow> view_ok (map_of (assign_slots now ms k ids s) i) ts su"
proof (induction ids arbitrary: k s)
  case (Cons j ids)
  have "view_ok (map_of (AList.update j (case map_of s j of None \<Rightarrow> fresh (now + ms * k)
      | Some e \<Rightarrow> if ta_in_flight e then e else e\<lparr>ta_next_due := now + ms * k\<rparr>) s) i) ts su"
    using Cons.prems by (cases "map_of s j"; cases "j = i") (simp_all add: entry_ok_fresh)
  then show ?case using Cons.IH by (simp add: Let_def)
qed simp

lemma request_view:
  assumes "view_ok (map_of s i) ts su" "request_completed now inc full tid s = (kick, s')"
  shows "view_ok (map_of s' i) ts su"
proof (cases "map_of s tid")
  case None
  then show ?thesis using assms by (auto simp: request_completed_def split: if_splits)
next
  case (Some e)
  then have "s' = s \<or> \<not> ta_sent_completed e \<and> (s' = AList.update tid (e\<lparr>ta_pending_completed := True\<rparr>) s
      \<or> s' = AList.update tid (e\<lparr>ta_pending_completed := True, ta_next_due := now\<rparr>) s)"
    using assms(2) by (auto simp: request_completed_def Let_def split: if_splits)
  then show ?thesis using assms(1) Some entry_ok_pending by (cases "tid = i") auto
qed

lemma begin_view:
  assumes "view_ok (map_of s i) (a @ None # b) su" "begin_announce now i s = (event, s')"
  shows "view_ok (map_of s' i) (a @ Some event # b) su"
proof -
  obtain e where e: "map_of s i = Some e" using assms(1) by (auto simp: view_ok_def split: option.splits)
  have ok: "entry_ok e (a @ None # b) su" using assms(1) e by (simp add: view_ok_def)
  then have ab: "a = []" "b = []" "ta_in_flight e" by (auto simp: entry_ok_def split: if_splits)
  have u: "e\<lparr>ta_in_flight := True\<rparr> = e" using ab(3) by simp
  show ?thesis
    using ok assms(2) unfolding begin_announce_def entry_or_fresh_def e option.case Let_def u ab
    by (auto simp: entry_ok_def task_ok_def split: if_splits)
qed

lemma finish_view:
  assumes "view_ok (map_of s i) (a @ Some event # b) su" "finish_announce now i event ok iv s = (kick, s')"
  shows "view_ok (map_of s' i) (a @ b) (su @ (if ok \<and> event \<noteq> None then [the event] else []))"
proof -
  obtain e where e: "map_of s i = Some e" using assms(1) by (auto simp: view_ok_def split: option.splits)
  have ok: "entry_ok e (a @ Some event # b) su" using assms(1) e by (simp add: view_ok_def)
  then have ab: "a = []" "b = []" "ta_in_flight e" by (auto simp: entry_ok_def split: if_splits)
  consider "event = None" | "event = Some ''started''" | "event = Some ''completed''"
    using ok by (cases event) (auto simp: entry_ok_def task_ok_def)
  then show ?thesis
    using ok assms(2) unfolding finish_announce_def e option.case Let_def ab
    by cases (auto simp: entry_ok_def task_ok_def mark_sent_def split: if_splits)
qed

definition run_inv :: "int \<Rightarrow> announce_state \<Rightarrow> bool" where
  "run_inv i s \<longleftrightarrow> view_ok (map_of (as_sched s) i) (tasks_of i s) (landed i s)"

lemma tasks_append: "tasks_of i (s\<lparr>as_sched := sch, as_tasks := a @ b\<rparr>) =
    tasks_of i (s\<lparr>as_tasks := a\<rparr>) @ tasks_of i (s\<lparr>as_tasks := b\<rparr>)"
  by (simp add: tasks_of_def)

lemma poll_claims:
  assumes "poll_due now mx hot_ids s = (claimed, s')" "distinct hot_ids"
  shows "\<exists>ids. distinct ids \<and> claim_all now ids s = (claimed, s')"
proof -
  let ?due = "sort_key (due_of now s) (filter (is_due now s) hot_ids)"
  have d: "distinct ?due" using assms(2) by simp
  show ?thesis
  proof (cases "mx \<noteq> 0 \<and> mx - in_flight_count s = 0")
    case True
    then show ?thesis using assms(1) by (intro exI [of _ "[]"]) (auto simp: poll_due_def Let_def)
  next
    case False
    then have "claim_all now (if mx = 0 then ?due else take (mx - in_flight_count s) ?due) s = (claimed, s')"
      using assms(1) by (auto simp: poll_due_def Let_def split: if_splits)
    then show ?thesis using d by (intro exI [of _ "if mx = 0 then ?due else take (mx - in_flight_count s) ?due"]) auto
  qed
qed

lemma run_step_inv:
  assumes "run_step s s'" "run_inv i s"
  shows "run_inv i s'"
  using assms(1)
proof cases
  case (kick now tid)
  obtain claimed sch where k: "kick_claim now tid (as_sched s) = (claimed, sch)" by fastforce
  have "tasks_of i s' = (if claimed \<and> tid = i then tasks_of i s @ [None] else tasks_of i s)" "landed i s' = landed i s"
    using kick k by (auto simp: spawn_def tasks_of_def landed_def)
  then show ?thesis using kick_view [OF assms(2) [unfolded run_inv_def] k] kick k by (simp add: run_inv_def spawn_def)
next
  case (poll now mx hot_ids claimed sch)
  obtain ids where ids: "distinct ids" "claim_all now ids (as_sched s) = (claimed, sch)" using poll_claims poll by blast
  have "tasks_of i s' = tasks_of i s @ map (\<lambda>_. None) (filter (\<lambda>c. c = i) claimed)" "landed i s' = landed i s"
    using poll(1) by (simp_all add: tasks_of_def landed_def filter_map comp_def)
  then show ?thesis using claim_all_view [OF assms(2) [unfolded run_inv_def] ids(2,1)] poll(1) by (simp add: run_inv_def)
next
  case (starts ts tid ts' now event sch)
  show ?thesis
  proof (cases "tid = i")
    case True
    have "tasks_of i s = tasks_of i (s\<lparr>as_tasks := ts\<rparr>) @ None # tasks_of i (s\<lparr>as_tasks := ts'\<rparr>)"
      "tasks_of i s' = tasks_of i (s\<lparr>as_tasks := ts\<rparr>) @ Some event # tasks_of i (s\<lparr>as_tasks := ts'\<rparr>)"
      "landed i s' = landed i s" "as_sched s' = sch"
      using starts(1,2) True by (simp_all add: tasks_of_def landed_def)
    then show ?thesis using begin_view [of "as_sched s" i _ _ _ now event sch] assms(2) starts(3) True
      unfolding run_inv_def by auto
  next
    case False
    have "map_of sch i = map_of (as_sched s) i"
      using starts(3) False by (auto simp: begin_announce_def Let_def split: if_splits)
    moreover have "tasks_of i s' = tasks_of i s" "landed i s' = landed i s" "as_sched s' = sch"
      using starts(1,2) False by (simp_all add: tasks_of_def landed_def)
    ultimately show ?thesis using assms(2) unfolding run_inv_def by simp
  qed
next
  case (success_noted tid event now iv)
  then show ?thesis using note_view assms(2) by (simp add: run_inv_def tasks_of_def landed_def)
next
  case (ends ts tid event ts' now any_ok iv kick sch)
  show ?thesis
  proof (cases "tid = i")
    case True
    have "tasks_of i s = tasks_of i (s\<lparr>as_tasks := ts\<rparr>) @ Some event # tasks_of i (s\<lparr>as_tasks := ts'\<rparr>)"
      "tasks_of i s' = tasks_of i (s\<lparr>as_tasks := ts\<rparr>) @ tasks_of i (s\<lparr>as_tasks := ts'\<rparr>)"
      "landed i s' = landed i s @ (if any_ok \<and> event \<noteq> None then [the event] else [])" "as_sched s' = sch"
      using ends(1,2) True by (simp_all add: tasks_of_def landed_def)
    then show ?thesis using finish_view [of "as_sched s" i _ event _ _ now any_ok iv kick sch] assms(2) ends(3) True
      unfolding run_inv_def by auto
  next
    case False
    have "map_of sch i = map_of (as_sched s) i"
      using ends(3) False by (auto simp: finish_announce_def Let_def split: if_splits option.splits)
    moreover have "tasks_of i s' = tasks_of i s" "landed i s' = landed i s" "as_sched s' = sch"
      using ends(1,2) False by (simp_all add: tasks_of_def landed_def)
    ultimately show ?thesis using assms(2) unfolding run_inv_def by simp
  qed
next
  case (completion now inc full tid kick sch)
  then show ?thesis using request_view assms(2) by (simp add: run_inv_def tasks_of_def landed_def)
next
  case (starves now st tid)
  then show ?thesis using starve_view assms(2) by (simp add: run_inv_def tasks_of_def landed_def)
next
  case (batch now ms ids)
  then show ?thesis using slots_view assms(2) by (simp add: run_inv_def tasks_of_def landed_def)
qed

lemma run_reachable_inv: "run_step\<^sup>*\<^sup>* s s' \<Longrightarrow> run_inv i s \<Longrightarrow> run_inv i s'"
  by (induction rule: rtranclp_induct) (auto intro: run_step_inv)

text \<open>C33. Within one run of a torrent, from a state without an announce of it, whatever kicks, polls, completions,
  answers and failures of any torrents interleave: at most one announce of the torrent is in flight, exactly when its
  entry says so; the events the trackers took are \<open>started\<close> first and then at most one \<open>completed\<close>; and when the
  entry says that \<open>completed\<close> was sent, a tracker took it or the announce that carries it is under way.\<close>

theorem announce_events_in_order:
  assumes "run_step\<^sup>*\<^sup>* s0 s" "tasks_of i s0 = []" "landed i s0 = []"
    and "map_of (as_sched s0) i = None \<or> map_of (as_sched s0) i = Some (fresh t)"
  shows "length (tasks_of i s) = (case map_of (as_sched s) i of None \<Rightarrow> 0 | Some e \<Rightarrow> if ta_in_flight e then 1 else 0)
    \<and> landed i s \<in> {[], [''started''], [''started'', ''completed'']}
    \<and> (\<forall>e. map_of (as_sched s) i = Some e \<longrightarrow> (landed i s = [] \<longleftrightarrow> \<not> ta_sent_started e)
         \<and> (ta_sent_completed e \<longrightarrow> ''completed'' \<in> set (landed i s) \<or> tasks_of i s = [Some (Some ''completed'')]))"
proof -
  have "run_inv i s0" using assms(2-4) entry_ok_fresh by (auto simp: run_inv_def)
  then have inv: "view_ok (map_of (as_sched s) i) (tasks_of i s) (landed i s)"
    using run_reachable_inv [OF assms(1)] by (simp add: run_inv_def)
  show ?thesis
  proof (cases "map_of (as_sched s) i")
    case None
    then show ?thesis using inv by simp
  next
    case (Some e)
    then have ok: "entry_ok e (tasks_of i s) (landed i s)" using inv by simp
    then have l: "ta_in_flight e \<longrightarrow> length (tasks_of i s) = 1" "\<not> ta_in_flight e \<longrightarrow> tasks_of i s = []"
      by (auto simp: entry_ok_def split: if_splits)
    have c: "Some (Some ''completed'') \<in> set (tasks_of i s) \<longrightarrow> tasks_of i s = [Some (Some ''completed'')]"
      using l by (cases "ta_in_flight e") (auto simp: length_Suc_conv)
    show ?thesis using ok l c Some by (auto simp: entry_ok_def)
  qed
qed

definition idle_state :: announce_state where
  "idle_state = \<lparr>as_sched = [], as_tasks = [], as_log = []\<rparr>"

definition wit_entry :: torrent_announce where
  "wit_entry = (fresh 0)\<lparr>ta_in_flight := True\<rparr>"

lemma idle_kicked: "spawn (kick_claim 0 1 (as_sched idle_state)) 1 idle_state
    = \<lparr>as_sched = [(1, wit_entry)], as_tasks = [(1, None)], as_log = []\<rparr>"
  by (simp add: idle_state_def spawn_def kick_claim_def entry_or_fresh_def wit_entry_def fresh_def Let_def)

lemma begin_wit: "begin_announce 0 1 [(1, wit_entry)] = (Some ''started'', [(1, wit_entry)])"
  by (simp add: begin_announce_def entry_or_fresh_def wit_entry_def fresh_def Let_def)

lemma idle_began: "run_step\<^sup>*\<^sup>* idle_state \<lparr>as_sched = [(1, wit_entry)], as_tasks = [(1, Some (Some ''started''))], as_log = []\<rparr>"
proof -
  have "run_step idle_state \<lparr>as_sched = [(1, wit_entry)], as_tasks = [(1, None)], as_log = []\<rparr>"
    using run_step.kick [of idle_state 0 1] unfolding idle_kicked .
  moreover have "run_step \<lparr>as_sched = [(1, wit_entry)], as_tasks = [(1, None)], as_log = []\<rparr>
      \<lparr>as_sched = [(1, wit_entry)], as_tasks = [(1, Some (Some ''started''))], as_log = []\<rparr>"
    using run_step.starts [of "\<lparr>as_sched = [(1, wit_entry)], as_tasks = [(1, None)], as_log = []\<rparr>" "[]" 1 "[]" 0
        "Some ''started''" "[(1, wit_entry)]"] begin_wit by simp
  ultimately show ?thesis by (rule converse_rtranclp_into_rtranclp [OF _ r_into_rtranclp])
qed

theorem announce_events_in_order_witness:
  "\<exists>s. run_step\<^sup>*\<^sup>* idle_state s \<and> tasks_of 1 s = [Some (Some ''started'')] \<and> length (tasks_of 1 s) = 1 \<and> landed 1 s = []"
proof -
  let ?s = "\<lparr>as_sched = [(1, wit_entry)], as_tasks = [(1, Some (Some ''started''))], as_log = []\<rparr>"
  have "length (tasks_of 1 ?s) = (case map_of (as_sched ?s) 1 of None \<Rightarrow> 0 | Some e \<Rightarrow> if ta_in_flight e then 1 else 0)"
    using announce_events_in_order [OF idle_began, of 1 0] by (simp add: idle_state_def tasks_of_def landed_def)
  then show ?thesis using idle_began by (intro exI [of _ ?s]) (simp add: wit_entry_def tasks_of_def landed_def)
qed

section \<open>Starting a started torrent\<close>

inductive sched_step :: "announce_state \<Rightarrow> announce_state \<Rightarrow> bool" where
  run: "run_step s s' \<Longrightarrow> sched_step s s'"
| started: "sched_step s (announce_started now tid s)"
| stopped: "sched_step s (announce_stopped tid s)"

text \<open>C37. Starting a torrent replaces its entry, also when an announce of it is in flight: starting it again (or
  stopping and starting it) while \<open>started\<close> is under way sends a second \<open>started\<close> beside the first, although the
  in-flight flag is there to avoid this.\<close>

theorem restart_doubles_announce:
  "\<exists>s. sched_step\<^sup>*\<^sup>* idle_state s \<and> tasks_of 1 s = [Some (Some ''started''), Some (Some ''started'')]"
proof -
  let ?e = "[(1 :: int, wit_entry)]"
  let ?s0 = "\<lparr>as_sched = ?e, as_tasks = [(1, None)], as_log = []\<rparr>"
  let ?s1 = "\<lparr>as_sched = ?e, as_tasks = [(1, Some (Some ''started''))], as_log = []\<rparr>"
  let ?s2 = "\<lparr>as_sched = ?e, as_tasks = [(1, Some (Some ''started'')), (1, None)], as_log = []\<rparr>"
  let ?s3 = "\<lparr>as_sched = ?e, as_tasks = [(1, Some (Some ''started'')), (1, Some (Some ''started''))], as_log = []\<rparr>"
  have a: "announce_started 0 1 idle_state = ?s0" "announce_started 0 1 ?s1 = ?s2"
    by (simp_all add: announce_started_def idle_state_def spawn_def kick_claim_def entry_or_fresh_def wit_entry_def fresh_def Let_def)
  have "sched_step idle_state ?s0" using sched_step.started [of idle_state 0 1] a(1) by simp
  moreover have "sched_step ?s0 ?s1"
    using run_step.starts [of ?s0 "[]" 1 "[]" 0 "Some ''started''" ?e] begin_wit by (intro sched_step.run) simp
  moreover have "sched_step ?s1 ?s2" using sched_step.started [of ?s1 0 1] a(2) by simp
  moreover have "sched_step ?s2 ?s3"
    using run_step.starts [of ?s2 "[(1, Some (Some ''started''))]" 1 "[]" 0 "Some ''started''" ?e] begin_wit
    by (intro sched_step.run) simp
  ultimately have "sched_step\<^sup>*\<^sup>* idle_state ?s3" by (meson rtranclp.rtrancl_into_rtrancl rtranclp.rtrancl_refl)
  then show ?thesis by (intro exI [of _ ?s3]) (simp add: tasks_of_def)
qed

end
