(* ===== verification/Spec2Isabelle.thy ===== *)
theory Spec2Isabelle
  imports Bencode_Correct Wire_Correct Fast Framing Mse_Correct Spans Swarm_Buffers Hot_Invariant Picker Claims
    Pipeline Peer_Id Rate_Limit Out_Queue_Correct Peer_Stream Peer_Session_Correct Catalog_Invariant Tracker_Correct Establish_Correct Announce_Sched
begin

text \<open>
  A verification development for the engine of seedchamp, a BitTorrent client (\<open>src/crates/engine/src\<close>; all file
  names below are relative to it). The library follows the code: one theory, or a pair of a theory \<open>X\<close> and its
  proofs \<open>X_Correct\<close>, per component, on top of \<open>Prelude\<close> (named theorem collections, lemmas on lists, options and
  maps), \<open>Rust_Std\<close> (the standard library's saturating and truncating integer operations, big-endian words, slices)
  and \<open>Rust_Str\<close> (string operations). Definitions keep the names of the functions they translate; a clash with
  a HOL constant is resolved by a prefix or suffix.

  \<^bold>\<open>The program.\<close> A torrent file is parsed and inserted into a catalog of SQL tables. Starting a torrent
  loads it from the catalog into memory, where all its connections share it. Announces to trackers and the catalog's peer
  cache give addresses; a dial list is made of them; a connection is established in plain text or encrypted and becomes a
  session. The session's reader receives messages, asks its download half for requests, collects blocks in the
  staging table and hands whole pieces to hashing; its writer sends control messages and the pieces the peer requested
  from disk. What was downloaded is recorded in the catalog.

  \<^bold>\<open>Encodings and wire.\<close>
  \<^item> \<open>Bencode\<close>, \<open>Bencode_Correct\<close> (\<open>bencode.rs\<close>): values, decoder, encoder and the raw dictionary look-up.
    Round trip, totality and bounds on every input, two inputs it mishandles.
  \<^item> \<open>Bitfield\<close> (\<open>catalog/types.rs\<close>): bitfields as the locale of a set of indices, interpreted on the code's functions.
  \<^item> \<open>Wire\<close>, \<open>Wire_Correct\<close> (\<open>wire/messages.rs\<close>), \<open>Fast\<close> (\<open>wire/fast.rs\<close>), \<open>Peer_Id\<close> (\<open>wire/peer_id.rs\<close>): handshake, message
    codec and incremental parser, the fast extension, client names. Encoding then parsing is exact, and a proper
    prefix is incomplete.
  \<^item> \<open>Framing\<close> (the read cursor of \<open>net.rs\<close>) and \<open>Rc4\<close> (\<open>crypto/rc4.rs\<close>): a stream cut in any chunks and optionally
    encrypted yields exactly its messages.
  \<^item> \<open>Mse\<close>, \<open>Mse_Correct\<close> (\<open>crypto/config.rs\<close>, \<open>keys.rs\<close>, \<open>dh.rs\<close>, \<open>mse.rs\<close>): policy, keys and the two sides
    of the encrypted handshake.

  \<^bold>\<open>Storage.\<close>
  \<^item> \<open>Spans\<close> (\<open>disk/spans.rs\<close>): pieces and ranges as file regions; they read the right bytes and partition the torrent.
  \<^item> \<open>Metainfo\<close>, \<open>Metainfo_Correct\<close> (\<open>metainfo.rs\<close>): torrent files; no accepted path leaves the data root.
  \<^item> \<open>Catalog\<close> (\<open>catalog/torrent.rs\<close>, \<open>types.rs\<close>, \<open>schema.sql\<close>), \<open>Catalog_Store\<close> (\<open>catalog/pieces.rs\<close>,
    \<open>storage.rs\<close>, \<open>peers.rs\<close>, \<open>trackers.rs\<close>, \<open>stats.rs\<close>, \<open>settings.rs\<close>, \<open>disk/audit.rs\<close>), \<open>Catalog_Correct\<close>, \<open>Catalog_Import\<close>,
    \<open>Catalog_Invariant\<close>: every operation that writes a table; an invariant of all of them (keys, references, counts),
    exact recording of pieces, the startup audit, and import followed by loading.

  \<^bold>\<open>A torrent in memory.\<close>
  \<^item> \<open>Hot\<close>, \<open>Hot_Correct\<close>, \<open>Hot_Invariant\<close> (\<open>hot.rs\<close>, \<open>hot/pieces.rs\<close>, \<open>have.rs\<close>, \<open>peer_avail.rs\<close>): pieces had and wanted,
    claims in flight, availability, the have hub. The wanted bitfield meets an independent specification; every
    counter agrees with the sets it counts after any sequence of operations.
  \<^item> \<open>Picker\<close> (the picker of \<open>hot/pieces.rs\<close>): what it returns can be fetched and is a rarest among the candidates
    it looked at whose claims succeed.
  \<^item> \<open>Registry\<close> (\<open>hot/registry.rs\<close>): loading a torrent from the catalog.

  \<^bold>\<open>Downloading.\<close>
  \<^item> \<open>Piece_Pool\<close> (\<open>staging/piece_pool.rs\<close>): the buffers, as the locale \<open>buffer_budget\<close> and its interpretation.
  \<^item> \<open>Staging\<close>, \<open>Staging_Correct\<close>, \<open>Scheduler\<close> (\<open>staging/pool.rs\<close>): assembly of pieces and \<open>take_requests\<close>. It issues
    exactly what becomes outstanding, within its bounds, and stops only when it must. \<open>Swarm_Buffers\<close>: all peers together
    stay within the budget, and a completed piece is the data that was sent.
  \<^item> \<open>Peer_Download\<close>, \<open>Peer_Download_Correct\<close> (\<open>peer/download.rs\<close>, \<open>helpers.rs\<close>): requests under the rate limit, intake of
    blocks, results of hashing. \<open>Claims\<close>: the claims of all connections of a torrent, stepped by the definitions of
    \<open>Peer_Download\<close>; they are exclusive as long as no hash fails, and how a failed hash breaks that.
  \<^item> \<open>Pipeline\<close> (\<open>runtime/pipeline.rs\<close>): the adaptive depth. \<open>Rate_Limit\<close> (\<open>rate_limit.rs\<close>): token buckets.

  \<^bold>\<open>Sessions.\<close>
  \<^item> \<open>Out_Queue\<close>, \<open>Out_Queue_Correct\<close> (\<open>peer/out_queue.rs\<close>, \<open>upload/queue.rs\<close>, \<open>inflight.rs\<close>, \<open>read.rs\<close>, the writer's
    commands of \<open>peer/duplex.rs\<close>): what is written is whole buffers in order and the requested data.
  \<^item> \<open>Peer_Stream\<close>, \<open>Peer_Session\<close>, \<open>Peer_Session_Correct\<close> (\<open>peer/established.rs\<close>, \<open>duplex.rs\<close>): dispatch of messages, the reader
    loop and its end, as a step relation with interference by the other connections. Safety in every reachable
    state, return of claims and buffers, independence of how the bytes are chunked.
  \<^item> \<open>Establish\<close>, \<open>Establish_Correct\<close> (\<open>peer/establish.rs\<close>): outbound and inbound handshakes over a socket.
    Compatible peers meet; what holds of any connection that starts; where the policy fails.

  \<^bold>\<open>Finding peers.\<close>
  \<^item> \<open>Tracker\<close>, \<open>Tracker_Correct\<close> (\<open>tracker.rs\<close>, \<open>tracker/http.rs\<close>, \<open>udp.rs\<close>, \<open>limit.rs\<close>): both clients against trackers
    written from the protocol, and the limit per host.
  \<^item> \<open>Announce\<close>, \<open>Announce_Sched\<close> (\<open>session/announce.rs\<close> and the parts of \<open>session/lifecycle.rs\<close>, \<open>catalog_io.rs\<close> and
    \<open>peer_policy.rs\<close> that touch the schedule): one announce over its tiers, and the schedule as a step relation.
  \<^item> \<open>Dial\<close> (\<open>session/dial.rs\<close>, \<open>dial_policy.rs\<close>): back-off and the dial list.

  \<^bold>\<open>Conventions.\<close> Structs are records, enums datatypes, errors values of a sum or option. Wire values are 8 to 64 bit
  words; sizes and counters are naturals with the code's saturation or truncation written out; \<open>f64\<close> quantities are
  exact rationals. Shared state is threaded explicitly; what happens under one lock is one atomic step. Clocks,
  random draws, shuffles, callbacks, network answers and the results of disk and hash workers are arguments. A
  socket is the list of chunks its reads return and the bytes written. SQL tables are lists of rows; SQLite's own
  I/O errors are left out. SHA-1, big integers, the URL parser and \<open>stat\<close> are parameters; what is assumed of
  the first two (20 bytes; arithmetic modulo the prime) is a hypothesis with an instance in the witnesses.

  \<^bold>\<open>Loops and fuel.\<close> Structural or measured recursion where possible. With fuel: the bencode decoder (twice the input's
  length plus two, shown to be enough for every input), the two loops of \<open>take_requests\<close> (the pipeline for the inner one, the
  code's own bound on rounds for the outer one, shown to be enough by its progress property) and the send loop (\<open>quantum_size\<close>
  plus one; every round shrinks the queue, \<open>send_quantum_total\<close>). A stale read of a shared value is not modelled
  beyond the interleaving of atomic steps.

  \<^bold>\<open>Not modelled.\<close> The tasks that own connections and their channels (session runtime), the disk workers and hash
  workers, moving of data directories, the control plane between user interface and session, directory watching, opening and
  migration of the database, logs and metrics, name resolution, configuration and the main program, the terminal
  interface, and the import and export tools: system calls, threads and presentation around the operations
  above. Of the writer task and of \<open>net.rs\<close> only the parts named above are modelled; of the session's
  configuration only the fields those parts read. Timeouts are failing reads; an established session's 30 second budget is
  one of them.
\<close>

end
